(* ===== verification/Prelude.thy ===== *)
theory Prelude
  imports Complex_Main "HOL-Library.Word"
begin

text \<open>
  What every component of the development shares: the types that stand for Python's
  byte strings, floats and errors, the few standard-library operations the controller
  uses (big-endian packing, rounding, truncation, \<open>str.strip\<close>), the result monad that
  models raised exceptions, and the locales that carry invariants along runs of a
  state machine.

  Python's integers are unbounded and are \<open>int\<close> (or \<open>nat\<close> where the code has already
  checked the sign). A finite Python float is a rational number, so floats are \<open>rat\<close>:
  comparisons are exact and the rounding of float arithmetic is not modelled. A byte is
  an 8-bit word. A Python \<open>str\<close> is a \<open>string\<close>; the code points beyond Latin-1 are not
  modelled.
\<close>

section \<open>Types and collections\<close>

type_synonym byte = "8 word"
type_synonym bytes = "byte list"
type_synonym seconds = rat
type_synonym device_id = string

named_theorems outcome_defs "definitions of the decision functions, for unfolding"

section \<open>Raised errors as values\<close>

text \<open>
  A function that may raise returns \<open>'e + 'a\<close>. \<open>bind_res\<close> sequences two such calls and
  \<open>ensure c e\<close> is \<open>if not c: raise e\<close>.
\<close>

definition bind_res :: "'e + 'a \<Rightarrow> ('a \<Rightarrow> 'e + 'b) \<Rightarrow> 'e + 'b" where
  "bind_res m f = (case m of Inl e \<Rightarrow> Inl e | Inr x \<Rightarrow> f x)"

definition ensure :: "bool \<Rightarrow> 'e \<Rightarrow> 'e + unit" where
  "ensure c e = (if c then Inr () else Inl e)"

lemma bind_res_simps [simp]:
  "bind_res (Inl e) f = Inl e"
  "bind_res (Inr x) f = f x"
  by (simp_all add: bind_res_def)

lemma bind_res_eq_Inr [simp]:
  "bind_res m f = Inr y \<longleftrightarrow> (\<exists>x. m = Inr x \<and> f x = Inr y)"
  by (cases m) (auto simp: bind_res_def)

text \<open>A chain of guards that raise: it returns exactly when no guard fires.\<close>

lemma guard_eq_Inr [simp]: "(if c then Inl e else m) = Inr x \<longleftrightarrow> \<not> c \<and> m = Inr x"
  by simp

lemma ensure_eq_Inr [simp]: "ensure c e = Inr u \<longleftrightarrow> c"
  by (simp add: ensure_def)

lemma ensure_eq_Inl [simp]: "ensure c e = Inl e' \<longleftrightarrow> \<not> c \<and> e' = e"
  by (auto simp: ensure_def)

lemma ensure_True [simp]: "ensure True e = Inr ()"
  by (simp add: ensure_def)

lemma ensure_False [simp]: "ensure False e = Inl e"
  by (simp add: ensure_def)

section \<open>Big-endian packing, as \<open>struct\<close> does it\<close>

fun be_encode :: "nat \<Rightarrow> nat \<Rightarrow> bytes" where
  "be_encode 0 v = []"
| "be_encode (Suc n) v = be_encode n (v div 256) @ [word_of_nat v]"

definition be_decode :: "bytes \<Rightarrow> nat" where
  "be_decode bs = foldl (\<lambda>a b. 256 * a + unat b) 0 bs"

lemma length_be_encode [simp]: "length (be_encode n v) = n"
  by (induction n arbitrary: v) auto

lemma be_decode_Nil [simp]: "be_decode [] = 0"
  by (simp add: be_decode_def)

lemma be_decode_snoc [simp]: "be_decode (bs @ [b]) = 256 * be_decode bs + unat b"
  by (simp add: be_decode_def)

lemma unat_word_of_nat_byte [simp]: "unat (word_of_nat v :: byte) = v mod 256"
  by (simp add: unat_of_nat)

lemma be_decode_encode: "v < 256 ^ n \<Longrightarrow> be_decode (be_encode n v) = v"
proof (induction n arbitrary: v)
  case 0
  then show ?case by simp
next
  case (Suc n)
  then have "v div 256 < 256 ^ n"
    by (simp add: less_mult_imp_div_less mult.commute)
  with Suc.IH show ?case by simp
qed

lemma be_decode_bound: "be_decode bs < 256 ^ length bs"
proof (induction bs rule: rev_induct)
  case Nil
  then show ?case by simp
next
  case (snoc b bs)
  have "unat b < 256"
    using unsigned_less [of b, where ?'a = nat] by simp
  with snoc show ?case by simp
qed

lemma be_encode_decode: "be_encode (length bs) (be_decode bs) = bs"
proof (induction bs rule: rev_induct)
  case Nil
  then show ?case by simp
next
  case (snoc b bs)
  have "unat b < 256"
    using unsigned_less [of b, where ?'a = nat] by simp
  then have "(256 * be_decode bs + unat b) div 256 = be_decode bs"
    by simp
  moreover have "word_of_nat (256 * be_decode bs + unat b) = b"
  proof (rule word_unat_eq_iff [THEN iffD2])
    show "unat (word_of_nat (256 * be_decode bs + unat b) :: byte) = unat b"
      using \<open>unat b < 256\<close> by (simp only: unat_word_of_nat_byte) simp
  qed
  ultimately show ?case
    using snoc by simp
qed

section \<open>Rounding and truncation\<close>

text \<open>\<open>round(x)\<close> rounds half to even; \<open>int(x)\<close> truncates towards zero.\<close>

definition py_round :: "rat \<Rightarrow> int" where
  "py_round x =
     (let f = \<lfloor>x\<rfloor>; d = x - of_int f in
      if d < 1/2 then f else if 1/2 < d then f + 1
      else if even f then f else f + 1)"

definition py_int :: "rat \<Rightarrow> int" where
  "py_int x = (if 0 \<le> x then \<lfloor>x\<rfloor> else \<lceil>x\<rceil>)"

lemma py_round_of_int [simp]: "py_round (of_int n) = n"
  by (simp add: py_round_def)

lemma py_round_error: "\<bar>of_int (py_round x) - x\<bar> \<le> 1/2"
proof -
  have "of_int \<lfloor>x\<rfloor> \<le> x" and "x < of_int \<lfloor>x\<rfloor> + 1"
    by linarith+
  then show ?thesis
    by (auto simp: py_round_def Let_def abs_le_iff)
qed

lemma py_round_floor: "py_round x = \<lfloor>x\<rfloor> \<or> py_round x = \<lfloor>x\<rfloor> + 1"
  by (simp add: py_round_def Let_def)

lemma py_round_mono: "x \<le> y \<Longrightarrow> py_round x \<le> py_round y"
proof -
  assume le: "x \<le> y"
  show ?thesis
  proof (cases "\<lfloor>x\<rfloor> = \<lfloor>y\<rfloor>")
    case True
    with le show ?thesis by (auto simp: py_round_def Let_def)
  next
    case False
    with floor_mono [OF le] have "\<lfloor>x\<rfloor> + 1 \<le> \<lfloor>y\<rfloor>" by linarith
    with py_round_floor [of x] py_round_floor [of y] show ?thesis by linarith
  qed
qed

lemma py_round_eqI: "\<bar>of_int n - x\<bar> < 1/2 \<Longrightarrow> py_round x = n"
  using py_round_error [of x] by linarith

lemma py_int_of_int [simp]: "py_int (of_int n) = n"
  by (simp add: py_int_def)

section \<open>Strings\<close>

definition is_space :: "char \<Rightarrow> bool" where
  "is_space c \<longleftrightarrow> (let n = of_char c :: nat in
     (9 \<le> n \<and> n \<le> 13) \<or> (28 \<le> n \<and> n \<le> 32) \<or> n = 133 \<or> n = 160)"

definition py_strip :: "string \<Rightarrow> string" where
  "py_strip s = rev (dropWhile is_space (rev (dropWhile is_space s)))"

definition in_range :: "char \<Rightarrow> char \<Rightarrow> char \<Rightarrow> bool" where
  "in_range lo hi c \<longleftrightarrow> (of_char lo :: nat) \<le> of_char c \<and> (of_char c :: nat) \<le> of_char hi"

definition is_digit :: "char \<Rightarrow> bool" where
  "is_digit = in_range (CHR ''0'') (CHR ''9'')"

definition is_alnum :: "char \<Rightarrow> bool" where
  "is_alnum c \<longleftrightarrow> in_range (CHR ''A'') (CHR ''Z'') c \<or> in_range (CHR ''a'') (CHR ''z'') c \<or> is_digit c"

definition removeprefix :: "string \<Rightarrow> string \<Rightarrow> string" where
  "removeprefix p s = (if take (length p) s = p then drop (length p) s else s)"

definition startswith :: "string \<Rightarrow> string \<Rightarrow> bool" where
  "startswith s p \<longleftrightarrow> take (length p) s = p"

definition endswith :: "string \<Rightarrow> string \<Rightarrow> bool" where
  "endswith s p \<longleftrightarrow> length p \<le> length s \<and> drop (length s - length p) s = p"

lemma endswith_append [simp]: "endswith (p @ x) x"
  by (simp add: endswith_def)

text \<open>A test of an optional value that is false of \<open>None\<close>.\<close>

definition opt_holds :: "('a \<Rightarrow> bool) \<Rightarrow> 'a option \<Rightarrow> bool" where
  "opt_holds P x = (case x of None \<Rightarrow> False | Some y \<Rightarrow> P y)"

lemma opt_holds_iff [simp]: "opt_holds P x \<longleftrightarrow> (\<exists>y. x = Some y \<and> P y)"
  by (simp add: opt_holds_def split: option.split)

text \<open>
  \<open>int(s)\<close>: surrounding blanks, a sign, decimal digits with single underscores between them.
\<close>

fun digits_int :: "bool \<Rightarrow> int \<Rightarrow> string \<Rightarrow> int option" where
  "digits_int after_digit a [] = (if after_digit then Some a else None)"
| "digits_int after_digit a (c # cs) =
     (if is_digit c then digits_int True (10 * a + (of_char c - 48)) cs
      else if c = CHR ''_'' \<and> after_digit then digits_int False a cs
      else None)"

definition int_of_str :: "string \<Rightarrow> int option" where
  "int_of_str s =
     (case py_strip s of
        [] \<Rightarrow> None
      | c # cs \<Rightarrow>
          if c = CHR ''-'' then map_option uminus (digits_int False 0 cs)
          else if c = CHR ''+'' then digits_int False 0 cs
          else digits_int False 0 (c # cs))"

text \<open>\<open>str(n)\<close> of a natural number.\<close>

fun str_of_nat :: "nat \<Rightarrow> string" where
  "str_of_nat n =
     (if n < 10 then [char_of (48 + n)] else str_of_nat (n div 10) @ [char_of (48 + n mod 10)])"

declare str_of_nat.simps [simp del]

definition nat_of_str :: "string \<Rightarrow> nat" where
  "nat_of_str s = foldl (\<lambda>a c. 10 * a + (of_char c - 48)) 0 s"

lemma nat_of_str_of_nat: "nat_of_str (str_of_nat n) = n"
proof (induction n rule: str_of_nat.induct)
  case (1 n)
  show ?case
  proof (cases "n < 10")
    case True
    then show ?thesis by (simp add: str_of_nat.simps [of n] nat_of_str_def)
  next
    case False
    with 1 have "nat_of_str (str_of_nat (n div 10)) = n div 10" by simp
    with False show ?thesis
      by (simp add: str_of_nat.simps [of n] nat_of_str_def)
  qed
qed

lemma str_of_nat_digits: "list_all is_digit (str_of_nat n) \<and> str_of_nat n \<noteq> []"
proof (induction n rule: str_of_nat.induct)
  case (1 n)
  have d: "is_digit (char_of (48 + k))" if "k < 10" for k :: nat
    using that by (simp add: is_digit_def in_range_def)
  show ?case
    using 1 d [of n] d [of "n mod 10"] by (subst (1 2) str_of_nat.simps) auto
qed

lemma str_of_nat_inject [simp]: "str_of_nat m = str_of_nat n \<longleftrightarrow> m = n"
  by (metis nat_of_str_of_nat)

lemma py_strip_Nil [simp]: "py_strip [] = []"
  by (simp add: py_strip_def)

lemma length_le_concat: "(\<And>x. x \<in> set xs \<Longrightarrow> x \<noteq> []) \<Longrightarrow> length xs \<le> length (concat xs)"
proof (induction xs)
  case Nil
  then show ?case by simp
next
  case (Cons x xs)
  then have "length xs \<le> length (concat xs)" and "x \<noteq> []"
    by auto
  then show ?case by (cases x) auto
qed

section \<open>JSON bodies\<close>

text \<open>
  What \<open>request.json()\<close> or \<open>json.loads\<close> gives; an object is an association list with
  distinct keys, read with \<open>map_of\<close>. \<open>truthy\<close> is Python's truth test.
\<close>

datatype json =
    JNull | JBool bool | JInt int | JFloat rat | JStr string
  | JArr "json list" | JObj "(string \<times> json) list"

fun truthy :: "json \<Rightarrow> bool" where
  "truthy JNull = False"
| "truthy (JBool b) = b"
| "truthy (JInt n) = (n \<noteq> 0)"
| "truthy (JFloat x) = (x \<noteq> 0)"
| "truthy (JStr s) = (s \<noteq> [])"
| "truthy (JArr xs) = (xs \<noteq> [])"
| "truthy (JObj kvs) = (kvs \<noteq> [])"

definition get_default :: "(string \<times> json) list \<Rightarrow> string \<Rightarrow> json \<Rightarrow> json" where
  "get_default d k v = (case map_of d k of None \<Rightarrow> v | Some x \<Rightarrow> x)"

text \<open>\<open>isinstance(v, int)\<close> holds of Python's booleans too.\<close>

fun json_int :: "json \<Rightarrow> int option" where
  "json_int (JInt n) = Some n"
| "json_int (JBool b) = Some (if b then 1 else 0)"
| "json_int _ = None"

fun json_str :: "json \<Rightarrow> string option" where
  "json_str (JStr s) = Some s"
| "json_str _ = None"

text \<open>\<open>int(v)\<close>: \<open>None\<close> where it raises \<open>TypeError\<close> or \<open>ValueError\<close>.\<close>

fun int_of_json :: "json \<Rightarrow> int option" where
  "int_of_json (JInt n) = Some n"
| "int_of_json (JBool b) = Some (if b then 1 else 0)"
| "int_of_json (JFloat x) = Some (py_int x)"
| "int_of_json (JStr s) = int_of_str s"
| "int_of_json _ = None"

lemma truthy_JStr_iff [simp]: "json_str v = Some s \<Longrightarrow> truthy v \<longleftrightarrow> s \<noteq> []"
  by (cases v) auto

section \<open>Dictionaries as association lists\<close>

text \<open>
  Where the code iterates over a dictionary, the order matters: assignment to a key that is
  there keeps its place, a new key goes last.
\<close>

fun put :: "'k \<Rightarrow> 'v \<Rightarrow> ('k \<times> 'v) list \<Rightarrow> ('k \<times> 'v) list" where
  "put k v [] = [(k, v)]"
| "put k v ((k', v') # kvs) = (if k' = k then (k, v) # kvs else (k', v') # put k v kvs)"

definition pop :: "'k \<Rightarrow> ('k \<times> 'v) list \<Rightarrow> ('k \<times> 'v) list" where
  "pop k kvs = filter (\<lambda>(k', v). k' \<noteq> k) kvs"

lemma map_of_put [simp]: "map_of (put k v kvs) = (map_of kvs)(k \<mapsto> v)"
  by (induction kvs) (auto simp: fun_eq_iff)

lemma map_of_pop [simp]: "map_of (pop k kvs) = (map_of kvs)(k := None)"
  by (induction kvs) (auto simp: pop_def fun_eq_iff)

lemma set_put_keys [simp]: "fst ` set (put k v kvs) = insert k (fst ` set kvs)"
proof (induction kvs)
  case Nil
  then show ?case by simp
next
  case (Cons kv kvs)
  then show ?case by (cases kv) (simp add: insert_commute)
qed

lemma distinct_put: "distinct (map fst kvs) \<Longrightarrow> distinct (map fst (put k v kvs))"
proof (induction kvs)
  case Nil
  then show ?case by simp
next
  case (Cons kv kvs)
  then show ?case using set_put_keys [of k v kvs] by (cases kv) (auto simp del: set_put_keys)
qed

lemma distinct_pop: "distinct (map fst kvs) \<Longrightarrow> distinct (map fst (pop k kvs))"
  by (induction kvs) (auto simp: pop_def)

lemma put_fresh: "k \<notin> fst ` set kvs \<Longrightarrow> put k v kvs = kvs @ [(k, v)]"
  by (induction kvs) auto

lemma map_fst_put_mem: "k \<in> fst ` set kvs \<Longrightarrow> map fst (put k v kvs) = map fst kvs"
  by (induction kvs) (force split: if_splits)+

lemma set_put_subset: "set (put k v kvs) \<subseteq> insert (k, v) (set kvs)"
  by (induction kvs) (auto split: if_splits)

lemma put_put [simp]: "put k v (put k w kvs) = put k v kvs"
  by (induction kvs) auto

lemma map_fst_pop: "map fst (pop k kvs) = filter (\<lambda>i. i \<noteq> k) (map fst kvs)"
  by (induction kvs) (auto simp: pop_def)

lemma map_fst_put_cong:
  "map fst kvs = map fst lvs \<Longrightarrow> map fst (put k v kvs) = map fst (put k w lvs)"
proof (induction kvs arbitrary: lvs)
  case Nil
  then show ?case by simp
next
  case (Cons kv kvs)
  then show ?case by (cases kv; cases lvs) auto
qed

lemma set_pop [simp]: "set (pop k kvs) = {kv \<in> set kvs. fst kv \<noteq> k}"
  by (auto simp: pop_def)

lemma pop_put_fresh: "k \<notin> fst ` set kvs \<Longrightarrow> pop k (put k v kvs) = kvs"
  by (induction kvs) (auto simp: pop_def filter_id_conv)

section \<open>Invariants along runs\<close>

text \<open>
  A component is a step function \<open>step s e = (s', o)\<close>: the new state and what the call
  returned or sent. \<open>run\<close> folds it over a list of calls and keeps every output.
\<close>

fun run :: "('s \<Rightarrow> 'e \<Rightarrow> 's \<times> 'o) \<Rightarrow> 's \<Rightarrow> 'e list \<Rightarrow> 's \<times> 'o list" where
  "run step s [] = (s, [])"
| "run step s (e # es) =
     (let (s', o1) = step s e; (s'', os) = run step s' es in (s'', o1 # os))"

lemma run_fst_Cons [simp]: "fst (run step s (e # es)) = fst (run step (fst (step s e)) es)"
  by (simp add: case_prod_beta Let_def)

lemma run_snd_Cons [simp]:
  "snd (run step s (e # es)) = snd (step s e) # snd (run step (fst (step s e)) es)"
  by (simp add: case_prod_beta Let_def)

lemma run_append_fst: "fst (run step s (es @ fs)) = fst (run step (fst (run step s es)) fs)"
  by (induction es arbitrary: s) (simp_all del: run.simps(2))

lemma run_append_snd:
  "snd (run step s (es @ fs)) = snd (run step s es) @ snd (run step (fst (run step s es)) fs)"
  by (induction es arbitrary: s) (simp_all del: run.simps(2))

lemma length_run [simp]: "length (snd (run step s es)) = length es"
  by (induction es arbitrary: s) (simp_all del: run.simps(2))

declare run.simps(2) [simp del]

locale machine =
  fixes step :: "'s \<Rightarrow> 'e \<Rightarrow> 's \<times> 'o"
    and inv :: "'s \<Rightarrow> bool"
  assumes inv_step: "inv s \<Longrightarrow> inv (fst (step s e))"
begin

lemma inv_run: "inv s \<Longrightarrow> inv (fst (run step s es))"
  by (induction es arbitrary: s) (simp_all add: inv_step)

text \<open>What holds of every output produced from an invariant state holds along a run.\<close>

lemma output_run:
  assumes "\<And>s e. inv s \<Longrightarrow> P (snd (step s e))"
    and "inv s" and "r \<in> set (snd (run step s es))"
  shows "P r"
  using assms(2,3)
proof (induction es arbitrary: s)
  case Nil
  then show ?case by simp
next
  case (Cons e es)
  then show ?case
    using assms(1) [of s e] inv_step [of s e] by auto
qed

end

text \<open>A machine whose invariant is kept by the events that are allowed.\<close>

locale guarded_machine =
  fixes step :: "'s \<Rightarrow> 'e \<Rightarrow> 's \<times> 'o"
    and inv :: "'s \<Rightarrow> bool"
    and allowed :: "'e \<Rightarrow> bool"
  assumes guarded_step: "inv s \<Longrightarrow> allowed e \<Longrightarrow> inv (fst (step s e))"
begin

lemma guarded_run: "inv s \<Longrightarrow> list_all allowed es \<Longrightarrow> inv (fst (run step s es))"
  by (induction es arbitrary: s) (simp_all add: guarded_step)

lemma guarded_output:
  assumes "\<And>s e. inv s \<Longrightarrow> allowed e \<Longrightarrow> P (snd (step s e))"
    and "inv s" and "list_all allowed es" and "r \<in> set (snd (run step s es))"
  shows "P r"
  using assms(2-4)
proof (induction es arbitrary: s)
  case Nil
  then show ?case by simp
next
  case (Cons e es)
  then show ?case
    using assms(1) [of s e] guarded_step [of s e] by auto
qed

end

sublocale machine \<subseteq> guarded_machine step inv "\<lambda>_. True"
  by unfold_locales (rule inv_step)

text \<open>A machine with a rank that no step lowers: counters, generations, clocks.\<close>

locale ranked_machine = machine step inv
  for step :: "'s \<Rightarrow> 'e \<Rightarrow> 's \<times> 'o" and inv :: "'s \<Rightarrow> bool" +
  fixes rank :: "'s \<Rightarrow> 'r::preorder"
  assumes rank_step: "inv s \<Longrightarrow> rank s \<le> rank (fst (step s e))"
begin

lemma rank_run: "inv s \<Longrightarrow> rank s \<le> rank (fst (run step s es))"
proof (induction es arbitrary: s)
  case Nil
  then show ?case by simp
next
  case (Cons e es)
  have "rank s \<le> rank (fst (step s e))"
    using Cons.prems by (rule rank_step)
  also have "\<dots> \<le> rank (fst (run step (fst (step s e)) es))"
    using Cons by (simp add: inv_step)
  finally show ?case by simp
qed

end

text \<open>What is true of a state together with everything sent so far.\<close>

locale traced_machine =
  fixes step :: "'s \<Rightarrow> 'e \<Rightarrow> 's \<times> 'o list"
    and hist :: "'s \<Rightarrow> 'o list \<Rightarrow> bool"
  assumes hist_step: "hist s os \<Longrightarrow> hist (fst (step s e)) (os @ snd (step s e))"
begin

lemma hist_run: "hist s os \<Longrightarrow> hist (fst (run step s es)) (os @ concat (snd (run step s es)))"
proof (induction es arbitrary: s os)
  case Nil
  then show ?case by simp
next
  case (Cons e es)
  from Cons.IH [OF hist_step [OF Cons.prems, of e]] show ?case by simp
qed

end

end
