(* ===== verification/AudioFrame.thy ===== *)
theory AudioFrame
  imports Prelude
begin

text \<open>
  The per-turn audio wire format, \<open>controller/em_audio_frame.py\<close>: the six-byte \<open>>BBI\<close>
  header (type, flags, sequence), the payload rules of the four frame types, and the
  receiver's \<open>Sequence\<close> check. The HACS integration ships a byte-for-byte copy
  (\<open>audio_frame.py\<close>), so these definitions are both ends of the wire.

  The locale \<open>frame_codec\<close> is what the ends rely on: two laws that make encoding and
  decoding mutually inverse. Its interpretation on \<open>encode_frame\<close> and \<open>decode_frame\<close>
  gives every other component the codec's facts.
\<close>

section \<open>Frames\<close>

definition MIC_PCM :: int where "MIC_PCM = 1"
definition MIC_EOS :: int where "MIC_EOS = 2"
definition TTS_PCM :: int where "TTS_PCM = 3"
definition TTS_EOS :: int where "TTS_EOS = 4"
definition MIC_FRAME_BYTES :: nat where "MIC_FRAME_BYTES = 2560"
definition TTS_FRAME_BYTES :: nat where "TTS_FRAME_BYTES = 24000"

lemmas frame_type_defs = MIC_PCM_def MIC_EOS_def TTS_PCM_def TTS_EOS_def

datatype audio_error =
    UnknownType | SequenceRange | EosPayload | MicSize | TtsSize
  | HeaderTruncated | FlagsSet | AfterEos | SequenceError | UnexpectedDirection

record audio_frame =
  frame_type :: int
  sequence :: int
  payload :: bytes

text \<open>\<open>_HEADER = struct.Struct(">BBI")\<close>: one type byte, one flags byte, four sequence bytes.\<close>

definition header_pack :: "int \<Rightarrow> int \<Rightarrow> int \<Rightarrow> bytes" where
  "header_pack ft fl sq = [word_of_int ft, word_of_int fl] @ be_encode 4 (nat sq)"

definition header_size :: nat where "header_size = 6"

definition header_unpack :: "bytes \<Rightarrow> int \<times> int \<times> int" where
  "header_unpack h = (uint (h ! 0), uint (h ! 1), int (be_decode (drop 2 h)))"

definition encode_frame :: "int \<Rightarrow> int \<Rightarrow> bytes \<Rightarrow> audio_error + bytes" where
  "encode_frame ft sq pl =
     (if ft \<notin> {MIC_PCM, MIC_EOS, TTS_PCM, TTS_EOS} then Inl UnknownType
      else if \<not> (0 \<le> sq \<and> sq \<le> 0xFFFFFFFF) then Inl SequenceRange
      else if ft \<in> {MIC_EOS, TTS_EOS} \<and> pl \<noteq> [] then Inl EosPayload
      else if ft = MIC_PCM \<and> length pl \<noteq> MIC_FRAME_BYTES then Inl MicSize
      else if ft = TTS_PCM \<and> (pl = [] \<or> TTS_FRAME_BYTES < length pl \<or> odd (length pl))
        then Inl TtsSize
      else Inr (header_pack ft 0 sq @ pl))"

definition decode_frame :: "bytes \<Rightarrow> audio_error + audio_frame" where
  "decode_frame raw =
     (if length raw < header_size then Inl HeaderTruncated
      else let (ft, fl, sq) = header_unpack (take header_size raw) in
        if fl \<noteq> 0 then Inl FlagsSet
        else let pl = drop header_size raw in
          bind_res (encode_frame ft sq pl)
            (\<lambda>_. Inr \<lparr>frame_type = ft, sequence = sq, payload = pl\<rparr>))"

text \<open>The payload and sequence rules \<open>encode_frame\<close> enforces, as one predicate.\<close>

definition well_formed :: "audio_frame \<Rightarrow> bool" where
  "well_formed f \<longleftrightarrow>
     frame_type f \<in> {MIC_PCM, MIC_EOS, TTS_PCM, TTS_EOS} \<and>
     0 \<le> sequence f \<and> sequence f \<le> 0xFFFFFFFF \<and>
     (frame_type f \<in> {MIC_EOS, TTS_EOS} \<longrightarrow> payload f = []) \<and>
     (frame_type f = MIC_PCM \<longrightarrow> length (payload f) = MIC_FRAME_BYTES) \<and>
     (frame_type f = TTS_PCM \<longrightarrow>
        payload f \<noteq> [] \<and> length (payload f) \<le> TTS_FRAME_BYTES \<and> even (length (payload f)))"

definition encode :: "audio_frame \<Rightarrow> audio_error + bytes" where
  "encode f = encode_frame (frame_type f) (sequence f) (payload f)"

section \<open>The header is exact\<close>

lemma length_header_pack [simp]: "length (header_pack ft fl sq) = header_size"
  by (simp add: header_pack_def header_size_def)

lemma header_unpack_pack:
  assumes "0 \<le> ft" "ft < 256" "0 \<le> fl" "fl < 256" "0 \<le> sq" "sq \<le> 0xFFFFFFFF"
  shows "header_unpack (header_pack ft fl sq) = (ft, fl, sq)"
  using assms
  by (simp add: header_unpack_def header_pack_def be_decode_encode uint_word_of_int)

lemma header_pack_unpack:
  assumes "length h = header_size" and "header_unpack h = (ft, fl, sq)"
  shows "header_pack ft fl sq = h"
proof -
  from assms(1) obtain a b t where h: "h = a # b # t" and t: "length t = 4"
    by (auto simp: header_size_def length_Suc_conv numeral_eq_Suc)
  have "be_encode 4 (be_decode t) = t"
    using be_encode_decode [of t] t by simp
  with assms(2) h show ?thesis
    by (auto simp: header_unpack_def header_pack_def)
qed

section \<open>Encoding and decoding are inverse\<close>

lemma encode_frame_eq_Inr:
  "encode_frame ft sq pl = Inr raw \<longleftrightarrow>
     well_formed \<lparr>frame_type = ft, sequence = sq, payload = pl\<rparr> \<and> raw = header_pack ft 0 sq @ pl"
  unfolding encode_frame_def well_formed_def
  by (simp del: insert_iff) (metis linorder_not_le)

lemma encode_eq_Inr:
  "encode f = Inr raw \<longleftrightarrow>
     well_formed f \<and> raw = header_pack (frame_type f) 0 (sequence f) @ payload f"
  by (cases f) (simp add: encode_def encode_frame_eq_Inr)

lemma decode_encode_aux:
  assumes "encode f = Inr raw"
  shows "decode_frame raw = Inr f"
proof -
  have wf: "well_formed f" and raw: "raw = header_pack (frame_type f) 0 (sequence f) @ payload f"
    using assms by (simp_all add: encode_eq_Inr)
  have "header_unpack (header_pack (frame_type f) 0 (sequence f)) = (frame_type f, 0, sequence f)"
    using wf by (intro header_unpack_pack) (auto simp: well_formed_def frame_type_defs)
  then show ?thesis
    using wf by (cases f) (auto simp: raw decode_frame_def encode_frame_eq_Inr Let_def)
qed

lemma encode_decode_aux:
  assumes "decode_frame raw = Inr f"
  shows "encode f = Inr raw"
proof -
  obtain ft fl sq where h: "header_unpack (take header_size raw) = (ft, fl, sq)"
    by (cases "header_unpack (take header_size raw)")
  with assms have len: "header_size \<le> length raw" and "fl = 0"
    and enc: "encode_frame ft sq (drop header_size raw) = Inr (header_pack ft 0 sq @ drop header_size raw)"
    and f: "f = \<lparr>frame_type = ft, sequence = sq, payload = drop header_size raw\<rparr>"
    by (auto simp: decode_frame_def Let_def encode_frame_eq_Inr split: if_splits)
  have "header_pack ft 0 sq = take header_size raw"
    using len h \<open>fl = 0\<close> by (intro header_pack_unpack) simp_all
  then show ?thesis
    using enc by (simp add: encode_def f)
qed

locale frame_codec =
  fixes enc :: "'f \<Rightarrow> 'e + bytes"
    and dec :: "bytes \<Rightarrow> 'e + 'f"
  assumes dec_enc: "enc f = Inr raw \<Longrightarrow> dec raw = Inr f"
    and enc_dec: "dec raw = Inr f \<Longrightarrow> enc f = Inr raw"
begin

lemma dec_iff_enc: "dec raw = Inr f \<longleftrightarrow> enc f = Inr raw"
  using dec_enc enc_dec by blast

lemma enc_inj: "enc f = Inr raw \<Longrightarrow> enc g = Inr raw \<Longrightarrow> f = g"
  by (metis dec_enc sum.inject(2))

lemma dec_inj: "dec raw = Inr f \<Longrightarrow> dec raw' = Inr f \<Longrightarrow> raw = raw'"
  by (metis enc_dec sum.inject(2))

text \<open>A whole stream: the frames that all encode arrive as themselves.\<close>

lemma stream_dec_enc:
  "list_all2 (\<lambda>f raw. enc f = Inr raw) fs raws \<Longrightarrow> map dec raws = map Inr fs"
  by (induction rule: list_all2_induct) (simp_all add: dec_enc)

end

interpretation wire: frame_codec encode decode_frame
  by unfold_locales (erule decode_encode_aux, erule encode_decode_aux)

section \<open>The receiver's sequence check\<close>

record seq_state =
  expected :: int
  eos :: bool

definition seq_init :: seq_state where
  "seq_init = \<lparr>expected = 0, eos = False\<rparr>"

definition accept :: "seq_state \<Rightarrow> audio_frame \<Rightarrow> audio_error + seq_state" where
  "accept s f =
     (if eos s then Inl AfterEos
      else if sequence f \<noteq> expected s then Inl SequenceError
      else Inr (s\<lparr>expected := expected s + 1,
                 eos := eos s \<or> frame_type f \<in> {MIC_EOS, TTS_EOS}\<rparr>))"

text \<open>Accepting a stream of frames, stopping at the first error as the exception would.\<close>

fun accept_all :: "seq_state \<Rightarrow> audio_frame list \<Rightarrow> audio_error + seq_state" where
  "accept_all s [] = Inr s"
| "accept_all s (f # fs) = bind_res (accept s f) (\<lambda>s'. accept_all s' fs)"

definition is_eos :: "audio_frame \<Rightarrow> bool" where
  "is_eos f \<longleftrightarrow> frame_type f \<in> {MIC_EOS, TTS_EOS}"

text \<open>
  The abstract contract: numbers count up from the expected one without a gap, and
  nothing follows an end of stream.
\<close>

fun numbered :: "int \<Rightarrow> audio_frame list \<Rightarrow> bool" where
  "numbered n [] = True"
| "numbered n (f # fs) = (sequence f = n \<and> (is_eos f \<longrightarrow> fs = []) \<and> numbered (n + 1) fs)"

lemma accept_all_iff_numbered:
  "\<not> eos s \<Longrightarrow> (\<exists>s'. accept_all s fs = Inr s') \<longleftrightarrow> numbered (expected s) fs"
proof (induction fs arbitrary: s)
  case Nil
  then show ?case by simp
next
  case (Cons f fs)
  have stop: "(\<exists>s'. accept_all t fs = Inr s') \<longleftrightarrow> fs = []" if "eos t" for t
    using that by (cases fs) (simp_all add: accept_def)
  show ?case
  proof (cases "sequence f = expected s")
    case True
    then have "accept s f = Inr (s\<lparr>expected := expected s + 1, eos := is_eos f\<rparr>)"
      using Cons.prems by (simp add: accept_def is_eos_def)
    then show ?thesis
      using True stop [of "s\<lparr>expected := expected s + 1, eos := True\<rparr>"]
        Cons.IH [of "s\<lparr>expected := expected s + 1, eos := False\<rparr>"]
      by (cases "is_eos f") auto
  next
    case False
    then show ?thesis using Cons.prems by (simp add: accept_def)
  qed
qed

lemma numbered_iff:
  "numbered n fs \<longleftrightarrow>
     map sequence fs = map (\<lambda>i. n + int i) [0..<length fs] \<and> filter is_eos (butlast fs) = []"
proof (induction fs arbitrary: n)
  case Nil
  then show ?case by simp
next
  case (Cons f fs)
  have "map (\<lambda>i. n + int i) [0..<length (f # fs)] = n # map (\<lambda>i. (n + 1) + int i) [0..<length fs]"
    by (simp add: map_upt_Suc add.assoc del: upt_Suc)
  then show ?case
    by (cases "fs = []") (auto simp: Cons simp del: upt_Suc)
qed

lemma numbered_nth: "numbered n fs \<Longrightarrow> i < length fs \<Longrightarrow> sequence (fs ! i) = n + int i"
proof (induction fs arbitrary: n i)
  case Nil
  then show ?case by simp
next
  case (Cons f fs)
  then show ?case by (cases i) auto
qed

lemma numbered_eos_last: "numbered n fs \<Longrightarrow> i < length fs \<Longrightarrow> is_eos (fs ! i) \<Longrightarrow> Suc i = length fs"
proof (induction fs arbitrary: n i)
  case Nil
  then show ?case by simp
next
  case (Cons f fs)
  then show ?case by (cases i) auto
qed

lemma accept_all_append:
  "accept_all s (fs @ gs) = bind_res (accept_all s fs) (\<lambda>s'. accept_all s' gs)"
  by (induction fs arbitrary: s) (auto simp: bind_res_def split: sum.splits)

lemma accept_eq_Inr:
  "accept s f = Inr s' \<longleftrightarrow> \<not> eos s \<and> sequence f = expected s \<and>
     s' = s\<lparr>expected := expected s + 1, eos := is_eos f\<rparr>"
  by (auto simp: accept_def is_eos_def)

lemma accept_all_state:
  "accept_all s fs = Inr s' \<Longrightarrow>
     expected s' = expected s + int (length fs) \<and> (eos s' \<longleftrightarrow> eos s \<or> (\<exists>f\<in>set fs. is_eos f))"
proof (induction fs arbitrary: s)
  case Nil
  then show ?case by simp
next
  case (Cons f fs)
  then obtain t where "accept s f = Inr t" and "accept_all t fs = Inr s'"
    by auto
  with Cons.IH [of t] show ?case
    by (simp add: accept_eq_Inr)
qed

section \<open>Properties\<close>

text \<open>Claim C38: a byte string decodes to a frame exactly when
  encoding that frame gives the byte string back, so the wire format has one encoding per
  frame and one frame per accepted byte string, and everything decoded obeys the payload
  rules \<open>encode_frame\<close> enforces.\<close>

theorem decode_frame_iff_encode:
  "decode_frame raw = Inr f \<longleftrightarrow> encode_frame (frame_type f) (sequence f) (payload f) = Inr raw"
  using wire.dec_iff_enc [of raw f] by (simp add: encode_def)

text \<open>a receiver starting fresh accepts a stream of frames
  exactly when the sequence numbers are 0, 1, 2, ... and an end-of-stream frame, if there is
  one, is the last frame.\<close>

theorem accepted_stream_shape:
  "(\<exists>s. accept_all seq_init fs = Inr s) \<longleftrightarrow>
     map sequence fs = map int [0..<length fs] \<and> filter is_eos (butlast fs) = []"
proof -
  have "(\<exists>s. accept_all seq_init fs = Inr s) \<longleftrightarrow> numbered 0 fs"
    using accept_all_iff_numbered [of seq_init fs] by (simp add: seq_init_def)
  then show ?thesis
    by (simp add: numbered_iff)
qed

end
