(* ===== verification/StopState.thy ===== *)
theory StopState
  imports Prelude
begin

text \<open>
  The generation-checked stop-word arm, \<open>controller/em_stop.py\<close>: one arm per device, and
  the decision whether a late \<open>stop_detected\<close> packet still belongs to the response that
  is playing.

  The locale \<open>stop_guard\<close> is what the turn engine and the control-plane handler rely on:
  generations only grow, a detection is accepted only for the arm that is live, and an
  accepted arm is gone. Its interpretation on \<open>StopState\<close> is at the end.
\<close>

datatype phase = Thinking | Playback | Timer | OtherPhase string

datatype action = Armed | Disarmed | Accept | Ignore

record decision =
  act :: action
  why :: string

record arm =
  arm_turn_id :: int
  arm_generation :: int
  arm_phase :: phase
  arm_expires_mono :: seconds

record stop_state =
  arm_state :: "arm option"
  last_generation :: int
  accepted_generation :: "int option"

definition stop_init :: stop_state where
  "stop_init = \<lparr>arm_state = None, last_generation = 0, accepted_generation = None\<rparr>"

definition dec :: "action \<Rightarrow> string \<Rightarrow> decision" where
  "dec a r = \<lparr>act = a, why = r\<rparr>"

definition arm_stop ::
  "int \<Rightarrow> int \<Rightarrow> phase \<Rightarrow> seconds \<Rightarrow> stop_state \<Rightarrow> stop_state \<times> decision" where
  "arm_stop turn_id generation ph expires s =
     (if turn_id \<le> 0 then (s, dec Ignore ''invalid turn'')
      else if ph \<notin> {Thinking, Playback, Timer} then (s, dec Ignore ''invalid phase'')
      else if generation \<le> last_generation s then (s, dec Ignore ''stale generation'')
      else (\<lparr>arm_state = Some \<lparr>arm_turn_id = turn_id, arm_generation = generation,
                              arm_phase = ph, arm_expires_mono = expires\<rparr>,
             last_generation = generation, accepted_generation = None\<rparr>,
            dec Armed ''''))"

definition disarm :: "int option \<Rightarrow> stop_state \<Rightarrow> stop_state \<times> decision" where
  "disarm generation s =
     (case arm_state s of
        None \<Rightarrow> (s, dec Ignore ''not armed'')
      | Some a \<Rightarrow>
          if generation \<noteq> None \<and> generation \<noteq> Some (arm_generation a)
          then (s, dec Ignore ''stale generation'')
          else (s\<lparr>arm_state := None\<rparr>, dec Disarmed ''''))"

definition detected ::
  "int \<Rightarrow> int \<Rightarrow> phase \<Rightarrow> seconds \<Rightarrow> stop_state \<Rightarrow> stop_state \<times> decision" where
  "detected turn_id generation ph now s =
     (case arm_state s of
        None \<Rightarrow>
          if accepted_generation s = Some generation
          then (s, dec Ignore ''duplicate detection'')
          else (s, dec Ignore ''not armed'')
      | Some a \<Rightarrow>
          if generation \<noteq> arm_generation a then (s, dec Ignore ''stale generation'')
          else if arm_expires_mono a \<le> now then (s\<lparr>arm_state := None\<rparr>, dec Ignore ''arm expired'')
          else if turn_id \<noteq> arm_turn_id a then (s, dec Ignore ''wrong turn'')
          else if ph \<noteq> arm_phase a then (s, dec Ignore ''wrong phase'')
          else (s\<lparr>arm_state := None, accepted_generation := Some (arm_generation a)\<rparr>,
                dec Accept ''''))"

definition expire :: "seconds \<Rightarrow> stop_state \<Rightarrow> stop_state \<times> decision" where
  "expire now s =
     (case arm_state s of
        None \<Rightarrow> (s, dec Ignore ''not expired'')
      | Some a \<Rightarrow>
          if now < arm_expires_mono a then (s, dec Ignore ''not expired'')
          else (s\<lparr>arm_state := None\<rparr>, dec Disarmed ''arm expired''))"

lemmas stop_defs = arm_stop_def disarm_def detected_def expire_def dec_def

text \<open>Every call on one device's state, as one step.\<close>

datatype stop_call =
    CArm int int phase seconds
  | CDisarm "int option"
  | CDetected int int phase seconds
  | CExpire seconds

fun stop_step :: "stop_state \<Rightarrow> stop_call \<Rightarrow> stop_state \<times> decision" where
  "stop_step s (CArm t g p e) = arm_stop t g p e s"
| "stop_step s (CDisarm g) = disarm g s"
| "stop_step s (CDetected t g p n) = detected t g p n s"
| "stop_step s (CExpire n) = expire n s"

section \<open>The interface the turn engine relies on\<close>

locale stop_guard =
  fixes step :: "'s \<Rightarrow> 'c \<Rightarrow> 's \<times> decision"
    and live :: "'s \<Rightarrow> int option" \<comment> \<open>the generation of the live arm\<close>
    and last_gen :: "'s \<Rightarrow> int"
    and detects :: "'c \<Rightarrow> int option" \<comment> \<open>the generation a detection names\<close>
    and ok :: "'s \<Rightarrow> bool"
  assumes ok_step: "ok s \<Longrightarrow> ok (fst (step s c))"
    and live_bound: "ok s \<Longrightarrow> live s = Some g \<Longrightarrow> g \<le> last_gen s"
    and last_gen_step: "ok s \<Longrightarrow> last_gen s \<le> last_gen (fst (step s c))"
    and accept_live: "ok s \<Longrightarrow> act (snd (step s c)) = Accept \<Longrightarrow>
          \<exists>g. detects c = Some g \<and> live s = Some g \<and> live (fst (step s c)) = None"
    and live_origin: "ok s \<Longrightarrow> live (fst (step s c)) = Some g \<Longrightarrow>
          live s = Some g \<or> last_gen s < g"
begin

text \<open>The generations accepted along a run, in order.\<close>

fun accepted :: "'s \<Rightarrow> 'c list \<Rightarrow> int list" where
  "accepted s [] = []"
| "accepted s (c # cs) =
     (if act (snd (step s c)) = Accept then [the (detects c)] else []) @ accepted (fst (step s c)) cs"

text \<open>Whatever is accepted was live at the start or is newer than everything seen so far.\<close>

lemma accepted_fresh:
  "ok s \<Longrightarrow> g \<in> set (accepted s cs) \<Longrightarrow> live s = Some g \<or> last_gen s < g"
proof (induction cs arbitrary: s)
  case Nil
  then show ?case by simp
next
  case (Cons c cs)
  show ?case
  proof (cases "g \<in> set (accepted (fst (step s c)) cs)")
    case True
    then have "live (fst (step s c)) = Some g \<or> last_gen (fst (step s c)) < g"
      using Cons ok_step by blast
    then show ?thesis
      using Cons.prems(1) live_origin last_gen_step [of s c] by force
  next
    case False
    then have "act (snd (step s c)) = Accept" and "g = the (detects c)"
      using Cons.prems(2) by (auto split: if_splits)
    then show ?thesis
      using accept_live [of s c] Cons.prems(1) by auto
  qed
qed

text \<open>No generation is accepted twice, and acceptances are in increasing order.\<close>

lemma accepted_increasing: "ok s \<Longrightarrow> sorted_wrt (<) (accepted s cs)"
proof (induction cs arbitrary: s)
  case Nil
  then show ?case by simp
next
  case (Cons c cs)
  have ok': "ok (fst (step s c))"
    using Cons.prems by (rule ok_step)
  show ?case
  proof (cases "act (snd (step s c)) = Accept")
    case True
    then obtain g where g: "detects c = Some g" "live s = Some g" "live (fst (step s c)) = None"
      using accept_live Cons.prems by blast
    have "g \<le> last_gen (fst (step s c))"
      using live_bound [of s g] last_gen_step [of s c] Cons.prems g(2) by linarith
    then have "\<forall>h \<in> set (accepted (fst (step s c)) cs). g < h"
      using accepted_fresh [OF ok'] g(3) by fastforce
    with True g(1) Cons.IH [OF ok'] show ?thesis by simp
  next
    case False
    with Cons.IH [OF ok'] show ?thesis by simp
  qed
qed

end

section \<open>\<open>StopState\<close> provides it\<close>

definition stop_ok :: "stop_state \<Rightarrow> bool" where
  "stop_ok s \<longleftrightarrow>
     (case arm_state s of None \<Rightarrow> True | Some a \<Rightarrow>
        arm_generation a = last_generation s \<and> accepted_generation s = None \<and> 0 < arm_turn_id a) \<and>
     (case accepted_generation s of None \<Rightarrow> True | Some g \<Rightarrow> g \<le> last_generation s)"

definition live_generation :: "stop_state \<Rightarrow> int option" where
  "live_generation s = map_option arm_generation (arm_state s)"

fun detects :: "stop_call \<Rightarrow> int option" where
  "detects (CDetected t g p n) = Some g"
| "detects _ = None"

lemma stop_ok_init: "stop_ok stop_init"
  by (simp add: stop_ok_def stop_init_def)

lemma stop_ok_step: "stop_ok s \<Longrightarrow> stop_ok (fst (stop_step s c))"
  by (cases c) (auto simp: stop_ok_def stop_defs split: option.splits)

lemma last_generation_step:
  "last_generation s \<le> last_generation (fst (stop_step s c))"
  by (cases c) (auto simp: stop_defs split: option.splits)

lemma detected_accept_iff:
  "act (snd (detected t g p n s)) = Accept \<longleftrightarrow>
     (\<exists>a. arm_state s = Some a \<and> g = arm_generation a \<and> n < arm_expires_mono a \<and>
          t = arm_turn_id a \<and> p = arm_phase a)"
  by (auto simp: detected_def dec_def not_le split: option.splits)

lemma step_accept_detected:
  "act (snd (stop_step s c)) = Accept \<Longrightarrow> \<exists>t g p n. c = CDetected t g p n"
  by (cases c) (auto simp: stop_defs split: option.splits if_splits)

interpretation guard: stop_guard stop_step live_generation last_generation detects stop_ok
proof
  fix s c g
  assume ok: "stop_ok s"
  then show "stop_ok (fst (stop_step s c))"
    by (rule stop_ok_step)
  show "last_generation s \<le> last_generation (fst (stop_step s c))"
    by (rule last_generation_step)
  show "g \<le> last_generation s" if "live_generation s = Some g"
    using ok that by (auto simp: live_generation_def stop_ok_def)
  show "\<exists>g. detects c = Some g \<and> live_generation s = Some g \<and>
      live_generation (fst (stop_step s c)) = None" if "act (snd (stop_step s c)) = Accept"
    using step_accept_detected [OF that] that
    by (auto simp: live_generation_def detected_def dec_def split: option.splits if_splits)
  show "live_generation s = Some g \<or> last_generation s < g"
    if "live_generation (fst (stop_step s c)) = Some g"
    using that by (cases c) (auto simp: live_generation_def stop_defs split: option.splits if_splits)
qed

interpretation stop_machine: ranked_machine stop_step stop_ok last_generation
  by unfold_locales (simp_all add: stop_ok_step last_generation_step)

text \<open>The accepted generations read off the decisions of a run.\<close>

definition accepted_generations :: "stop_state \<Rightarrow> stop_call list \<Rightarrow> int list" where
  "accepted_generations s calls =
     map (\<lambda>(c, d). the (detects c))
       (filter (\<lambda>(c, d). act d = Accept) (zip calls (snd (run stop_step s calls))))"

lemma accepted_generations_eq: "accepted_generations s calls = guard.accepted s calls"
  by (induction calls arbitrary: s) (simp_all add: accepted_generations_def)

section \<open>Properties\<close>

text \<open>a stop detection is accepted exactly when an arm is
  live, has not reached its deadline, and names the same generation, turn and phase; the
  accepted arm is then gone, so the same packet delivered again is reported as a duplicate.\<close>

theorem stop_accepts_only_live_arm:
  "act (snd (detected t g p now s)) = Accept \<longleftrightarrow>
     (\<exists>e. arm_state s = Some \<lparr>arm_turn_id = t, arm_generation = g, arm_phase = p, arm_expires_mono = e\<rparr> \<and>
          now < e \<and>
          detected t g p later (fst (detected t g p now s)) =
            (s\<lparr>arm_state := None, accepted_generation := Some g\<rparr>, dec Ignore ''duplicate detection''))"
  (is "?L \<longleftrightarrow> ?R")
proof
  assume ?L
  then obtain a where "arm_state s = Some a" "g = arm_generation a" "now < arm_expires_mono a"
    "t = arm_turn_id a" "p = arm_phase a"
    by (auto simp: detected_accept_iff)
  then show ?R
    by (intro exI [of _ "arm_expires_mono a"]) (simp add: detected_def)
next
  assume ?R
  then show ?L by (auto simp: detected_accept_iff)
qed

text \<open>over any sequence of arm, disarm, detection and expiry
  calls on a fresh device, the generations whose stop was accepted are strictly increasing:
  no generation is accepted twice and a late packet never cancels a newer response.\<close>

theorem stop_generations_accepted_once:
  "sorted_wrt (<) (accepted_generations stop_init calls)"
  unfolding accepted_generations_eq
  by (rule guard.accepted_increasing) (rule stop_ok_init)

end
