(* ===== verification/Turn.thy ===== *)
theory Turn
  imports AudioFrame StopState
begin

text \<open>
  One voice turn, \<open>controller/em_turn_engine.py\<close>: the \<open>Turn\<close> dataclass, the parts of
  \<open>Device\<close> (\<open>em_controller.py\<close>) the engine reads and writes, and every operation on a
  single turn: arming and disarming the stop word, the no-speech disarm, \<open>_end_turn\<close>,
  the REST \<open>turn_action\<close> handler with all its branches, and the outcome of a turn.

  An \<open>asyncio.Event\<close> is a boolean, an \<open>asyncio.Queue\<close> a list; what a call sends (control
  messages, pushed events, callbacks, database writes) is a list of \<open>effect\<close>s in order.
  A reading of \<open>time.monotonic()\<close> is an argument.
\<close>

section \<open>State\<close>

text \<open>
  \<open>last_wake\<close> and the detection columns of a stop; \<open>noise_floor\<close> is always \<open>None\<close> for a
  device wake, \<open>age_ms\<close> is absent for a barge, \<open>stop_cancel_ms\<close> is always 0.
\<close>

record wake_info =
  wake_model :: string
  wake_score :: rat
  wake_threshold :: rat
  wake_activation_seq :: int
  wake_age_ms :: "int option"

record stop_info =
  stop_word_model :: string
  stop_score :: rat
  stop_threshold :: rat
  stop_phase :: phase
  stop_device_age_ms :: int

text \<open>The fields of \<open>Device\<close> the turn engine and the admission handlers use.\<close>

record device_setup =
  dev_id :: device_id
  capabilities :: "string list"
  oww_model :: string
  oww_model_ready :: bool
  stop_model :: string
  stop_model_ready :: bool
  dev_stop_generation :: int
  dev_stop_state :: stop_state
  barge_in_enabled :: bool

record device_live = device_setup +
  muted :: bool
  speaking :: bool
  listening :: bool
  data_connected :: bool          \<comment> \<open>\<open>data_ws is not None\<close>\<close>
  voice_locked :: bool            \<comment> \<open>\<open>voice_lock.locked()\<close>\<close>
  cancel_event :: bool

record device = device_live +
  oww_paused :: bool
  barge_detected :: bool
  barge_request_id :: "string option"
  wake_request_id :: "string option"
  last_wake :: "wake_info option"
  wake_arb_ms :: int
  button_single_tap_event :: bool
  button_multi_tap_ms :: int
  timer_stop_turn_id :: "int option"

text \<open>
  \<open>Device.__init__\<close>: a device that has just registered. The stop generation is seeded from
  the wall clock in milliseconds.
\<close>

definition DEFAULT_WAKE_MODEL :: string where "DEFAULT_WAKE_MODEL = ''hey_jarvis_v0.1''"

definition new_device :: "device_id \<Rightarrow> string list \<Rightarrow> int \<Rightarrow> device" where
  "new_device did caps epoch_ms =
     \<lparr>dev_id = did, capabilities = caps, oww_model = DEFAULT_WAKE_MODEL, oww_model_ready = False,
      stop_model = ''stop'', stop_model_ready = False, dev_stop_generation = epoch_ms,
      dev_stop_state = stop_init, barge_in_enabled = False, muted = False, speaking = False,
      listening = False, data_connected = False, voice_locked = False, cancel_event = False,
      oww_paused = False, barge_detected = False, barge_request_id = None,
      wake_request_id = None, last_wake = None, wake_arb_ms = 300,
      button_single_tap_event = False, button_multi_tap_ms = 0, timer_stop_turn_id = None\<rparr>"

text \<open>The \<open>Turn\<close> dataclass, its fields grouped by what they are for.\<close>

record turn_ids =
  turn_id :: int
  turn_dev :: nat                  \<comment> \<open>the device object, by reference\<close>
  kind :: string
  has_on_thinking :: bool          \<comment> \<open>whether the callback is not None\<close>
  has_on_transcript :: bool

record turn_events = turn_ids +
  socket_ready :: bool
  accepted_ev :: bool
  rejected_ev :: bool
  device_started :: bool
  request_id :: "string option"
  endpoint :: bool
  cancelled :: bool
  end_reason :: "string option"
  tts_end :: bool

record turn_streams = turn_events +
  tts_queue :: "bytes option list"
  socket :: "nat option"
  tts_seq :: seq_state
  mic_sequence :: int

record turn_speech = turn_streams +
  continue_conversation :: json
  no_speech :: bool
  no_speech_disarmed :: bool
  speech_started :: bool
  speech_start_mono :: "seconds option"
  preroll_remaining :: int

record turn_times = turn_speech +
  started_mono :: seconds
  endpoint_mono :: "seconds option"
  transcript_mono :: "seconds option"
  intent_mono :: "seconds option"
  tts_started_mono :: "seconds option"
  tts_ended_mono :: "seconds option"

record turn = turn_times +
  stt_text :: "string option"
  tts_text :: "string option"
  capture_audio :: bool
  initial_audio :: "bytes list"
  mic_audio :: bytes
  tts_audio :: bytes
  turn_stop_generation :: "int option"
  turn_stop_phase :: "phase option"
  stop_detection :: "stop_info option"
  stt_only :: bool

definition new_turn :: "int \<Rightarrow> nat \<Rightarrow> seconds \<Rightarrow> turn" where
  "new_turn tid d now =
     \<lparr>turn_id = tid, turn_dev = d, kind = ''conversation'', has_on_thinking = True,
      has_on_transcript = False, socket_ready = False,
      accepted_ev = False, rejected_ev = False, device_started = False, request_id = None,
      endpoint = False, cancelled = False, end_reason = None, tts_end = False, tts_queue = [],
      socket = None, tts_seq = seq_init, mic_sequence = 0,
      continue_conversation = JBool False, no_speech = False, no_speech_disarmed = False,
      speech_started = False, speech_start_mono = None, preroll_remaining = 0,
      started_mono = now, endpoint_mono = None, transcript_mono = None, intent_mono = None,
      tts_started_mono = None, tts_ended_mono = None, stt_text = None, tts_text = None,
      capture_audio = False, initial_audio = [], mic_audio = [], tts_audio = [],
      turn_stop_generation = None, turn_stop_phase = None, stop_detection = None,
      stt_only = False\<rparr>"

text \<open>The columns \<open>_turn_record\<close> writes.\<close>

record turn_row =
  row_outcome :: string
  row_stt_text :: "string option"
  row_tts_text :: "string option"
  row_total_ms :: int
  row_stt_latency_ms :: "int option"
  row_ha_latency_ms :: "int option"
  row_tts_latency_ms :: "int option"
  row_tts_bytes :: "nat option"
  row_stop :: "stop_info option"   \<comment> \<open>\<open>**turn.stop_detection\<close>\<close>

datatype effect =
    PushState device_id int string
  | PushCancel device_id int string
  | PushTerminal device_id int string
  | PushOffer device_id int string "string option"
  | CtlStopArm device_id int int phase
  | CtlStopDisarm device_id int
  | CtlNoSpeechDisarm device_id
  | CtlWakeDeny device_id string string
  | CtlWakeGrant device_id string int
  | CtlSpeakerFlush device_id
  | OnThinking int
  | OnTranscript int string
  | OnAdmitted int
  | DbUpdateTurn int turn_row "wake_info option"
  | DbStopTimerTurn int stop_info
  | DbToolCall int int string string json json string
  | SaveAudio int string bytes
  | RememberTurn int
  | DbCreateTurn int device_id string
  | DbOutcome int string
  | RaisedToCaller int

section \<open>Capabilities\<close>

definition stopword_capable :: "device \<Rightarrow> bool" where
  "stopword_capable d \<longleftrightarrow> ''stopword'' \<in> set (capabilities d)"

definition wake_request_capable :: "device \<Rightarrow> bool" where
  "wake_request_capable d \<longleftrightarrow> ''wake_request_v1'' \<in> set (capabilities d)"

definition stop_word_enabled :: "device \<Rightarrow> bool" where
  "stop_word_enabled d \<longleftrightarrow> py_strip (stop_model d) \<noteq> []"

definition stop_admissible :: "device \<Rightarrow> bool" where
  "stop_admissible d \<longleftrightarrow>
     (if \<not> stop_word_enabled d then True else stopword_capable d \<and> stop_model_ready d)"

section \<open>The stop arm of a turn\<close>

text \<open>\<open>x or time.monotonic()\<close>: a stored 0.0 is falsy too.\<close>

definition stamp :: "seconds option \<Rightarrow> seconds \<Rightarrow> seconds option" where
  "stamp old now = (case old of Some t \<Rightarrow> if t \<noteq> 0 then Some t else Some now | None \<Rightarrow> Some now)"

definition turn_arm_stop ::
  "seconds \<Rightarrow> phase \<Rightarrow> turn \<times> device \<Rightarrow> (turn \<times> device) \<times> effect list" where
  "turn_arm_stop now ph = (\<lambda>(t, d).
     if \<not> (stopword_capable d \<and> stop_model_ready d) then ((t, d), [])
     else
       let generation = dev_stop_generation d + 1;
           (ss, decision) = arm_stop (turn_id t) generation ph (now + 135) (dev_stop_state d);
           d' = d\<lparr>dev_stop_generation := generation, dev_stop_state := ss\<rparr>
       in if act decision \<noteq> Armed then ((t, d'), [])
          else ((t\<lparr>turn_stop_generation := Some generation, turn_stop_phase := Some ph\<rparr>, d'),
                [CtlStopArm (dev_id d) (turn_id t) generation ph]))"

definition turn_disarm_stop :: "turn \<times> device \<Rightarrow> (turn \<times> device) \<times> effect list" where
  "turn_disarm_stop = (\<lambda>(t, d).
     case turn_stop_generation t of
       None \<Rightarrow> ((t, d), [])
     | Some g \<Rightarrow>
         ((t\<lparr>turn_stop_generation := None\<rparr>,
           d\<lparr>dev_stop_state := fst (disarm (Some g) (dev_stop_state d))\<rparr>),
          [CtlStopDisarm (dev_id d) g]))"

definition disarm_no_speech :: "turn \<times> device \<Rightarrow> (turn \<times> device) \<times> effect list" where
  "disarm_no_speech = (\<lambda>(t, d).
     if no_speech_disarmed t then ((t, d), [])
     else ((t\<lparr>no_speech_disarmed := True\<rparr>, d), [CtlNoSpeechDisarm (dev_id d)]))"

definition end_turn :: "string \<Rightarrow> bool \<Rightarrow> turn \<Rightarrow> turn" where
  "end_turn reason cancel t =
     (let t1 = (if end_reason t = None then t\<lparr>end_reason := Some reason\<rparr> else t)
      in if cancel
         then t1\<lparr>cancelled := True, tts_queue := tts_queue t1 @ [None], endpoint := True\<rparr>
         else t1)"

section \<open>The REST actions\<close>

text \<open>
  The request's path after \<open>/api/turns/<id>/\<close> is the action. The body is what
  \<open>request.json()\<close> gave, \<open>None\<close> when it raised. A body that is not an object makes
  \<open>body.get\<close> raise, which the server answers with 500. \<open>dumps_len v\<close> is the length in
  bytes of \<open>json.dumps(v)\<close>.
\<close>

datatype response =
    Ok_response
  | ToolTraceTooLarge
  | InvalidToolCall
  | TurnNotFound
  | ServerError

definition TOOL_TRACE_MAX_BYTES :: nat where "TOOL_TRACE_MAX_BYTES = 262144"

type_synonym pair_step = "(turn \<times> device) \<times> effect list"

definition seq_steps ::
  "(turn \<times> device \<Rightarrow> pair_step) \<Rightarrow> pair_step \<Rightarrow> pair_step" where
  "seq_steps f p = (let (s, es) = p; (s', es') = f s in (s', es @ es'))"

definition emit :: "effect \<Rightarrow> turn \<times> device \<Rightarrow> pair_step" where
  "emit e s = (s, [e])"

definition body_dict :: "json option \<Rightarrow> (string \<times> json) list option" where
  "body_dict b = (case b of None \<Rightarrow> Some [] | Some (JObj d) \<Rightarrow> Some d | Some _ \<Rightarrow> None)"

definition act_endpoint :: "seconds \<Rightarrow> turn \<times> device \<Rightarrow> pair_step" where
  "act_endpoint now = (\<lambda>(t, d).
     let t1 = t\<lparr>endpoint_mono := stamp (endpoint_mono t) now, endpoint := True\<rparr>
     in seq_steps (emit (PushState (dev_id d) (turn_id t) ''processing''))
          (seq_steps (turn_arm_stop now Thinking)
            ((t1, d), if has_on_thinking t then [OnThinking (turn_id t)] else [])))"

definition act_transcript :: "seconds \<Rightarrow> (string \<times> json) list \<Rightarrow> turn \<times> device \<Rightarrow> pair_step" where
  "act_transcript now body = (\<lambda>(t, d).
     case json_str (get_default body ''text'' JNull) of
       None \<Rightarrow> ((t, d), [])
     | Some text \<Rightarrow>
         if text = [] then ((t, d), [])
         else
           let t1 = (if truthy (get_default body ''is_final'' (JBool True))
                     then t\<lparr>transcript_mono := stamp (transcript_mono t) now\<rparr> else t);
               t2 = t1\<lparr>stt_text := Some text\<rparr>
           in seq_steps (\<lambda>x. (x, if has_on_transcript t then [OnTranscript (turn_id t) text] else []))
                (disarm_no_speech (t2, d)))"

definition act_speech_start :: "seconds \<Rightarrow> turn \<times> device \<Rightarrow> pair_step" where
  "act_speech_start now = (\<lambda>(t, d).
     disarm_no_speech
       (if speech_started t then t
        else t\<lparr>speech_started := True, speech_start_mono := Some now\<rparr>, d))"

definition act_tts_text :: "(string \<times> json) list \<Rightarrow> turn \<Rightarrow> turn" where
  "act_tts_text body t =
     (case json_str (get_default body ''text'' JNull) of
        None \<Rightarrow> t
      | Some text \<Rightarrow> if text = [] then t else t\<lparr>tts_text := Some text\<rparr>)"

definition act_pipeline_event :: "seconds \<Rightarrow> (string \<times> json) list \<Rightarrow> turn \<Rightarrow> turn" where
  "act_pipeline_event now body t =
     (if get_default body ''event'' (JStr '''') = JStr ''intent_end''
      then t\<lparr>intent_mono := stamp (intent_mono t) now,
             continue_conversation := get_default body ''continue_conversation'' (JBool False)\<rparr>
      else t)"

definition tool_call_ok :: "(string \<times> json) list \<Rightarrow> (int \<times> string \<times> string \<times> string) option" where
  "tool_call_ok body =
     (case (map_of body ''sequence'', map_of body ''call_id'', map_of body ''name'',
            map_of body ''status'') of
        (Some sq, Some cid, Some nm, Some st) \<Rightarrow>
          (case (json_int sq, json_str cid, json_str nm, json_str st) of
             (Some n, Some c, Some m, Some s) \<Rightarrow>
               if n < 0 \<or> c = [] \<or> 256 < length c \<or> m = [] \<or> 512 < length m \<or>
                  s \<notin> {''pending'', ''ok'', ''error''}
               then None else Some (n, c, m, s)
           | _ \<Rightarrow> None)
      | _ \<Rightarrow> None)"

definition act_tool_call ::
  "(json \<Rightarrow> nat) \<Rightarrow> json option \<Rightarrow> turn \<times> device \<Rightarrow> response \<times> pair_step" where
  "act_tool_call dumps_len body s =
     (case body of
        Some (JObj b) \<Rightarrow>
          (case tool_call_ok b of
             None \<Rightarrow> (InvalidToolCall, (s, []))
           | Some (n, c, m, st) \<Rightarrow>
               let rq = get_default b ''request'' JNull; rs = get_default b ''response'' JNull
               in if TOOL_TRACE_MAX_BYTES < dumps_len rq \<or> TOOL_TRACE_MAX_BYTES < dumps_len rs
                  then (ToolTraceTooLarge, (s, []))
                  else (Ok_response, (s, [DbToolCall (turn_id (fst s)) n c m rq rs st])))
      | _ \<Rightarrow> (InvalidToolCall, (s, [])))"

text \<open>\<open>turn_action\<close> on the turn the id names; an unknown action changes nothing.\<close>

definition with_body ::
  "json option \<Rightarrow> turn \<times> device \<Rightarrow> ((string \<times> json) list \<Rightarrow> pair_step) \<Rightarrow> response \<times> pair_step" where
  "with_body body s f =
     (case body_dict body of None \<Rightarrow> (ServerError, (s, [])) | Some b \<Rightarrow> (Ok_response, f b))"

definition turn_action ::
  "(json \<Rightarrow> nat) \<Rightarrow> seconds \<Rightarrow> string \<Rightarrow> json option \<Rightarrow> turn \<times> device \<Rightarrow> response \<times> pair_step" where
  "turn_action dumps_len now action body s =
     (let (t, d) = s in
      if action = ''endpoint'' then (Ok_response, act_endpoint now s)
      else if action = ''accept'' then
        (Ok_response, ((if \<not> rejected_ev t then t\<lparr>accepted_ev := True\<rparr> else t, d), []))
      else if action = ''reject'' then
        (Ok_response, ((if \<not> accepted_ev t
                        then end_turn ''backend_unavailable'' True (t\<lparr>rejected_ev := True\<rparr>)
                        else t, d), []))
      else if action = ''cancel'' then (Ok_response, ((end_turn ''cancelled'' True t, d), []))
      else if action = ''tts/end'' then
        (Ok_response, ((t\<lparr>tts_ended_mono := stamp (tts_ended_mono t) now, tts_end := True,
                           tts_queue := tts_queue t @ [None]\<rparr>, d), []))
      else if action = ''tts/start'' then
        (Ok_response, turn_arm_stop now Playback
           (t\<lparr>tts_started_mono := stamp (tts_started_mono t) now\<rparr>, d))
      else if action = ''transcript'' then with_body body s (\<lambda>b. act_transcript now b s)
      else if action = ''speech-start'' then (Ok_response, act_speech_start now s)
      else if action = ''tts-text'' then with_body body s (\<lambda>b. ((act_tts_text b t, d), []))
      else if action = ''pipeline-event'' then
        with_body body s (\<lambda>b. ((act_pipeline_event now b t, d), []))
      else if action = ''tool-call'' then act_tool_call dumps_len body s
      else (Ok_response, (s, [])))"

section \<open>Outcome and record\<close>

definition outcome_for :: "turn \<Rightarrow> bool \<Rightarrow> string" where
  "outcome_for t result =
     (case end_reason t of
        Some r \<Rightarrow> r
      | None \<Rightarrow> if no_speech t then ''no_speech'' else if result then ''ok'' else ''cancelled'')"

text \<open>Python's \<open>a or b\<close> on optional times, where 0.0 counts as absent.\<close>

definition or_else :: "seconds option \<Rightarrow> seconds option \<Rightarrow> seconds option" where
  "or_else a b = (case a of Some t \<Rightarrow> if t \<noteq> 0 then Some t else b | None \<Rightarrow> b)"

definition truthy_time :: "seconds option \<Rightarrow> bool" where
  "truthy_time a \<longleftrightarrow> (case a of Some t \<Rightarrow> t \<noteq> 0 | None \<Rightarrow> False)"

definition since_ms :: "seconds \<Rightarrow> seconds \<Rightarrow> int" where
  "since_ms a b = py_round ((b - a) * 1000)"

definition turn_record :: "seconds \<Rightarrow> turn \<Rightarrow> string \<Rightarrow> turn_row" where
  "turn_record end_time t outcome =
     (let stt_end = or_else (transcript_mono t) (endpoint_mono t);
          ha_start = (case or_else stt_end (Some (started_mono t)) of
                        Some x \<Rightarrow> x | None \<Rightarrow> started_mono t);
          ha_end = or_else (tts_started_mono t) (intent_mono t)
      in \<lparr>row_outcome = outcome, row_stt_text = stt_text t, row_tts_text = tts_text t,
          row_total_ms = since_ms (started_mono t) end_time,
          row_stt_latency_ms =
            (if truthy_time stt_end then Some (since_ms (started_mono t) (the stt_end)) else None),
          row_ha_latency_ms =
            (if truthy_time ha_end then Some (since_ms ha_start (the ha_end)) else None),
          row_tts_latency_ms =
            (if truthy_time (tts_started_mono t)
             then Some (since_ms (the (tts_started_mono t)) end_time) else None),
          row_tts_bytes = (if tts_audio t = [] then None else Some (length (tts_audio t))),
          row_stop = stop_detection t\<rparr>)"

section \<open>What each step leaves alone\<close>

named_theorems turn_frame "fields a step on a turn does not write"

lemma arm_frame [turn_frame]:
  "end_reason (fst (fst (turn_arm_stop now ph s))) = end_reason (fst s)"
  "accepted_ev (fst (fst (turn_arm_stop now ph s))) = accepted_ev (fst s)"
  "rejected_ev (fst (fst (turn_arm_stop now ph s))) = rejected_ev (fst s)"
  "cancelled (fst (fst (turn_arm_stop now ph s))) = cancelled (fst s)"
  "endpoint (fst (fst (turn_arm_stop now ph s))) = endpoint (fst s)"
  "no_speech_disarmed (fst (fst (turn_arm_stop now ph s))) = no_speech_disarmed (fst s)"
  "turn_id (fst (fst (turn_arm_stop now ph s))) = turn_id (fst s)"
  by (simp_all add: turn_arm_stop_def case_prod_beta Let_def)

lemma disarm_ns_frame [turn_frame]:
  "end_reason (fst (fst (disarm_no_speech s))) = end_reason (fst s)"
  "accepted_ev (fst (fst (disarm_no_speech s))) = accepted_ev (fst s)"
  "rejected_ev (fst (fst (disarm_no_speech s))) = rejected_ev (fst s)"
  "cancelled (fst (fst (disarm_no_speech s))) = cancelled (fst s)"
  "endpoint (fst (fst (disarm_no_speech s))) = endpoint (fst s)"
  "turn_id (fst (fst (disarm_no_speech s))) = turn_id (fst s)"
  "snd (fst (disarm_no_speech s)) = snd s"
  by (simp_all add: disarm_no_speech_def case_prod_beta)

lemma fst_seq_steps [turn_frame]: "fst (seq_steps f p) = fst (f (fst p))"
  by (simp add: seq_steps_def case_prod_beta Let_def)

lemma snd_seq_steps [turn_frame]: "snd (seq_steps f p) = snd p @ snd (f (fst p))"
  by (simp add: seq_steps_def case_prod_beta Let_def)

lemma emit_sel [turn_frame]: "fst (emit e s) = s" "snd (emit e s) = [e]"
  by (simp_all add: emit_def)

lemma tts_text_frame [turn_frame]:
  "end_reason (act_tts_text b t) = end_reason t" "accepted_ev (act_tts_text b t) = accepted_ev t"
  "rejected_ev (act_tts_text b t) = rejected_ev t" "cancelled (act_tts_text b t) = cancelled t"
  "endpoint (act_tts_text b t) = endpoint t" "turn_id (act_tts_text b t) = turn_id t"
  "no_speech_disarmed (act_tts_text b t) = no_speech_disarmed t"
  by (simp_all add: act_tts_text_def split: option.split)

lemma pipeline_frame [turn_frame]:
  "end_reason (act_pipeline_event n b t) = end_reason t"
  "accepted_ev (act_pipeline_event n b t) = accepted_ev t"
  "rejected_ev (act_pipeline_event n b t) = rejected_ev t"
  "cancelled (act_pipeline_event n b t) = cancelled t"
  "endpoint (act_pipeline_event n b t) = endpoint t"
  "turn_id (act_pipeline_event n b t) = turn_id t"
  "no_speech_disarmed (act_pipeline_event n b t) = no_speech_disarmed t"
  by (simp_all add: act_pipeline_event_def)

lemma end_turn_frame [turn_frame]:
  "turn_id (end_turn r c t) = turn_id t" "accepted_ev (end_turn r c t) = accepted_ev t"
  "rejected_ev (end_turn r c t) = rejected_ev t"
  "no_speech_disarmed (end_turn r c t) = no_speech_disarmed t"
  "turn_dev (end_turn r c t) = turn_dev t" "request_id (end_turn r c t) = request_id t"
  by (simp_all add: end_turn_def Let_def)

lemma end_turn_reason:
  "end_reason (end_turn r c t) = (case end_reason t of None \<Rightarrow> Some r | Some q \<Rightarrow> Some q)"
  by (simp add: end_turn_def Let_def split: option.split)

lemma end_turn_cancelled [simp]:
  "cancelled (end_turn r c t) \<longleftrightarrow> cancelled t \<or> c" "endpoint (end_turn r c t) \<longleftrightarrow> endpoint t \<or> c"
  by (simp_all add: end_turn_def Let_def)

section \<open>The REST actions as a state machine\<close>

type_synonym rest_call = "seconds \<times> string \<times> json option"

definition action_step ::
  "(json \<Rightarrow> nat) \<Rightarrow> turn \<times> device \<Rightarrow> rest_call \<Rightarrow> (turn \<times> device) \<times> (response \<times> effect list)" where
  "action_step dl s c =
     (case c of (now, action, body) \<Rightarrow>
        let (r, (s', es)) = turn_action dl now action body s in (s', (r, es)))"

lemma tool_call_frame [turn_frame]: "fst (snd (act_tool_call dl b s)) = s"
  by (auto simp: act_tool_call_def Let_def split: option.splits json.splits)

lemma with_body_frame:
  "fst (snd (with_body b s f)) = (case body_dict b of None \<Rightarrow> s | Some d \<Rightarrow> fst (f d))"
  by (simp add: with_body_def split: option.split)

lemma transcript_frame [turn_frame]:
  "end_reason (fst (fst (act_transcript n b s))) = end_reason (fst s)"
  "accepted_ev (fst (fst (act_transcript n b s))) = accepted_ev (fst s)"
  "rejected_ev (fst (fst (act_transcript n b s))) = rejected_ev (fst s)"
  "cancelled (fst (fst (act_transcript n b s))) = cancelled (fst s)"
  "endpoint (fst (fst (act_transcript n b s))) = endpoint (fst s)"
  "turn_id (fst (fst (act_transcript n b s))) = turn_id (fst s)"
  "snd (fst (act_transcript n b s)) = snd s"
  by (simp_all add: act_transcript_def turn_frame case_prod_beta Let_def split: option.split)

lemma speech_start_frame [turn_frame]:
  "end_reason (fst (fst (act_speech_start n s))) = end_reason (fst s)"
  "accepted_ev (fst (fst (act_speech_start n s))) = accepted_ev (fst s)"
  "rejected_ev (fst (fst (act_speech_start n s))) = rejected_ev (fst s)"
  "cancelled (fst (fst (act_speech_start n s))) = cancelled (fst s)"
  "endpoint (fst (fst (act_speech_start n s))) = endpoint (fst s)"
  "turn_id (fst (fst (act_speech_start n s))) = turn_id (fst s)"
  "snd (fst (act_speech_start n s)) = snd s"
  by (simp_all add: act_speech_start_def turn_frame case_prod_beta)

lemma endpoint_frame [turn_frame]:
  "end_reason (fst (fst (act_endpoint n s))) = end_reason (fst s)"
  "accepted_ev (fst (fst (act_endpoint n s))) = accepted_ev (fst s)"
  "rejected_ev (fst (fst (act_endpoint n s))) = rejected_ev (fst s)"
  "cancelled (fst (fst (act_endpoint n s))) = cancelled (fst s)"
  "endpoint (fst (fst (act_endpoint n s)))"
  "turn_id (fst (fst (act_endpoint n s))) = turn_id (fst s)"
  "no_speech_disarmed (fst (fst (act_endpoint n s))) = no_speech_disarmed (fst s)"
  by (simp_all add: act_endpoint_def turn_frame case_prod_beta Let_def)

lemma fst_action_step:
  "fst (action_step dl s (now, action, body)) = fst (snd (turn_action dl now action body s))"
  by (simp add: action_step_def case_prod_beta Let_def)

lemma snd_action_step:
  "snd (action_step dl s (now, action, body)) =
     (fst (turn_action dl now action body s), snd (snd (turn_action dl now action body s)))"
  by (simp add: action_step_def case_prod_beta Let_def)

lemmas turn_action_unfold = fst_action_step turn_action_def with_body_frame turn_frame

text \<open>The invariant of a turn under its REST actions.\<close>

definition turn_ok :: "turn \<times> device \<Rightarrow> bool" where
  "turn_ok s \<longleftrightarrow>
     \<not> (accepted_ev (fst s) \<and> rejected_ev (fst s)) \<and>
     (cancelled (fst s) \<longrightarrow> endpoint (fst s) \<and> end_reason (fst s) \<noteq> None)"

lemma turn_ok_step: "turn_ok s \<Longrightarrow> turn_ok (fst (action_step dl s c))"
  by (cases c)
    (auto simp: turn_ok_def turn_action_unfold end_turn_reason case_prod_beta Let_def
      split: option.split)

lemma end_reason_step:
  "end_reason (fst s) = Some r \<Longrightarrow> end_reason (fst (fst (action_step dl s c))) = Some r"
  by (cases c)
    (auto simp: turn_action_unfold end_turn_reason case_prod_beta Let_def split: option.split)

interpretation rest: machine "action_step dl" turn_ok for dl
  by unfold_locales (rule turn_ok_step)

interpretation ended: machine "action_step dl" "\<lambda>s. end_reason (fst s) = Some r" for dl r
  by unfold_locales (rule end_reason_step)

text \<open>The no-speech disarm goes out at most once, and only before the flag is set.\<close>

definition ns_disarms :: "effect list \<Rightarrow> nat" where
  "ns_disarms es = length (filter (\<lambda>e. case e of CtlNoSpeechDisarm _ \<Rightarrow> True | _ \<Rightarrow> False) es)"

lemma ns_disarms_append [simp]: "ns_disarms (xs @ ys) = ns_disarms xs + ns_disarms ys"
  by (simp add: ns_disarms_def)

definition ns_budget :: "turn \<Rightarrow> nat" where
  "ns_budget t = (if no_speech_disarmed t then 0 else 1)"

lemma arm_stop_ns: "ns_disarms (snd (turn_arm_stop now ph s)) = 0"
  by (simp add: turn_arm_stop_def ns_disarms_def case_prod_beta Let_def)

lemma disarm_ns_budget:
  "ns_disarms (snd (disarm_no_speech s)) + ns_budget (fst (fst (disarm_no_speech s))) = ns_budget (fst s)"
  by (simp add: disarm_no_speech_def ns_disarms_def ns_budget_def case_prod_beta)

lemma tool_call_ns: "ns_disarms (snd (snd (act_tool_call dl b s))) = 0"
  by (auto simp: act_tool_call_def ns_disarms_def Let_def split: option.splits json.splits)

lemma transcript_ns:
  "ns_disarms (snd (act_transcript n b s)) + ns_budget (fst (fst (act_transcript n b s))) = ns_budget (fst s)"
  using disarm_ns_budget
  by (auto simp: act_transcript_def turn_frame ns_budget_def ns_disarms_def disarm_no_speech_def
      case_prod_beta Let_def split: option.split)

lemma speech_start_ns:
  "ns_disarms (snd (act_speech_start n s)) + ns_budget (fst (fst (act_speech_start n s))) = ns_budget (fst s)"
  by (simp add: act_speech_start_def ns_budget_def ns_disarms_def disarm_no_speech_def case_prod_beta)

lemma endpoint_ns: "ns_disarms (snd (act_endpoint n s)) = 0"
  using arm_stop_ns
  by (simp add: act_endpoint_def turn_frame ns_disarms_def emit_def case_prod_beta Let_def)

lemma with_body_ns:
  assumes "\<And>d. ns_disarms (snd (f d)) + ns_budget (fst (fst (f d))) = ns_budget (fst s)"
  shows "ns_disarms (snd (snd (with_body b s f))) + ns_budget (fst (fst (snd (with_body b s f)))) =
    ns_budget (fst s)"
  using assms by (simp add: with_body_def ns_disarms_def split: option.split)

lemma ns_budget_frame [simp]:
  "ns_budget (end_turn r c t) = ns_budget t" "ns_budget (act_tts_text b t) = ns_budget t"
  "ns_budget (act_pipeline_event n b t) = ns_budget t"
  "ns_budget (fst (fst (turn_arm_stop n ph s))) = ns_budget (fst s)"
  "ns_budget (fst (fst (act_endpoint n s))) = ns_budget (fst s)"
  "ns_budget (t\<lparr>accepted_ev := a\<rparr>) = ns_budget t" "ns_budget (t\<lparr>rejected_ev := a\<rparr>) = ns_budget t"
  "ns_budget (t\<lparr>tts_started_mono := m\<rparr>) = ns_budget t"
  "ns_budget (t\<lparr>tts_ended_mono := m, tts_end := e, tts_queue := q\<rparr>) = ns_budget t"
  by (simp_all add: ns_budget_def turn_frame)

lemma ns_disarms_Nil [simp]: "ns_disarms [] = 0"
  by (simp add: ns_disarms_def)

lemma action_ns_budget:
  "ns_disarms (snd (snd (action_step dl s c))) + ns_budget (fst (fst (action_step dl s c))) =
     ns_budget (fst s)"
  by (cases c)
    (simp add: fst_action_step snd_action_step turn_action_def with_body_ns transcript_ns
      speech_start_ns arm_stop_ns endpoint_ns tool_call_ns tool_call_frame case_prod_beta)

lemma run_ns_budget:
  "ns_disarms (concat (map snd (snd (run (action_step dl) s cs)))) \<le> ns_budget (fst s)"
proof (induction cs arbitrary: s)
  case Nil
  then show ?case by simp
next
  case (Cons c cs)
  show ?case
    using Cons [of "fst (action_step dl s c)"] action_ns_budget [of dl s c] by simp
qed

section \<open>The stop arms a turn sends\<close>

text \<open>
  The device's counter never falls behind its arm state, so every arm the engine computes is
  accepted by its own state machine and goes out on the wire with a new generation.
\<close>

definition dev_stop_ok :: "device \<Rightarrow> bool" where
  "dev_stop_ok d \<longleftrightarrow>
     stop_ok (dev_stop_state d) \<and> last_generation (dev_stop_state d) \<le> dev_stop_generation d"

lemma turn_arm_stop_armed:
  assumes "dev_stop_ok d" and "0 < turn_id t" and "stopword_capable d" and "stop_model_ready d"
    and "ph \<in> {Thinking, Playback, Timer}"
  shows "turn_arm_stop now ph (t, d) =
    (let g = dev_stop_generation d + 1 in
     ((t\<lparr>turn_stop_generation := Some g, turn_stop_phase := Some ph\<rparr>,
       d\<lparr>dev_stop_generation := g,
         dev_stop_state := fst (arm_stop (turn_id t) g ph (now + 135) (dev_stop_state d))\<rparr>),
      [CtlStopArm (dev_id d) (turn_id t) g ph]))"
  using assms
  by (auto simp: turn_arm_stop_def arm_stop_def dec_def dev_stop_ok_def Let_def)

lemma turn_arm_stop_ok: "dev_stop_ok d \<Longrightarrow> dev_stop_ok (snd (fst (turn_arm_stop now ph (t, d))))"
  by (auto simp: turn_arm_stop_def arm_stop_def dec_def dev_stop_ok_def stop_ok_def Let_def
      split: option.splits)

lemma turn_disarm_stop_ok: "dev_stop_ok d \<Longrightarrow> dev_stop_ok (snd (fst (turn_disarm_stop (t, d))))"
  by (auto simp: turn_disarm_stop_def disarm_def dec_def dev_stop_ok_def stop_ok_def
      split: option.splits)

lemma turn_disarm_stop_clears:
  "turn_stop_generation (fst (fst (turn_disarm_stop s))) = None"
  by (simp add: turn_disarm_stop_def case_prod_beta split: option.split)

lemma arm_then_disarm:
  assumes "dev_stop_ok d" and "0 < turn_id t" and "stopword_capable d" and "stop_model_ready d"
    and "ph \<in> {Thinking, Playback, Timer}"
  shows "arm_state (dev_stop_state (snd (fst (turn_disarm_stop (fst (turn_arm_stop now ph (t, d))))))) = None"
  using assms
  by (auto simp: turn_arm_stop_armed [OF assms] turn_disarm_stop_def disarm_def dec_def arm_stop_def
      dev_stop_ok_def Let_def)

section \<open>Properties\<close>

text \<open>whatever REST actions HACS posts to a turn, in
  whatever order, the cause of its end is written once and kept, accept and reject never both
  stand, and a cancelled turn is never left waiting for its endpoint.\<close>

theorem rest_actions_keep_first_end_reason:
  assumes "turn_ok s" and "end_reason (fst (fst (run (action_step dl) s cs))) = Some r"
  shows "end_reason (fst (fst (run (action_step dl) s (cs @ ds)))) = Some r \<and>
    (let t = fst (fst (run (action_step dl) s (cs @ ds))) in
      \<not> (accepted_ev t \<and> rejected_ev t) \<and> (cancelled t \<longrightarrow> endpoint t))"
proof -
  have "turn_ok (fst (run (action_step dl) s (cs @ ds)))"
    using assms(1) by (rule rest.inv_run)
  moreover have "end_reason (fst (fst (run (action_step dl) s (cs @ ds)))) = Some r"
    unfolding run_append_fst using assms(2) by (rule ended.inv_run)
  ultimately show ?thesis
    by (simp add: turn_ok_def Let_def)
qed

theorem rest_actions_keep_first_end_reason_witness:
  "end_reason (fst (fst (run (action_step (\<lambda>_. 0)) (new_turn 7 0 1, new_device ''A'' [] 5)
     ([(2, ''reject'', None)] @ [(3, ''cancel'', None), (4, ''accept'', None)])))) =
     Some ''backend_unavailable''"
proof -
  have ok: "turn_ok (new_turn 7 0 1, new_device ''A'' [] 5)"
    by (simp add: turn_ok_def new_turn_def)
  have "end_reason (fst (fst (run (action_step (\<lambda>_. 0)) (new_turn 7 0 1, new_device ''A'' [] 5)
      [(2, ''reject'', None)]))) = Some ''backend_unavailable''"
    by (simp add: action_step_def turn_action_def new_turn_def end_turn_def)
  from rest_actions_keep_first_end_reason [OF ok this] show ?thesis by blast
qed

text \<open>over any sequence of REST actions on a new turn at
  most one no_speech_disarm message is sent to the device, however many partial transcripts and
  speech-start reports arrive.\<close>

theorem no_speech_disarm_sent_at_most_once:
  "ns_disarms (concat (map snd (snd (run (action_step dl) (new_turn tid r now, d) cs)))) \<le> 1"
  using run_ns_budget [of dl "(new_turn tid r now, d)" cs]
  by (simp add: ns_budget_def new_turn_def)

end
