(* ===== verification/HacsAudio.thy ===== *)
theory HacsAudio
  imports AudioFrame
begin

text \<open>
  The HACS integration's end of a turn's audio socket: \<open>AudioChannel\<close> of
  \<open>hacs/custom_components/echo_voice_satellite/client.py\<close> and the transcoding loop
  \<open>stream_result_to_audio\<close> of \<open>tts_stream.py\<close>.

  ffmpeg is outside the program: its successive stdout reads, its exit code and whether
  the feeder task failed are inputs of the model. The bytes the channel has written to
  the WebSocket are kept in \<open>ch_wire\<close>, one message per element.
\<close>

section \<open>The audio channel\<close>

record audio_channel =
  ch_tts_sequence :: int
  ch_sent_eos :: bool
  ch_wire :: "bytes list"

definition channel_init :: audio_channel where
  "channel_init = \<lparr>ch_tts_sequence = 0, ch_sent_eos = False, ch_wire = []\<rparr>"

definition send_tts :: "audio_channel \<Rightarrow> bytes \<Rightarrow> audio_error + audio_channel" where
  "send_tts ch pl =
     (if ch_sent_eos ch then Inl SequenceError
      else bind_res (encode_frame TTS_PCM (ch_tts_sequence ch) pl)
        (\<lambda>raw. Inr (ch\<lparr>ch_wire := ch_wire ch @ [raw],
                        ch_tts_sequence := ch_tts_sequence ch + 1\<rparr>)))"

definition send_tts_eos :: "audio_channel \<Rightarrow> audio_error + audio_channel" where
  "send_tts_eos ch =
     (if ch_sent_eos ch then Inr ch
      else bind_res (encode_frame TTS_EOS (ch_tts_sequence ch) [])
        (\<lambda>raw. Inr (ch\<lparr>ch_wire := ch_wire ch @ [raw],
                        ch_tts_sequence := ch_tts_sequence ch + 1,
                        ch_sent_eos := True\<rparr>)))"

text \<open>
  \<open>mic_frames\<close>: the payloads yielded and whether the generator ended normally. \<open>None\<close> is a
  message that is not binary (the socket closed).
\<close>

fun mic_frames :: "bytes option list \<Rightarrow> bytes list \<times> audio_error option" where
  "mic_frames [] = ([], None)"
| "mic_frames (None # ms) = ([], None)"
| "mic_frames (Some raw # ms) =
     (case decode_frame raw of
        Inl e \<Rightarrow> ([], Some e)
      | Inr f \<Rightarrow>
          if frame_type f = MIC_EOS then ([], None)
          else if frame_type f \<noteq> MIC_PCM then ([], Some UnexpectedDirection)
          else let (ps, e) = mic_frames ms in (payload f # ps, e))"

section \<open>Transcoding a result stream\<close>

datatype tts_error =
    LimitExceeded | ConversionFailed | OddPcm | FeederFailed | ChannelError audio_error

record tts_state =
  ts_pending :: bytes
  ts_sent :: nat
  ts_chan :: audio_channel

text \<open>The inner \<open>while usable\<close> loop; an error keeps what was already sent.\<close>

function drain :: "nat \<Rightarrow> tts_state \<Rightarrow> tts_error option \<times> tts_state" where
  "drain max_bytes st =
     (let usable = length (ts_pending st) - length (ts_pending st) mod 2 in
      if usable = 0 then (None, st)
      else
        let pcm = take (min TTS_FRAME_BYTES usable) (ts_pending st);
            st1 = st\<lparr>ts_pending := drop (length pcm) (ts_pending st),
                     ts_sent := ts_sent st + length pcm\<rparr>
        in if max_bytes < ts_sent st1 then (Some LimitExceeded, st1)
           else (case send_tts (ts_chan st1) pcm of
                   Inl e \<Rightarrow> (Some (ChannelError e), st1)
                 | Inr ch \<Rightarrow> drain max_bytes (st1\<lparr>ts_chan := ch\<rparr>)))"
  by pat_completeness auto
termination
  by (relation "measure (\<lambda>(m, st). length (ts_pending st))")
    (auto simp: TTS_FRAME_BYTES_def)

declare drain.simps [simp del]

text \<open>The outer loop: one element per \<open>process.stdout.read\<close>; an empty read is end of file.\<close>

fun read_loop :: "nat \<Rightarrow> tts_state \<Rightarrow> bytes list \<Rightarrow> tts_error option \<times> tts_state" where
  "read_loop max_bytes st [] = (None, st)"
| "read_loop max_bytes st (chunk # rest) =
     (if chunk = [] then (None, st)
      else case drain max_bytes (st\<lparr>ts_pending := ts_pending st @ chunk\<rparr>) of
             (Some e, st1) \<Rightarrow> (Some e, st1)
           | (None, st1) \<Rightarrow> read_loop max_bytes st1 rest)"

definition stream_result_to_audio ::
  "nat \<Rightarrow> audio_channel \<Rightarrow> bytes list \<Rightarrow> bool \<Rightarrow> int \<Rightarrow> tts_error option \<times> tts_state" where
  "stream_result_to_audio max_bytes ch reads feeder_failed returncode =
     (case read_loop max_bytes \<lparr>ts_pending = [], ts_sent = 0, ts_chan = ch\<rparr> reads of
        (Some e, st) \<Rightarrow> (Some e, st)
      | (None, st) \<Rightarrow>
          if feeder_failed then (Some FeederFailed, st)
          else if returncode \<noteq> 0 then (Some ConversionFailed, st)
          else if ts_pending st \<noteq> [] then (Some OddPcm, st)
          else case send_tts_eos (ts_chan st) of
                 Inl e \<Rightarrow> (Some (ChannelError e), st)
               | Inr c \<Rightarrow> (None, st\<lparr>ts_chan := c\<rparr>))"

definition DEFAULT_MAX_BYTES :: nat where "DEFAULT_MAX_BYTES = 43200000"

section \<open>What is on the wire\<close>

text \<open>The frames a channel has sent: PCM payloads numbered from \<open>n\<close>.\<close>

fun tts_frames :: "int \<Rightarrow> bytes list \<Rightarrow> audio_frame list" where
  "tts_frames n [] = []"
| "tts_frames n (p # ps) = \<lparr>frame_type = TTS_PCM, sequence = n, payload = p\<rparr> # tts_frames (n + 1) ps"

lemma tts_frames_append: "tts_frames n (ps @ qs) = tts_frames n ps @ tts_frames (n + int (length ps)) qs"
  by (induction ps arbitrary: n) (simp_all add: algebra_simps)

lemma length_tts_frames [simp]: "length (tts_frames n ps) = length ps"
  by (induction ps arbitrary: n) simp_all

definition pcm_chunk :: "bytes \<Rightarrow> bool" where
  "pcm_chunk p \<longleftrightarrow> p \<noteq> [] \<and> even (length p) \<and> length p \<le> TTS_FRAME_BYTES"

text \<open>\<open>chan_sent ch ps\<close>: an open channel whose wire decodes to the payloads \<open>ps\<close>, in order.\<close>

definition chan_sent :: "audio_channel \<Rightarrow> bytes list \<Rightarrow> bool" where
  "chan_sent ch ps \<longleftrightarrow>
     \<not> ch_sent_eos ch \<and> ch_tts_sequence ch = int (length ps) \<and>
     map decode_frame (ch_wire ch) = map Inr (tts_frames 0 ps) \<and> list_all pcm_chunk ps"

lemma chan_sent_init: "chan_sent channel_init []"
  by (simp add: chan_sent_def channel_init_def)

lemma decode_sent:
  assumes "encode_frame ft sq pl = Inr raw"
  shows "decode_frame raw = Inr \<lparr>frame_type = ft, sequence = sq, payload = pl\<rparr>"
  using assms by (intro wire.dec_enc) (simp add: encode_def)

lemma send_tts_ok:
  assumes "chan_sent ch ps" and "pcm_chunk p" and "length ps \<le> 0xFFFFFFFF"
  obtains ch' where "send_tts ch p = Inr ch'" and "chan_sent ch' (ps @ [p])"
proof -
  let ?raw = "header_pack TTS_PCM 0 (int (length ps)) @ p"
  have enc: "encode_frame TTS_PCM (int (length ps)) p = Inr ?raw"
    using assms(2,3) by (simp add: encode_frame_eq_Inr well_formed_def pcm_chunk_def frame_type_defs)
  have "send_tts ch p =
      Inr (ch\<lparr>ch_wire := ch_wire ch @ [?raw], ch_tts_sequence := int (length ps) + 1\<rparr>)"
    using assms(1) enc by (simp add: send_tts_def chan_sent_def)
  moreover have "chan_sent (ch\<lparr>ch_wire := ch_wire ch @ [?raw],
      ch_tts_sequence := int (length ps) + 1\<rparr>) (ps @ [p])"
    using assms(1,2) decode_sent [OF enc] by (simp add: chan_sent_def tts_frames_append)
  ultimately show thesis by (rule that)
qed

section \<open>The drain loop\<close>

lemma pcm_chunk_take:
  assumes "u = length xs - length xs mod 2" and "u \<noteq> 0"
  shows "pcm_chunk (take (min TTS_FRAME_BYTES u) xs)"
proof -
  have "even u"
    using assms(1) by (metis dvd_triv_left minus_mod_eq_mult_div)
  then have "length (take (min TTS_FRAME_BYTES u) xs) = min TTS_FRAME_BYTES u"
    and "even (min TTS_FRAME_BYTES u)" and "0 < min TTS_FRAME_BYTES u"
    using assms by (auto simp: TTS_FRAME_BYTES_def min_def)
  then show ?thesis
    unfolding pcm_chunk_def by (metis length_0_conv min.cobounded1 not_gr_zero)
qed

lemma drain_progress:
  assumes "chan_sent (ts_chan st) ps" and "ts_sent st = length (concat ps)"
    and "ts_sent st + length (ts_pending st) \<le> max_bytes" and "max_bytes \<le> 0xFFFFFFFF"
  shows "\<exists>st' qs. drain max_bytes st = (None, st') \<and> chan_sent (ts_chan st') (ps @ qs) \<and>
    concat (ps @ qs) @ ts_pending st' = concat ps @ ts_pending st \<and>
    ts_sent st' = length (concat (ps @ qs)) \<and> length (ts_pending st') \<le> 1"
  using assms
proof (induction max_bytes st arbitrary: ps rule: drain.induct)
  case (1 max_bytes st)
  let ?u = "length (ts_pending st) - length (ts_pending st) mod 2"
  let ?pcm = "take (min TTS_FRAME_BYTES ?u) (ts_pending st)"
  let ?st1 = "st\<lparr>ts_pending := drop (length ?pcm) (ts_pending st),
                 ts_sent := ts_sent st + length ?pcm\<rparr>"
  show ?case
  proof (cases "?u = 0")
    case True
    then have "drain max_bytes st = (None, st)"
      by (simp add: drain.simps [of max_bytes st])
    moreover have "length (ts_pending st) \<le> 1"
      using True by presburger
    ultimately show ?thesis
      using "1.prems" by (intro exI [of _ st] exI [of _ "[]"]) simp
  next
    case False
    have pcm: "pcm_chunk ?pcm"
      using False by (intro pcm_chunk_take) simp_all
    have "length ps \<le> length (concat ps)"
      using "1.prems"(1) unfolding chan_sent_def
      by (intro length_le_concat) (auto simp: list_all_iff pcm_chunk_def)
    then have "length ps \<le> 0xFFFFFFFF"
      using "1.prems" by linarith
    then obtain ch' where ch': "send_tts (ts_chan ?st1) ?pcm = Inr ch'" "chan_sent ch' (ps @ [?pcm])"
      using send_tts_ok [of "ts_chan ?st1" ps ?pcm] "1.prems"(1) pcm by auto
    have lim: "\<not> max_bytes < ts_sent ?st1"
      using "1.prems"(3) by (simp add: min_def)
    have step: "drain max_bytes st = drain max_bytes (?st1\<lparr>ts_chan := ch'\<rparr>)"
      using False lim ch'(1) by (subst drain.simps) (simp add: Let_def)
    have len: "length ?pcm + length (drop (length ?pcm) (ts_pending st)) = length (ts_pending st)"
      by simp
    have "\<exists>st' qs. drain max_bytes (?st1\<lparr>ts_chan := ch'\<rparr>) = (None, st') \<and>
        chan_sent (ts_chan st') ((ps @ [?pcm]) @ qs) \<and>
        concat ((ps @ [?pcm]) @ qs) @ ts_pending st' =
          concat (ps @ [?pcm]) @ ts_pending (?st1\<lparr>ts_chan := ch'\<rparr>) \<and>
        ts_sent st' = length (concat ((ps @ [?pcm]) @ qs)) \<and> length (ts_pending st') \<le> 1"
      using "1.prems" ch' len
      by (intro "1.IH" [OF refl False refl refl lim ch'(1)]) simp_all
    then obtain st' qs where st': "drain max_bytes (?st1\<lparr>ts_chan := ch'\<rparr>) = (None, st')"
      "chan_sent (ts_chan st') ((ps @ [?pcm]) @ qs)"
      "concat ((ps @ [?pcm]) @ qs) @ ts_pending st' = concat (ps @ [?pcm]) @ ts_pending ?st1"
      "ts_sent st' = length (concat ((ps @ [?pcm]) @ qs))" "length (ts_pending st') \<le> 1"
      by auto
    have "ts_pending st = ?pcm @ ts_pending ?st1"
      by (simp add: append_take_drop_id)
    with st' step show ?thesis
      by (intro exI [of _ st'] exI [of _ "?pcm # qs"]) simp
  qed
qed

section \<open>The whole transcode\<close>

text \<open>What ffmpeg produced before its end of file.\<close>

definition stdout_data :: "bytes list \<Rightarrow> bytes" where
  "stdout_data reads = concat (takeWhile (\<lambda>c. c \<noteq> []) reads)"

lemma read_loop_progress:
  assumes "chan_sent (ts_chan st) ps" and "ts_sent st = length (concat ps)"
    and "ts_sent st + length (ts_pending st) + length (stdout_data reads) \<le> max_bytes"
    and "max_bytes \<le> 0xFFFFFFFF" and "length (ts_pending st) \<le> 1"
  shows "\<exists>st' qs. read_loop max_bytes st reads = (None, st') \<and> chan_sent (ts_chan st') (ps @ qs) \<and>
    concat (ps @ qs) @ ts_pending st' = concat ps @ ts_pending st @ stdout_data reads \<and>
    ts_sent st' = length (concat (ps @ qs)) \<and> length (ts_pending st') \<le> 1"
  using assms
proof (induction reads arbitrary: st ps)
  case Nil
  then show ?case
    by (intro exI [of _ st] exI [of _ "[]"]) (simp add: stdout_data_def)
next
  case (Cons chunk rest)
  show ?case
  proof (cases "chunk = []")
    case True
    with Cons.prems show ?thesis
      by (intro exI [of _ st] exI [of _ "[]"]) (simp add: stdout_data_def)
  next
    case False
    let ?st0 = "st\<lparr>ts_pending := ts_pending st @ chunk\<rparr>"
    have data: "stdout_data (chunk # rest) = chunk @ stdout_data rest"
      using False by (simp add: stdout_data_def)
    obtain st1 qs where st1: "drain max_bytes ?st0 = (None, st1)" "chan_sent (ts_chan st1) (ps @ qs)"
      "concat (ps @ qs) @ ts_pending st1 = concat ps @ ts_pending ?st0"
      "ts_sent st1 = length (concat (ps @ qs))" "length (ts_pending st1) \<le> 1"
      using drain_progress [of ?st0 ps max_bytes] Cons.prems data by auto
    have "ts_sent st1 + length (ts_pending st1) = ts_sent st + length (ts_pending ?st0)"
      using arg_cong [OF st1(3), of length] st1(4) Cons.prems(2) by simp
    then obtain st' rs where st': "read_loop max_bytes st1 rest = (None, st')"
      "chan_sent (ts_chan st') ((ps @ qs) @ rs)"
      "concat ((ps @ qs) @ rs) @ ts_pending st' = concat (ps @ qs) @ ts_pending st1 @ stdout_data rest"
      "ts_sent st' = length (concat ((ps @ qs) @ rs))" "length (ts_pending st') \<le> 1"
      using Cons.IH [of st1 "ps @ qs"] st1 Cons.prems data by auto
    have "concat ((ps @ qs) @ rs) @ ts_pending st' = concat ps @ ts_pending st @ stdout_data (chunk # rest)"
      using st'(3) st1(3) data by (metis append.assoc tts_state.select_convs(1) tts_state.surjective tts_state.update_convs(1))
    with st' st1(1) False show ?thesis
      by (intro exI [of _ st'] exI [of _ "qs @ rs"]) simp
  qed
qed

lemma send_tts_eos_ok:
  assumes "chan_sent ch ps" and "length ps \<le> 0xFFFFFFFF"
  shows "\<exists>ch'. send_tts_eos ch = Inr ch' \<and> ch_sent_eos ch' \<and>
    map decode_frame (ch_wire ch') =
      map Inr (tts_frames 0 ps @ [\<lparr>frame_type = TTS_EOS, sequence = int (length ps), payload = []\<rparr>])"
proof -
  let ?raw = "header_pack TTS_EOS 0 (int (length ps))"
  have enc: "encode_frame TTS_EOS (int (length ps)) [] = Inr ?raw"
    using assms(2) by (simp add: encode_frame_eq_Inr well_formed_def frame_type_defs)
  then show ?thesis
    using assms(1) decode_sent [OF enc] by (simp add: send_tts_eos_def chan_sent_def)
qed

lemma transcode_ok:
  assumes "length (stdout_data reads) \<le> max_bytes" and "max_bytes \<le> 0xFFFFFFFF"
    and "even (length (stdout_data reads))"
  shows "\<exists>st ps. stream_result_to_audio max_bytes channel_init reads False 0 = (None, st) \<and>
    concat ps = stdout_data reads \<and> list_all pcm_chunk ps \<and> ts_sent st = length (stdout_data reads) \<and>
    map decode_frame (ch_wire (ts_chan st)) =
      map Inr (tts_frames 0 ps @ [\<lparr>frame_type = TTS_EOS, sequence = int (length ps), payload = []\<rparr>])"
proof -
  let ?st0 = "\<lparr>ts_pending = [], ts_sent = 0, ts_chan = channel_init\<rparr>"
  obtain st ps where st: "read_loop max_bytes ?st0 reads = (None, st)" "chan_sent (ts_chan st) ps"
    "concat ps @ ts_pending st = stdout_data reads" "ts_sent st = length (concat ps)"
    "length (ts_pending st) \<le> 1"
    using read_loop_progress [of ?st0 "[]" reads max_bytes] assms chan_sent_init by auto
  have chunks: "list_all pcm_chunk ps"
    using st(2) by (simp add: chan_sent_def)
  have "even (length (concat ps))"
    using chunks by (induction ps) (auto simp: pcm_chunk_def)
  then have pend: "ts_pending st = []"
    using st(3,5) assms(3) by (cases "ts_pending st") (auto simp flip: st(3))
  then have all: "concat ps = stdout_data reads"
    using st(3) by simp
  have "length ps \<le> length (concat ps)"
    using chunks by (intro length_le_concat) (auto simp: list_all_iff pcm_chunk_def)
  then have "length ps \<le> 0xFFFFFFFF"
    using assms(1,2) all by simp
  from send_tts_eos_ok [OF st(2) this] obtain ch' where
    ch': "send_tts_eos (ts_chan st) = Inr ch'"
    "map decode_frame (ch_wire ch') =
      map Inr (tts_frames 0 ps @ [\<lparr>frame_type = TTS_EOS, sequence = int (length ps), payload = []\<rparr>])"
    by auto
  then show ?thesis
    using st(1,4) pend all chunks
    by (intro exI [of _ "st\<lparr>ts_chan := ch'\<rparr>"] exI [of _ ps]) (simp add: stream_result_to_audio_def)
qed

text \<open>An odd number of PCM bytes is refused after everything else has been sent.\<close>

lemma transcode_odd:
  assumes "length (stdout_data reads) \<le> max_bytes" and "max_bytes \<le> 0xFFFFFFFF"
    and "odd (length (stdout_data reads))"
  shows "fst (stream_result_to_audio max_bytes channel_init reads False 0) = Some OddPcm"
proof -
  let ?st0 = "\<lparr>ts_pending = [], ts_sent = 0, ts_chan = channel_init\<rparr>"
  obtain st ps where st: "read_loop max_bytes ?st0 reads = (None, st)" "chan_sent (ts_chan st) ps"
    "concat ps @ ts_pending st = stdout_data reads"
    using read_loop_progress [of ?st0 "[]" reads max_bytes] assms chan_sent_init by auto
  have "list_all pcm_chunk ps"
    using st(2) by (simp add: chan_sent_def)
  then have "even (length (concat ps))"
    by (induction ps) (auto simp: pcm_chunk_def)
  then have "ts_pending st \<noteq> []"
    using st(3) assms(3) by auto
  with st(1) show ?thesis
    by (simp add: stream_result_to_audio_def)
qed

end
