(* ===== verification/TurnAudio.thy ===== *)
theory TurnAudio
  imports Turn HacsAudio "HOL-Library.Sublist"
begin

text \<open>
  The controller's end of a turn's audio, \<open>controller/em_turn_engine.py\<close>: the receive loop
  of \<open>audio_socket\<close>, the stateful 24 to 48 kHz upsampler and \<open>_tts_chunks\<close> that feed the
  speaker, and \<open>_send_mic\<close> that forwards the device's microphone.

  The scheduler is outside the program: what arrives on the socket and in the voice queue,
  and when the turn is cancelled, are lists of events.
\<close>

section \<open>Receiving TTS\<close>

definition TTS_CAPTURE_BYTES :: nat where "TTS_CAPTURE_BYTES = 120 * 24000 * 2"

text \<open>
  One element per WebSocket message, \<open>None\<close> for one that is not binary. The result says
  with which protocol error, if any, the socket was closed.
\<close>

fun audio_loop :: "seconds \<Rightarrow> turn \<Rightarrow> bytes option list \<Rightarrow> turn \<times> audio_error option" where
  "audio_loop now t [] = (t, None)"
| "audio_loop now t (None # ms) = audio_loop now t ms"
| "audio_loop now t (Some raw # ms) =
     (case bind_res (decode_frame raw) (\<lambda>f. bind_res (accept (tts_seq t) f) (\<lambda>s. Inr (f, s))) of
        Inl e \<Rightarrow> (t, Some e)
      | Inr (f, s) \<Rightarrow>
          let t1 = t\<lparr>tts_seq := s\<rparr> in
          if frame_type f \<notin> {TTS_PCM, TTS_EOS} then (t1, Some UnexpectedDirection)
          else
            let t2 = t1\<lparr>tts_queue := tts_queue t1 @ [if frame_type f = TTS_EOS then None else Some (payload f)]\<rparr>;
                t3 = (if frame_type f = TTS_PCM \<and> capture_audio t2 \<and> length (tts_audio t2) < TTS_CAPTURE_BYTES
                      then t2\<lparr>tts_audio := tts_audio t2 @ take (TTS_CAPTURE_BYTES - length (tts_audio t2)) (payload f)\<rparr>
                      else t2)
            in if frame_type f = TTS_EOS then (t3\<lparr>tts_ended_mono := stamp (tts_ended_mono t3) now\<rparr>, None)
               else audio_loop now t3 ms)"

section \<open>The streaming upsampler\<close>

fun from_s16 :: "bytes \<Rightarrow> int list option" where
  "from_s16 [] = Some []"
| "from_s16 [b] = None"
| "from_s16 (lo # hi # bs) =
     (case from_s16 bs of None \<Rightarrow> None | Some xs \<Rightarrow> Some (sint (word_cat hi lo :: 16 word) # xs))"

definition s16_bytes :: "int \<Rightarrow> bytes" where
  "s16_bytes x = (let w = word_of_int x :: 16 word in [ucast w, ucast (drop_bit 8 w)])"

definition to_s16 :: "int list \<Rightarrow> bytes" where
  "to_s16 xs = concat (map s16_bytes xs)"

text \<open>\<open>out[0::2] = s[:-1]\<close> and \<open>out[1::2] = (s[:-1] + s[1:]) // 2\<close>.\<close>

definition interp :: "int list \<Rightarrow> int list" where
  "interp xs = concat (map2 (\<lambda>a b. [a, (a + b) div 2]) (butlast xs) (tl xs))"

text \<open>The state is \<open>_last\<close>; an odd number of bytes makes \<open>np.frombuffer\<close> raise (\<open>None\<close>).\<close>

definition up_process :: "int option \<Rightarrow> bytes \<Rightarrow> (int option \<times> bytes) option" where
  "up_process prev pl =
     (case from_s16 pl of
        None \<Rightarrow> None
      | Some xs \<Rightarrow>
          if xs = [] then Some (prev, [])
          else let ys = (case prev of None \<Rightarrow> xs | Some l \<Rightarrow> l # xs)
               in Some (Some (last ys), if length ys < 2 then [] else to_s16 (interp ys)))"

definition up_flush :: "int option \<Rightarrow> bytes" where
  "up_flush prev = (case prev of None \<Rightarrow> [] | Some l \<Rightarrow> to_s16 [l, l])"

definition upsample_24_to_48 :: "bytes \<Rightarrow> bytes option" where
  "upsample_24_to_48 pl =
     (case up_process None pl of None \<Rightarrow> None | Some (s, out) \<Rightarrow> Some (out @ up_flush s))"

text \<open>\<open>_tts_chunks\<close>: the chunks yielded, and the queue's end marker seen.\<close>

fun tts_chunks :: "int option \<Rightarrow> bytes option list \<Rightarrow> bytes list option" where
  "tts_chunks prev [] = Some []"
| "tts_chunks prev (None # q) = Some (if up_flush prev = [] then [] else [up_flush prev])"
| "tts_chunks prev (Some chunk # q) =
     (case up_process prev chunk of
        None \<Rightarrow> None
      | Some (l, out) \<Rightarrow>
          (case tts_chunks l q of
             None \<Rightarrow> None
           | Some outs \<Rightarrow> Some (if out = [] then outs else out # outs)))"

section \<open>Sending the microphone\<close>

definition MAX_UTTERANCE_BYTES :: nat where "MAX_UTTERANCE_BYTES = 30 * 16000 * 2"

definition VAD_SENTINEL_TIMEOUT :: string where
  "VAD_SENTINEL_TIMEOUT = ''vad_no_speech_timeout''"

datatype mic_event =
    MTimeout                  \<comment> \<open>the queue stayed empty for a second\<close>
  | MFrame bytes
  | MSentinel "string option" \<comment> \<open>a sentinel, or None\<close>
  | MCancel                   \<comment> \<open>another task cancelled the turn\<close>
  | MSocketLost

datatype mic_status = Running | LoopDone | Returned | Failed audio_error

definition forward :: "turn \<Rightarrow> bytes \<Rightarrow> turn \<times> (audio_error + bytes)" where
  "forward t p =
     (let t1 = (if capture_audio t \<and> length (mic_audio t) < MAX_UTTERANCE_BYTES
                then t\<lparr>mic_audio := mic_audio t @ take (MAX_UTTERANCE_BYTES - length (mic_audio t)) p\<rparr>
                else t)
      in case encode_frame MIC_PCM (mic_sequence t1) p of
           Inl e \<Rightarrow> (t1, Inl e)
         | Inr raw \<Rightarrow> (t1\<lparr>mic_sequence := mic_sequence t1 + 1\<rparr>, Inr raw))"

fun mic_initial :: "turn \<Rightarrow> bytes list \<Rightarrow> turn \<times> bytes list \<times> mic_status" where
  "mic_initial t [] = (t, [], Running)"
| "mic_initial t (p # ps) =
     (if socket t = None \<or> cancelled t then (t, [], Returned)
      else case forward t p of
             (t1, Inl e) \<Rightarrow> (t1, [], Failed e)
           | (t1, Inr raw) \<Rightarrow> (case mic_initial t1 ps of (t2, raws, st) \<Rightarrow> (t2, raw # raws, st)))"

definition on_sentinel :: "string option \<Rightarrow> turn \<Rightarrow> turn" where
  "on_sentinel s t =
     (let t1 = (if s = Some VAD_SENTINEL_TIMEOUT \<and>
                   \<not> (opt_holds (\<lambda>x. x \<noteq> []) (stt_text t) \<or> speech_started t)
                then t\<lparr>no_speech := True\<rparr> else t)
      in t1\<lparr>endpoint := True\<rparr>)"

fun mic_live :: "turn \<Rightarrow> mic_event list \<Rightarrow> turn \<times> bytes list \<times> mic_status" where
  "mic_live t [] = (t, [], if cancelled t then LoopDone else Running)"
| "mic_live t (e # es) =
     (if cancelled t then (t, [], LoopDone)
      else case e of
        MTimeout \<Rightarrow> mic_live t es
      | MCancel \<Rightarrow> mic_live (t\<lparr>cancelled := True\<rparr>) es
      | MSocketLost \<Rightarrow> mic_live (t\<lparr>socket := None\<rparr>) es
      | MSentinel s \<Rightarrow> (on_sentinel s t, [], LoopDone)
      | MFrame p \<Rightarrow>
          if socket t = None then (t\<lparr>endpoint := True\<rparr>, [], Returned)
          else if length p \<noteq> MIC_FRAME_BYTES then mic_live t es
          else if 0 < preroll_remaining t \<and> initial_audio t = []
            then mic_live (t\<lparr>preroll_remaining := preroll_remaining t - 1\<rparr>) es
          else case forward t p of
                 (t1, Inl err) \<Rightarrow> (t1, [], Failed err)
               | (t1, Inr raw) \<Rightarrow>
                   (case mic_live t1 es of (t2, raws, st) \<Rightarrow> (t2, raw # raws, st)))"

definition send_mic :: "turn \<Rightarrow> mic_event list \<Rightarrow> turn \<times> bytes list \<times> mic_status" where
  "send_mic t es =
     (case mic_initial t (initial_audio t) of
        (t1, raws1, Running) \<Rightarrow>
          (case mic_live t1 es of
             (t2, raws2, LoopDone) \<Rightarrow>
               if socket t2 \<noteq> None \<and> \<not> cancelled t2
               then (case encode_frame MIC_EOS (mic_sequence t2) [] of
                       Inl e \<Rightarrow> (t2, raws1 @ raws2, Failed e)
                     | Inr raw \<Rightarrow> (t2, raws1 @ raws2 @ [raw], LoopDone))
               else (t2, raws1 @ raws2, LoopDone)
           | (t2, raws2, st) \<Rightarrow> (t2, raws1 @ raws2, st))
      | r \<Rightarrow> r)"

section \<open>Samples and bytes\<close>

lemma s16_length [simp]: "length (s16_bytes x) = 2"
  by (simp add: s16_bytes_def Let_def)

lemma length_to_s16 [simp]: "length (to_s16 xs) = 2 * length xs"
  by (induction xs) (simp_all add: to_s16_def)

lemma to_s16_append [simp]: "to_s16 (xs @ ys) = to_s16 xs @ to_s16 ys"
  by (simp add: to_s16_def)

lemma to_s16_eq_Nil [simp]: "to_s16 xs = [] \<longleftrightarrow> xs = []"
  by (simp flip: length_0_conv)

lemma from_s16_iff_even: "from_s16 bs \<noteq> None \<longleftrightarrow> even (length bs)"
  by (induction bs rule: from_s16.induct) (auto split: option.split)

lemma from_s16_append:
  "from_s16 bs = Some xs \<Longrightarrow> from_s16 (bs @ cs) = map_option (\<lambda>ys. xs @ ys) (from_s16 cs)"
proof (induction bs arbitrary: xs rule: from_s16.induct)
  case 1
  then show ?case by (cases "from_s16 cs") simp_all
next
  case (2 b)
  then show ?case by simp
next
  case (3 lo hi bs)
  then show ?case by (cases "from_s16 bs"; cases "from_s16 cs") auto
qed

lemma from_s16_length: "from_s16 bs = Some xs \<Longrightarrow> length bs = 2 * length xs"
  by (induction bs arbitrary: xs rule: from_s16.induct) (auto split: option.splits)

lemma interp_Cons2 [simp]: "interp (a # b # xs) = a # (a + b) div 2 # interp (b # xs)"
  by (simp add: interp_def)

lemma interp_small [simp]: "interp [] = []" "interp [a] = []"
  by (simp_all add: interp_def)

text \<open>The held sample carries the interpolation across a chunk boundary.\<close>

lemma interp_append:
  "xs \<noteq> [] \<Longrightarrow> interp (xs @ ys) = interp xs @ interp (last xs # ys)"
proof (induction xs rule: induct_list012)
  case (2 x)
  then show ?case by simp
next
  case (3 x y zs)
  then show ?case by simp
qed simp

lemma length_interp: "length (interp xs) = 2 * (length xs - 1)"
  by (induction xs rule: induct_list012) auto

text \<open>What the upsampler has consumed and emitted, from its two observable parts.\<close>

definition emitted :: "int list \<Rightarrow> bytes" where
  "emitted xs = to_s16 (interp xs)"

definition held :: "int list \<Rightarrow> int option" where
  "held xs = (if xs = [] then None else Some (last xs))"

lemma emitted_Nil [simp]: "emitted [] = []" "held [] = None"
  by (simp_all add: emitted_def held_def to_s16_def)

lemma up_process_held:
  assumes "from_s16 pl = Some ys"
  shows "\<exists>out. up_process (held xs) pl = Some (held (xs @ ys), out) \<and> emitted (xs @ ys) = emitted xs @ out"
proof (cases "ys = []")
  case True
  with assms show ?thesis by (simp add: up_process_def)
next
  case False
  show ?thesis
  proof (cases "xs = []")
    case True
    with False assms show ?thesis
      by (cases ys; cases "tl ys") (auto simp: up_process_def held_def emitted_def Let_def)
  next
    case xs: False
    have "interp (xs @ ys) = interp xs @ interp (last xs # ys)"
      using xs by (rule interp_append)
    with xs False assms show ?thesis
      by (cases ys) (auto simp: up_process_def held_def emitted_def Let_def)
  qed
qed

text \<open>The chunks of a queue, up to its end marker, concatenate to the upsampled whole.\<close>

lemma tts_chunks_concat:
  assumes "from_s16 (concat ps) = Some ys" and "\<forall>p \<in> set ps. even (length p)"
  shows "\<exists>outs. tts_chunks (held xs) (map Some ps @ None # q) = Some outs \<and>
    emitted xs @ concat outs = emitted (xs @ ys) @ up_flush (held (xs @ ys))"
  using assms
proof (induction ps arbitrary: xs ys)
  case Nil
  then show ?case by simp
next
  case (Cons p ps)
  then obtain as where as: "from_s16 p = Some as"
    using from_s16_iff_even [of p] by auto
  then obtain bs where bs: "from_s16 (concat ps) = Some bs" "ys = as @ bs"
    using Cons.prems from_s16_append [OF as, of "concat ps"] by auto
  obtain out where out: "up_process (held xs) p = Some (held (xs @ as), out)"
    "emitted (xs @ as) = emitted xs @ out"
    using up_process_held [OF as] by blast
  obtain outs where "tts_chunks (held (xs @ as)) (map Some ps @ None # q) = Some outs"
    "emitted (xs @ as) @ concat outs = emitted ((xs @ as) @ bs) @ up_flush (held ((xs @ as) @ bs))"
    using Cons.IH [OF bs(1)] Cons.prems(2) by fastforce
  with out bs(2) show ?case by auto
qed

lemma upsample_whole:
  assumes "from_s16 pl = Some ys"
  shows "upsample_24_to_48 pl = Some (emitted ys @ up_flush (held ys))"
proof -
  obtain out where "up_process (held []) pl = Some (held ([] @ ys), out)" "emitted ([] @ ys) = emitted [] @ out"
    using up_process_held [OF assms] by blast
  then show ?thesis
    by (simp add: upsample_24_to_48_def held_def emitted_def split: if_splits)
qed

lemma upsample_length:
  assumes "upsample_24_to_48 pl = Some out"
  shows "length out = 2 * length pl"
proof -
  obtain ys where ys: "from_s16 pl = Some ys"
    using assms by (auto simp: upsample_24_to_48_def up_process_def split: option.splits)
  have "out = emitted ys @ up_flush (held ys)"
    using assms upsample_whole [OF ys] by simp
  then show ?thesis
    using from_s16_length [OF ys]
    by (cases ys) (auto simp: emitted_def held_def up_flush_def length_interp)
qed


section \<open>The receiving loop against the sender's wire\<close>

lemma accept_next:
  "accept \<lparr>expected = n, eos = False\<rparr> \<lparr>frame_type = ft, sequence = n, payload = p\<rparr> =
     Inr \<lparr>expected = n + 1, eos = ft \<in> {MIC_EOS, TTS_EOS}\<rparr>"
  by (simp add: accept_def)

lemma audio_loop_pcm:
  assumes "map decode_frame raws = map Inr (tts_frames n ps)"
    and "tts_seq t = \<lparr>expected = n, eos = False\<rparr>" and "\<not> capture_audio t"
  shows "audio_loop now t (map Some raws @ ms) =
    audio_loop now (t\<lparr>tts_seq := \<lparr>expected = n + int (length ps), eos = False\<rparr>,
                      tts_queue := tts_queue t @ map Some ps\<rparr>) ms"
  using assms
proof (induction ps arbitrary: raws n t)
  case Nil
  then have "t\<lparr>tts_seq := \<lparr>expected = n, eos = False\<rparr>\<rparr> = t"
    by (cases t) simp
  from arg_cong [OF this, of "\<lambda>x. audio_loop now x ms"] Nil show ?case by simp
next
  case (Cons p ps)
  then obtain raw raws' where raws: "raws = raw # raws'"
    "decode_frame raw = Inr \<lparr>frame_type = TTS_PCM, sequence = n, payload = p\<rparr>"
    "map decode_frame raws' = map Inr (tts_frames (n + 1) ps)"
    by (cases raws) auto
  have seq: "accept (tts_seq t) \<lparr>frame_type = TTS_PCM, sequence = n, payload = p\<rparr> =
      Inr \<lparr>expected = n + 1, eos = False\<rparr>"
    using Cons.prems(2) by (simp add: accept_next frame_type_defs)
  show ?case
    using raws(2) Cons.prems(3) seq
      Cons.IH [OF raws(3), of "t\<lparr>tts_seq := \<lparr>expected = n + 1, eos = False\<rparr>,
        tts_queue := tts_queue t @ [Some p]\<rparr>"]
    by (simp add: raws(1) Let_def frame_type_defs algebra_simps)
qed

lemma audio_loop_stream:
  assumes "map decode_frame raws =
      map Inr (tts_frames 0 ps @ [\<lparr>frame_type = TTS_EOS, sequence = int (length ps), payload = []\<rparr>])"
    and "tts_seq t = seq_init" and "\<not> capture_audio t"
  shows "\<exists>t'. audio_loop now t (map Some raws @ ms) = (t', None) \<and>
    tts_queue t' = tts_queue t @ map Some ps @ [None] \<and> eos (tts_seq t')"
proof -
  from assms(1) have "map decode_frame raws = map Inr (tts_frames 0 ps) @
      [Inr \<lparr>frame_type = TTS_EOS, sequence = int (length ps), payload = []\<rparr>]"
    by simp
  then obtain r1 raw where raws: "raws = r1 @ [raw]" "map decode_frame r1 = map Inr (tts_frames 0 ps)"
    "decode_frame raw = Inr \<lparr>frame_type = TTS_EOS, sequence = int (length ps), payload = []\<rparr>"
    by (auto simp: map_eq_append_conv)
  have init: "tts_seq t = \<lparr>expected = 0, eos = False\<rparr>"
    using assms(2) by (simp add: seq_init_def)
  show ?thesis
    using audio_loop_pcm [OF raws(2) init assms(3), of now "Some raw # ms"] raws(3) assms(3)
      accept_next [of "int (length ps)" TTS_EOS "[]"]
    by (simp add: raws(1) Let_def frame_type_defs)
qed


section \<open>What the microphone path sends\<close>

text \<open>The mic frames of a turn, numbered from \<open>n\<close>, as the HACS side decodes them.\<close>

fun mic_numbered :: "int \<Rightarrow> bytes list \<Rightarrow> audio_frame list" where
  "mic_numbered n [] = []"
| "mic_numbered n (p # ps) = \<lparr>frame_type = MIC_PCM, sequence = n, payload = p\<rparr> # mic_numbered (n + 1) ps"

lemma mic_numbered_append:
  "mic_numbered n (ps @ qs) = mic_numbered n ps @ mic_numbered (n + int (length ps)) qs"
  by (induction ps arbitrary: n) (simp_all add: algebra_simps)

lemma length_mic_numbered [simp]: "length (mic_numbered n ps) = length ps"
  by (induction ps arbitrary: n) simp_all

lemma forward_ok:
  assumes "forward t p = (t', Inr raw)"
  shows "decode_frame raw = Inr \<lparr>frame_type = MIC_PCM, sequence = mic_sequence t, payload = p\<rparr> \<and>
    mic_sequence t' = mic_sequence t + 1"
  using assms decode_sent
  by (auto simp: forward_def Let_def split: sum.splits if_splits)

definition on_wire :: "int \<Rightarrow> bytes list \<Rightarrow> bytes list \<Rightarrow> bool" where
  "on_wire n raws qs \<longleftrightarrow> map decode_frame raws = map Inr (mic_numbered n qs)"

lemma on_wire_simps [simp]:
  "on_wire n [] qs \<longleftrightarrow> qs = []"
  "on_wire n raws [] \<longleftrightarrow> raws = []"
  by (cases qs; simp add: on_wire_def)+

lemma on_wire_Cons:
  "decode_frame raw = Inr \<lparr>frame_type = MIC_PCM, sequence = n, payload = p\<rparr> \<Longrightarrow>
     on_wire (n + 1) raws qs \<Longrightarrow> on_wire n (raw # raws) (p # qs)"
  by (simp add: on_wire_def)

lemma on_wire_append:
  "on_wire n raws qs \<Longrightarrow> on_wire (n + int (length qs)) raws' qs' \<Longrightarrow> on_wire n (raws @ raws') (qs @ qs')"
  by (simp add: on_wire_def mic_numbered_append)

lemma mic_initial_wire:
  assumes "mic_initial t ps = (t', raws, st)"
  shows "\<exists>qs. prefix qs ps \<and> on_wire (mic_sequence t) raws qs \<and>
    mic_sequence t' = mic_sequence t + int (length qs) \<and> (st = Running \<longrightarrow> qs = ps) \<and> st \<noteq> LoopDone"
  using assms
proof (induction ps arbitrary: t raws)
  case Nil
  then show ?case by auto
next
  case (Cons p ps)
  show ?case
  proof (cases "socket t = None \<or> cancelled t")
    case True
    with Cons.prems show ?thesis by (intro exI [of _ "[]"]) auto
  next
    case False
    obtain t1 r where f: "forward t p = (t1, r)" by (cases "forward t p")
    show ?thesis
    proof (cases r)
      case (Inl e)
      with Cons.prems False f have "raws = []" "t' = t1" "st = Failed e" by auto
      moreover have "mic_sequence t1 = mic_sequence t"
        using f Inl by (auto simp: forward_def Let_def split: sum.splits if_splits)
      ultimately show ?thesis by (intro exI [of _ "[]"]) simp
    next
      case (Inr raw)
      with Cons.prems False f obtain raws' where
        r': "mic_initial t1 ps = (t', raws', st)" "raws = raw # raws'"
        by (auto split: prod.splits)
      from Cons.IH [OF r'(1)] obtain qs where
        qs: "prefix qs ps" "on_wire (mic_sequence t1) raws' qs"
        "mic_sequence t' = mic_sequence t1 + int (length qs)" "st = Running \<longrightarrow> qs = ps" "st \<noteq> LoopDone"
        by blast
      have fw: "decode_frame raw = Inr \<lparr>frame_type = MIC_PCM, sequence = mic_sequence t, payload = p\<rparr>"
        "mic_sequence t1 = mic_sequence t + 1"
        using forward_ok [of t p t1 raw] f Inr by auto
      show ?thesis
        using qs fw on_wire_Cons [OF fw(1), of raws' qs]
        by (intro exI [of _ "p # qs"]) (simp add: r'(2))
    qed
  qed
qed

text \<open>The live frames of the right size that an event list offers.\<close>

fun live_frames :: "mic_event list \<Rightarrow> bytes list" where
  "live_frames [] = []"
| "live_frames (MFrame p # es) = (if length p = MIC_FRAME_BYTES then p # live_frames es else live_frames es)"
| "live_frames (_ # es) = live_frames es"

lemma forward_error_sequence:
  "forward t p = (t1, Inl e) \<Longrightarrow> mic_sequence t1 = mic_sequence t"
  by (auto simp: forward_def Let_def split: sum.splits if_splits)

lemma mic_live_frame_sent:
  assumes IH: "\<And>t raws. mic_live t es = (t', raws, st) \<Longrightarrow> \<exists>qs. subseq qs (live_frames es) \<and>
      on_wire (mic_sequence t) raws qs \<and> mic_sequence t' = mic_sequence t + int (length qs)"
    and live: "mic_live t (e # es) = (t', raws, st)" and "\<not> cancelled t" and "e = MFrame p"
    and "socket t \<noteq> None" and "length p = MIC_FRAME_BYTES"
    and "\<not> (0 < preroll_remaining t \<and> initial_audio t = [])"
  shows "\<exists>qs. subseq qs (live_frames (e # es)) \<and> on_wire (mic_sequence t) raws qs \<and>
    mic_sequence t' = mic_sequence t + int (length qs)"
proof -
  obtain t1 r where f: "forward t p = (t1, r)" by (cases "forward t p")
  have unf: "mic_live t (e # es) = (case r of Inl err \<Rightarrow> (t1, [], Failed err)
      | Inr raw \<Rightarrow> (case mic_live t1 es of (t2, raws, st) \<Rightarrow> (t2, raw # raws, st)))"
    using assms(3-7) f by auto
  show ?thesis
  proof (cases r)
    case (Inl x)
    with live unf forward_error_sequence [of t p t1 x] f show ?thesis
      by (intro exI [of _ "[]"]) auto
  next
    case (Inr raw)
    then obtain raws' where r': "mic_live t1 es = (t', raws', st)" "raws = raw # raws'"
      using live unf by (auto split: prod.splits)
    have fw: "decode_frame raw = Inr \<lparr>frame_type = MIC_PCM, sequence = mic_sequence t, payload = p\<rparr>"
      "mic_sequence t1 = mic_sequence t + 1"
      using forward_ok [of t p t1 raw] f Inr by auto
    obtain qs where qs: "subseq qs (live_frames es)" "on_wire (mic_sequence t1) raws' qs"
      "mic_sequence t' = mic_sequence t1 + int (length qs)"
      using IH [OF r'(1)] by blast
    then show ?thesis
      using fw on_wire_Cons [OF fw(1), of raws' qs] assms(4,6)
      by (intro exI [of _ "p # qs"]) (simp add: r'(2))
  qed
qed

lemma mic_live_wire:
  assumes "mic_live t es = (t', raws, st)"
  shows "\<exists>qs. subseq qs (live_frames es) \<and> on_wire (mic_sequence t) raws qs \<and>
    mic_sequence t' = mic_sequence t + int (length qs)"
  using assms
proof (induction es arbitrary: t raws)
  case Nil
  then show ?case by (auto split: if_splits)
next
  case (Cons e es)
  show ?case
  proof (cases "cancelled t")
    case True
    with Cons.prems show ?thesis by (intro exI [of _ "[]"]) auto
  next
    case False
    note nc = this
    show ?thesis
    proof (cases e)
      case MTimeout
      with Cons nc show ?thesis by auto
    next
      case (MSentinel x)
      with Cons nc show ?thesis by (intro exI [of _ "[]"]) (auto simp: on_sentinel_def Let_def)
    next
      case MCancel
      with Cons.prems nc Cons.IH [of "t\<lparr>cancelled := True\<rparr>" raws] show ?thesis by auto
    next
      case MSocketLost
      with Cons.prems nc Cons.IH [of "t\<lparr>socket := None\<rparr>" raws] show ?thesis by auto
    next
      case (MFrame p)
      consider "socket t = None" | "socket t \<noteq> None" "length p \<noteq> MIC_FRAME_BYTES"
        | "socket t \<noteq> None" "length p = MIC_FRAME_BYTES" "0 < preroll_remaining t \<and> initial_audio t = []"
        | "socket t \<noteq> None" "length p = MIC_FRAME_BYTES" "\<not> (0 < preroll_remaining t \<and> initial_audio t = [])"
        by blast
      then show ?thesis
      proof cases
        case 1
        with Cons.prems MFrame nc show ?thesis by (intro exI [of _ "[]"]) auto
      next
        case 2
        with Cons.prems MFrame nc Cons.IH [of t raws] show ?thesis by auto
      next
        case 3
        with Cons.prems MFrame nc
          Cons.IH [of "t\<lparr>preroll_remaining := preroll_remaining t - 1\<rparr>" raws] show ?thesis by auto
      next
        case 4
        show ?thesis by (rule mic_live_frame_sent [OF Cons.IH Cons.prems nc MFrame 4])
      qed
    qed
  qed
qed


text \<open>The HACS reader of the microphone stream yields the payloads up to the end of stream.\<close>

lemma mic_frames_on_wire:
  "on_wire n raws qs \<Longrightarrow>
     mic_frames (map Some raws @ ms) = (qs @ fst (mic_frames ms), snd (mic_frames ms))"
proof (induction qs arbitrary: n raws)
  case Nil
  then show ?case by simp
next
  case (Cons q qs)
  then obtain raw raws' where "raws = raw # raws'" "on_wire (n + 1) raws' qs"
    "decode_frame raw = Inr \<lparr>frame_type = MIC_PCM, sequence = n, payload = q\<rparr>"
    by (cases raws) (auto simp: on_wire_def)
  with Cons.IH [of "n + 1" raws'] show ?case
    by (simp add: frame_type_defs Let_def)
qed

lemma numbered_mic:
  "numbered n (mic_numbered n qs @ fs) \<longleftrightarrow> numbered (n + int (length qs)) fs"
  by (induction qs arbitrary: n) (simp_all add: is_eos_def frame_type_defs algebra_simps)

text \<open>Only a loop that ended on its own, with the socket still there, sends the end of stream.\<close>

definition sends_eos :: "turn \<Rightarrow> mic_status \<Rightarrow> bool" where
  "sends_eos t st \<longleftrightarrow> st = LoopDone \<and> socket t \<noteq> None \<and> \<not> cancelled t"

lemma send_mic_wire:
  assumes "send_mic t es = (t', raws, st)"
  shows "\<exists>qs. subseq qs (initial_audio t @ live_frames es) \<and>
    (\<exists>pcm. on_wire (mic_sequence t) pcm qs \<and>
      (if sends_eos t' st
       then \<exists>raw. raws = pcm @ [raw] \<and> decode_frame raw =
              Inr \<lparr>frame_type = MIC_EOS, sequence = mic_sequence t + int (length qs), payload = []\<rparr>
       else raws = pcm))"
proof -
  obtain t1 raws1 st1 where i: "mic_initial t (initial_audio t) = (t1, raws1, st1)"
    by (cases "mic_initial t (initial_audio t)")
  obtain as where as: "prefix as (initial_audio t)" "on_wire (mic_sequence t) raws1 as"
    "mic_sequence t1 = mic_sequence t + int (length as)" "st1 = Running \<longrightarrow> as = initial_audio t"
    "st1 \<noteq> LoopDone"
    using mic_initial_wire [OF i] by blast
  show ?thesis
  proof (cases "st1 = Running")
    case False
    then have "(t', raws, st) = (t1, raws1, st1)"
      using assms i by (cases st1) (auto simp: send_mic_def)
    then show ?thesis
      using as by (intro exI [of _ as]) (auto simp: sends_eos_def intro: subseq_append_iff [THEN iffD2]
          prefix_imp_subseq list_emb_append2)
  next
    case True
    obtain t2 raws2 st2 where l: "mic_live t1 es = (t2, raws2, st2)"
      by (cases "mic_live t1 es")
    obtain bs where bs: "subseq bs (live_frames es)" "on_wire (mic_sequence t1) raws2 bs"
      "mic_sequence t2 = mic_sequence t1 + int (length bs)"
      using mic_live_wire [OF l] by blast
    have sub: "subseq (as @ bs) (initial_audio t @ live_frames es)"
      using as(4) True bs(1) by (simp add: list_emb_append_mono)
    have w: "on_wire (mic_sequence t) (raws1 @ raws2) (as @ bs)"
      using as(2,3) bs(2) by (simp add: on_wire_append)
    show ?thesis
    proof (cases "sends_eos t' st")
      case False
      then have "raws = raws1 @ raws2"
        using assms i l True
        by (auto simp: send_mic_def sends_eos_def split: mic_status.splits if_splits sum.splits)
      with False sub w show ?thesis by auto
    next
      case eos: True
      then obtain raw where raw: "encode_frame MIC_EOS (mic_sequence t2) [] = Inr raw"
        "raws = raws1 @ raws2 @ [raw]"
        using assms i l True
        by (auto simp: send_mic_def sends_eos_def split: mic_status.splits if_splits sum.splits)
      with decode_sent [OF raw(1)] eos sub w as(3) bs(3) show ?thesis
        by (intro exI [of _ "as @ bs"] conjI exI [of _ "raws1 @ raws2"]) (auto simp: algebra_simps)
    qed
  qed
qed


section \<open>Properties\<close>

text \<open>Claim C29: when ffmpeg's output is within the byte limit and a whole
  number of samples, what the HACS transcoder sends over the socket, however its reads were cut,
  is received by the controller without a protocol error, and the chunks the speaker task takes
  from the queue concatenate to the one-shot upsampling of that output, with twice its length.\<close>

theorem tts_reaches_speaker:
  assumes "length (stdout_data reads) \<le> max_bytes" and "max_bytes \<le> 0xFFFFFFFF"
    and "even (length (stdout_data reads))"
    and "tts_seq t = seq_init" and "tts_queue t = []" and "\<not> capture_audio t"
  shows "\<exists>st t' outs. stream_result_to_audio max_bytes channel_init reads False 0 = (None, st) \<and>
    audio_loop now t (map Some (ch_wire (ts_chan st))) = (t', None) \<and>
    tts_chunks None (tts_queue t') = Some outs \<and>
    upsample_24_to_48 (stdout_data reads) = Some (concat outs) \<and>
    length (concat outs) = 2 * length (stdout_data reads)"
proof -
  obtain st ps where st: "stream_result_to_audio max_bytes channel_init reads False 0 = (None, st)"
    "concat ps = stdout_data reads" "list_all pcm_chunk ps"
    "map decode_frame (ch_wire (ts_chan st)) =
      map Inr (tts_frames 0 ps @ [\<lparr>frame_type = TTS_EOS, sequence = int (length ps), payload = []\<rparr>])"
    using transcode_ok [OF assms(1-3)] by blast
  obtain t' where t': "audio_loop now t (map Some (ch_wire (ts_chan st))) = (t', None)"
    "tts_queue t' = map Some ps @ [None]"
    using audio_loop_stream [OF st(4) assms(4,6), of now "[]"] assms(5) by auto
  obtain ys where ys: "from_s16 (concat ps) = Some ys"
    using assms(3) st(2) from_s16_iff_even [of "concat ps"] by auto
  have "\<forall>p \<in> set ps. even (length p)"
    using st(3) by (auto simp: list_all_iff pcm_chunk_def)
  from tts_chunks_concat [OF ys this, of "[]" "[]"] obtain outs where
    outs: "tts_chunks None (map Some ps @ [None]) = Some outs" "concat outs = emitted ys @ up_flush (held ys)"
    by auto
  have up: "upsample_24_to_48 (stdout_data reads) = Some (concat outs)"
    using upsample_whole [OF ys] outs(2) st(2) by simp
  with st(1) t' outs(1) upsample_length [OF up] show ?thesis by auto
qed

theorem tts_reaches_speaker_witness:
  "\<exists>st t' outs. stream_result_to_audio 100 channel_init [[1, 0, 3], [0], []] False 0 = (None, st) \<and>
    audio_loop 9 (new_turn 1 0 5) (map Some (ch_wire (ts_chan st))) = (t', None) \<and>
    tts_chunks None (tts_queue t') = Some outs \<and>
    upsample_24_to_48 [1, 0, 3, 0] = Some (concat outs) \<and> length (concat outs) = 8"
  using tts_reaches_speaker [of "[[1, 0, 3], [0], []]" 100 "new_turn 1 0 5" 9]
  by (simp add: stdout_data_def new_turn_def)

text \<open>whatever the device queues and whenever the turn is cancelled
  or loses its socket, what \<open>_send_mic\<close> puts on the wire is a stream the receiver accepts from
  sequence 0, the HACS side reads exactly a subsequence of the preroll and the full-size live
  frames in their order, and the stream is closed by an end-of-stream frame exactly when the loop
  ended on its own with the socket there and the turn not cancelled.\<close>

theorem mic_stream_arrives:
  assumes "send_mic t es = (t', raws, st)" and "mic_sequence t = 0"
  shows "\<exists>qs fs s. subseq qs (initial_audio t @ live_frames es) \<and>
    mic_frames (map Some raws @ [None]) = (qs, None) \<and>
    map decode_frame raws = map Inr fs \<and> accept_all seq_init fs = Inr s \<and>
    (eos s \<longleftrightarrow> sends_eos t' st)"
proof -
  obtain qs pcm where q: "subseq qs (initial_audio t @ live_frames es)" "on_wire 0 pcm qs"
    "if sends_eos t' st
     then \<exists>raw. raws = pcm @ [raw] \<and> decode_frame raw =
            Inr \<lparr>frame_type = MIC_EOS, sequence = int (length qs), payload = []\<rparr>
     else raws = pcm"
    using send_mic_wire [OF assms(1)] unfolding assms(2) add_0 by blast
  define fs where "fs = mic_numbered 0 qs @ (if sends_eos t' st
      then [\<lparr>frame_type = MIC_EOS, sequence = int (length qs), payload = []\<rparr>] else [])"
  have dec: "map decode_frame raws = map Inr fs"
    using q(2,3) by (auto simp: fs_def on_wire_def split: if_splits)
  have "numbered 0 fs"
    by (simp add: fs_def numbered_mic is_eos_def)
  then obtain s where s: "accept_all seq_init fs = Inr s"
    using accept_all_iff_numbered [of seq_init fs] by (auto simp: seq_init_def)
  have "\<not> (\<exists>f \<in> set (mic_numbered n qs). is_eos f)" for n
    by (induction qs arbitrary: n) (simp_all add: is_eos_def frame_type_defs)
  then have "eos s \<longleftrightarrow> sends_eos t' st"
    using accept_all_state [OF s] by (auto simp: fs_def seq_init_def is_eos_def)
  moreover have "mic_frames (map Some raws @ [None]) = (qs, None)"
    using q(3) mic_frames_on_wire [OF q(2)] by (auto split: if_splits)
  ultimately show ?thesis
    using q(1) dec s by blast
qed

theorem mic_stream_arrives_witness:
  "\<exists>qs fs s. subseq qs [] \<and>
    mic_frames (map Some (fst (snd (send_mic (new_turn 1 0 5\<lparr>socket := Some 3\<rparr>)
      [MTimeout, MSentinel (Some ''vad_end'')]))) @ [None]) = (qs, None) \<and>
    map decode_frame (fst (snd (send_mic (new_turn 1 0 5\<lparr>socket := Some 3\<rparr>)
      [MTimeout, MSentinel (Some ''vad_end'')]))) = map Inr fs \<and>
    accept_all seq_init fs = Inr s \<and> eos s"
proof -
  let ?t = "new_turn 1 0 5\<lparr>socket := Some 3\<rparr>"
  let ?es = "[MTimeout, MSentinel (Some ''vad_end'')]"
  have "mic_live ?t ?es = (?t\<lparr>endpoint := True\<rparr>, [], LoopDone)"
    by (simp add: new_turn_def on_sentinel_def VAD_SENTINEL_TIMEOUT_def)
  then have r: "send_mic ?t ?es = (?t\<lparr>endpoint := True\<rparr>, [header_pack MIC_EOS 0 0], LoopDone)"
    by (simp add: send_mic_def new_turn_def encode_frame_def frame_type_defs)
  show ?thesis
    using mic_stream_arrives [OF r] r by (simp add: new_turn_def sends_eos_def)
qed

end
