(* ===== verification/TurnEngine.thy ===== *)
theory TurnEngine
  imports Turn TurnAudio "HOL-Library.Multiset"
begin

text \<open>
  The registry of live turns and their coroutines, \<open>controller/em_turn_engine.py\<close>:
  \<open>TurnEngine\<close>, the audio socket, \<open>create_turn\<close>, \<open>trigger_voice_turn\<close> with \<open>_run_turn\<close> and
  the closing sequences, and the calls that end turns from outside
  (\<open>cancel_voice_turn\<close>, \<open>abort_voice_turns\<close>, \<open>stop_voice_turn\<close>, \<open>abort_ha_run\<close>,
  \<open>admit_barge\<close>, \<open>confirm_device_started\<close>).

  A coroutine is a task with the await it is suspended at (\<open>stage\<close>); an event of the
  scheduler resumes it, and every handler may run between two events. The awaits of a
  closing sequence (database writes, pushes) are taken as one step. An event a coroutine is
  not waiting for leaves the engine alone. The database hands out turn ids in order.
\<close>

section \<open>State\<close>

datatype stage =
    Offering        \<comment> \<open>\<open>await _push_event(offer)\<close>\<close>
  | Accepting string  \<comment> \<open>\<open>asyncio.wait((accepted, rejected), timeout=TURN_ACCEPT_TIMEOUT_S)\<close>\<close>
  | Starting        \<comment> \<open>\<open>wait_for(turn.device_started.wait(), WAKE_STARTED_TIMEOUT_S)\<close>\<close>
  | AwaitSocket     \<comment> \<open>\<open>_run_turn\<close>: \<open>wait_for(turn.socket_ready.wait(), 15.0)\<close>\<close>
  | AwaitEndpoint   \<comment> \<open>\<open>wait_for(turn.endpoint.wait(), ENDPOINT_WAIT_TIMEOUT_S)\<close>\<close>
  | Responding      \<comment> \<open>\<open>wait_for(turn.post_turn_play(...), ANNOUNCE_TIMEOUT_S)\<close>\<close>
  | AwaitTtsEnd     \<comment> \<open>\<open>turn.tts_end.wait()\<close>\<close>

record task =
  task_stage :: stage
  task_wake :: "wake_info option"       \<comment> \<open>\<open>wake_columns\<close>\<close>
  task_announcement :: bool             \<comment> \<open>\<open>_finish_created_turn\<close>, not \<open>trigger_voice_turn\<close>\<close>
  task_on_admitted :: bool
  task_request :: "string option"       \<comment> \<open>the argument \<open>request_id\<close>\<close>

record engine =
  turns :: "(int \<times> turn) list"
  audio_sockets :: "(int \<times> nat) list"
  tasks :: "(int \<times> task) list"
  heap :: "nat \<Rightarrow> device"
  connected :: "(device_id \<times> nat) list"   \<comment> \<open>\<open>_devices\<close>\<close>
  next_turn_id :: int

definition engine_init :: "(nat \<Rightarrow> device) \<Rightarrow> (device_id \<times> nat) list \<Rightarrow> engine" where
  "engine_init h c = \<lparr>turns = [], audio_sockets = [], tasks = [], heap = h, connected = c,
     next_turn_id = 1\<rparr>"

type_synonym engine_step = "engine \<times> effect list"

definition set_turn :: "int \<Rightarrow> turn \<Rightarrow> engine \<Rightarrow> engine" where
  "set_turn tid t e = e\<lparr>turns := put tid t (turns e)\<rparr>"

definition set_device :: "nat \<Rightarrow> device \<Rightarrow> engine \<Rightarrow> engine" where
  "set_device r d e = e\<lparr>heap := (heap e)(r := d)\<rparr>"

definition then_step :: "engine_step \<Rightarrow> (engine \<Rightarrow> engine_step) \<Rightarrow> engine_step" where
  "then_step p f = (let (e, xs) = p; (e', ys) = f e in (e', xs @ ys))"

text \<open>A step on a registered turn and its device, written back to the engine.\<close>

definition on_turn :: "int \<Rightarrow> (turn \<times> device \<Rightarrow> pair_step) \<Rightarrow> engine \<Rightarrow> engine_step" where
  "on_turn tid f e =
     (case map_of (turns e) tid of
        None \<Rightarrow> (e, [])
      | Some t \<Rightarrow>
          let ((t', d'), es) = f (t, heap e (turn_dev t))
          in (set_device (turn_dev t) d' (set_turn tid t' e), es))"

section \<open>The audio socket\<close>

definition register_audio_socket :: "int \<Rightarrow> nat \<Rightarrow> engine \<Rightarrow> engine" where
  "register_audio_socket tid ws e = e\<lparr>audio_sockets := put tid ws (audio_sockets e)\<rparr>"

definition unregister_audio_socket :: "int \<Rightarrow> nat \<Rightarrow> engine \<Rightarrow> engine" where
  "unregister_audio_socket tid ws e =
     (let e1 = (if map_of (audio_sockets e) tid = Some ws
                then e\<lparr>audio_sockets := pop tid (audio_sockets e)\<rparr> else e)
      in case map_of (turns e1) tid of
           None \<Rightarrow> e1
         | Some t \<Rightarrow>
             if socket t = Some ws
             then set_turn tid (t\<lparr>socket := None, tts_queue := tts_queue t @ [None]\<rparr>) e1
             else e1)"

datatype socket_reply = NoSuchTurn | AlreadyConnected | Opened

definition audio_open :: "int \<Rightarrow> nat \<Rightarrow> engine \<Rightarrow> socket_reply \<times> engine_step" where
  "audio_open tid ws e =
     (case map_of (turns e) tid of
        None \<Rightarrow> (NoSuchTurn, (e, []))
      | Some t \<Rightarrow>
          if socket t \<noteq> None then (AlreadyConnected, (e, []))
          else (Opened,
                (set_turn tid (t\<lparr>socket := Some ws, socket_ready := True\<rparr>) (register_audio_socket tid ws e),
                 [PushState (dev_id (heap e (turn_dev t))) tid ''listening''])))"

definition audio_close :: "int \<Rightarrow> nat \<Rightarrow> engine \<Rightarrow> engine" where
  "audio_close tid ws e =
     (let e1 = unregister_audio_socket tid ws e
      in case map_of (turns e1) tid of
           None \<Rightarrow> e1
         | Some t \<Rightarrow> set_turn tid (t\<lparr>tts_end := True\<rparr>) e1)"

text \<open>
  Messages on the connection \<open>ws\<close>. A protocol error or the end of stream leaves the loop, and
  the \<open>finally\<close> unregisters the socket.
\<close>

definition audio_messages :: "seconds \<Rightarrow> int \<Rightarrow> nat \<Rightarrow> bytes option list \<Rightarrow> engine \<Rightarrow> engine" where
  "audio_messages now tid ws ms e =
     (case map_of (turns e) tid of
        None \<Rightarrow> e
      | Some t \<Rightarrow>
          if socket t \<noteq> Some ws then e
          else let (t', err) = audio_loop now t ms; e1 = set_turn tid t' e
               in if err \<noteq> None \<or> eos (tts_seq t') then audio_close tid ws e1 else e1)"

section \<open>Creating turns\<close>

datatype create_reply = DeviceOffline | StopwordUnavailable | UnsupportedKind | CreateFailed | Created int

text \<open>
  \<open>body\<close> is what \<open>request.json()\<close> gave (\<open>None\<close> when it raised); a body that is not an object
  makes \<open>body.get\<close> raise.
\<close>

definition add_turn :: "int \<Rightarrow> turn \<Rightarrow> task \<Rightarrow> engine \<Rightarrow> engine" where
  "add_turn tid t k e =
     e\<lparr>turns := put tid t (turns e), tasks := put tid k (tasks e), next_turn_id := tid + 1\<rparr>"

definition create_turn ::
  "seconds \<Rightarrow> device_id \<Rightarrow> json option \<Rightarrow> bool \<Rightarrow> engine \<Rightarrow> create_reply \<times> engine_step" where
  "create_turn now did body capture e =
     (case map_of (connected e) did of
        None \<Rightarrow> (DeviceOffline, (e, []))
      | Some r \<Rightarrow>
          if \<not> (stopword_capable (heap e r) \<and> stop_model_ready (heap e r))
          then (StopwordUnavailable, (e, []))
          else case body_dict body of
            None \<Rightarrow> (CreateFailed, (e, []))
          | Some b \<Rightarrow>
              if get_default b ''kind'' (JStr ''announcement'') \<noteq> JStr ''announcement''
              then (UnsupportedKind, (e, []))
              else
                let tid = next_turn_id e;
                    t = (new_turn tid r now)\<lparr>kind := ''announcement'', has_on_thinking := False,
                           capture_audio := capture, endpoint := True\<rparr>;
                    k = \<lparr>task_stage = AwaitSocket, task_wake = None, task_announcement = True,
                         task_on_admitted = False, task_request = None\<rparr>
                in (Created tid, (add_turn tid t k e, [DbCreateTurn tid did ''announcement''])))"

record trigger =
  trig_dev :: nat
  trig_label :: string
  trig_preroll :: int
  trig_initial_audio :: "bytes list"
  trig_on_transcript :: bool
  trig_stt_only :: bool
  trig_request_id :: "string option"
  trig_on_admitted :: bool
  trig_capture :: bool                  \<comment> \<open>\<open>device.save_utterances\<close>\<close>

text \<open>
  \<open>trigger_voice_turn\<close> up to the push of its offer. The database id is only reserved when the
  task is cancelled during the insert; the turn is then recorded as disconnected.
\<close>

definition trigger_voice_turn :: "seconds \<Rightarrow> trigger \<Rightarrow> engine \<Rightarrow> engine_step" where
  "trigger_voice_turn now g e =
     (let r = trig_dev g; d = heap e r; tid = next_turn_id e;
          t = (new_turn tid r now)\<lparr>preroll_remaining := trig_preroll g, capture_audio := trig_capture g,
                 initial_audio := trig_initial_audio g, has_on_transcript := trig_on_transcript g,
                 stt_only := trig_stt_only g, request_id := trig_request_id g\<rparr>;
          k = \<lparr>task_stage = Offering, task_wake = last_wake d, task_announcement = False,
               task_on_admitted = trig_on_admitted g, task_request = trig_request_id g\<rparr>
      in (add_turn tid t k (set_device r (d\<lparr>last_wake := None\<rparr>) e),
          [DbCreateTurn tid (dev_id d) (trig_label g),
           PushOffer (dev_id d) tid (trig_label g) (trig_request_id g)]))"

definition trigger_cancelled_in_insert :: "nat \<Rightarrow> string \<Rightarrow> engine \<Rightarrow> engine_step" where
  "trigger_cancelled_in_insert r label e =
     (let d = heap e r; tid = next_turn_id e
      in (set_device r (d\<lparr>last_wake := None\<rparr>) (e\<lparr>next_turn_id := tid + 1\<rparr>),
          [DbCreateTurn tid (dev_id d) label, DbOutcome tid ''disconnected'']))"

section \<open>The closing sequences\<close>

definition persist_audio :: "turn \<Rightarrow> effect list" where
  "persist_audio t =
     (if \<not> capture_audio t then []
      else (if mic_audio t = [] then [] else [SaveAudio (turn_id t) ''stt'' (mic_audio t)]) @
           (if tts_audio t = [] then [] else [SaveAudio (turn_id t) ''tts'' (tts_audio t)]))"

definition finish_unstarted ::
  "seconds \<Rightarrow> wake_info option \<Rightarrow> string \<Rightarrow> turn \<times> device \<Rightarrow> pair_step" where
  "finish_unstarted now wake outcome = (\<lambda>(t, d).
     let t1 = end_turn outcome True t in
     seq_steps turn_disarm_stop
       ((t1, d), [PushCancel (dev_id d) (turn_id t) outcome,
                  DbUpdateTurn (turn_id t) (turn_record now t1 outcome) wake,
                  RememberTurn (turn_id t), PushTerminal (dev_id d) (turn_id t) outcome]))"

definition finish_turn ::
  "seconds \<Rightarrow> wake_info option \<Rightarrow> string \<Rightarrow> turn \<times> device \<Rightarrow> pair_step" where
  "finish_turn now wake outcome = (\<lambda>(t, d).
     seq_steps turn_disarm_stop
       ((t, d), [DbUpdateTurn (turn_id t) (turn_record now t outcome) wake] @ persist_audio t @
                [RememberTurn (turn_id t), PushTerminal (dev_id d) (turn_id t) outcome]))"

definition drop_turn :: "int \<Rightarrow> engine \<Rightarrow> engine" where
  "drop_turn tid e =
     e\<lparr>turns := pop tid (turns e), audio_sockets := pop tid (audio_sockets e), tasks := pop tid (tasks e)\<rparr>"

definition close_with :: "int \<Rightarrow> (turn \<times> device \<Rightarrow> pair_step) \<Rightarrow> engine \<Rightarrow> engine_step" where
  "close_with tid f e = then_step (on_turn tid f e) (\<lambda>e'. (drop_turn tid e', []))"

section \<open>Resuming a coroutine\<close>

datatype wakeup =
    Completed                  \<comment> \<open>what the task waits for has happened\<close>
  | TimedOut                   \<comment> \<open>the wait's timeout has passed\<close>
  | CancelTask                 \<comment> \<open>\<open>task.cancel()\<close>\<close>
  | Raised                     \<comment> \<open>playback raised something else\<close>

definition set_stage :: "int \<Rightarrow> stage \<Rightarrow> engine \<Rightarrow> engine" where
  "set_stage tid st e =
     (case map_of (tasks e) tid of
        None \<Rightarrow> e
      | Some k \<Rightarrow> e\<lparr>tasks := put tid (k\<lparr>task_stage := st\<rparr>) (tasks e)\<rparr>)"

text \<open>
  The acceptance step, with \<open>valid\<close> what \<open>admission_valid()\<close> answers (true when there is no
  such callback) and \<open>finished\<close> whether one of the two waits was done.
\<close>

definition after_accept ::
  "seconds \<Rightarrow> bool \<Rightarrow> bool \<Rightarrow> wake_info option \<Rightarrow> string \<Rightarrow> int \<Rightarrow> turn \<Rightarrow> engine \<Rightarrow> engine_step" where
  "after_accept now finished valid wake rid tid t e =
     (let did = dev_id (heap e (turn_dev t)) in
      if \<not> finished \<or> rejected_ev t \<or> \<not> accepted_ev t
      then then_step (e, [CtlWakeDeny did rid ''backend_unavailable''])
             (close_with tid (finish_unstarted now wake ''backend_unavailable''))
      else if \<not> valid
      then then_step (e, [CtlWakeDeny did rid ''disconnected''])
             (close_with tid (finish_unstarted now wake ''disconnected''))
      else (set_stage tid Starting e, [CtlWakeGrant did rid tid]))"

definition end_run :: "seconds \<Rightarrow> wake_info option \<Rightarrow> bool \<Rightarrow> int \<Rightarrow> turn \<Rightarrow> engine \<Rightarrow> engine_step" where
  "end_run now wake result tid t e = close_with tid (finish_turn now wake (outcome_for t result)) e"

definition time_out :: "seconds \<Rightarrow> wake_info option \<Rightarrow> int \<Rightarrow> engine \<Rightarrow> engine_step" where
  "time_out now wake tid e = close_with tid (finish_turn now wake ''audio_timeout'') e"

definition resume :: "seconds \<Rightarrow> int \<Rightarrow> wakeup \<Rightarrow> bool \<Rightarrow> engine \<Rightarrow> engine_step" where
  "resume now tid w valid e =
     (case (map_of (turns e) tid, map_of (tasks e) tid) of
        (Some t, Some k) \<Rightarrow>
          let wake = task_wake k in
          if w = CancelTask \<and> \<not> task_announcement k
          then close_with tid (finish_unstarted now wake ''disconnected'') e
          else (case (task_stage k, w) of
            (Offering, Completed) \<Rightarrow>
              (set_stage tid (case task_request k of None \<Rightarrow> AwaitSocket | Some rid \<Rightarrow> Accepting rid) e, [])
          | (Accepting rid, Completed) \<Rightarrow>
              if (accepted_ev t \<and> socket_ready t) \<or> rejected_ev t
              then after_accept now True valid wake rid tid t e
              else (e, [])
          | (Accepting rid, TimedOut) \<Rightarrow> after_accept now False valid wake rid tid t e
          | (Starting, Completed) \<Rightarrow>
              if device_started t
              then (set_stage tid AwaitSocket e, if task_on_admitted k then [OnAdmitted tid] else [])
              else (e, [])
          | (Starting, TimedOut) \<Rightarrow> close_with tid (finish_unstarted now wake ''device_not_started'') e
          | (AwaitSocket, Completed) \<Rightarrow>
              if socket_ready t then (set_stage tid AwaitEndpoint e, []) else (e, [])
          | (AwaitSocket, TimedOut) \<Rightarrow> time_out now wake tid e
          | (AwaitEndpoint, Completed) \<Rightarrow>
              if \<not> endpoint t then (e, [])
              else if cancelled t then end_run now wake False tid t e
              else if no_speech t then end_run now wake True tid t e
              else if socket t \<noteq> None
              then (set_stage tid Responding e, [PushState (dev_id (heap e (turn_dev t))) tid ''responding''])
              else (set_stage tid AwaitTtsEnd e, [])
          | (AwaitEndpoint, TimedOut) \<Rightarrow> time_out now wake tid e
          | (Responding, Completed) \<Rightarrow> end_run now wake (\<not> cancelled t) tid t e
          | (Responding, TimedOut) \<Rightarrow> time_out now wake tid e
          | (Responding, Raised) \<Rightarrow>
              if task_announcement k then close_with tid (finish_turn now wake ''error'') e
              else (drop_turn tid e, [RaisedToCaller tid])
          | (AwaitTtsEnd, Completed) \<Rightarrow>
              if tts_end t then end_run now wake (\<not> cancelled t) tid t e else (e, [])
          | _ \<Rightarrow> (e, []))
      | _ \<Rightarrow> (e, []))"

section \<open>Ending turns from outside\<close>

definition of_device :: "device_id \<Rightarrow> engine \<Rightarrow> turn \<Rightarrow> bool" where
  "of_device did e t \<longleftrightarrow> dev_id (heap e (turn_dev t)) = did"

definition end_turns :: "device_id \<Rightarrow> string \<Rightarrow> bool \<Rightarrow> engine \<Rightarrow> engine" where
  "end_turns did why_ended cancel e =
     e\<lparr>turns := map (\<lambda>(i, t). (i, if of_device did e t then end_turn why_ended cancel t else t)) (turns e)\<rparr>"

definition cancel_voice_turn :: "device_id \<Rightarrow> string \<Rightarrow> engine \<Rightarrow> engine \<times> int list" where
  "cancel_voice_turn did why_ended e =
     (end_turns did why_ended True e,
      map (\<lambda>(i, t). turn_id t) (filter (\<lambda>(i, t). of_device did e t) (turns e)))"

definition abort_voice_turns :: "device_id \<Rightarrow> string \<Rightarrow> engine \<Rightarrow> engine_step" where
  "abort_voice_turns did why_ended e =
     (let (e', ended) = cancel_voice_turn did why_ended e
      in (e', map (\<lambda>tid. PushCancel did tid why_ended) ended))"

definition confirm_device_started :: "nat \<Rightarrow> string \<Rightarrow> int \<Rightarrow> engine \<Rightarrow> bool \<times> engine" where
  "confirm_device_started r rid tid e =
     (case map_of (turns e) tid of
        None \<Rightarrow> (False, e)
      | Some t \<Rightarrow>
          if turn_dev t \<noteq> r \<or> request_id t \<noteq> Some rid \<or> cancelled t then (False, e)
          else (True, set_turn tid (t\<lparr>device_started := True\<rparr>) e))"

definition stop_voice_turn :: "device_id \<Rightarrow> int \<Rightarrow> stop_info option \<Rightarrow> engine \<Rightarrow> bool \<times> engine_step" where
  "stop_voice_turn did tid det e =
     (case map_of (turns e) tid of
        None \<Rightarrow> (False, (e, []))
      | Some t \<Rightarrow>
          if \<not> of_device did e t then (False, (e, []))
          else (True,
                (set_turn tid (end_turn ''stopped'' True
                   (if det \<noteq> None then t\<lparr>stop_detection := det\<rparr> else t)) e,
                 [PushCancel did tid ''stop''])))"

definition abort_ha_run :: "device_id \<Rightarrow> engine \<Rightarrow> engine" where
  "abort_ha_run did e = end_turns did ''barged'' False e"

text \<open>\<open>round(x, 4)\<close>.\<close>

definition round4 :: "rat \<Rightarrow> rat" where
  "round4 x = of_int (py_round (x * 10000)) / 10000"

definition active_turn :: "nat \<Rightarrow> engine \<Rightarrow> (int \<times> turn) option" where
  "active_turn r e = find (\<lambda>(i, t). turn_dev t = r \<and> \<not> cancelled t) (turns e)"

definition admit_barge ::
  "nat \<Rightarrow> string \<Rightarrow> rat \<Rightarrow> rat \<Rightarrow> int \<Rightarrow> bool \<Rightarrow> engine \<Rightarrow> bool \<times> engine_step" where
  "admit_barge r rid score threshold activation_seq valid e =
     (let d = heap e r in
      case active_turn r e of
        None \<Rightarrow> (False, (e, [CtlWakeDeny (dev_id d) rid ''busy'']))
      | Some (tid, t) \<Rightarrow>
          if \<not> valid then (False, (e, [CtlWakeDeny (dev_id d) rid ''disconnected'']))
          else
            let d' = d\<lparr>barge_detected := True, barge_request_id := Some rid, cancel_event := True,
                       last_wake := Some \<lparr>wake_model = oww_model d, wake_score = round4 score,
                         wake_threshold = round4 threshold, wake_activation_seq = activation_seq,
                         wake_age_ms = None\<rparr>\<rparr>
            in (True,
                (set_device r d' (set_turn tid (end_turn ''barged'' True t) e),
                 [PushCancel (dev_id d) (turn_id t) ''barge''] @
                 (if speaking d then [CtlSpeakerFlush (dev_id d)] else []))))"

section \<open>The engine as a state machine\<close>

datatype call =
    CCreate device_id "json option" bool
  | CTrigger trigger
  | CTriggerCancelled nat string
  | CResume int wakeup bool
  | CRest int string "json option"
  | CAudioOpen int nat
  | CAudioMessages int nat "bytes option list"
  | CAudioClose int nat
  | CCancel device_id string
  | CAbort device_id string
  | CConfirm nat string int
  | CStop device_id int "stop_info option"
  | CAbortRun device_id
  | CBarge nat string rat rat int bool

text \<open>\<open>dl\<close> is \<open>len(json.dumps(v).encode())\<close>, as in \<open>turn_action\<close>.\<close>

fun engine_call :: "(json \<Rightarrow> nat) \<Rightarrow> engine \<Rightarrow> seconds \<times> call \<Rightarrow> engine_step" where
  "engine_call dl e (now, CCreate did b cap) = snd (create_turn now did b cap e)"
| "engine_call dl e (now, CTrigger g) = trigger_voice_turn now g e"
| "engine_call dl e (now, CTriggerCancelled r label) = trigger_cancelled_in_insert r label e"
| "engine_call dl e (now, CResume tid w v) = resume now tid w v e"
| "engine_call dl e (now, CRest tid a b) = on_turn tid (\<lambda>s. snd (turn_action dl now a b s)) e"
| "engine_call dl e (now, CAudioOpen tid ws) = snd (audio_open tid ws e)"
| "engine_call dl e (now, CAudioMessages tid ws ms) = (audio_messages now tid ws ms e, [])"
| "engine_call dl e (now, CAudioClose tid ws) = (audio_close tid ws e, [])"
| "engine_call dl e (now, CCancel did r) = (fst (cancel_voice_turn did r e), [])"
| "engine_call dl e (now, CAbort did r) = abort_voice_turns did r e"
| "engine_call dl e (now, CConfirm r rid tid) = (snd (confirm_device_started r rid tid e), [])"
| "engine_call dl e (now, CStop did tid det) = snd (stop_voice_turn did tid det e)"
| "engine_call dl e (now, CAbortRun did) = (abort_ha_run did e, [])"
| "engine_call dl e (now, CBarge r rid s th sq v) = snd (admit_barge r rid s th sq v e)"

section \<open>What the effects of a run say\<close>

fun created1 :: "effect \<Rightarrow> int list" where
  "created1 (DbCreateTurn i _ _) = [i]" | "created1 _ = []"

fun settled1 :: "effect \<Rightarrow> int list" where
  "settled1 (PushTerminal _ i _) = [i]" | "settled1 (DbOutcome i _) = [i]"
| "settled1 (RaisedToCaller i) = [i]" | "settled1 _ = []"

fun recorded1 :: "effect \<Rightarrow> (int \<times> string) list" where
  "recorded1 (DbUpdateTurn i row _) = [(i, row_outcome row)]" | "recorded1 _ = []"

fun announced1 :: "effect \<Rightarrow> (int \<times> string) list" where
  "announced1 (PushTerminal _ i x) = [(i, x)]" | "announced1 _ = []"

fun granted1 :: "effect \<Rightarrow> int list" where
  "granted1 (CtlWakeGrant _ _ i) = [i]" | "granted1 _ = []"

definition created :: "effect list \<Rightarrow> int list" where "created es = concat (map created1 es)"
definition settled :: "effect list \<Rightarrow> int list" where "settled es = concat (map settled1 es)"
definition recorded :: "effect list \<Rightarrow> (int \<times> string) list" where "recorded es = concat (map recorded1 es)"
definition announced :: "effect list \<Rightarrow> (int \<times> string) list" where "announced es = concat (map announced1 es)"
definition granted :: "effect list \<Rightarrow> int list" where "granted es = concat (map granted1 es)"

lemmas trace_defs = created_def settled_def recorded_def announced_def granted_def

lemma trace_Nil [simp]:
  "created [] = []" "settled [] = []" "recorded [] = []" "announced [] = []" "granted [] = []"
  by (simp_all add: trace_defs)

lemma trace_Cons [simp]:
  "created (x # xs) = created1 x @ created xs" "settled (x # xs) = settled1 x @ settled xs"
  "recorded (x # xs) = recorded1 x @ recorded xs" "announced (x # xs) = announced1 x @ announced xs"
  "granted (x # xs) = granted1 x @ granted xs"
  by (simp_all add: trace_defs)

lemma trace_append [simp]:
  "created (xs @ ys) = created xs @ created ys" "settled (xs @ ys) = settled xs @ settled ys"
  "recorded (xs @ ys) = recorded xs @ recorded ys" "announced (xs @ ys) = announced xs @ announced ys"
  "granted (xs @ ys) = granted xs @ granted ys"
  by (simp_all add: trace_defs)

definition quiet :: "effect list \<Rightarrow> bool" where
  "quiet es \<longleftrightarrow> created es = [] \<and> settled es = [] \<and> recorded es = [] \<and> announced es = [] \<and> granted es = []"

lemma quiet_simps [simp]:
  "quiet []" "quiet (xs @ ys) \<longleftrightarrow> quiet xs \<and> quiet ys"
  by (auto simp: quiet_def)

lemma quiet_Cons [simp]: "quiet (x # y # xs) \<longleftrightarrow> quiet [x] \<and> quiet (y # xs)"
  by (auto simp: quiet_def)

lemma quiet_single [simp]:
  "quiet [PushState a i b]" "quiet [PushCancel a i b]" "quiet [PushOffer a i b rid]"
  "quiet [CtlStopArm a i j p]" "quiet [CtlStopDisarm a i]" "quiet [CtlNoSpeechDisarm a]"
  "quiet [CtlWakeDeny a b c]" "quiet [CtlSpeakerFlush a]" "quiet [OnThinking i]"
  "quiet [OnTranscript i b]" "quiet [OnAdmitted i]" "quiet [DbToolCall i j b c v w x]"
  "quiet [SaveAudio i b bs]" "quiet [RememberTurn i]"
  by (simp_all add: quiet_def)

lemma quiet_seq_steps: "quiet (snd p) \<Longrightarrow> quiet (snd (f (fst p))) \<Longrightarrow> quiet (snd (seq_steps f p))"
  by (simp add: snd_seq_steps)

lemma quiet_arm: "quiet (snd (turn_arm_stop now ph s))"
  by (simp add: turn_arm_stop_def case_prod_beta Let_def)

lemma quiet_disarm: "quiet (snd (turn_disarm_stop s))"
  by (simp add: turn_disarm_stop_def case_prod_beta split: option.split)

lemma quiet_disarm_ns: "quiet (snd (disarm_no_speech s))"
  by (simp add: disarm_no_speech_def case_prod_beta)

lemma quiet_transcript: "quiet (snd (act_transcript now b s))"
  by (simp add: act_transcript_def snd_seq_steps quiet_disarm_ns case_prod_beta Let_def split: option.split)

lemma quiet_endpoint: "quiet (snd (act_endpoint now s))"
  by (simp add: act_endpoint_def snd_seq_steps emit_def quiet_arm case_prod_beta Let_def)

lemma quiet_speech_start: "quiet (snd (act_speech_start now s))"
  by (simp add: act_speech_start_def quiet_disarm_ns case_prod_beta)

lemma quiet_tool_call: "quiet (snd (snd (act_tool_call dl b s)))"
  by (auto simp: act_tool_call_def Let_def split: option.split json.split)

lemma quiet_with_body: "(\<And>d. quiet (snd (f d))) \<Longrightarrow> quiet (snd (snd (with_body b s f)))"
  by (simp add: with_body_def split: option.split)

lemma quiet_turn_action: "quiet (snd (snd (turn_action dl now a b s)))"
  by (simp add: turn_action_def quiet_transcript quiet_endpoint quiet_speech_start quiet_tool_call
      quiet_with_body quiet_arm case_prod_beta Let_def)

lemma quiet_persist: "quiet (persist_audio t)"
  by (simp add: persist_audio_def)

section \<open>The engine invariant\<close>

definition turn_good :: "int \<Rightarrow> turn \<Rightarrow> bool" where
  "turn_good i t \<longleftrightarrow> turn_id t = i \<and> \<not> (accepted_ev t \<and> rejected_ev t) \<and>
     (cancelled t \<longrightarrow> endpoint t \<and> end_reason t \<noteq> None)"

definition engine_ok :: "engine \<Rightarrow> bool" where
  "engine_ok e \<longleftrightarrow>
     map fst (tasks e) = map fst (turns e) \<and> distinct (map fst (turns e)) \<and>
     (\<forall>(i, t) \<in> set (turns e). i < next_turn_id e \<and> turn_good i t) \<and>
     fst ` set (audio_sockets e) \<subseteq> fst ` set (turns e)"

lemma turn_good_end_turn [simp]: "turn_good i t \<Longrightarrow> turn_good i (end_turn r c t)"
  by (auto simp: turn_good_def turn_frame end_turn_reason split: option.split)

lemma turn_good_iff_ok: "turn_good i t \<longleftrightarrow> turn_id t = i \<and> turn_ok (t, d)"
  by (simp add: turn_good_def turn_ok_def)

lemma turn_id_action: "turn_id (fst (fst (snd (turn_action dl now a b s)))) = turn_id (fst s)"
  by (auto simp: turn_action_def with_body_frame turn_frame case_prod_beta Let_def split: option.split)

lemma turn_good_action:
  "turn_good i t \<Longrightarrow> turn_good i (fst (fst (snd (turn_action dl now a b (t, d)))))"
  using turn_ok_step [of "(t, d)" dl "(now, a, b)"] turn_id_action [of dl now a b "(t, d)"]
  by (cases "fst (snd (turn_action dl now a b (t, d)))")
    (auto simp: turn_good_iff_ok [where d = d] turn_ok_def fst_action_step)

lemma engine_ok_lookup:
  "engine_ok e \<Longrightarrow> map_of (turns e) tid = Some t \<Longrightarrow> turn_good tid t \<and> tid < next_turn_id e"
  by (auto simp: engine_ok_def dest: map_of_SomeD)

lemma engine_ok_set_turn:
  assumes "engine_ok e" and "map_of (turns e) tid = Some t0" and "turn_good tid t"
  shows "engine_ok (set_turn tid t e)"
proof -
  have mem: "tid \<in> fst ` set (turns e)"
    using assms(2) by (force dest: map_of_SomeD)
  have "tid < next_turn_id e"
    using engine_ok_lookup [OF assms(1,2)] by simp
  with assms(1,3) mem set_put_subset [of tid t "turns e"] show ?thesis
    by (auto simp: engine_ok_def set_turn_def map_fst_put_mem insert_absorb)
qed

lemma keys_set_turn:
  "map_of (turns e) tid = Some t0 \<Longrightarrow> map fst (turns (set_turn tid t e)) = map fst (turns e)"
  by (force simp: set_turn_def intro!: map_fst_put_mem dest: map_of_SomeD)

lemma set_turn_sel [simp]:
  "tasks (set_turn tid t e) = tasks e" "next_turn_id (set_turn tid t e) = next_turn_id e"
  "audio_sockets (set_turn tid t e) = audio_sockets e" "heap (set_turn tid t e) = heap e"
  "turns (set_turn tid t e) = put tid t (turns e)" "connected (set_turn tid t e) = connected e"
  by (simp_all add: set_turn_def)

lemma set_device_sel [simp]:
  "tasks (set_device r d e) = tasks e" "next_turn_id (set_device r d e) = next_turn_id e"
  "audio_sockets (set_device r d e) = audio_sockets e" "turns (set_device r d e) = turns e"
  "heap (set_device r d e) = (heap e)(r := d)" "connected (set_device r d e) = connected e"
  by (simp_all add: set_device_def)

lemma engine_ok_set_device [simp]: "engine_ok (set_device r d e) \<longleftrightarrow> engine_ok e"
  by (simp add: engine_ok_def)

text \<open>Most calls only write to turns that are there.\<close>

definition keeps :: "engine \<Rightarrow> engine \<Rightarrow> bool" where
  "keeps e e' \<longleftrightarrow> engine_ok e' \<and> map fst (turns e') = map fst (turns e) \<and>
     tasks e' = tasks e \<and> next_turn_id e' = next_turn_id e"

lemma keeps_refl: "engine_ok e \<Longrightarrow> keeps e e"
  by (simp add: keeps_def)

lemma keeps_trans: "keeps e e1 \<Longrightarrow> keeps e1 e2 \<Longrightarrow> keeps e e2"
  by (simp add: keeps_def)

lemma keeps_set_turn:
  "engine_ok e \<Longrightarrow> map_of (turns e) tid = Some t0 \<Longrightarrow> turn_good tid t \<Longrightarrow> keeps e (set_turn tid t e)"
  using keys_set_turn [of e tid t0 t] by (simp add: keeps_def engine_ok_set_turn)

lemma keeps_set_device: "keeps e e' \<Longrightarrow> keeps e (set_device r d e')"
  by (simp add: keeps_def)

lemma keeps_on_turn:
  assumes "engine_ok e" and "\<And>t d. turn_good tid t \<Longrightarrow> turn_good tid (fst (fst (f (t, d))))"
  shows "keeps e (fst (on_turn tid f e))"
proof (cases "map_of (turns e) tid")
  case None
  then show ?thesis using assms(1) by (simp add: on_turn_def keeps_refl)
next
  case (Some t)
  then show ?thesis
    using engine_ok_lookup [OF assms(1) Some] assms
    by (auto simp: on_turn_def case_prod_beta Let_def intro!: keeps_set_device keeps_set_turn)
qed

lemma keeps_sockets:
  "keeps e e' \<Longrightarrow> fst ` set ss \<subseteq> fst ` set (turns e') \<Longrightarrow> keeps e (e'\<lparr>audio_sockets := ss\<rparr>)"
  by (auto simp: keeps_def engine_ok_def)

lemma keeps_unregister:
  assumes "engine_ok e"
  shows "keeps e (unregister_audio_socket tid ws e)"
proof -
  define e1 where "e1 = (if map_of (audio_sockets e) tid = Some ws
                then e\<lparr>audio_sockets := pop tid (audio_sockets e)\<rparr> else e)"
  have e1: "keeps e e1"
    using keeps_sockets [OF keeps_refl [OF assms], of "pop tid (audio_sockets e)"] assms
    by (auto simp: e1_def keeps_refl engine_ok_def)
  then have ok: "engine_ok e1"
    by (simp add: keeps_def)
  show ?thesis
  proof (cases "map_of (turns e1) tid")
    case None
    with e1 show ?thesis by (simp add: unregister_audio_socket_def flip: e1_def)
  next
    case (Some t)
    have "turn_good tid (t\<lparr>socket := None, tts_queue := q\<rparr>)" for q
      using engine_ok_lookup [OF ok Some] by (simp add: turn_good_def)
    then show ?thesis
      using keeps_trans [OF e1 keeps_set_turn [OF ok Some]] e1 Some
      by (simp add: unregister_audio_socket_def flip: e1_def)
  qed
qed

lemma keeps_audio_open: "engine_ok e \<Longrightarrow> keeps e (fst (snd (audio_open tid ws e)))"
proof -
  assume ok: "engine_ok e"
  show ?thesis
  proof (cases "map_of (turns e) tid")
    case None
    with ok show ?thesis by (simp add: audio_open_def keeps_refl)
  next
    case (Some t)
    then have mem: "tid \<in> fst ` set (turns e)"
      by (force dest: map_of_SomeD)
    have reg: "keeps e (register_audio_socket tid ws e)"
      unfolding register_audio_socket_def using ok mem
      by (intro keeps_sockets keeps_refl) (auto simp: engine_ok_def)
    have good: "turn_good tid (t\<lparr>socket := Some ws, socket_ready := True\<rparr>)"
      using engine_ok_lookup [OF ok Some] by (simp add: turn_good_def)
    have "map_of (turns (register_audio_socket tid ws e)) tid = Some t"
      using Some by (simp add: register_audio_socket_def)
    then show ?thesis
      using ok Some reg good keeps_trans [OF reg keeps_set_turn]
      by (auto simp: audio_open_def keeps_refl keeps_def)
  qed
qed

lemma keeps_audio_close: "engine_ok e \<Longrightarrow> keeps e (audio_close tid ws e)"
proof -
  assume ok: "engine_ok e"
  note un = keeps_unregister [OF ok, of tid ws]
  then have ok1: "engine_ok (unregister_audio_socket tid ws e)"
    by (simp add: keeps_def)
  show ?thesis
  proof (cases "map_of (turns (unregister_audio_socket tid ws e)) tid")
    case None
    with un show ?thesis by (simp add: audio_close_def)
  next
    case (Some t)
    have "turn_good tid (t\<lparr>tts_end := True\<rparr>)"
      using engine_ok_lookup [OF ok1 Some] by (simp add: turn_good_def)
    with un Some ok1 show ?thesis
      by (auto simp: audio_close_def intro: keeps_trans [OF un] keeps_set_turn)
  qed
qed

lemma audio_loop_good: "turn_good i t \<Longrightarrow> turn_good i (fst (audio_loop now t ms))"
proof (induction now t ms rule: audio_loop.induct)
  case (3 now t raw ms)
  show ?case
  proof (cases "bind_res (decode_frame raw) (\<lambda>f. bind_res (accept (tts_seq t) f) (\<lambda>s. Inr (f, s)))")
    case (Inl e)
    with 3 show ?thesis by simp
  next
    case (Inr fs)
    obtain f s where fs: "fs = (f, s)" by (cases fs)
    with 3 Inr show ?thesis
      by (auto simp: turn_good_def Let_def)
  qed
qed simp_all

lemma keeps_audio_messages: "engine_ok e \<Longrightarrow> keeps e (audio_messages now tid ws ms e)"
proof -
  assume ok: "engine_ok e"
  show ?thesis
  proof (cases "map_of (turns e) tid")
    case None
    with ok show ?thesis by (simp add: audio_messages_def keeps_refl)
  next
    case (Some t)
    have "turn_good tid (fst (audio_loop now t ms))"
      using engine_ok_lookup [OF ok Some] by (simp add: audio_loop_good)
    then have k: "keeps e (set_turn tid (fst (audio_loop now t ms)) e)"
      by (rule keeps_set_turn [OF ok Some])
    then have "engine_ok (set_turn tid (fst (audio_loop now t ms)) e)"
      by (simp add: keeps_def)
    from keeps_trans [OF k keeps_audio_close [OF this]] k ok Some show ?thesis
      by (simp add: audio_messages_def keeps_refl case_prod_beta Let_def)
  qed
qed

lemma keeps_end_turns: "engine_ok e \<Longrightarrow> keeps e (end_turns did r c e)"
proof -
  assume ok: "engine_ok e"
  have "map fst (turns (end_turns did r c e)) = map fst (turns e)"
    by (simp add: end_turns_def case_prod_beta)
  then have "fst ` set (turns (end_turns did r c e)) = fst ` set (turns e)"
    by (metis list.set_map)
  moreover have "\<forall>(i, t) \<in> set (turns (end_turns did r c e)). i < next_turn_id e \<and> turn_good i t"
    using ok by (auto simp: end_turns_def engine_ok_def)
  ultimately show ?thesis
    using ok \<open>map fst (turns (end_turns did r c e)) = map fst (turns e)\<close>
    by (simp add: keeps_def engine_ok_def) (simp add: end_turns_def)
qed

lemma keeps_confirm: "engine_ok e \<Longrightarrow> keeps e (snd (confirm_device_started r rid tid e))"
  by (auto simp: confirm_device_started_def keeps_refl turn_good_def dest: engine_ok_lookup
      intro!: keeps_set_turn split: option.split)

lemma keeps_stop: "engine_ok e \<Longrightarrow> keeps e (fst (snd (stop_voice_turn did tid det e)))"
  by (auto simp: stop_voice_turn_def keeps_refl turn_good_def dest: engine_ok_lookup
      intro!: keeps_set_turn turn_good_end_turn split: option.split)

lemma find_SomeD: "find P xs = Some x \<Longrightarrow> x \<in> set xs \<and> P x"
  by (induction xs) (auto split: if_splits)

lemma active_turn_lookup:
  assumes "engine_ok e" and "active_turn r e = Some (tid, t)"
  shows "map_of (turns e) tid = Some t \<and> turn_dev t = r \<and> \<not> cancelled t"
  using find_SomeD [OF assms(2) [unfolded active_turn_def]] assms(1)
  by (auto simp: engine_ok_def)

lemma keeps_barge: "engine_ok e \<Longrightarrow> keeps e (fst (snd (admit_barge r rid s th sq v e)))"
  by (auto simp: admit_barge_def keeps_refl Let_def dest: active_turn_lookup engine_ok_lookup
      intro!: keeps_set_device keeps_set_turn turn_good_end_turn split: option.split)

section \<open>Adding, moving and dropping a turn\<close>

lemma engine_ok_add_turn:
  assumes "engine_ok e" and "turn_good (next_turn_id e) t"
  shows "engine_ok (add_turn (next_turn_id e) t k e)"
    and "map fst (turns (add_turn (next_turn_id e) t k e)) = map fst (turns e) @ [next_turn_id e]"
    and "tasks (add_turn (next_turn_id e) t k e) = tasks e @ [(next_turn_id e, k)]"
proof -
  have fresh: "next_turn_id e \<notin> fst ` set (turns e)"
    using assms(1) by (auto simp: engine_ok_def)
  moreover have "fst ` set (tasks e) = fst ` set (turns e)"
    using assms(1) by (metis engine_ok_def list.set_map)
  ultimately have fresh': "next_turn_id e \<notin> fst ` set (tasks e)"
    by simp
  show "engine_ok (add_turn (next_turn_id e) t k e)"
    using assms fresh unfolding engine_ok_def add_turn_def
    by (simp add: put_fresh fresh fresh') (auto simp: ball_Un)
  show "map fst (turns (add_turn (next_turn_id e) t k e)) = map fst (turns e) @ [next_turn_id e]"
    using fresh by (simp add: add_turn_def put_fresh)
  show "tasks (add_turn (next_turn_id e) t k e) = tasks e @ [(next_turn_id e, k)]"
    using fresh' by (simp add: add_turn_def put_fresh)
qed

lemma add_turn_next [simp]: "next_turn_id (add_turn i t k e) = i + 1"
  by (simp add: add_turn_def)

lemma engine_ok_drop:
  assumes "engine_ok e"
  shows "engine_ok (drop_turn tid e)"
  using assms distinct_pop [of "turns e" tid]
  by (auto simp: engine_ok_def drop_turn_def map_fst_pop)

lemma drop_turn_sel:
  "map fst (turns (drop_turn tid e)) = filter (\<lambda>i. i \<noteq> tid) (map fst (turns e))"
  "tasks (drop_turn tid e) = pop tid (tasks e)" "next_turn_id (drop_turn tid e) = next_turn_id e"
  by (simp_all add: drop_turn_def map_fst_pop)

lemma set_stage_sel:
  "turns (set_stage tid st e) = turns e" "next_turn_id (set_stage tid st e) = next_turn_id e"
  "map fst (tasks (set_stage tid st e)) = map fst (tasks e)"
  "audio_sockets (set_stage tid st e) = audio_sockets e"
  by (force simp: set_stage_def intro!: map_fst_put_mem dest: map_of_SomeD split: option.split)+

lemma engine_ok_set_stage: "engine_ok e \<Longrightarrow> engine_ok (set_stage tid st e)"
  by (simp add: engine_ok_def set_stage_sel)

section \<open>The history of an engine\<close>

definition pre_grant :: "stage \<Rightarrow> bool" where
  "pre_grant st \<longleftrightarrow> (case st of Offering \<Rightarrow> True | Accepting _ \<Rightarrow> True | _ \<Rightarrow> False)"

definition ungranted :: "engine \<Rightarrow> int \<Rightarrow> bool" where
  "ungranted e i \<longleftrightarrow> (case map_of (tasks e) i of None \<Rightarrow> False | Some k \<Rightarrow> pre_grant (task_stage k))"

definition history :: "engine \<Rightarrow> effect list \<Rightarrow> bool" where
  "history e es \<longleftrightarrow> engine_ok e \<and>
     mset (created es) = mset (settled es) + mset (map fst (turns e)) \<and>
     distinct (created es) \<and> (\<forall>i \<in> set (created es). i < next_turn_id e) \<and>
     recorded es = announced es \<and> distinct (granted es) \<and>
     (\<forall>i \<in> set (granted es). i < next_turn_id e \<and> \<not> ungranted e i)"

lemma history_quiet:
  assumes "history e es" and "quiet xs" and "engine_ok e'" and "map fst (turns e') = map fst (turns e)"
    and "next_turn_id e' = next_turn_id e" and "\<And>i. ungranted e' i \<Longrightarrow> ungranted e i"
  shows "history e' (es @ xs)"
  using assms by (auto simp: history_def quiet_def)

lemma history_keeps: "history e es \<Longrightarrow> keeps e e' \<Longrightarrow> quiet xs \<Longrightarrow> history e' (es @ xs)"
  by (rule history_quiet) (auto simp: keeps_def ungranted_def)

lemma mset_without:
  "distinct xs \<Longrightarrow> x \<in> set xs \<Longrightarrow> mset xs = add_mset x (mset (filter (\<lambda>y. y \<noteq> x) xs))"
proof -
  assume "distinct xs" "x \<in> set xs"
  then have "filter (\<lambda>y. y \<noteq> x) xs = remove1 x xs"
    by (auto simp: distinct_remove1_removeAll removeAll_filter_not_eq intro: filter_cong)
  with \<open>x \<in> set xs\<close> show ?thesis by simp
qed

lemma history_settled:
  assumes "history e es" and "keeps e e'" and "tid \<in> fst ` set (turns e)"
    and "created xs = []" and "settled xs = [tid]" and "recorded xs = announced xs" and "granted xs = []"
  shows "history (drop_turn tid e') (es @ xs)"
proof -
  have ok: "engine_ok e'" and keys: "map fst (turns e') = map fst (turns e)"
    using assms(2) by (simp_all add: keeps_def)
  have "mset (map fst (turns e)) = add_mset tid (mset (filter (\<lambda>i. i \<noteq> tid) (map fst (turns e))))"
    using assms(1,3) by (intro mset_without) (auto simp: history_def engine_ok_def)
  then show ?thesis
    using assms ok keys
    by (auto simp: history_def drop_turn_sel engine_ok_drop keeps_def ungranted_def)
qed

text \<open>A closing sequence pushes one terminal event, with the outcome it has written.\<close>

definition closing :: "(turn \<times> device \<Rightarrow> pair_step) \<Rightarrow> bool" where
  "closing f \<longleftrightarrow> (\<forall>t d.
     created (snd (f (t, d))) = [] \<and> settled (snd (f (t, d))) = [turn_id t] \<and>
     recorded (snd (f (t, d))) = announced (snd (f (t, d))) \<and> granted (snd (f (t, d))) = [] \<and>
     (\<forall>i. turn_good i t \<longrightarrow> turn_good i (fst (fst (f (t, d))))))"

lemma disarm_good: "turn_good i (fst s) \<Longrightarrow> turn_good i (fst (fst (turn_disarm_stop s)))"
  by (auto simp: turn_disarm_stop_def turn_good_def case_prod_beta split: option.split)

lemma closing_unstarted: "closing (finish_unstarted now wake outcome)"
proof -
  have "quiet (snd (turn_disarm_stop s))" for s
    by (rule quiet_disarm)
  then show ?thesis
    by (auto simp: closing_def finish_unstarted_def snd_seq_steps fst_seq_steps quiet_def turn_frame
        turn_record_def Let_def intro!: disarm_good turn_good_end_turn)
qed

lemma closing_finish: "closing (finish_turn now wake outcome)"
proof -
  have "quiet (snd (turn_disarm_stop s))" "quiet (persist_audio t)" for s t
    by (rule quiet_disarm, rule quiet_persist)
  then show ?thesis
    by (auto simp: closing_def finish_turn_def snd_seq_steps fst_seq_steps quiet_def
        turn_record_def Let_def intro!: disarm_good)
qed

lemma history_close:
  assumes "history e es" and "map_of (turns e) tid = Some t" and "closing f"
  shows "history (fst (close_with tid f e)) (es @ snd (close_with tid f e))"
proof -
  have ok: "engine_ok e"
    using assms(1) by (simp add: history_def)
  have "turn_id t = tid"
    using engine_ok_lookup [OF ok assms(2)] by (simp add: turn_good_def)
  moreover have "snd (on_turn tid f e) = snd (f (t, heap e (turn_dev t)))"
    using assms(2) by (simp add: on_turn_def case_prod_beta Let_def)
  moreover have "keeps e (fst (on_turn tid f e))"
    using assms(3) by (intro keeps_on_turn [OF ok]) (simp add: closing_def)
  moreover have "tid \<in> fst ` set (turns e)"
    using assms(2) by (force dest: map_of_SomeD)
  ultimately show ?thesis
    using history_settled [OF assms(1), of "fst (on_turn tid f e)" tid "snd (on_turn tid f e)"] assms(3)
    by (auto simp: close_with_def then_step_def closing_def case_prod_beta Let_def)
qed

lemma history_emit:
  assumes "history e es" and "quiet xs"
    and "\<And>zs. history e zs \<Longrightarrow> history (fst (f e)) (zs @ snd (f e))"
  shows "history (fst (then_step (e, xs) f)) (es @ snd (then_step (e, xs) f))"
proof -
  have "history e (es @ xs)"
    using assms(1,2) by (rule history_quiet) (use assms(1) in \<open>simp_all add: history_def\<close>)
  from assms(3) [OF this] show ?thesis
    by (simp add: then_step_def case_prod_beta Let_def)
qed

lemma map_of_set_stage:
  "map_of (tasks (set_stage tid st e)) i =
     (if i = tid then map_option (\<lambda>k. k\<lparr>task_stage := st\<rparr>) (map_of (tasks e) tid) else map_of (tasks e) i)"
  by (auto simp: set_stage_def split: option.split)

lemma history_stage:
  assumes "history e es" and "quiet xs" and "pre_grant st \<Longrightarrow> ungranted e tid"
  shows "history (set_stage tid st e) (es @ xs)"
  using assms(1,2)
proof (rule history_quiet)
  show "ungranted (set_stage tid st e) i \<Longrightarrow> ungranted e i" for i
    using assms(3) by (auto simp: ungranted_def map_of_set_stage split: option.splits if_splits)
qed (use assms(1) in \<open>simp_all add: history_def engine_ok_set_stage set_stage_sel\<close>)

lemma history_grant:
  assumes "history e es" and "ungranted e tid" and "map_of (turns e) tid = Some t"
  shows "history (set_stage tid Starting e) (es @ [CtlWakeGrant did rid tid])"
proof -
  have "ungranted (set_stage tid Starting e) i \<Longrightarrow> ungranted e i \<and> i \<noteq> tid" for i
    by (auto simp: ungranted_def map_of_set_stage pre_grant_def split: option.splits if_splits)
  moreover have "tid < next_turn_id e"
    using engine_ok_lookup [OF _ assms(3)] assms(1) by (simp add: history_def)
  ultimately show ?thesis
    using assms(1,2) by (auto simp: history_def engine_ok_set_stage set_stage_sel)
qed

lemma history_after_accept:
  assumes "history e es" and "map_of (turns e) tid = Some t" and "ungranted e tid"
  shows "history (fst (after_accept now fin valid wake rid tid t e))
    (es @ snd (after_accept now fin valid wake rid tid t e))"
  using assms
  by (auto simp: after_accept_def Let_def intro!: history_emit history_close history_grant closing_unstarted)

lemma history_raised:
  assumes "history e es" and "map_of (turns e) tid = Some t"
  shows "history (drop_turn tid e) (es @ [RaisedToCaller tid])"
proof (rule history_settled [OF assms(1)])
  show "tid \<in> fst ` set (turns e)"
    using assms(2) by (force dest: map_of_SomeD)
  show "keeps e e"
    using assms(1) by (simp add: keeps_refl history_def)
qed simp_all

lemma history_stage_silent:
  "history e es \<Longrightarrow> (pre_grant st \<Longrightarrow> ungranted e tid) \<Longrightarrow> history (set_stage tid st e) es"
  using history_stage [of e es "[]" st tid] by simp

lemma history_resume:
  assumes "history e es"
  shows "history (fst (resume now tid w valid e)) (es @ snd (resume now tid w valid e))"
proof (cases "map_of (turns e) tid")
  case None
  with assms show ?thesis by (simp add: resume_def split: option.split)
next
  case (Some t)
  note t = this
  show ?thesis
  proof (cases "map_of (tasks e) tid")
    case None
    with assms t show ?thesis by (simp add: resume_def)
  next
    case (Some k)
    have un: "pre_grant (task_stage k) \<Longrightarrow> ungranted e tid"
      using Some by (simp add: ungranted_def)
    show ?thesis
    proof (cases "w = CancelTask \<and> \<not> task_announcement k")
      case True
      with t Some assms show ?thesis
        by (simp add: resume_def Let_def history_close closing_unstarted)
    next
      case False
      then show ?thesis
        using t Some assms un
        by (cases "task_stage k"; cases w)
          (auto simp: resume_def Let_def end_run_def time_out_def pre_grant_def
            intro!: history_close closing_unstarted closing_finish history_after_accept history_stage
              history_stage_silent [OF assms]
              history_raised split: option.splits)
    qed
  qed
qed

lemma history_add:
  assumes "history e es" and "turn_good (next_turn_id e) t" and "created xs = [next_turn_id e]"
    and "settled xs = []" and "recorded xs = announced xs" and "granted xs = []"
  shows "history (add_turn (next_turn_id e) t k e) (es @ xs)"
proof -
  have ok: "engine_ok e"
    using assms(1) by (simp add: history_def)
  have tk: "map_of (tasks e) i = None" if "\<not> i < next_turn_id e" for i
  proof -
    have "i \<notin> fst ` set (turns e)"
      using ok that by (auto simp: engine_ok_def)
    moreover have "fst ` set (tasks e) = fst ` set (turns e)"
      using ok by (metis engine_ok_def list.set_map)
    ultimately show ?thesis
      by (simp add: map_of_eq_None_iff)
  qed
  have "ungranted (add_turn (next_turn_id e) t k e) i \<Longrightarrow> i < next_turn_id e \<Longrightarrow> ungranted e i" for i
    using engine_ok_add_turn(3) [OF ok assms(2), of k]
    by (auto simp: ungranted_def map_add_def split: option.splits if_splits)
  then show ?thesis
    using assms engine_ok_add_turn [OF ok assms(2), of k]
    by (fastforce simp: history_def)
qed

lemma history_heap: "history (set_device r d e) es \<longleftrightarrow> history e es"
  by (simp add: history_def ungranted_def)

lemma history_create:
  assumes "history e es"
  shows "history (fst (snd (create_turn now did b cap e))) (es @ snd (snd (create_turn now did b cap e)))"
  using assms
  by (auto simp: create_turn_def Let_def new_turn_def turn_good_def intro!: history_add split: option.split)

lemma history_trigger:
  assumes "history e es"
  shows "history (fst (trigger_voice_turn now g e)) (es @ snd (trigger_voice_turn now g e))"
proof -
  let ?r = "trig_dev g"
  let ?e = "set_device ?r ((heap e ?r)\<lparr>last_wake := None\<rparr>) e"
  have "history ?e es"
    using assms by (simp add: history_heap)
  from history_add [OF this] show ?thesis
    by (simp add: trigger_voice_turn_def Let_def new_turn_def turn_good_def)
qed

lemma history_trigger_cancelled:
  assumes "history e es"
  shows "history (fst (trigger_cancelled_in_insert r l e)) (es @ snd (trigger_cancelled_in_insert r l e))"
proof -
  have "engine_ok (e\<lparr>next_turn_id := next_turn_id e + 1\<rparr>)"
    using assms by (fastforce simp: history_def engine_ok_def)
  then show ?thesis
    using assms
    by (fastforce simp: trigger_cancelled_in_insert_def history_heap Let_def history_def ungranted_def)
qed

lemma quiet_PushCancels: "quiet (map (\<lambda>tid. PushCancel did tid r) xs)"
  by (induction xs) (auto simp: quiet_def)

lemma quiet_barge: "quiet (snd (snd (admit_barge r rid s th sq v e)))"
  by (simp add: admit_barge_def Let_def split: option.split)

lemma history_call: "history e es \<Longrightarrow> history (fst (engine_call dl e c)) (es @ snd (engine_call dl e c))"
proof -
  assume h: "history e es"
  then have ok: "engine_ok e"
    by (simp add: history_def)
  obtain now cl where c: "c = (now, cl)" by (cases c)
  have silent: "history e' (es @ [])" if "keeps e e'" for e'
    using h that by (rule history_keeps) simp
  show ?thesis
  proof (cases cl)
    case (CCreate did b cap)
    with h c show ?thesis by (simp add: history_create)
  next
    case (CTrigger g)
    with h c show ?thesis by (simp add: history_trigger)
  next
    case (CTriggerCancelled r l)
    with h c show ?thesis by (simp add: history_trigger_cancelled)
  next
    case (CResume tid w v)
    with h c show ?thesis by (simp add: history_resume)
  next
    case (CRest tid a b)
    have "quiet (snd (on_turn tid (\<lambda>s. snd (turn_action dl now a b s)) e))"
      by (simp add: on_turn_def quiet_turn_action case_prod_beta Let_def split: option.split)
    with CRest c show ?thesis
      by (simp add: history_keeps [OF h] keeps_on_turn [OF ok] turn_good_action)
  next
    case (CAudioOpen tid ws)
    have "quiet (snd (snd (audio_open tid ws e)))"
      by (simp add: audio_open_def split: option.split)
    with CAudioOpen c show ?thesis
      by (simp add: history_keeps [OF h] keeps_audio_open [OF ok])
  next
    case (CAudioMessages tid ws ms)
    with c silent [OF keeps_audio_messages [OF ok]] show ?thesis by simp
  next
    case (CAudioClose tid ws)
    with c silent [OF keeps_audio_close [OF ok]] show ?thesis by simp
  next
    case (CCancel did r)
    with c silent [OF keeps_end_turns [OF ok]] show ?thesis by (simp add: cancel_voice_turn_def)
  next
    case (CAbort did r)
    with c show ?thesis
      by (simp add: abort_voice_turns_def cancel_voice_turn_def history_keeps [OF h]
          keeps_end_turns [OF ok] quiet_PushCancels del: map_map)
  next
    case (CConfirm r rid tid)
    with c silent [OF keeps_confirm [OF ok]] show ?thesis by simp
  next
    case (CStop did tid det)
    have "quiet (snd (snd (stop_voice_turn did tid det e)))"
      by (simp add: stop_voice_turn_def split: option.split)
    with CStop c show ?thesis
      by (simp add: history_keeps [OF h] keeps_stop [OF ok])
  next
    case (CAbortRun did)
    with c silent [OF keeps_end_turns [OF ok]] show ?thesis by (simp add: abort_ha_run_def)
  next
    case (CBarge r rid s th sq v)
    with c show ?thesis
      by (simp add: history_keeps [OF h] keeps_barge [OF ok] quiet_barge)
  qed
qed

interpretation engine_history: traced_machine "engine_call dl" history for dl
  by unfold_locales (rule history_call)

lemma history_init: "history (engine_init h c) []"
  by (simp add: history_def engine_init_def engine_ok_def ungranted_def)

section \<open>Properties\<close>


lemma granted_mem: "CtlWakeGrant did rid tid \<in> set es \<Longrightarrow> tid \<in> set (granted es)"
  by (induction es) auto

lemma quiet_no_grant: "quiet es \<Longrightarrow> CtlWakeGrant did rid tid \<notin> set es"
  using granted_mem by (fastforce simp: quiet_def)

lemma closing_no_grant: "closing f \<Longrightarrow> CtlWakeGrant did rid tid \<notin> set (snd (close_with i f e))"
  using granted_mem [of did rid tid "snd (f (t, d))" for t d]
  by (fastforce simp: close_with_def then_step_def on_turn_def closing_def case_prod_beta Let_def
      split: option.splits)

lemma after_accept_grant:
  "CtlWakeGrant did rid tid \<in> set (snd (after_accept now fin valid wake rid' tid' t e)) \<Longrightarrow>
     fin \<and> valid \<and> accepted_ev t \<and> \<not> rejected_ev t \<and> tid = tid' \<and> rid = rid' \<and>
     did = dev_id (heap e (turn_dev t))"
  using closing_no_grant [OF closing_unstarted]
  by (fastforce simp: after_accept_def then_step_def case_prod_beta Let_def split: if_splits)

lemma resume_grant:
  assumes "CtlWakeGrant did rid tid \<in> set (snd (resume now i w valid e))"
  shows "i = tid \<and> w = Completed \<and> valid \<and> (\<exists>t k. map_of (turns e) tid = Some t \<and>
    map_of (tasks e) tid = Some k \<and> task_stage k = Accepting rid \<and>
    accepted_ev t \<and> \<not> rejected_ev t \<and> socket_ready t \<and> did = dev_id (heap e (turn_dev t)))"
proof -
  obtain t k where tk: "map_of (turns e) i = Some t" "map_of (tasks e) i = Some k"
    using assms by (auto simp: resume_def split: option.splits)
  have no: "CtlWakeGrant did rid tid \<notin> set (snd (close_with i (finish_unstarted now wk x) e))"
    "CtlWakeGrant did rid tid \<notin> set (snd (close_with i (finish_turn now wk x) e))" for wk x
    by (simp_all add: closing_no_grant closing_unstarted closing_finish)
  show ?thesis
    using assms tk no
    by (cases "task_stage k"; cases w)
      (auto simp: resume_def Let_def end_run_def time_out_def dest!: after_accept_grant split: if_splits)
qed


definition granted_example :: engine where
  "granted_example =
     (let e = fst (trigger_voice_turn 5 \<lparr>trig_dev = 0, trig_label = ''wake'', trig_preroll = 0,
            trig_initial_audio = [], trig_on_transcript = False, trig_stt_only = False,
            trig_request_id = Some ''r1'', trig_on_admitted = False, trig_capture = False\<rparr>
            (engine_init (\<lambda>_. new_device ''A'' [] 5) [(''A'', 0)]))
      in fst (run (engine_call (\<lambda>_. 0)) e
           [(5, CResume 1 Completed True), (6, CAudioOpen 1 9), (6, CRest 1 ''accept'' None)]))"


lemma active_turn_None:
  assumes "engine_ok e"
  shows "active_turn r e = None \<longleftrightarrow> (\<forall>tid t. map_of (turns e) tid = Some t \<longrightarrow> turn_dev t = r \<longrightarrow> cancelled t)"
proof -
  have "map_of (turns e) tid = Some t \<longleftrightarrow> (tid, t) \<in> set (turns e)" for tid t
    using assms by (simp add: engine_ok_def)
  then show ?thesis
    by (auto simp: active_turn_def find_None_iff)
qed

text \<open>Claim C7: a barge is admitted exactly when the admission
  check passes and the same device object has a turn that is not cancelled; then one such turn ends
  with reason barged and every other turn and device is as before. A refused barge changes nothing
  and sends one denial, saying busy when there is no such turn and disconnected otherwise.\<close>

theorem barge_cancels_exactly_one_turn:
  assumes "engine_ok e" and "admit_barge r rid score threshold sq valid e = (admitted, (e', es))"
  shows "(admitted \<longleftrightarrow> valid \<and> (\<exists>tid t. map_of (turns e) tid = Some t \<and> turn_dev t = r \<and> \<not> cancelled t)) \<and>
    (if admitted
     then (\<exists>tid t. map_of (turns e) tid = Some t \<and> turn_dev t = r \<and> \<not> cancelled t \<and>
             map_of (turns e') = (map_of (turns e))(tid \<mapsto> end_turn ''barged'' True t) \<and>
             PushCancel (dev_id (heap e r)) tid ''barge'' \<in> set es) \<and>
          barge_request_id (heap e' r) = Some rid \<and> (\<forall>q. q \<noteq> r \<longrightarrow> heap e' q = heap e q)
     else e' = e \<and> es = [CtlWakeDeny (dev_id (heap e r)) rid
            (if active_turn r e = None then ''busy'' else ''disconnected'')])"
proof (cases "active_turn r e")
  case None
  then have a: "\<not> admitted" "e' = e" "es = [CtlWakeDeny (dev_id (heap e r)) rid ''busy'']"
    using assms(2) by (auto simp: admit_barge_def)
  show ?thesis
    unfolding a(2,3) using None a(1) active_turn_None [OF assms(1), of r] by simp
next
  case (Some it)
  then obtain tid t where it: "active_turn r e = Some (tid, t)" by (cases it) auto
  from active_turn_lookup [OF assms(1) it] have t: "map_of (turns e) tid = Some t" "turn_dev t = r" "\<not> cancelled t"
    by auto
  have id: "turn_id t = tid"
    using engine_ok_lookup [OF assms(1) t(1)] by (simp add: turn_good_def)
  show ?thesis
  proof (cases valid)
    case True
    have "admitted" and "map_of (turns e') = (map_of (turns e))(tid \<mapsto> end_turn ''barged'' True t)"
      and "PushCancel (dev_id (heap e r)) tid ''barge'' \<in> set es"
      and "barge_request_id (heap e' r) = Some rid" and "\<forall>q. q \<noteq> r \<longrightarrow> heap e' q = heap e q"
      using assms(2) it id True by (auto simp: admit_barge_def Let_def)
    then show ?thesis
      using t True by auto
  next
    case False
    with assms(2) it show ?thesis by (auto simp: admit_barge_def Let_def)
  qed
qed

theorem barge_cancels_exactly_one_turn_witness:
  "\<exists>admitted e' es. admit_barge 0 ''r2'' (1/2) (2/5) 7 True granted_example = (admitted, (e', es)) \<and>
     (admitted \<longleftrightarrow> (\<exists>tid t. map_of (turns granted_example) tid = Some t \<and> turn_dev t = 0 \<and> \<not> cancelled t))"
proof -
  have ok: "engine_ok granted_example"
    by code_simp
  obtain a e' es where r: "admit_barge 0 ''r2'' (1/2) (2/5) 7 True granted_example = (a, (e', es))"
    by (cases "admit_barge 0 ''r2'' (1/2) (2/5) 7 True granted_example") auto
  from barge_cancels_exactly_one_turn [OF ok r] r show ?thesis by blast
qed

lemma map_of_map_snd: "map_of (map (\<lambda>(i, t). (i, f t)) xs) i = map_option f (map_of xs i)"
  by (induction xs) auto

text \<open>a mute or button cancel ends every turn of
  the device it names, keeping an earlier reason, tells HACS about exactly those turns, and leaves
  every turn of every other device alone.\<close>

theorem abort_ends_exactly_the_devices_turns:
  assumes "engine_ok e" and "abort_voice_turns did why_ended e = (e', es)"
  shows "map_of (turns e') tid =
      map_option (\<lambda>t. if of_device did e t then end_turn why_ended True t else t) (map_of (turns e) tid) \<and>
    (x \<in> set es \<longleftrightarrow> (\<exists>i t. map_of (turns e) i = Some t \<and> of_device did e t \<and> x = PushCancel did i why_ended))"
proof -
  have tid: "turn_id t = i" if "(i, t) \<in> set (turns e)" for i t
    using assms(1) that by (auto simp: engine_ok_def turn_good_def)
  have mem: "map_of (turns e) i = Some t \<longleftrightarrow> (i, t) \<in> set (turns e)" for i t
    using assms(1) by (simp add: engine_ok_def)
  have "map_of (turns e') tid =
      map_option (\<lambda>t. if of_device did e t then end_turn why_ended True t else t) (map_of (turns e) tid)"
    using assms(2) by (auto simp: abort_voice_turns_def cancel_voice_turn_def end_turns_def map_of_map_snd)
  moreover have "x \<in> set es \<longleftrightarrow>
      (\<exists>i t. (i, t) \<in> set (turns e) \<and> of_device did e t \<and> x = PushCancel did i why_ended)"
    using assms(2) tid
    by (fastforce simp: abort_voice_turns_def cancel_voice_turn_def image_iff)
  ultimately show ?thesis
    by (simp add: mem)
qed

theorem abort_ends_exactly_the_devices_turns_witness:
  "map_of (turns (fst (abort_voice_turns ''A'' ''muted'' granted_example))) 1 =
     map_option (\<lambda>t. if of_device ''A'' granted_example t then end_turn ''muted'' True t else t)
       (map_of (turns granted_example) 1)"
proof -
  have ok: "engine_ok granted_example"
    by code_simp
  have r: "abort_voice_turns ''A'' ''muted'' granted_example =
      (fst (abort_voice_turns ''A'' ''muted'' granted_example), snd (abort_voice_turns ''A'' ''muted'' granted_example))"
    by (rule prod.collapse [symmetric])
  show ?thesis
    by (rule abort_ends_exactly_the_devices_turns [OF ok r, THEN conjunct1])
qed

text \<open>with the stop word switched off, which
  every voice response passes, an announcement for the connected device is still refused as
  stopword_unavailable, because \<open>create_turn\<close> asks for a ready stop model and not for
  \<open>stop_admissible\<close>.\<close>

theorem announcement_refused_when_stop_word_off:
  assumes "map_of (connected e) did = Some r" and "\<not> stop_word_enabled (heap e r)"
    and "\<not> stop_model_ready (heap e r)"
  shows "stop_admissible (heap e r) \<and> create_turn now did body capture e = (StopwordUnavailable, (e, []))"
  using assms by (simp add: stop_admissible_def create_turn_def)

definition stop_word_off_example :: engine where
  "stop_word_off_example =
     engine_init (\<lambda>_. (new_device ''A'' [''stopword''] 5)\<lparr>stop_model := []\<rparr>) [(''A'', 0)]"

theorem announcement_refused_when_stop_word_off_witness:
  "stop_admissible (heap stop_word_off_example 0) \<and>
   create_turn 3 ''A'' None False stop_word_off_example = (StopwordUnavailable, (stop_word_off_example, []))"
proof (rule announcement_refused_when_stop_word_off)
  show "map_of (connected stop_word_off_example) ''A'' = Some 0"
    by (simp add: stop_word_off_example_def engine_init_def)
  show "\<not> stop_word_enabled (heap stop_word_off_example 0)"
    by (simp add: stop_word_off_example_def engine_init_def stop_word_enabled_def)
  show "\<not> stop_model_ready (heap stop_word_off_example 0)"
    by (simp add: stop_word_off_example_def engine_init_def new_device_def)
qed

end
