(* ===== verification/Arbitration.thy ===== *)
theory Arbitration
  imports Prelude
begin

text \<open>
  The small synchronous state machines around the start of a turn: which device answers an
  utterance (\<open>controller/em_arbiter.py\<close>), what an Action-button release means
  (\<open>em_button.py\<close>), how a burst of taps becomes one event (\<open>em_tap_burst.py\<close>), and which
  pipeline events a barged-in turn discards (\<open>em_runbarrier.py\<close>).
\<close>

section \<open>Wake arbitration\<close>

record arbiter =
  arb_winner :: "device_id option"
  arb_claimed_at :: seconds

definition arbiter_init :: arbiter where
  "arbiter_init = \<lparr>arb_winner = None, arb_claimed_at = 0\<rparr>"

definition arb_held :: "seconds \<Rightarrow> seconds \<Rightarrow> arbiter \<Rightarrow> bool" where
  "arb_held now window a \<longleftrightarrow> arb_winner a \<noteq> None \<and> now - arb_claimed_at a < window"

definition claim :: "seconds \<Rightarrow> device_id \<Rightarrow> seconds \<Rightarrow> arbiter \<Rightarrow> device_id \<times> arbiter" where
  "claim now did window a =
     (case arb_winner a of
        Some w \<Rightarrow>
          if arb_held now window a \<and> w \<noteq> did then (w, a)
          else (did, a\<lparr>arb_winner := Some did, arb_claimed_at := now\<rparr>)
      | None \<Rightarrow> (did, a\<lparr>arb_winner := Some did, arb_claimed_at := now\<rparr>))"

definition release :: "device_id \<Rightarrow> arbiter \<Rightarrow> arbiter" where
  "release did a =
     (if arb_winner a = Some did then a\<lparr>arb_winner := None, arb_claimed_at := 0\<rparr> else a)"

datatype arb_call = Claim seconds device_id | Release device_id

text \<open>One window for all calls, as the fleet default gives; a release answers nothing.\<close>

fun arb_step :: "seconds \<Rightarrow> arbiter \<Rightarrow> arb_call \<Rightarrow> arbiter \<times> (device_id \<times> device_id) option" where
  "arb_step window a (Claim now did) = (let (w, a') = claim now did window a in (a', Some (did, w)))"
| "arb_step window a (Release did) = (release did a, None)"

text \<open>\<open>holds d t0 a\<close>: the claim is \<open>d\<close>'s and was made at \<open>t0\<close> or later.\<close>

definition holds :: "device_id \<Rightarrow> seconds \<Rightarrow> arbiter \<Rightarrow> bool" where
  "holds d t0 a \<longleftrightarrow> arb_winner a = Some d \<and> t0 \<le> arb_claimed_at a"

definition undisturbed :: "device_id \<Rightarrow> seconds \<Rightarrow> seconds \<Rightarrow> arb_call \<Rightarrow> bool" where
  "undisturbed d t0 window c \<longleftrightarrow>
     (case c of Claim t e \<Rightarrow> t0 \<le> t \<and> t < t0 + window | Release e \<Rightarrow> e \<noteq> d)"

lemma holds_step:
  "holds d t0 a \<Longrightarrow> undisturbed d t0 window c \<Longrightarrow> holds d t0 (fst (arb_step window a c))"
  by (cases c) (auto simp: holds_def undisturbed_def claim_def release_def arb_held_def)

lemma holds_answer:
  "holds d t0 a \<Longrightarrow> undisturbed d t0 window c \<Longrightarrow>
     snd (arb_step window a c) = (case c of Claim t e \<Rightarrow> Some (e, d) | Release e \<Rightarrow> None)"
  by (cases c) (auto simp: holds_def undisturbed_def claim_def arb_held_def)

lemma holds_run:
  assumes "holds d t0 a" and "\<forall>c \<in> set cs. undisturbed d t0 window c"
  shows "holds d t0 (fst (run (arb_step window) a cs)) \<and>
    snd (run (arb_step window) a cs) =
      map (\<lambda>c. case c of Claim t e \<Rightarrow> Some (e, d) | Release e \<Rightarrow> None) cs"
  using assms
proof (induction cs arbitrary: a)
  case Nil
  then show ?case by simp
next
  case (Cons c cs)
  then have "holds d t0 (fst (arb_step window a c))"
    by (simp add: holds_step)
  with Cons show ?case by (simp add: holds_answer)
qed

section \<open>The Action button\<close>

datatype button_action = Hold | TapEvent | Blocked | CancelTurn | StartTurn

definition button_decide :: "int \<Rightarrow> int \<Rightarrow> bool \<Rightarrow> bool \<Rightarrow> bool \<Rightarrow> button_action" where
  "button_decide held_ms hold_ms is_muted turn_active tap_event =
     (if hold_ms \<le> held_ms then Hold
      else if tap_event then TapEvent
      else if is_muted then Blocked
      else if turn_active then CancelTurn
      else StartTurn)"

section \<open>Bursts of taps\<close>

text \<open>
  The pending timer is its deadline; \<open>tap\<close> cancels and restarts it. \<open>Elapse t\<close> is the event
  loop reaching time \<open>t\<close>, where a timer whose deadline has come runs \<open>_expire\<close>.
\<close>

record coalescer =
  tap_count :: nat
  tap_deadline :: "seconds option"

definition coalescer_init :: coalescer where
  "coalescer_init = \<lparr>tap_count = 0, tap_deadline = None\<rparr>"

definition MAX_TAP_COUNT :: nat where "MAX_TAP_COUNT = 3"

definition TAP_EVENT_NAMES :: "nat \<Rightarrow> string" where
  "TAP_EVENT_NAMES n = (if n = 1 then ''single'' else if n = 2 then ''double'' else ''triple'')"

definition tap :: "seconds \<Rightarrow> int \<Rightarrow> coalescer \<Rightarrow> coalescer" where
  "tap now window_ms c =
     c\<lparr>tap_count := tap_count c + 1, tap_deadline := Some (now + of_int window_ms / 1000)\<rparr>"

definition tap_cancel :: "coalescer \<Rightarrow> coalescer" where
  "tap_cancel c = c\<lparr>tap_count := 0, tap_deadline := None\<rparr>"

definition tap_expire :: "bool \<Rightarrow> coalescer \<Rightarrow> coalescer \<times> string option" where
  "tap_expire enabled c =
     (let n = min (tap_count c) MAX_TAP_COUNT
      in (c\<lparr>tap_count := 0, tap_deadline := None\<rparr>,
          if enabled then Some (TAP_EVENT_NAMES n) else None))"

definition tap_elapse :: "bool \<Rightarrow> seconds \<Rightarrow> coalescer \<Rightarrow> coalescer \<times> string option" where
  "tap_elapse enabled t c =
     (case tap_deadline c of
        Some d \<Rightarrow> if d \<le> t then tap_expire enabled c else (c, None)
      | None \<Rightarrow> (c, None))"

text \<open>Taps at the given times: the loop reaches each time, then the tap is recorded.\<close>

fun tap_run :: "bool \<Rightarrow> int \<Rightarrow> coalescer \<Rightarrow> seconds list \<Rightarrow> coalescer \<times> string list" where
  "tap_run enabled w c [] = (c, [])"
| "tap_run enabled w c (t # ts) =
     (let (c1, o1) = tap_elapse enabled t c; (c2, os) = tap_run enabled w (tap t w c1) ts
      in (c2, (case o1 of None \<Rightarrow> os | Some x \<Rightarrow> x # os)))"

definition finish_burst :: "bool \<Rightarrow> seconds \<Rightarrow> coalescer \<times> string list \<Rightarrow> string list" where
  "finish_burst enabled t r =
     snd r @ (case snd (tap_elapse enabled t (fst r)) of None \<Rightarrow> [] | Some x \<Rightarrow> [x])"

fun close_together :: "seconds \<Rightarrow> seconds list \<Rightarrow> bool" where
  "close_together w [] = True"
| "close_together w [t] = True"
| "close_together w (t # u # ts) = (u < t + w \<and> close_together w (u # ts))"

lemma tap_run_close:
  assumes "close_together (of_int w / 1000) (t # ts)"
    and "tap_deadline c = Some (t + of_int w / 1000)"
  shows "fst (tap_run enabled w c ts) =
      c\<lparr>tap_count := tap_count c + length ts, tap_deadline := Some (last (t # ts) + of_int w / 1000)\<rparr> \<and>
    snd (tap_run enabled w c ts) = []"
  using assms
proof (induction ts arbitrary: t c)
  case Nil
  then show ?case by simp
next
  case (Cons u us)
  then have "tap_elapse enabled u c = (c, None)"
    by (simp add: tap_elapse_def)
  with Cons.IH [of u "tap u w c"] Cons.prems show ?case
    by (simp add: tap_def case_prod_beta Let_def)
qed

section \<open>The run barrier\<close>

record run_barrier =
  barrier_armed :: bool
  barrier_active :: bool

definition barrier_init :: run_barrier where
  "barrier_init = \<lparr>barrier_armed = False, barrier_active = False\<rparr>"

definition barrier_abort :: "run_barrier \<Rightarrow> run_barrier" where
  "barrier_abort b = b\<lparr>barrier_armed := True\<rparr>"

definition begin_turn :: "run_barrier \<Rightarrow> run_barrier" where
  "begin_turn b = b\<lparr>barrier_active := barrier_armed b, barrier_armed := False\<rparr>"

definition barrier_end_turn :: "run_barrier \<Rightarrow> run_barrier" where
  "barrier_end_turn b = b\<lparr>barrier_active := False\<rparr>"

definition discards :: "bool \<Rightarrow> run_barrier \<Rightarrow> run_barrier \<times> bool" where
  "discards is_run_start b =
     (if \<not> barrier_active b then (b, False)
      else if is_run_start then (b\<lparr>barrier_active := False\<rparr>, False)
      else (b, True))"

text \<open>The events of one turn that get through, each given with whether it is a RUN_START.\<close>

fun delivered :: "run_barrier \<Rightarrow> (bool \<times> 'e) list \<Rightarrow> run_barrier \<times> (bool \<times> 'e) list" where
  "delivered b [] = (b, [])"
| "delivered b (ev # evs) =
     (let (b1, d) = discards (fst ev) b; (b2, rest) = delivered b1 evs
      in (b2, if d then rest else ev # rest))"

lemma delivered_inactive: "\<not> barrier_active b \<Longrightarrow> delivered b evs = (b, evs)"
  by (induction evs) (simp_all add: discards_def)

lemma delivered_active:
  "barrier_active b \<Longrightarrow> snd (delivered b evs) = dropWhile (\<lambda>ev. \<not> fst ev) evs"
proof (induction evs)
  case Nil
  then show ?case by simp
next
  case (Cons ev evs)
  then show ?case
    using delivered_inactive [of "b\<lparr>barrier_active := False\<rparr>" evs]
    by (simp add: discards_def case_prod_beta Let_def)
qed

lemma delivered_armed [simp]: "barrier_armed (fst (delivered b evs)) = barrier_armed b"
  by (induction evs arbitrary: b) (auto simp: discards_def case_prod_beta Let_def)

definition barrier_turn :: "run_barrier \<Rightarrow> (bool \<times> 'e) list \<Rightarrow> bool \<Rightarrow> run_barrier \<times> (bool \<times> 'e) list" where
  "barrier_turn b evs aborted =
     (let (b1, out) = delivered (begin_turn b) evs
      in (barrier_end_turn (if aborted then barrier_abort b1 else b1), out))"

section \<open>Properties\<close>

text \<open>once a device has won an utterance, then until the
  window after its claim has passed or it releases the claim, every other device's claim is answered
  with that device, whatever claims and foreign releases come in between.\<close>

theorem first_detector_wins:
  assumes "claim t0 d window a = (d, a')"
    and "\<forall>c \<in> set cs. case c of Claim t e \<Rightarrow> t0 \<le> t \<and> t < t0 + window | Release e \<Rightarrow> e \<noteq> d"
  shows "snd (run (arb_step window) a' cs) =
    map (\<lambda>c. case c of Claim t e \<Rightarrow> Some (e, d) | Release e \<Rightarrow> None) cs"
proof -
  have "holds d t0 a'"
    using assms(1) by (auto simp: claim_def holds_def split: option.splits if_splits)
  moreover have "\<forall>c \<in> set cs. undisturbed d t0 window c"
    using assms(2) by (simp add: undisturbed_def)
  ultimately show ?thesis
    using holds_run [of d t0 a' cs window] by blast
qed

theorem first_detector_wins_witness:
  "snd (run (arb_step (3/10)) (snd (claim 1 ''kitchen'' (3/10) arbiter_init))
     [Claim (11/10) ''office'', Release ''office'', Claim (12/10) ''kitchen'', Claim (125/100) ''hall'']) =
   [Some (''office'', ''kitchen''), None, Some (''kitchen'', ''kitchen''), Some (''hall'', ''kitchen'')]"
  using first_detector_wins [of 1 "''kitchen''" "3/10" arbiter_init
      "snd (claim 1 ''kitchen'' (3/10) arbiter_init)"
      "[Claim (11/10) ''office'', Release ''office'', Claim (12/10) ''kitchen'', Claim (125/100) ''hall'']"]
  by (simp add: claim_def arbiter_init_def)

text \<open>taps that follow each other within the window are
  reported as one event, named after their number with everything above three a triple, when the
  window after the last tap has passed, and nothing is reported before.\<close>

theorem tap_burst_reports_once:
  assumes "close_together (of_int w / 1000) (t # ts)" and "last (t # ts) + of_int w / 1000 \<le> u"
  shows "snd (tap_run enabled w coalescer_init (t # ts)) = [] \<and>
    finish_burst enabled u (tap_run enabled w coalescer_init (t # ts)) =
      (if enabled then [TAP_EVENT_NAMES (min (length (t # ts)) 3)] else [])"
proof -
  have first: "tap_run enabled w coalescer_init (t # ts) = tap_run enabled w (tap t w coalescer_init) ts"
    by (simp add: tap_elapse_def coalescer_init_def)
  have "tap_deadline (tap t w coalescer_init) = Some (t + of_int w / 1000)"
    by (simp add: tap_def)
  from tap_run_close [OF assms(1) this, of enabled] show ?thesis
    unfolding first using assms(2)
    by (simp add: finish_burst_def tap_elapse_def tap_expire_def tap_def coalescer_init_def
        MAX_TAP_COUNT_def Let_def)
qed

theorem tap_burst_reports_once_witness:
  "finish_burst True 3 (tap_run True 400 coalescer_init [1, 5/4, 3/2, 8/5]) = [''triple'']"
  using tap_burst_reports_once [of 400 1 "[5/4, 3/2, 8/5]" 3 True]
  by (simp add: TAP_EVENT_NAMES_def)

text \<open>after an abort the next turn loses exactly the
  events before its own RUN_START, which is itself delivered, and the turn after that loses nothing
  unless its predecessor was aborted too.\<close>

theorem barrier_protects_one_turn:
  "let (b1, out1) = barrier_turn (barrier_abort b) evs1 False; (b2, out2) = barrier_turn b1 evs2 aborted
   in out1 = dropWhile (\<lambda>ev. \<not> fst ev) evs1 \<and> out2 = evs2 \<and> barrier_armed b2 = aborted"
  using delivered_active [of "begin_turn (barrier_abort b)" evs1]
    delivered_armed [of "begin_turn (barrier_abort b)" evs1]
    delivered_inactive [of "begin_turn (barrier_end_turn (fst (delivered (begin_turn (barrier_abort b)) evs1)))" evs2]
  by (simp add: barrier_turn_def begin_turn_def barrier_abort_def barrier_end_turn_def case_prod_beta Let_def)

end
