(* ===== verification/Decisions.thy ===== *)
theory Decisions
  imports Prelude
begin

text \<open>
  The controller's decision functions, each a pure function in a module of its own:
  \<open>em_linkauth.py\<close> (may a device connect), \<open>em_ingressauth.py\<close> (may Home Assistant vouch for a
  request, and with which role), \<open>em_turnclock.py\<close> (has a turn waited long enough for speech),
  \<open>em_hostip.py\<close> (which address is advertised) and \<open>em_volume.py\<close> (volume scales).
\<close>

section \<open>Optional strings\<close>

text \<open>Python's truth of a \<open>str | None\<close>, and \<open>(x or "").strip()\<close>.\<close>

definition present :: "string option \<Rightarrow> bool" where
  "present x \<longleftrightarrow> (case x of None \<Rightarrow> False | Some s \<Rightarrow> s \<noteq> [])"

definition strip_or_empty :: "string option \<Rightarrow> string" where
  "strip_or_empty x = (case x of None \<Rightarrow> [] | Some s \<Rightarrow> py_strip s)"

lemma present_Some_iff: "present x \<longleftrightarrow> (\<exists>s. x = Some s \<and> s \<noteq> [])"
  by (auto simp: present_def split: option.split)

section \<open>Device link authentication\<close>

record verdict =
  verdict_ok :: bool
  verdict_reason :: "string option"
  verdict_stale_token :: bool

definition allow_plain :: verdict where
  "allow_plain = \<lparr>verdict_ok = True, verdict_reason = None, verdict_stale_token = False\<rparr>"

definition reject :: "string \<Rightarrow> verdict" where
  "reject why_rejected = \<lparr>verdict_ok = False, verdict_reason = Some why_rejected, verdict_stale_token = False\<rparr>"

text \<open>\<open>hmac.compare_digest\<close> of two strings raises \<open>TypeError\<close> when one is not ASCII.\<close>

datatype digest_error = NonAsciiString

definition is_ascii :: "string \<Rightarrow> bool" where
  "is_ascii s \<longleftrightarrow> list_all (\<lambda>c. (of_char c :: nat) < 128) s"

definition compare_digest :: "string \<Rightarrow> string \<Rightarrow> digest_error + bool" where
  "compare_digest a b = (if is_ascii a \<and> is_ascii b then Inr (a = b) else Inl NonAsciiString)"

definition link_decide ::
  "string option \<Rightarrow> string option \<Rightarrow> bool \<Rightarrow> bool \<Rightarrow> digest_error + verdict" where
  "link_decide presented on_record secure require_tls =
     bind_res
       (if present presented \<and> present on_record
        then compare_digest (the presented) (the on_record) else Inr True)
       (\<lambda>same.
         if \<not> same then Inr (reject ''token mismatch'')
         else if require_tls \<and> \<not> (secure \<and> present presented \<and> present on_record)
         then Inr (reject (if \<not> secure then ''plain connection'' else ''missing a valid token''))
         else if present presented \<and> \<not> present on_record
         then Inr \<lparr>verdict_ok = True, verdict_reason = Some ''token presented but none on record'',
                   verdict_stale_token = True\<rparr>
         else Inr allow_plain)"

section \<open>Ingress authentication\<close>

definition INGRESS_GATEWAY_IP :: string where "INGRESS_GATEWAY_IP = ''172.30.32.2''"

record ingress_identity =
  ident_user_id :: string
  ident_username :: string
  ident_display_name :: string

definition VALID_ROLES :: "string list" where "VALID_ROLES = [''admin'', ''readonly'']"

definition role_for :: "int \<Rightarrow> string option \<Rightarrow> string" where
  "role_for existing_ha_admins configured_default =
     (if existing_ha_admins = 0 then ''admin''
      else let v = strip_or_empty configured_default
           in if v \<in> set VALID_ROLES then v else ''readonly'')"

text \<open>\<open>a or b or c\<close> on strings.\<close>

definition first_nonempty :: "string \<Rightarrow> string \<Rightarrow> string \<Rightarrow> string" where
  "first_nonempty a b c = (if a \<noteq> [] then a else if b \<noteq> [] then b else c)"

definition ingress_decide ::
  "bool \<Rightarrow> string option \<Rightarrow> string option \<Rightarrow> string option \<Rightarrow> string option \<Rightarrow> ingress_identity option" where
  "ingress_decide ingress_only remote user_id username display_name =
     (if \<not> ingress_only then None
      else if remote \<noteq> Some INGRESS_GATEWAY_IP then None
      else
        let uid = strip_or_empty user_id in
        if uid = [] then None
        else
          let un = strip_or_empty username; dn = strip_or_empty display_name;
              fallback = ''ha-'' @ take 12 uid
          in Some \<lparr>ident_user_id = uid, ident_username = first_nonempty un dn fallback,
                   ident_display_name = first_nonempty dn un fallback\<rparr>)"

section \<open>The no-speech clocks\<close>

datatype no_speech_reason = NoReason | NoSpeechWithin seconds | NoAudioWithin seconds

definition NO_SPEECH_TIMEOUT :: seconds where "NO_SPEECH_TIMEOUT = 5"
definition FIRST_AUDIO_GRACE :: seconds where "FIRST_AUDIO_GRACE = 5"

definition no_speech_verdict ::
  "seconds \<Rightarrow> seconds \<Rightarrow> seconds option \<Rightarrow> bool \<Rightarrow> seconds \<Rightarrow> seconds \<Rightarrow> bool \<times> no_speech_reason" where
  "no_speech_verdict now turn_start listening_since speech_seen no_speech_timeout first_audio_grace =
     (if speech_seen then (False, NoReason)
      else
        let (waited, limit, why_closed) =
          (case listening_since of
             Some l \<Rightarrow> (now - l, no_speech_timeout, NoSpeechWithin no_speech_timeout)
           | None \<Rightarrow> (now - turn_start, first_audio_grace, NoAudioWithin first_audio_grace))
        in if limit < waited then (True, why_closed) else (False, NoReason))"

section \<open>The advertised address\<close>

datatype server_ip_error = NotAnIPv4Address string | NoAddress

datatype ip_source = Configured | Detected

text \<open>
  \<open>ipaddress.IPv4Address(value)\<close>: four parts separated by dots, each one to three ASCII
  digits without a leading zero and at most 255.
\<close>

fun split_on :: "char \<Rightarrow> string \<Rightarrow> string list" where
  "split_on d [] = [[]]"
| "split_on d (c # cs) =
     (if c = d then [] # split_on d cs
      else case split_on d cs of [] \<Rightarrow> [[c]] | p # ps \<Rightarrow> (c # p) # ps)"

definition digits_value :: "string \<Rightarrow> nat" where
  "digits_value s = foldl (\<lambda>a c. 10 * a + (of_char c - 48)) 0 s"

definition octet_ok :: "string \<Rightarrow> bool" where
  "octet_ok p \<longleftrightarrow>
     p \<noteq> [] \<and> list_all is_digit p \<and> length p \<le> 3 \<and>
     \<not> (hd p = CHR ''0'' \<and> 1 < length p) \<and> digits_value p \<le> 255"

definition ipv4_ok :: "string \<Rightarrow> bool" where
  "ipv4_ok s \<longleftrightarrow> (let ps = split_on (CHR ''.'') s in length ps = 4 \<and> list_all octet_ok ps)"

definition resolve_server_ip ::
  "string option \<Rightarrow> string option \<Rightarrow> server_ip_error + (string \<times> ip_source)" where
  "resolve_server_ip configured detected_ip =
     (let v = strip_or_empty configured in
      if v \<noteq> [] then (if ipv4_ok v then Inr (v, Configured) else Inl (NotAnIPv4Address v))
      else if present detected_ip then Inr (the detected_ip, Detected)
      else Inl NoAddress)"

definition BRIDGE_NETS :: "string list" where
  "BRIDGE_NETS = [''172.17.'', ''172.18.'', ''172.19.'', ''172.20.'', ''172.21.'', ''172.22.'', ''172.23.'']"

definition looks_containerised :: "string \<Rightarrow> bool" where
  "looks_containerised address \<longleftrightarrow> list_ex (startswith address) BRIDGE_NETS"

section \<open>Volume scales\<close>

definition DEVICE_VOLUME_MAX :: int where "DEVICE_VOLUME_MAX = 127"
definition DEVICE_VOLUME_BUTTON_FLOOR :: int where "DEVICE_VOLUME_BUTTON_FLOOR = 73"
definition DEVICE_VOLUME_BUTTON_STEP :: int where "DEVICE_VOLUME_BUTTON_STEP = 6"
definition DEVICE_VOLUME_BUTTON_LEVELS :: int where "DEVICE_VOLUME_BUTTON_LEVELS = 10"
definition DB_PER_STEP :: rat where "DB_PER_STEP = 1/2"

lemmas volume_consts = DEVICE_VOLUME_MAX_def DEVICE_VOLUME_BUTTON_FLOOR_def
  DEVICE_VOLUME_BUTTON_STEP_def DEVICE_VOLUME_BUTTON_LEVELS_def DB_PER_STEP_def

definition level_to_db :: "int \<Rightarrow> rat" where
  "level_to_db level = of_int (level - DEVICE_VOLUME_MAX) * DB_PER_STEP"

text \<open>\<open>None\<close> is a level \<open>float\<close> does not accept.\<close>

definition device_level_to_ha :: "rat option \<Rightarrow> rat" where
  "device_level_to_ha level =
     (case level of None \<Rightarrow> 0 | Some x \<Rightarrow> max 0 (min 1 (x / of_int DEVICE_VOLUME_MAX)))"

definition ha_volume_to_device :: "rat \<Rightarrow> int" where
  "ha_volume_to_device volume =
     max 0 (min DEVICE_VOLUME_MAX (py_round (volume * of_int DEVICE_VOLUME_MAX)))"

definition device_level_to_button_level :: "rat option \<Rightarrow> int option" where
  "device_level_to_button_level level =
     (case level of
        None \<Rightarrow> None
      | Some raw \<Rightarrow>
          Some (max 1 (min DEVICE_VOLUME_BUTTON_LEVELS
            (py_round ((raw - of_int DEVICE_VOLUME_BUTTON_FLOOR) / of_int DEVICE_VOLUME_BUTTON_STEP) + 1))))"

lemma ha_volume_mono: "x \<le> y \<Longrightarrow> ha_volume_to_device x \<le> ha_volume_to_device y"
  using py_round_mono [of "x * 127" "y * 127"] by (simp add: ha_volume_to_device_def volume_consts)

lemma button_level_step:
  assumes "1 \<le> k" and "k \<le> 10"
  shows "device_level_to_button_level (Some (of_int (73 + 6 * (k - 1)))) = Some k"
proof -
  have "(of_int (73 + 6 * (k - 1)) - of_int 73 :: rat) / of_int 6 = of_int (k - 1)"
    by simp
  then have "py_round ((of_int (73 + 6 * (k - 1)) - of_int 73) / of_int 6) = k - 1"
    by (simp only: py_round_of_int)
  then show ?thesis
    unfolding device_level_to_button_level_def volume_consts option.case
    using assms by simp
qed

section \<open>Properties\<close>

text \<open>with ASCII tokens, a device is admitted exactly when it
  presents the stored token over TLS, or TLS is not required and it does not present a token that
  contradicts a stored one; so deleting a device's record never locks it out, and requiring TLS
  leaves only the matching token.\<close>

theorem link_admission:
  assumes "\<forall>s. presented = Some s \<or> on_record = Some s \<longrightarrow> is_ascii s"
  shows "\<exists>v. link_decide presented on_record secure require_tls = Inr v \<and>
    (verdict_ok v \<longleftrightarrow>
      (if require_tls then secure \<and> present presented \<and> presented = on_record
       else \<not> present presented \<or> \<not> present on_record \<or> presented = on_record)) \<and>
    (verdict_stale_token v \<longleftrightarrow> \<not> require_tls \<and> present presented \<and> \<not> present on_record)"
proof -
  have "compare_digest (the presented) (the on_record) = Inr (presented = on_record)"
    if "present presented" and "present on_record"
    using assms that by (auto simp: compare_digest_def present_Some_iff)
  then show ?thesis
    by (cases "present presented"; cases "present on_record"; cases "presented = on_record";
        cases secure; cases require_tls) (simp_all add: link_decide_def reject_def allow_plain_def)
qed

theorem link_admission_witness:
  "\<exists>v. link_decide (Some ''old'') None False False = Inr v \<and> verdict_ok v \<and> verdict_stale_token v"
  using link_admission [of "Some ''old''" None False False]
  by (simp add: is_ascii_def present_def)

text \<open>an identity is taken from the headers only in the add-on
  and only from Supervisor's gateway, with a non-blank user id; the names handed on are then never
  empty, and a first role is admin only when no Home Assistant admin exists or it is configured.\<close>

theorem ingress_identity_safe:
  "(ingress_decide ingress_only remote user_id username display_name = Some i \<longrightarrow>
      ingress_only \<and> remote = Some INGRESS_GATEWAY_IP \<and> ident_user_id i \<noteq> [] \<and>
      ident_user_id i = strip_or_empty user_id \<and> ident_username i \<noteq> [] \<and> ident_display_name i \<noteq> []) \<and>
   (ingress_decide ingress_only remote user_id username display_name = None \<longleftrightarrow>
      \<not> ingress_only \<or> remote \<noteq> Some INGRESS_GATEWAY_IP \<or> strip_or_empty user_id = []) \<and>
   (role_for n configured = ''admin'' \<longleftrightarrow> n = 0 \<or> strip_or_empty configured = ''admin'') \<and>
   role_for n configured \<in> set VALID_ROLES"
  by (auto simp: ingress_decide_def first_nonempty_def role_for_def VALID_ROLES_def Let_def)

theorem ingress_identity_safe_witness:
  "(ingress_decide True (Some ''172.30.32.2'') (Some '' u1 '') None None = None \<longleftrightarrow>
     \<not> True \<or> Some ''172.30.32.2'' \<noteq> Some INGRESS_GATEWAY_IP \<or> strip_or_empty (Some '' u1 '') = []) \<and>
   role_for 2 (Some ''adm1n'') \<in> set VALID_ROLES"
  using ingress_identity_safe [of True "Some ''172.30.32.2''" "Some '' u1 ''" None None _ 2 "Some ''adm1n''"]
  by blast

text \<open>a device level sent to Home Assistant and back is the level
  it was, no volume asks the codec for more than unity gain, louder never becomes quieter, and the
  ten button levels are the ten three-decibel steps.\<close>

theorem volume_scales_agree:
  "(0 \<le> n \<and> n \<le> DEVICE_VOLUME_MAX \<longrightarrow>
      ha_volume_to_device (device_level_to_ha (Some (of_int n))) = n) \<and>
   0 \<le> ha_volume_to_device v \<and> ha_volume_to_device v \<le> DEVICE_VOLUME_MAX \<and>
   (v \<le> w \<longrightarrow> ha_volume_to_device v \<le> ha_volume_to_device w) \<and>
   (1 \<le> k \<and> k \<le> 10 \<longrightarrow> device_level_to_button_level (Some (of_int (73 + 6 * (k - 1)))) = Some k)"
proof -
  have "ha_volume_to_device (device_level_to_ha (Some (of_int n))) = n"
    if "0 \<le> n" "n \<le> DEVICE_VOLUME_MAX" for n
  proof -
    have "device_level_to_ha (Some (of_int n)) = of_int n / 127"
      using that by (simp add: device_level_to_ha_def volume_consts min_def max_def)
    then show ?thesis
      using that by (simp add: ha_volume_to_device_def volume_consts)
  qed
  moreover have "0 \<le> ha_volume_to_device v" "ha_volume_to_device v \<le> DEVICE_VOLUME_MAX"
    by (simp_all add: ha_volume_to_device_def volume_consts)
  ultimately show ?thesis
    using ha_volume_mono button_level_step by blast
qed

theorem volume_scales_agree_witness:
  "ha_volume_to_device (device_level_to_ha (Some 85)) = 85 \<and>
   device_level_to_button_level (Some 97) = Some 5"
  using volume_scales_agree [of 85 0 1 5] by (simp add: volume_consts)

end
