(* ===== verification/Clock.thy ===== *)
theory Clock
  imports Prelude
begin

text \<open>
  Controller and device clock synchronisation, \<open>controller/em_clock.py\<close>: the bounded window
  of low-RTT samples, the least-squares fit of offset against controller time, and the two
  conversions. All times are integer microseconds; offset and drift are rationals.
\<close>

section \<open>State\<close>

record clock_sample =
  cs_controller_us :: int
  cs_offset_us :: rat
  cs_rtt_us :: int

record clock_limits =
  max_rtt_us :: int
  max_samples :: int
  min_samples :: int
  min_span_us :: int

record clock_sync =
  clk_samples :: "clock_sample list"   \<comment> \<open>\<open>deque(maxlen=max_samples)\<close>, oldest first\<close>
  clk_rejected :: nat
  clk_offset_us :: rat
  clk_drift :: rat
  clk_reference_us :: "int option"

datatype clock_error = InvalidLimits | NoValidSample

definition clock_init :: "clock_limits \<Rightarrow> clock_error + clock_sync" where
  "clock_init l =
     (if max_rtt_us l \<le> 0 \<or> max_samples l < 2 \<or> min_samples l < 2 \<or>
         max_samples l < min_samples l \<or> min_span_us l < 0
      then Inl InvalidLimits
      else Inr \<lparr>clk_samples = [], clk_rejected = 0, clk_offset_us = 0, clk_drift = 0,
                clk_reference_us = None\<rparr>)"

definition default_limits :: clock_limits where
  "default_limits = \<lparr>max_rtt_us = 200000, max_samples = 32, min_samples = 4, min_span_us = 500000\<rparr>"

definition clock_reset :: "clock_sync \<Rightarrow> clock_sync" where
  "clock_reset c = c\<lparr>clk_samples := [], clk_rejected := 0, clk_offset_us := 0, clk_drift := 0,
     clk_reference_us := None\<rparr>"

section \<open>The fit\<close>

definition mean :: "rat list \<Rightarrow> rat" where
  "mean xs = sum_list xs / of_nat (length xs)"

definition fit_xs :: "clock_sample list \<Rightarrow> rat list" where
  "fit_xs ss = map (\<lambda>s. of_int (cs_controller_us s - cs_controller_us (hd ss))) ss"

definition fit_ys :: "clock_sample list \<Rightarrow> rat list" where
  "fit_ys ss = map cs_offset_us ss"

definition fit_drift :: "rat list \<Rightarrow> rat list \<Rightarrow> rat" where
  "fit_drift xs ys =
     (let d = (\<Sum>x\<leftarrow>xs. (x - mean xs)\<^sup>2)
      in if d \<noteq> 0 then (\<Sum>(x, y)\<leftarrow>zip xs ys. (x - mean xs) * (y - mean ys)) / d else 0)"

definition clock_fit :: "clock_sync \<Rightarrow> clock_sync" where
  "clock_fit c =
     (if clk_samples c = [] then c
      else let xs = fit_xs (clk_samples c); ys = fit_ys (clk_samples c)
           in c\<lparr>clk_drift := fit_drift xs ys,
                clk_reference_us := Some (cs_controller_us (hd (clk_samples c))),
                clk_offset_us := mean ys - fit_drift xs ys * mean xs\<rparr>)"

section \<open>A probe\<close>

text \<open>A timestamp that is not an integer, or a boolean, is \<open>None\<close>.\<close>

definition push :: "int \<Rightarrow> 'a \<Rightarrow> 'a list \<Rightarrow> 'a list" where
  "push n x xs = (let ys = xs @ [x] in drop (length ys - nat n) ys)"

definition clock_reject :: "clock_sync \<Rightarrow> clock_sync \<times> bool" where
  "clock_reject c = (c\<lparr>clk_rejected := clk_rejected c + 1\<rparr>, False)"

definition clock_update ::
  "clock_limits \<Rightarrow> int option \<times> int option \<times> int option \<times> int option \<Rightarrow> clock_sync \<Rightarrow> clock_sync \<times> bool" where
  "clock_update l p c =
     (case p of
        (Some t1, Some t2, Some t3, Some t4) \<Rightarrow>
          if t1 < 0 \<or> t2 < 0 \<or> t3 < 0 \<or> t4 < 0 then clock_reject c
          else if \<not> (t1 < t4 \<and> t2 \<le> t3) then clock_reject c
          else
            let rtt = (t4 - t1) - (t3 - t2) in
            if rtt \<le> 0 \<or> max_rtt_us l < rtt then clock_reject c
            else
              let s = \<lparr>cs_controller_us = (t1 + t4) div 2,
                       cs_offset_us = of_int ((t2 - t1) + (t3 - t4)) / 2, cs_rtt_us = rtt\<rparr>
              in (clock_fit (c\<lparr>clk_samples := push (max_samples l) s (clk_samples c)\<rparr>), True)
      | _ \<Rightarrow> clock_reject c)"

section \<open>What the rest of the controller reads\<close>

definition synchronized :: "clock_limits \<Rightarrow> clock_sync \<Rightarrow> bool" where
  "synchronized l c \<longleftrightarrow>
     (if int (length (clk_samples c)) < min_samples l \<or> clk_reference_us c = None then False
      else min_span_us l \<le> cs_controller_us (last (clk_samples c)) - cs_controller_us (hd (clk_samples c)))"

definition offset_at :: "clock_sync \<Rightarrow> int \<Rightarrow> rat" where
  "offset_at c t =
     (case clk_reference_us c of
        None \<Rightarrow> 0
      | Some r \<Rightarrow> clk_offset_us c + clk_drift c * of_int (t - r))"

definition current_offset_us :: "clock_sync \<Rightarrow> rat option" where
  "current_offset_us c =
     (if clk_reference_us c = None then None
      else Some (offset_at c (cs_controller_us (last (clk_samples c)))))"

definition drift_ppm :: "clock_sync \<Rightarrow> rat" where
  "drift_ppm c = clk_drift c * 1000000"

definition current_rtt_us :: "clock_sync \<Rightarrow> int option" where
  "current_rtt_us c = (if clk_samples c = [] then None else Some (cs_rtt_us (last (clk_samples c))))"

definition controller_to_device :: "clock_sync \<Rightarrow> int \<Rightarrow> clock_error + int" where
  "controller_to_device c t =
     (if clk_reference_us c = None then Inl NoValidSample
      else Inr (py_round (of_int t + offset_at c t)))"

definition device_to_controller :: "clock_sync \<Rightarrow> int \<Rightarrow> clock_error + int" where
  "device_to_controller c d =
     (case clk_reference_us c of
        None \<Rightarrow> Inl NoValidSample
      | Some r \<Rightarrow>
          let t0 = of_int d - clk_offset_us c;
              t1 = t0 - clk_drift c * (t0 - of_int r)
          in Inr (py_round t1))"

section \<open>The invariant of the window\<close>

definition sample_ok :: "clock_limits \<Rightarrow> clock_sample \<Rightarrow> bool" where
  "sample_ok l s \<longleftrightarrow> 0 < cs_rtt_us s \<and> cs_rtt_us s \<le> max_rtt_us l \<and> 0 \<le> cs_controller_us s"

definition clock_ok :: "clock_limits \<Rightarrow> clock_sync \<Rightarrow> bool" where
  "clock_ok l c \<longleftrightarrow>
     2 \<le> max_samples l \<and> int (length (clk_samples c)) \<le> max_samples l \<and>
     list_all (sample_ok l) (clk_samples c) \<and>
     (clk_samples c = [] \<longleftrightarrow> clk_reference_us c = None) \<and> clock_fit c = c"

lemma clock_fit_sel [simp]:
  "clk_samples (clock_fit c) = clk_samples c" "clk_rejected (clock_fit c) = clk_rejected c"
  by (simp_all add: clock_fit_def Let_def)

lemma clock_fit_idem [simp]: "clock_fit (clock_fit c) = clock_fit c"
  by (simp add: clock_fit_def Let_def)

lemma clock_fit_reference: "clk_samples c \<noteq> [] \<Longrightarrow> clk_reference_us (clock_fit c) \<noteq> None"
  by (simp add: clock_fit_def Let_def)

lemma push_props:
  assumes "0 < n"
  shows "push n x xs \<noteq> []" and "last (push n x xs) = x" and "set (push n x xs) \<subseteq> insert x (set xs)"
    and "int (length (push n x xs)) \<le> n"
proof -
  have lt: "length (xs @ [x]) - nat n < length (xs @ [x])"
    using assms by simp
  show "push n x xs \<noteq> []"
    using lt by (simp add: push_def Let_def)
  show "last (push n x xs) = x"
    using lt by (simp add: push_def Let_def last_drop)
  show "set (push n x xs) \<subseteq> insert x (set xs)"
    using set_drop_subset [of "length (xs @ [x]) - nat n" "xs @ [x]"] by (simp add: push_def Let_def)
  show "int (length (push n x xs)) \<le> n"
    using assms by (simp add: push_def Let_def)
qed

lemma clock_fit_rejected: "clock_fit (c\<lparr>clk_rejected := n\<rparr>) = (clock_fit c)\<lparr>clk_rejected := n\<rparr>"
  by (simp add: clock_fit_def Let_def)

lemma clock_reject_ok: "clock_ok l c \<Longrightarrow> clock_ok l (fst (clock_reject c))"
  by (simp add: clock_ok_def clock_reject_def clock_fit_rejected)

lemma clock_ok_update:
  assumes "clock_ok l c"
  shows "clock_ok l (fst (clock_update l p c))"
proof -
  have "clock_ok l (clock_fit (c\<lparr>clk_samples := push (max_samples l) s (clk_samples c)\<rparr>))"
    if "sample_ok l s" for s
    using assms that push_props [of "max_samples l" s "clk_samples c"]
      clock_fit_reference [of "c\<lparr>clk_samples := push (max_samples l) s (clk_samples c)\<rparr>"]
    by (auto simp: clock_ok_def list_all_iff)
  then show ?thesis
    using clock_reject_ok [OF assms]
    by (auto simp: clock_update_def Let_def sample_ok_def split: prod.split option.split)
qed

interpretation clock: machine "\<lambda>c p. clock_update l p c" "clock_ok l" for l
  by unfold_locales (rule clock_ok_update)

section \<open>Least squares is exact on a straight line\<close>

lemma sum_list_affine:
  "(\<Sum>x\<leftarrow>xs. a + b * (x :: rat)) = of_nat (length xs) * a + b * sum_list xs"
  by (induction xs) (simp_all add: algebra_simps)

lemma mean_affine: "xs \<noteq> [] \<Longrightarrow> mean (map (\<lambda>x. a + b * x) xs) = a + b * mean xs"
  unfolding mean_def by (simp add: sum_list_affine) (simp add: field_simps)

lemma fit_line:
  assumes "xs \<noteq> []" and "(\<Sum>x\<leftarrow>xs. (x - mean xs)\<^sup>2) \<noteq> 0"
  shows "fit_drift xs (map (\<lambda>x. a + b * x) xs) = b"
proof -
  have "(\<Sum>(x, y)\<leftarrow>zip xs (map (\<lambda>x. a + b * x) xs). (x - m) * (y - (a + b * m))) =
      b * (\<Sum>x\<leftarrow>xs. (x - m)\<^sup>2)" for m
    by (induction xs) (simp_all add: algebra_simps power2_eq_square)
  then show ?thesis
    using assms by (simp add: fit_drift_def Let_def mean_affine)
qed

lemma sum_squares_eq_0: "(\<Sum>x\<leftarrow>xs. (x - m :: rat)\<^sup>2) = 0 \<longleftrightarrow> (\<forall>x \<in> set xs. x = m)"
proof (induction xs)
  case Nil
  then show ?case by simp
next
  case (Cons x xs)
  have "0 \<le> (\<Sum>x\<leftarrow>xs. (x - m)\<^sup>2)"
    by (rule sum_list_nonneg) auto
  then show ?case
    using Cons by (simp add: add_nonneg_eq_0_iff)
qed

lemma fit_xs_spread:
  assumes "s \<in> set ss" and "cs_controller_us s \<noteq> cs_controller_us (hd ss)"
  shows "(\<Sum>x\<leftarrow>fit_xs ss. (x - mean (fit_xs ss))\<^sup>2) \<noteq> 0"
proof
  assume "(\<Sum>x\<leftarrow>fit_xs ss. (x - mean (fit_xs ss))\<^sup>2) = 0"
  then have eq: "\<forall>x \<in> set (fit_xs ss). x = mean (fit_xs ss)"
    by (simp add: sum_squares_eq_0)
  have "hd ss \<in> set ss"
    using assms(1) by (cases ss) auto
  then have "0 \<in> set (fit_xs ss)"
    by (force simp: fit_xs_def)
  moreover have "of_int (cs_controller_us s - cs_controller_us (hd ss)) \<in> set (fit_xs ss)"
    using assms(1) by (auto simp: fit_xs_def)
  ultimately have "of_int (cs_controller_us s - cs_controller_us (hd ss)) = (0 :: rat)"
    using eq by metis
  with assms(2) show False by simp
qed

section \<open>Properties\<close>

text \<open>when the samples in the window come from a device clock that
  really is an affine function of the controller's, and two of them were taken at different times,
  the fitted offset at every controller time is the true one.\<close>

theorem clock_fit_exact:
  assumes "clock_fit c = c"
    and "\<forall>s \<in> set (clk_samples c). cs_offset_us s = a + b * of_int (cs_controller_us s)"
    and "s \<in> set (clk_samples c)" and "cs_controller_us s \<noteq> cs_controller_us (hd (clk_samples c))"
  shows "offset_at c t = a + b * of_int t"
proof -
  let ?ss = "clk_samples c"
  let ?r = "cs_controller_us (hd ?ss)"
  let ?xs = "fit_xs ?ss"
  have ne: "?ss \<noteq> []" "?xs \<noteq> []"
    using assms(3) by (auto simp: fit_xs_def)
  have ys: "fit_ys ?ss = map (\<lambda>x. (a + b * of_int ?r) + b * x) ?xs"
    using assms(2) by (simp add: fit_ys_def fit_xs_def algebra_simps)
  have drift: "fit_drift ?xs (fit_ys ?ss) = b"
    unfolding ys using fit_xs_spread [OF assms(3,4)] ne(2) by (rule fit_line [rotated])
  have "clk_drift c = b" and "clk_reference_us c = Some ?r"
    and "clk_offset_us c = a + b * of_int ?r"
    using arg_cong [OF assms(1), of clk_drift] arg_cong [OF assms(1), of clk_reference_us]
      arg_cong [OF assms(1), of clk_offset_us] ne drift
    by (auto simp: clock_fit_def Let_def ys mean_affine)
  then show ?thesis
    by (simp add: offset_at_def algebra_simps)
qed

definition affine_example :: clock_sync where
  "affine_example =
     fst (run (\<lambda>c p. clock_update default_limits p c) (clock_reset \<lparr>clk_samples = [], clk_rejected = 0,
        clk_offset_us = 0, clk_drift = 0, clk_reference_us = None\<rparr>)
       [(Some 0, Some 10, Some 10, Some 20), (Some 100, Some 160, Some 160, Some 120)])"

theorem clock_fit_exact_witness:
  "offset_at affine_example 1000 = -5 + 1/2 * of_int 1000"
proof (rule clock_fit_exact)
  show "clock_fit affine_example = affine_example"
    by code_simp
  show "\<forall>s \<in> set (clk_samples affine_example). cs_offset_us s = -5 + 1/2 * of_int (cs_controller_us s)"
    by code_simp
  show "last (clk_samples affine_example) \<in> set (clk_samples affine_example)"
    by code_simp
  show "cs_controller_us (last (clk_samples affine_example)) \<noteq> cs_controller_us (hd (clk_samples affine_example))"
    by code_simp
qed

text \<open>converting a controller time to device time and back is off
  by at most the square of the drift times the distance from the reference sample, plus the two
  roundings; so one fixed-point iteration is good to a microsecond only while that product is.\<close>

theorem clock_round_trip_error:
  assumes "clk_reference_us c = Some r" and "controller_to_device c t = Inr d"
  shows "\<exists>u. device_to_controller c d = Inr u \<and>
    \<bar>of_int u - of_int t\<bar> \<le> (clk_drift c)\<^sup>2 * \<bar>of_int (t - r)\<bar> + \<bar>1 - clk_drift c\<bar> / 2 + 1/2"
proof -
  define x where "x = (of_int (t - r) :: rat)"
  define k where "k = clk_drift c"
  define e where "e = of_int d - (of_int t + offset_at c t)"
  have d: "d = py_round (of_int t + offset_at c t)"
    using assms by (simp add: controller_to_device_def)
  have e: "\<bar>e\<bar> \<le> 1/2"
    unfolding e_def d by (rule py_round_error)
  define t0 where "t0 = of_int d - clk_offset_us c"
  define t1 where "t1 = t0 - k * (t0 - of_int r)"
  have t0: "t0 = of_int r + x * (1 + k) + e"
    using assms(1) by (simp add: t0_def e_def offset_at_def x_def k_def algebra_simps)
  have t: "of_int t = of_int r + x"
    by (simp add: x_def)
  have "t1 - of_int t = - (k\<^sup>2 * x) + e * (1 - k)"
    unfolding t1_def t0 t by (simp add: algebra_simps power2_eq_square)
  then have "\<bar>t1 - of_int t\<bar> \<le> k\<^sup>2 * \<bar>x\<bar> + \<bar>e\<bar> * \<bar>1 - k\<bar>"
    by (metis abs_minus_cancel abs_mult abs_power2 abs_triangle_ineq)
  moreover have "\<bar>e\<bar> * \<bar>1 - k\<bar> \<le> (1/2) * \<bar>1 - k\<bar>"
    using e by (rule mult_right_mono) simp
  moreover have "\<bar>of_int (py_round t1) - t1\<bar> \<le> 1/2"
    by (rule py_round_error)
  ultimately have "\<bar>of_int (py_round t1) - of_int t\<bar> \<le> k\<^sup>2 * \<bar>x\<bar> + \<bar>1 - k\<bar> / 2 + 1/2"
    by linarith
  moreover have "device_to_controller c d = Inr (py_round t1)"
    using assms(1) by (simp add: device_to_controller_def t1_def t0_def k_def Let_def)
  ultimately show ?thesis
    by (auto simp: x_def k_def)
qed

theorem clock_round_trip_error_witness:
  "\<exists>u. device_to_controller affine_example 1495 = Inr u \<and>
    \<bar>of_int u - of_int 1000\<bar> \<le> (clk_drift affine_example)\<^sup>2 * \<bar>of_int (1000 - 10)\<bar> +
      \<bar>1 - clk_drift affine_example\<bar> / 2 + 1/2"
proof (rule clock_round_trip_error)
  show "clk_reference_us affine_example = Some 10"
    by code_simp
  show "controller_to_device affine_example 1000 = Inr 1495"
    by code_simp
qed

end
