(* ===== verification/Alarms.thy ===== *)
theory Alarms
  imports Prelude
begin

text \<open>
  Wall-clock alarms: the pure schedule of \<open>controller/em_alarms.py\<close> and the scheduler of
  \<open>em_alarm_scheduler.py\<close>.

  A local date is its number of days since 1970-01-01, a local time the number of seconds since
  that day's midnight. The time-zone database is outside the program: a zone is the offset of
  UTC seconds \<open>off_utc\<close> that \<open>fromtimestamp\<close> uses and the offset \<open>off_local\<close> that a naive local
  time with \<open>fold=0\<close> gets. What the code relies on is stated where it is used: an offset is
  smaller than a day, and (PEP 495) a local time that some instant has is given the offset of
  such an instant.
\<close>

section \<open>Zones and specifications\<close>

record zone =
  off_utc :: "seconds \<Rightarrow> int"
  off_local :: "int \<Rightarrow> int"

datatype alarm_date = NoDate | BadDate string | OnDay int

datatype recurrence = Once | Daily | Weekly | OtherRecurrence string

record alarm_spec =
  alarm_id :: string
  alarm_device :: device_id
  alarm_hour :: int
  alarm_minute :: int
  alarm_recurrence :: recurrence
  alarm_tz :: string
  alarm_enabled :: bool
  alarm_weekday_mask :: int
  alarm_on :: alarm_date
  alarm_label :: "string option"

definition ALARM_LATE_GRACE_S :: seconds where "ALARM_LATE_GRACE_S = 600"
definition ALL_DAYS_MASK :: int where "ALL_DAYS_MASK = 127"

datatype alarm_error =
    TimeOutOfRange | UnknownRecurrence | UnknownTimezone | NoDaysSelected | OneOffNeedsDate
  | InvalidDate

type_synonym zones = "string \<Rightarrow> zone option"

definition zone_info :: "zones \<Rightarrow> string \<Rightarrow> alarm_error + zone" where
  "zone_info zs tz = (case zs tz of None \<Rightarrow> Inl UnknownTimezone | Some z \<Rightarrow> Inr z)"

text \<open>Bit \<open>k\<close> of an unbounded integer, for \<open>mask >> k & 1\<close>.\<close>

definition bit_of :: "int \<Rightarrow> int \<Rightarrow> bool" where
  "bit_of m k \<longleftrightarrow> odd (m div 2 ^ nat k)"

definition bad_date :: "alarm_date \<Rightarrow> bool" where
  "bad_date d \<longleftrightarrow> (case d of BadDate _ \<Rightarrow> True | _ \<Rightarrow> False)"

lemma bad_date_iff [simp]: "bad_date d \<longleftrightarrow> (\<exists>x. d = BadDate x)"
  by (simp add: bad_date_def split: alarm_date.split)

definition validate :: "zones \<Rightarrow> alarm_spec \<Rightarrow> alarm_error + unit" where
  "validate zs s =
     (if \<not> (0 \<le> alarm_hour s \<and> alarm_hour s \<le> 23) \<or> \<not> (0 \<le> alarm_minute s \<and> alarm_minute s \<le> 59)
      then Inl TimeOutOfRange
      else if alarm_recurrence s \<notin> {Once, Daily, Weekly} then Inl UnknownRecurrence
      else if zs (alarm_tz s) = None then Inl UnknownTimezone
      else if alarm_recurrence s = Weekly \<and> alarm_weekday_mask s mod 128 = 0 then Inl NoDaysSelected
      else if alarm_recurrence s = Once \<and> alarm_on s = NoDate then Inl OneOffNeedsDate
      else if alarm_recurrence s = Once \<and> bad_date (alarm_on s) then Inl InvalidDate
      else Inr ())"

section \<open>Local times\<close>

definition local_seconds :: "int \<Rightarrow> int \<Rightarrow> int \<Rightarrow> int" where
  "local_seconds day hour minute = 86400 * day + 3600 * hour + 60 * minute"

text \<open>\<open>date.weekday()\<close>, Monday 0; the epoch was a Thursday.\<close>

definition weekday :: "int \<Rightarrow> int" where
  "weekday day = (day + 3) mod 7"

definition local_day :: "zone \<Rightarrow> seconds \<Rightarrow> int" where
  "local_day z t = \<lfloor>t + of_int (off_utc z t)\<rfloor> div 86400"

text \<open>
  \<open>_resolve_local\<close>: step forward a minute at a time until the round trip through UTC gives the
  same wall time back, at most a day's worth of minutes, then fall back to the plain conversion.
\<close>

definition to_utc :: "zone \<Rightarrow> int \<Rightarrow> int" where
  "to_utc z l = l - off_local z l"

definition exists_local :: "zone \<Rightarrow> int \<Rightarrow> bool" where
  "exists_local z l \<longleftrightarrow> to_utc z l + off_utc z (of_int (to_utc z l)) = l"

fun resolve_scan :: "zone \<Rightarrow> nat \<Rightarrow> int \<Rightarrow> int option" where
  "resolve_scan z 0 l = None"
| "resolve_scan z (Suc n) l =
     (if exists_local z l then Some (to_utc z l) else resolve_scan z n (l + 60))"

definition resolve_local :: "zone \<Rightarrow> int \<Rightarrow> int" where
  "resolve_local z l = (case resolve_scan z 1440 l of Some u \<Rightarrow> u | None \<Rightarrow> to_utc z l)"

section \<open>The next fire\<close>

definition day_selected :: "alarm_spec \<Rightarrow> int \<Rightarrow> bool" where
  "day_selected s day \<longleftrightarrow>
     \<not> (alarm_recurrence s = Weekly \<and> \<not> bit_of (alarm_weekday_mask s) (weekday day))"

definition fire_on :: "zone \<Rightarrow> alarm_spec \<Rightarrow> int \<Rightarrow> seconds" where
  "fire_on z s day = of_int (resolve_local z (local_seconds day (alarm_hour s) (alarm_minute s)))"

fun next_fire_scan :: "zone \<Rightarrow> alarm_spec \<Rightarrow> seconds \<Rightarrow> nat \<Rightarrow> int \<Rightarrow> seconds option" where
  "next_fire_scan z s a 0 day = None"
| "next_fire_scan z s a (Suc n) day =
     (if day_selected s day \<and> a < fire_on z s day then Some (fire_on z s day)
      else next_fire_scan z s a n (day + 1))"

definition next_fire :: "zones \<Rightarrow> alarm_spec \<Rightarrow> seconds \<Rightarrow> alarm_error + seconds option" where
  "next_fire zs s a =
     (if \<not> alarm_enabled s then Inr None
      else bind_res (zone_info zs (alarm_tz s)) (\<lambda>z.
        if alarm_recurrence s = Once
        then (case alarm_on s of
                NoDate \<Rightarrow> Inr None
              | BadDate _ \<Rightarrow> Inl InvalidDate
              | OnDay d \<Rightarrow> Inr (if a < fire_on z s d then Some (fire_on z s d) else None))
        else Inr (next_fire_scan z s a 15 (local_day z a))))"

definition resolve_once_date :: "zones \<Rightarrow> int \<Rightarrow> int \<Rightarrow> string \<Rightarrow> seconds \<Rightarrow> alarm_error + int option" where
  "resolve_once_date zs hour minute tz now =
     bind_res (next_fire zs \<lparr>alarm_id = ''_probe'', alarm_device = ''_'', alarm_hour = hour,
         alarm_minute = minute, alarm_recurrence = Daily, alarm_tz = tz, alarm_enabled = True,
         alarm_weekday_mask = 0, alarm_on = NoDate, alarm_label = None\<rparr> now)
       (\<lambda>f. case f of None \<Rightarrow> Inr None
            | Some t \<Rightarrow> bind_res (zone_info zs tz) (\<lambda>z. Inr (Some (local_day z t))))"

definition occurrence_key :: "zones \<Rightarrow> alarm_spec \<Rightarrow> seconds \<Rightarrow> alarm_error + int" where
  "occurrence_key zs s t = bind_res (zone_info zs (alarm_tz s)) (\<lambda>z. Inr (local_day z t))"

definition within_grace :: "seconds \<Rightarrow> seconds \<Rightarrow> seconds \<Rightarrow> bool" where
  "within_grace scheduled now grace \<longleftrightarrow> 0 \<le> now - scheduled \<and> now - scheduled \<le> grace"

section \<open>The scheduler\<close>

record sched_row =
  row_spec :: alarm_spec
  row_next_fire :: "seconds option"
  row_last_fired :: "int option"

datatype sched_effect =
    Persist string "seconds option" "int option"
  | DisableAlarm string
  | FireAlarm device_id string int "string option"   \<comment> \<open>device, alarm id and key of \<open>alarm:<id>:<key>\<close>, label\<close>

text \<open>
  \<open>_reconcile_alarm\<close> over the two functions of \<open>em_alarms\<close>. \<open>delivered\<close> is whether the fire
  callback returned; an exception anywhere keeps what was done before it.
\<close>

definition reconcile_alarm ::
  "(alarm_spec \<Rightarrow> seconds \<Rightarrow> alarm_error + seconds option) \<Rightarrow> (alarm_spec \<Rightarrow> seconds \<Rightarrow> alarm_error + int) \<Rightarrow>
   seconds \<Rightarrow> bool \<Rightarrow> seconds \<Rightarrow> sched_row \<Rightarrow> sched_effect list" where
  "reconcile_alarm nf key grace delivered now r =
     (let s = row_spec r in
      case row_next_fire r of
        None \<Rightarrow>
          (case nf s now of Inl _ \<Rightarrow> [] | Inr n \<Rightarrow> [Persist (alarm_id s) n (row_last_fired r)])
      | Some sched \<Rightarrow>
          if now < sched then []
          else case key s sched of
            Inl _ \<Rightarrow> []
          | Inr occurrence \<Rightarrow>
              let late = within_grace sched now grace;
                  due = row_last_fired r \<noteq> Some occurrence \<and> late;
                  fires = (if due then [FireAlarm (alarm_device s) (alarm_id s) occurrence (alarm_label s)] else [])
              in if due \<and> \<not> delivered then fires
                 else case nf s (if late then sched else now) of
                   Inl _ \<Rightarrow> fires
                 | Inr None \<Rightarrow> fires @ [DisableAlarm (alarm_id s), Persist (alarm_id s) None (Some occurrence)]
                 | Inr (Some n) \<Rightarrow> fires @ [Persist (alarm_id s) (Some n) (Some occurrence)])"

text \<open>The database side of the two bookkeeping callbacks; a missing key keeps the stored one.\<close>

definition apply_sched :: "sched_effect \<Rightarrow> sched_row \<Rightarrow> sched_row" where
  "apply_sched x r =
     (case x of
        Persist i n k \<Rightarrow>
          if i = alarm_id (row_spec r)
          then r\<lparr>row_next_fire := n, row_last_fired := (case k of None \<Rightarrow> row_last_fired r | Some d \<Rightarrow> Some d)\<rparr>
          else r
      | DisableAlarm i \<Rightarrow>
          if i = alarm_id (row_spec r) then r\<lparr>row_spec := (row_spec r)\<lparr>alarm_enabled := False\<rparr>\<rparr> else r
      | FireAlarm _ _ _ _ \<Rightarrow> r)"

text \<open>
  \<open>reconcile_once\<close> for the stored alarms: only enabled rows are loaded. \<open>delivered i\<close> says whether
  alarm \<open>i\<close>'s fire callback returns.
\<close>

definition reconcile_row ::
  "(alarm_spec \<Rightarrow> seconds \<Rightarrow> alarm_error + seconds option) \<Rightarrow> (alarm_spec \<Rightarrow> seconds \<Rightarrow> alarm_error + int) \<Rightarrow>
   seconds \<Rightarrow> sched_row \<Rightarrow> seconds \<times> bool \<Rightarrow> sched_row \<times> sched_effect list" where
  "reconcile_row nf key grace r tick =
     (case tick of (now, delivered) \<Rightarrow>
        if \<not> alarm_enabled (row_spec r) then (r, [])
        else let xs = reconcile_alarm nf key grace delivered now r in (fold apply_sched xs r, xs))"

definition reconcile_once ::
  "zones \<Rightarrow> seconds \<Rightarrow> (string \<Rightarrow> bool) \<Rightarrow> seconds \<Rightarrow> sched_row list \<Rightarrow> sched_row list \<times> sched_effect list" where
  "reconcile_once zs grace delivered now rows =
     (let outs = map (\<lambda>r. reconcile_row (next_fire zs) (occurrence_key zs) grace r
                        (now, delivered (alarm_id (row_spec r)))) rows
      in (map fst outs, concat (map snd outs)))"

section \<open>Facts about local times\<close>

definition zone_ok :: "zone \<Rightarrow> bool" where
  "zone_ok z \<longleftrightarrow> (\<forall>t. \<bar>off_utc z t\<bar> < 86400) \<and> (\<forall>l. \<bar>off_local z l\<bar> < 86400)"

text \<open>PEP 495: a wall time that occurs is resolved to an instant at which it occurs.\<close>

definition fold_ok :: "zone \<Rightarrow> bool" where
  "fold_ok z \<longleftrightarrow> (\<forall>l u. u + off_utc z (of_int u) = l \<longrightarrow> exists_local z l)"

lemma resolve_scan_Some:
  "resolve_scan z n l = Some u \<Longrightarrow> \<exists>k. 0 \<le> k \<and> exists_local z (l + 60 * k) \<and> u = to_utc z (l + 60 * k)"
proof (induction n arbitrary: l)
  case 0
  then show ?case by simp
next
  case (Suc n)
  show ?case
  proof (cases "exists_local z l")
    case True
    with Suc.prems show ?thesis by (intro exI [of _ 0]) simp
  next
    case False
    with Suc.prems Suc.IH [of "l + 60"] obtain k where
      "0 \<le> k" "exists_local z (l + 60 + 60 * k)" "u = to_utc z (l + 60 + 60 * k)"
      by auto
    then show ?thesis
      by (intro exI [of _ "k + 1"]) (simp add: algebra_simps)
  qed
qed

lemma resolve_local_bound:
  assumes "zone_ok z"
  shows "l - 86400 < resolve_local z l"
proof (cases "resolve_scan z 1440 l")
  case None
  with assms show ?thesis
    by (auto simp: resolve_local_def to_utc_def zone_ok_def abs_less_iff dest: spec [of _ l])
next
  case (Some u)
  with resolve_scan_Some [OF Some] assms show ?thesis
    by (auto simp: resolve_local_def to_utc_def zone_ok_def abs_less_iff) (smt (verit))
qed

lemma resolve_local_exists:
  "exists_local z l \<Longrightarrow> resolve_local z l = to_utc z l"
proof -
  assume "exists_local z l"
  then have "resolve_scan z 1440 l = Some (to_utc z l)"
    using resolve_scan.simps(2) [of z 1439 l] by simp
  then show ?thesis
    by (simp add: resolve_local_def)
qed

text \<open>An alarm rings at its wall time on every day on which that wall time occurs.\<close>

lemma resolve_local_wall:
  assumes "fold_ok z" and "u + off_utc z (of_int u) = l"
  shows "resolve_local z l + off_utc z (of_int (resolve_local z l)) = l"
proof -
  have "exists_local z l"
    using assms by (auto simp: fold_ok_def)
  with resolve_local_exists [OF this] show ?thesis
    by (simp add: exists_local_def)
qed

lemma next_fire_scan_Some:
  "next_fire_scan z s a n day = Some f \<Longrightarrow>
     \<exists>k < n. f = fire_on z s (day + int k) \<and> a < f \<and> day_selected s (day + int k) \<and>
       (\<forall>j < k. \<not> (day_selected s (day + int j) \<and> a < fire_on z s (day + int j)))"
proof (induction n arbitrary: day)
  case 0
  then show ?case by simp
next
  case (Suc n)
  show ?case
  proof (cases "day_selected s day \<and> a < fire_on z s day")
    case True
    with Suc.prems show ?thesis by (intro exI [of _ 0]) auto
  next
    case False
    with Suc.prems Suc.IH [of "day + 1"] obtain k where k: "k < n" "f = fire_on z s (day + 1 + int k)"
      "a < f" "day_selected s (day + 1 + int k)"
      "\<forall>j < k. \<not> (day_selected s (day + 1 + int j) \<and> a < fire_on z s (day + 1 + int j))"
      by auto
    have "\<not> (day_selected s (day + int j) \<and> a < fire_on z s (day + int j))" if "j < Suc k" for j
      using that k(5) False by (cases j) (auto simp: algebra_simps)
    with k show ?thesis
      by (intro exI [of _ "Suc k"]) (auto simp: algebra_simps)
  qed
qed

lemma next_fire_scan_None:
  "next_fire_scan z s a n day = None \<Longrightarrow> k < n \<Longrightarrow>
     \<not> (day_selected s (day + int k) \<and> a < fire_on z s (day + int k))"
proof (induction n arbitrary: day k)
  case 0
  then show ?case by simp
next
  case (Suc n)
  then have here: "\<not> (day_selected s day \<and> a < fire_on z s day)" "next_fire_scan z s a n (day + 1) = None"
    by (auto split: if_splits)
  show ?case
  proof (cases k)
    case 0
    with here show ?thesis by simp
  next
    case (Suc j)
    with Suc.prems Suc.IH [OF here(2), of j] show ?thesis
      by (simp add: algebra_simps)
  qed
qed

lemma fire_after_three_days:
  assumes "zone_ok z" and "3 \<le> k" and "0 \<le> alarm_hour s" and "0 \<le> alarm_minute s"
  shows "a < fire_on z s (local_day z a + int k)"
proof -
  let ?l = "local_seconds (local_day z a + int k) (alarm_hour s) (alarm_minute s)"
  have "\<lfloor>a + of_int (off_utc z a)\<rfloor> < 86400 * (local_day z a + 1)"
    unfolding local_day_def by presburger
  then have "a + of_int (off_utc z a) < of_int (86400 * (local_day z a + 1))"
    by (simp only: floor_less_iff)
  moreover have "- 86400 < off_utc z a"
    using assms(1) by (auto simp: zone_ok_def abs_less_iff dest: spec [of _ a])
  then have "- 86400 < (of_int (off_utc z a) :: rat)"
    by simp
  ultimately have "a < of_int (86400 * (local_day z a + 1) + 86400)"
    by simp
  also have "86400 * (local_day z a + 1) + 86400 \<le> ?l - 86400"
    using assms(2-4) by (simp add: local_seconds_def)
  then have "(of_int (86400 * (local_day z a + 1) + 86400) :: rat) \<le> of_int (?l - 86400)"
    by (simp only: of_int_le_iff)
  also have "of_int (?l - 86400) < fire_on z s (local_day z a + int k)"
    using resolve_local_bound [OF assms(1), of ?l] by (simp add: fire_on_def flip: of_int_less_iff)
  finally show ?thesis .
qed

lemma even_digits_dvd:
  assumes "\<And>i. i < n \<Longrightarrow> even (m div 2 ^ i :: int)"
  shows "2 ^ n dvd m"
  using assms
proof (induction n)
  case 0
  then show ?case by simp
next
  case (Suc n)
  then have "2 ^ n dvd m" and "even (m div 2 ^ n)"
    by simp_all
  then obtain q where "m = 2 ^ n * q" and "even q"
    by auto
  then show ?case by auto
qed

text \<open>A weekly mask with a day set selects one of any seven days running.\<close>

lemma day_selected_within_week:
  assumes "alarm_recurrence s \<noteq> Weekly \<or> alarm_weekday_mask s mod 128 \<noteq> 0"
  shows "\<exists>k < 7. day_selected s (day + int k)"
proof (cases "alarm_recurrence s = Weekly")
  case False
  then show ?thesis by (intro exI [of _ 0]) (simp add: day_selected_def)
next
  case True
  let ?m = "alarm_weekday_mask s"
  have "\<exists>b. 0 \<le> b \<and> b < 7 \<and> bit_of ?m b"
  proof (rule ccontr)
    assume no: "\<nexists>b. 0 \<le> b \<and> b < 7 \<and> bit_of ?m b"
    have "even (?m div 2 ^ i)" if "i < 7" for i
      using no that by (auto simp: bit_of_def dest: spec [of _ "int i"])
    then have "2 ^ 7 dvd ?m"
      by (rule even_digits_dvd)
    then have "?m mod 128 = 0"
      by (simp add: dvd_eq_mod_eq_0)
    with assms True show False by simp
  qed
  then obtain b where b: "0 \<le> b" "b < 7" "bit_of ?m b" by blast
  define k where "k = nat ((b - (day + 3)) mod 7)"
  have "weekday (day + int k) = ((day + 3) + (b - (day + 3)) mod 7) mod 7"
    by (simp add: weekday_def k_def algebra_simps)
  also have "\<dots> = ((day + 3) + (b - (day + 3))) mod 7"
    by (rule mod_add_right_eq)
  also have "\<dots> = b"
    using b(1,2) by simp
  finally have "weekday (day + int k) = b" .
  moreover have "k < 7"
    by (simp add: k_def nat_less_iff)
  ultimately show ?thesis
    using b(3) by (intro exI [of _ k]) (simp add: day_selected_def)
qed

section \<open>The scheduler over any fire times\<close>

text \<open>
  One tick of one alarm, with the deliveries that came back: the scheduled time and the time of
  the tick.
\<close>

definition is_fire :: "sched_effect \<Rightarrow> bool" where
  "is_fire x \<longleftrightarrow> (case x of FireAlarm _ _ _ _ \<Rightarrow> True | _ \<Rightarrow> False)"

definition ring_step ::
  "(alarm_spec \<Rightarrow> seconds \<Rightarrow> alarm_error + seconds option) \<Rightarrow> (alarm_spec \<Rightarrow> seconds \<Rightarrow> alarm_error + int) \<Rightarrow>
   seconds \<Rightarrow> sched_row \<Rightarrow> seconds \<times> bool \<Rightarrow> sched_row \<times> (seconds \<times> seconds) list" where
  "ring_step nf key grace r tick =
     (let (r', xs) = reconcile_row nf key grace r tick
      in (r', if snd tick then map (\<lambda>_. (the (row_next_fire r), fst tick)) (filter is_fire xs) else []))"

locale fire_times =
  fixes nf :: "alarm_spec \<Rightarrow> seconds \<Rightarrow> alarm_error + seconds option"
    and key :: "alarm_spec \<Rightarrow> seconds \<Rightarrow> alarm_error + int"
    and valid :: "alarm_spec \<Rightarrow> bool"
  assumes nf_total: "valid s \<Longrightarrow> \<exists>r. nf s a = Inr r"
    and key_total: "valid s \<Longrightarrow> \<exists>k. key s t = Inr k"
    and nf_after: "nf s a = Inr (Some f) \<Longrightarrow> a < f"
    and valid_disabled: "valid (s\<lparr>alarm_enabled := b\<rparr>) \<longleftrightarrow> valid s"
begin

definition rung :: "seconds \<Rightarrow> sched_row \<Rightarrow> (seconds \<times> seconds) list \<Rightarrow> bool" where
  "rung grace r rs \<longleftrightarrow>
     valid (row_spec r) \<and> sorted_wrt (<) (map fst rs) \<and>
     (\<forall>(sched, now) \<in> set rs. sched \<le> now \<and> now \<le> sched + grace) \<and>
     (alarm_enabled (row_spec r) \<longrightarrow> (\<forall>(sched, now) \<in> set rs. \<exists>n. row_next_fire r = Some n \<and> sched < n))"

lemma reconcile_due:
  assumes "valid (row_spec r)" and "row_next_fire r = Some sched" and "sched \<le> now"
  shows "\<exists>k fs. key (row_spec r) sched = Inr k \<and>
    fs = (if row_last_fired r \<noteq> Some k \<and> within_grace sched now grace
          then [FireAlarm (alarm_device (row_spec r)) (alarm_id (row_spec r)) k (alarm_label (row_spec r))] else []) \<and>
    (reconcile_alarm nf key grace True now r = fs @ [DisableAlarm (alarm_id (row_spec r)), Persist (alarm_id (row_spec r)) None (Some k)] \<or>
     (\<exists>n. sched < n \<and> reconcile_alarm nf key grace True now r = fs @ [Persist (alarm_id (row_spec r)) (Some n) (Some k)]))"
proof -
  obtain k where k: "key (row_spec r) sched = Inr k"
    using key_total [OF assms(1)] by blast
  obtain res where res: "nf (row_spec r) (if within_grace sched now grace then sched else now) = Inr res"
    using nf_total [OF assms(1)] by blast
  have "sched < n" if "res = Some n" for n
    using nf_after [of "row_spec r" _ n] res that assms(3) by (fastforce split: if_splits)
  with k res assms show ?thesis
    by (cases res) (auto simp: reconcile_alarm_def Let_def)
qed

lemma rung_snoc:
  assumes "rung grace r rs" and "alarm_enabled (row_spec r)" and "row_next_fire r = Some sched"
    and "valid (row_spec r')"
    and "alarm_enabled (row_spec r') \<Longrightarrow> \<exists>n. row_next_fire r' = Some n \<and> sched < n"
    and "out = [] \<or> out = [(sched, now)] \<and> sched \<le> now \<and> now \<le> sched + grace"
  shows "rung grace r' (rs @ out)"
  using assms by (fastforce simp: rung_def sorted_wrt_append)

lemma rung_step:
  assumes "rung grace r rs"
  shows "rung grace (fst (ring_step nf key grace r tick)) (rs @ snd (ring_step nf key grace r tick))"
proof (cases "alarm_enabled (row_spec r)")
  case False
  with assms show ?thesis
    by (simp add: ring_step_def reconcile_row_def case_prod_beta)
next
  case True
  note en = this
  obtain now dl where tick: "tick = (now, dl)" by (cases tick)
  have v: "valid (row_spec r)"
    using assms by (simp add: rung_def)
  show ?thesis
  proof (cases "row_next_fire r")
    case None
    then have "rs = []"
      using assms en by (cases rs) (auto simp: rung_def)
    with None v en show ?thesis
      by (auto simp: ring_step_def reconcile_row_def reconcile_alarm_def tick rung_def is_fire_def
          apply_sched_def Let_def split: sum.split)
  next
    case (Some sched)
    note nx = this
    show ?thesis
    proof (cases "now < sched")
      case True
      with nx en assms show ?thesis
        by (simp add: ring_step_def reconcile_row_def reconcile_alarm_def tick)
    next
      case False
      then have le: "sched \<le> now" by simp
      have bound: "\<forall>(s0, n0) \<in> set rs. s0 < sched"
        using assms en nx by (auto simp: rung_def)
      obtain k fs where d: "key (row_spec r) sched = Inr k"
        "fs = (if row_last_fired r \<noteq> Some k \<and> within_grace sched now grace
          then [FireAlarm (alarm_device (row_spec r)) (alarm_id (row_spec r)) k (alarm_label (row_spec r))] else [])"
        "reconcile_alarm nf key grace True now r = fs @ [DisableAlarm (alarm_id (row_spec r)), Persist (alarm_id (row_spec r)) None (Some k)] \<or>
         (\<exists>n. sched < n \<and> reconcile_alarm nf key grace True now r = fs @ [Persist (alarm_id (row_spec r)) (Some n) (Some k)])"
        using reconcile_due [OF v nx le] by blast
      show ?thesis
      proof (cases dl)
        case True
        let ?i = "alarm_id (row_spec r)"
        have fs: "fold apply_sched fs r = r" "filter is_fire fs = fs"
          "map (\<lambda>_. (sched, now)) fs = [] \<or>
           map (\<lambda>_. (sched, now)) fs = [(sched, now)] \<and> now \<le> sched + grace"
          using d(2) by (auto simp: apply_sched_def is_fire_def within_grace_def)
        from d(3) show ?thesis
        proof
          assume x: "reconcile_alarm nf key grace True now r = fs @ [DisableAlarm ?i, Persist ?i None (Some k)]"
          show ?thesis
            using v en nx True fs le
            by (intro rung_snoc [OF assms en nx, where now = now])
              (auto simp: ring_step_def reconcile_row_def tick x apply_sched_def is_fire_def valid_disabled)
        next
          assume "\<exists>n. sched < n \<and> reconcile_alarm nf key grace True now r = fs @ [Persist ?i (Some n) (Some k)]"
          then obtain n where x: "sched < n" "reconcile_alarm nf key grace True now r = fs @ [Persist ?i (Some n) (Some k)]"
            by blast
          show ?thesis
            using v en nx True fs le x(1)
            by (intro rung_snoc [OF assms en nx, where now = now])
              (auto simp: ring_step_def reconcile_row_def tick x(2) apply_sched_def is_fire_def)
        qed
      next
        case False
        have fs: "fold apply_sched fs r = r"
          using d(2) by (simp add: apply_sched_def)
        have "reconcile_alarm nf key grace False now r = fs \<and> fs \<noteq> [] \<or>
            reconcile_alarm nf key grace False now r = reconcile_alarm nf key grace True now r"
          using d(1,2) nx le by (auto simp: reconcile_alarm_def Let_def)
        then show ?thesis
        proof
          assume x: "reconcile_alarm nf key grace False now r = fs \<and> fs \<noteq> []"
          show ?thesis
            using assms en fs False by (simp add: ring_step_def reconcile_row_def tick x)
        next
          assume x: "reconcile_alarm nf key grace False now r = reconcile_alarm nf key grace True now r"
          show ?thesis
            using v en nx False fs le d(3)
            by (intro rung_snoc [OF assms en nx, where now = now])
              (auto simp: ring_step_def reconcile_row_def tick x apply_sched_def valid_disabled)
        qed
      qed
    qed
  qed
qed

end

lemma next_fire_after: "next_fire zs s a = Inr (Some f) \<Longrightarrow> a < f"
  by (auto simp: next_fire_def split: if_splits alarm_date.splits dest: next_fire_scan_Some)

interpretation alarms: fire_times "next_fire zs" "occurrence_key zs" "\<lambda>s. validate zs s = Inr ()" for zs
proof
  fix s :: alarm_spec and a t :: seconds and f :: seconds and b :: bool
  show "\<exists>r. next_fire zs s a = Inr r" if "validate zs s = Inr ()"
    using that
    by (cases "alarm_on s"; cases "zs (alarm_tz s)")
      (simp_all add: validate_def next_fire_def zone_info_def split: if_splits)
  show "\<exists>k. occurrence_key zs s t = Inr k" if "validate zs s = Inr ()"
    using that by (auto simp: validate_def occurrence_key_def zone_info_def)
  show "a < f" if "next_fire zs s a = Inr (Some f)"
    using that by (rule next_fire_after)
  show "(validate zs (s\<lparr>alarm_enabled := b\<rparr>) = Inr ()) = (validate zs s = Inr ())"
    by (simp add: validate_def)
qed

interpretation ringing: traced_machine
  "ring_step (next_fire zs) (occurrence_key zs) grace" "alarms.rung zs grace" for zs grace
  by unfold_locales (rule alarms.rung_step)

section \<open>Properties\<close>

text \<open>Claim C39: a valid enabled daily or weekly alarm
  always has a next fire strictly after the given time, on the first selected local day, counting
  from the local day of that time, whose wall time resolves to a later instant; fifteen days of
  search are enough.\<close>

theorem recurring_alarm_always_has_a_next_fire:
  assumes "validate zs s = Inr ()" and "alarm_enabled s" and "alarm_recurrence s \<noteq> Once"
    and "zs (alarm_tz s) = Some z" and "zone_ok z"
  shows "\<exists>k f. next_fire zs s a = Inr (Some f) \<and> a < f \<and> k < 15 \<and>
    f = fire_on z s (local_day z a + int k) \<and> day_selected s (local_day z a + int k) \<and>
    (\<forall>j < k. \<not> (day_selected s (local_day z a + int j) \<and> a < fire_on z s (local_day z a + int j)))"
proof -
  have nf: "next_fire zs s a = Inr (next_fire_scan z s a 15 (local_day z a))"
    using assms(2-4) by (simp add: next_fire_def zone_info_def)
  have "alarm_recurrence s \<noteq> Weekly \<or> alarm_weekday_mask s mod 128 \<noteq> 0"
    and time: "0 \<le> alarm_hour s" "0 \<le> alarm_minute s"
    using assms(1) by (auto simp: validate_def split: if_splits)
  then obtain k where k: "k < 7" "day_selected s (local_day z a + 3 + int k)"
    using day_selected_within_week [of s "local_day z a + 3"] by blast
  have "a < fire_on z s (local_day z a + int (3 + k))"
    using assms(5) time by (intro fire_after_three_days) simp_all
  with k have "next_fire_scan z s a 15 (local_day z a) \<noteq> None"
    using next_fire_scan_None [of z s a 15 "local_day z a" "3 + k"] by (auto simp: add.assoc)
  then obtain f where "next_fire_scan z s a 15 (local_day z a) = Some f" by blast
  with next_fire_scan_Some [OF this] nf show ?thesis by auto
qed

text \<open>A zone two hours behind UTC that moves to one hour behind at 23:00 local on Saturday,
  30 March 2024 (the rule of America/Nuuk), with the offsets \<open>zoneinfo\<close> gives.\<close>

definition west_zone :: zone where
  "west_zone = \<lparr>off_utc = (\<lambda>t. if t < 1711846800 then -7200 else -3600),
     off_local = (\<lambda>l. if l < 1711846800 - 3600 then -7200 else -3600)\<rparr>"

definition late_alarm :: alarm_spec where
  "late_alarm = \<lparr>alarm_id = ''a1'', alarm_device = ''D'', alarm_hour = 23, alarm_minute = 30,
     alarm_recurrence = Daily, alarm_tz = ''W'', alarm_enabled = True, alarm_weekday_mask = 0,
     alarm_on = NoDate, alarm_label = None\<rparr>"

lemma west_zone_ok: "zone_ok west_zone"
  by (simp add: zone_ok_def west_zone_def)

theorem recurring_alarm_always_has_a_next_fire_witness:
  "\<exists>f. next_fire [''W'' \<mapsto> west_zone] late_alarm 1711700000 = Inr (Some f) \<and> 1711700000 < f"
  using recurring_alarm_always_has_a_next_fire [of "[''W'' \<mapsto> west_zone]" late_alarm west_zone 1711700000]
    west_zone_ok
  by (auto simp: validate_def late_alarm_def)

text \<open>on a day on which the alarm's wall time occurs, the
  instant it is resolved to shows exactly that wall time, and the occurrence is filed under that
  day; daylight-saving changes do not move it.\<close>

theorem alarm_rings_at_its_wall_time:
  assumes "fold_ok z" and "zs (alarm_tz s) = Some z"
    and "0 \<le> alarm_hour s \<and> alarm_hour s \<le> 23 \<and> 0 \<le> alarm_minute s \<and> alarm_minute s \<le> 59"
    and "u + off_utc z (of_int u) = local_seconds day (alarm_hour s) (alarm_minute s)"
  shows "fire_on z s day + of_int (off_utc z (fire_on z s day)) =
      of_int (local_seconds day (alarm_hour s) (alarm_minute s)) \<and>
    occurrence_key zs s (fire_on z s day) = Inr day"
proof -
  let ?l = "local_seconds day (alarm_hour s) (alarm_minute s)"
  have "resolve_local z ?l + off_utc z (of_int (resolve_local z ?l)) = ?l"
    using assms(1,4) by (rule resolve_local_wall)
  then have wall: "fire_on z s day + of_int (off_utc z (fire_on z s day)) = of_int ?l"
    unfolding fire_on_def by (metis of_int_add)
  have "?l = 86400 * day + (3600 * alarm_hour s + 60 * alarm_minute s)"
    by (simp add: local_seconds_def)
  moreover have "0 \<le> 3600 * alarm_hour s + 60 * alarm_minute s"
    and "3600 * alarm_hour s + 60 * alarm_minute s < 86400"
    using assms(3) by simp_all
  ultimately have "?l div 86400 = day"
    by (rule int_div_pos_eq)
  then have "local_day z (fire_on z s day) = day"
    by (simp add: local_day_def wall)
  with wall assms(2) show ?thesis
    by (simp add: occurrence_key_def zone_info_def)
qed

theorem alarm_rings_at_its_wall_time_witness:
  "let z = \<lparr>off_utc = (\<lambda>t. 3600), off_local = (\<lambda>l. 3600)\<rparr> in
     fire_on z (late_alarm\<lparr>alarm_hour := 7\<rparr>) 19000 + 3600 = of_int (local_seconds 19000 7 30)"
proof -
  let ?z = "\<lparr>off_utc = (\<lambda>t :: seconds. 3600), off_local = (\<lambda>l. 3600)\<rparr>"
  have "fold_ok ?z"
    by (simp add: fold_ok_def exists_local_def to_utc_def)
  from alarm_rings_at_its_wall_time [OF this, of "[''W'' \<mapsto> ?z]" "late_alarm\<lparr>alarm_hour := 7\<rparr>"
      "local_seconds 19000 7 30 - 3600" 19000]
  show ?thesis
    by (simp add: late_alarm_def)
qed



text \<open>in a zone that skips from 23:00 to midnight, a
  daily 23:30 alarm rings at the midnight after the skipped time, which is filed under the next
  day; the next day's 23:30, although it is reached on time, is then taken for already fired and
  does not ring.\<close>

theorem gap_over_midnight_silences_next_day:
  "let zs = [''W'' \<mapsto> west_zone];
       r0 = \<lparr>row_spec = late_alarm, row_next_fire = Some 1711846800, row_last_fired = Some 19811\<rparr>;
       (r1, rings1) = ring_step (next_fire zs) (occurrence_key zs) ALARM_LATE_GRACE_S r0 (1711846800, True);
       (r2, rings2) = ring_step (next_fire zs) (occurrence_key zs) ALARM_LATE_GRACE_S r1 (1711931400, True)
   in next_fire zs late_alarm 1711762200 = Inr (Some 1711846800) \<and>
      rings1 = [(1711846800, 1711846800)] \<and> row_next_fire r1 = Some 1711931400 \<and> rings2 = []"
  by code_simp

end
