(* ===== verification/Timers.thy ===== *)
theory Timers
  imports Prelude
begin

text \<open>
  Finished Home Assistant timers and fired alarms waiting for an Echo: the pure state of
  \<open>controller/em_timers.py\<close>, the countdown ring of \<open>em_timer_ring.py\<close> and the ringing loop of
  \<open>em_timer_alarm.py\<close>.

  An event is the JSON object HACS posted. \<open>dumps\<close> is \<open>json.dumps\<close> with sorted keys; the code
  only compares its results.
\<close>

section \<open>Records\<close>

type_synonym json_object = "(string \<times> json) list"

record timer_record =
  timer_id :: string
  timer_name :: json
  total_seconds :: int
  seconds_left :: int
  timer_active :: bool
  ha_device_id :: json
  received_at :: "seconds option"

definition LIFECYCLE_EVENTS :: "string list" where
  "LIFECYCLE_EVENTS = [''started'', ''updated'', ''cancelled'', ''finished'']"

text \<open>\<open>from_payload\<close>, \<open>None\<close> where \<open>int\<close> raises; the caller has checked the id.\<close>

definition from_payload :: "string \<Rightarrow> json_object \<Rightarrow> seconds option \<Rightarrow> timer_record option" where
  "from_payload tid p stamp_at =
     (case (int_of_json (get_default p ''total_seconds'' (JInt 0)),
            int_of_json (get_default p ''seconds_left'' (JInt 0))) of
        (Some n, Some left) \<Rightarrow>
          Some \<lparr>timer_id = tid, timer_name = get_default p ''name'' JNull, total_seconds = n,
                seconds_left = left, timer_active = truthy (get_default p ''is_active'' (JBool False)),
                ha_device_id = get_default p ''ha_device_id'' JNull, received_at = stamp_at\<rparr>
      | _ \<Rightarrow> None)"

record transition =
  tr_accepted :: bool
  tr_duplicate :: bool
  tr_alarm_changed :: bool

definition accepted_tr :: "bool \<Rightarrow> bool \<Rightarrow> transition" where
  "accepted_tr dup changed = \<lparr>tr_accepted = True, tr_duplicate = dup, tr_alarm_changed = changed\<rparr>"

definition ignored_tr :: transition where
  "ignored_tr = \<lparr>tr_accepted = False, tr_duplicate = False, tr_alarm_changed = False\<rparr>"

section \<open>A session\<close>

record alarm_session =
  running :: "(string \<times> timer_record) list"
  ringing :: "timer_record option"                 \<comment> \<open>\<open>current\<close>\<close>
  waiting :: "timer_record list"                   \<comment> \<open>\<open>queue\<close>\<close>
  last_payload :: "(string \<times> string) list"
  cancelled_ids :: "string list"

definition session_init :: alarm_session where
  "session_init = \<lparr>running = [], ringing = None, waiting = [], last_payload = [], cancelled_ids = []\<rparr>"

definition dismiss_current :: "alarm_session \<Rightarrow> alarm_session \<times> timer_record option" where
  "dismiss_current s =
     (case ringing s of
        None \<Rightarrow> (s, None)
      | Some t \<Rightarrow>
          (case waiting s of
             [] \<Rightarrow> (s\<lparr>ringing := None\<rparr>, Some t)
           | q # qs \<Rightarrow> (s\<lparr>ringing := Some q, waiting := qs\<rparr>, Some t)))"

definition dismiss_all :: "alarm_session \<Rightarrow> alarm_session \<times> timer_record list" where
  "dismiss_all s =
     (s\<lparr>ringing := None, waiting := []\<rparr>,
      (case ringing s of None \<Rightarrow> [] | Some t \<Rightarrow> [t]) @ waiting s)"

definition remove_finished :: "string \<Rightarrow> alarm_session \<Rightarrow> alarm_session \<times> bool" where
  "remove_finished tid s =
     (let hit = opt_holds (\<lambda>t. timer_id t = tid) (ringing s);
          s1 = (if hit then fst (dismiss_current s) else s);
          q = filter (\<lambda>t. timer_id t \<noteq> tid) (waiting s1)
      in (s1\<lparr>waiting := q\<rparr>, hit \<or> length q \<noteq> length (waiting s1)))"

text \<open>
  \<open>apply\<close> after the event's name and id were accepted and its record was built: the three kinds
  of event, then the guards before them. \<open>fp\<close> is the fingerprint.
\<close>

definition start_timer :: "timer_record \<Rightarrow> alarm_session \<Rightarrow> alarm_session \<times> transition" where
  "start_timer timer s =
     (let (s2, ch) = remove_finished (timer_id timer) (s\<lparr>running := put (timer_id timer) timer (running s)\<rparr>)
      in (s2, accepted_tr False ch))"

definition cancel_timer :: "string \<Rightarrow> alarm_session \<Rightarrow> alarm_session \<times> transition" where
  "cancel_timer tid s =
     (let (s2, ch) = remove_finished tid
            (s\<lparr>cancelled_ids := List.insert tid (cancelled_ids s), running := pop tid (running s)\<rparr>)
      in (s2, accepted_tr False ch))"

definition finish_timer :: "timer_record \<Rightarrow> alarm_session \<Rightarrow> alarm_session \<times> transition" where
  "finish_timer timer s =
     (let s2 = s\<lparr>running := pop (timer_id timer) (running s)\<rparr> in
      if opt_holds (\<lambda>t. timer_id t = timer_id timer) (ringing s2) then (s2, accepted_tr False False)
      else if (\<exists>t \<in> set (waiting s2). timer_id t = timer_id timer) then (s2, accepted_tr True False)
      else if ringing s2 = None then (s2\<lparr>ringing := Some timer\<rparr>, accepted_tr False True)
      else (s2\<lparr>waiting := waiting s2 @ [timer]\<rparr>, accepted_tr False True))"

definition apply_timer :: "string \<Rightarrow> timer_record \<Rightarrow> string \<Rightarrow> alarm_session \<Rightarrow> alarm_session \<times> transition" where
  "apply_timer event_name timer fp s =
     (if map_of (last_payload s) (timer_id timer) = Some fp then (s, accepted_tr True False)
      else
        let s1 = s\<lparr>last_payload := put (timer_id timer) fp (last_payload s)\<rparr> in
        if timer_id timer \<in> set (cancelled_ids s1) \<and> event_name \<noteq> ''cancelled''
        then (s1, accepted_tr True False)
        else if event_name = ''started'' \<or> event_name = ''updated'' then start_timer timer s1
        else if event_name = ''cancelled'' then cancel_timer (timer_id timer) s1
        else finish_timer timer s1)"

text \<open>\<open>apply\<close>; \<open>None\<close> is the exception of a payload whose numbers do not convert.\<close>

definition apply_event ::
  "(json_object \<Rightarrow> string) \<Rightarrow> json_object \<Rightarrow> seconds option \<Rightarrow> alarm_session \<Rightarrow> (alarm_session \<times> transition) option" where
  "apply_event dumps ev stamp_at s =
     (case (json_str (get_default ev ''event'' JNull), json_str (get_default ev ''timer_id'' JNull)) of
        (Some event_name, Some tid) \<Rightarrow>
          if event_name \<notin> set LIFECYCLE_EVENTS \<or> tid = [] then Some (s, ignored_tr)
          else map_option (\<lambda>timer. apply_timer event_name timer (dumps ev) s) (from_payload tid ev stamp_at)
      | _ \<Rightarrow> Some (s, ignored_tr))"

definition session_state :: "alarm_session \<Rightarrow> string" where
  "session_state s =
     (if ringing s \<noteq> None then ''ringing'' else if waiting s \<noteq> [] then ''queued'' else ''idle'')"

section \<open>The abstract queue\<close>

definition pending :: "alarm_session \<Rightarrow> timer_record list" where
  "pending s = (case ringing s of None \<Rightarrow> [] | Some t \<Rightarrow> [t]) @ waiting s"

definition pending_ids :: "alarm_session \<Rightarrow> string list" where
  "pending_ids s = map timer_id (pending s)"

definition session_ok :: "alarm_session \<Rightarrow> bool" where
  "session_ok s \<longleftrightarrow>
     (ringing s = None \<longrightarrow> waiting s = []) \<and> distinct (pending_ids s) \<and>
     distinct (map fst (running s)) \<and>
     set (pending_ids s) \<inter> fst ` set (running s) = {} \<and>
     set (cancelled_ids s) \<inter> (set (pending_ids s) \<union> fst ` set (running s)) = {}"

lemma pending_frame [simp]:
  "pending (s\<lparr>last_payload := a\<rparr>) = pending s" "pending (s\<lparr>running := b\<rparr>) = pending s"
  "pending (s\<lparr>cancelled_ids := c\<rparr>) = pending s"
  "pending_ids (s\<lparr>last_payload := a\<rparr>) = pending_ids s" "pending_ids (s\<lparr>running := b\<rparr>) = pending_ids s"
  "pending_ids (s\<lparr>cancelled_ids := c\<rparr>) = pending_ids s"
  by (simp_all add: pending_def pending_ids_def)

lemma dismiss_current_pending:
  assumes "session_ok s"
  shows "pending (fst (dismiss_current s)) = tl (pending s)"
    and "snd (dismiss_current s) = (case pending s of [] \<Rightarrow> None | t # _ \<Rightarrow> Some t)"
  using assms by (auto simp: dismiss_current_def pending_def session_ok_def split: option.splits list.splits)

lemma dismiss_current_frame [simp]:
  "running (fst (dismiss_current s)) = running s" "cancelled_ids (fst (dismiss_current s)) = cancelled_ids s"
  by (simp_all add: dismiss_current_def split: option.split list.split)

lemma dismiss_all_pending:
  "pending (fst (dismiss_all s)) = []" "snd (dismiss_all s) = pending s"
  by (simp_all add: dismiss_all_def pending_def)

lemma remove_finished_frame [simp]:
  "running (fst (remove_finished tid s)) = running s"
  "cancelled_ids (fst (remove_finished tid s)) = cancelled_ids s"
  by (simp_all add: remove_finished_def Let_def)

lemma remove_finished_pending:
  assumes "ringing s = None \<longrightarrow> waiting s = []" and "distinct (pending_ids s)"
  shows "pending (fst (remove_finished tid s)) = filter (\<lambda>t. timer_id t \<noteq> tid) (pending s)"
    and "ringing (fst (remove_finished tid s)) = None \<longrightarrow> waiting (fst (remove_finished tid s)) = []"
  using assms
  by (auto simp: remove_finished_def dismiss_current_def pending_def pending_ids_def Let_def filter_id_conv
      split: option.splits list.splits)

lemma remove_finished_changed:
  assumes "ringing s = None \<longrightarrow> waiting s = []"
  shows "snd (remove_finished tid s) \<longleftrightarrow> tid \<in> set (pending_ids s)"
proof (cases "\<exists>t. ringing s = Some t \<and> timer_id t = tid")
  case True
  then show ?thesis
    by (auto simp: remove_finished_def pending_ids_def pending_def Let_def)
next
  case False
  have "length (filter (\<lambda>t. timer_id t \<noteq> tid) xs) \<noteq> length xs \<longleftrightarrow> tid \<in> timer_id ` set xs" for xs
    by (induction xs) (auto simp: less_imp_neq Suc_le_eq le_imp_less_Suc length_filter_le)
  with False show ?thesis
    by (cases "ringing s") (auto simp: remove_finished_def pending_def pending_ids_def Let_def)
qed

lemma distinct_filter_ids: "distinct (map f xs) \<Longrightarrow> distinct (map f (filter P xs))"
  by (induction xs) auto

lemma remove_finished_ok:
  assumes "ringing s = None \<longrightarrow> waiting s = []" and "distinct (pending_ids s)"
    and "distinct (map fst (running s))"
    and "set (pending_ids s) \<inter> fst ` set (running s) \<subseteq> {tid}"
    and "set (cancelled_ids s) \<inter> set (pending_ids s) \<subseteq> {tid}"
    and "set (cancelled_ids s) \<inter> fst ` set (running s) = {}"
  shows "session_ok (fst (remove_finished tid s))"
  using assms remove_finished_pending [OF assms(1,2), of tid]
  by (auto simp: session_ok_def pending_ids_def distinct_filter_ids)

text \<open>Every way into and out of the session keeps it well formed.\<close>

lemma session_ok_frame [simp]: "session_ok (s\<lparr>last_payload := x\<rparr>) = session_ok s"
  by (simp add: session_ok_def)

lemma start_timer_ok:
  assumes "session_ok s" and "timer_id timer \<notin> set (cancelled_ids s)"
  shows "session_ok (fst (start_timer timer s))"
proof -
  have "session_ok (fst (remove_finished (timer_id timer) (s\<lparr>running := put (timer_id timer) timer (running s)\<rparr>)))"
    using assms by (intro remove_finished_ok) (auto simp: session_ok_def distinct_put)
  then show ?thesis
    by (simp add: start_timer_def case_prod_beta Let_def)
qed

lemma cancel_timer_ok:
  assumes "session_ok s"
  shows "session_ok (fst (cancel_timer tid s))"
proof -
  have "session_ok (fst (remove_finished tid
      (s\<lparr>cancelled_ids := List.insert tid (cancelled_ids s), running := pop tid (running s)\<rparr>)))"
    using assms by (intro remove_finished_ok) (auto simp: session_ok_def distinct_pop)
  then show ?thesis
    by (simp add: cancel_timer_def case_prod_beta Let_def)
qed

lemma pending_mem_iff:
  "tid \<in> set (pending_ids s) \<longleftrightarrow>
     (\<exists>t. ringing s = Some t \<and> timer_id t = tid) \<or> (\<exists>t \<in> set (waiting s). timer_id t = tid)"
  by (cases "ringing s") (auto simp: pending_ids_def pending_def)

lemma finish_timer_pending:
  assumes "ringing s = None \<longrightarrow> waiting s = []"
  shows "pending (fst (finish_timer timer s)) =
      (if timer_id timer \<in> set (pending_ids s) then pending s else pending s @ [timer])"
    and "running (fst (finish_timer timer s)) = pop (timer_id timer) (running s)"
    and "cancelled_ids (fst (finish_timer timer s)) = cancelled_ids s"
    and "ringing (fst (finish_timer timer s)) = None \<longrightarrow> waiting (fst (finish_timer timer s)) = []"
    and "tr_alarm_changed (snd (finish_timer timer s)) \<longleftrightarrow> timer_id timer \<notin> set (pending_ids s)"
  using assms
  by (auto simp: finish_timer_def pending_mem_iff pending_def accepted_tr_def Let_def split: option.splits)

lemma finish_timer_ok:
  assumes "session_ok s" and "timer_id timer \<notin> set (cancelled_ids s)"
  shows "session_ok (fst (finish_timer timer s))"
proof -
  have q: "ringing s = None \<longrightarrow> waiting s = []"
    using assms(1) by (simp add: session_ok_def)
  have "pending_ids (fst (finish_timer timer s)) =
      (if timer_id timer \<in> set (pending_ids s) then pending_ids s else pending_ids s @ [timer_id timer])"
    using finish_timer_pending(1) [OF q, of timer] by (simp add: pending_ids_def)
  then show ?thesis
    using assms finish_timer_pending(2-4) [OF q, of timer]
    by (auto simp: session_ok_def distinct_pop)
qed

lemma apply_timer_ok: "session_ok s \<Longrightarrow> session_ok (fst (apply_timer nm timer fp s))"
  by (simp add: apply_timer_def start_timer_ok cancel_timer_ok finish_timer_ok Let_def)

lemma apply_event_ok: "session_ok s \<Longrightarrow> apply_event dumps ev w s = Some (s', tr) \<Longrightarrow> session_ok s'"
  using apply_timer_ok [of s] by (auto simp: apply_event_def split: option.splits if_splits)
    (metis fst_conv)+

lemma dismiss_ok:
  assumes "session_ok s"
  shows "session_ok (fst (dismiss_current s))" and "session_ok (fst (dismiss_all s))"
proof -
  have "pending_ids (fst (dismiss_current s)) = tl (pending_ids s)"
    using dismiss_current_pending(1) [OF assms] by (simp add: pending_ids_def map_tl)
  moreover have "ringing (fst (dismiss_current s)) = None \<longrightarrow> waiting (fst (dismiss_current s)) = []"
    using assms by (auto simp: session_ok_def dismiss_current_def split: option.split list.split)
  moreover have "set (tl (pending_ids s)) \<subseteq> set (pending_ids s)"
    by (cases "pending_ids s") auto
  ultimately show "session_ok (fst (dismiss_current s))"
    using assms unfolding session_ok_def by (simp add: distinct_tl) blast
  show "session_ok (fst (dismiss_all s))"
    using assms by (auto simp: session_ok_def dismiss_all_def pending_ids_def pending_def)
qed

section \<open>The session as a state machine\<close>

text \<open>
  \<open>timeout_current\<close> and \<open>delivery_failed\<close> are \<open>dismiss_current\<close>, \<open>disconnect\<close> is \<open>dismiss_all\<close>.
\<close>

datatype session_call = TimerEvent json_object "seconds option" | DismissCurrent | DismissAll

fun session_step ::
  "(json_object \<Rightarrow> string) \<Rightarrow> alarm_session \<Rightarrow> session_call \<Rightarrow> alarm_session \<times> timer_record list" where
  "session_step dumps s (TimerEvent ev w) =
     (case apply_event dumps ev w s of None \<Rightarrow> (s, []) | Some (s', _) \<Rightarrow> (s', []))"
| "session_step dumps s DismissCurrent =
     (let (s', t) = dismiss_current s in (s', case t of None \<Rightarrow> [] | Some x \<Rightarrow> [x]))"
| "session_step dumps s DismissAll = dismiss_all s"

lemma session_step_ok: "session_ok s \<Longrightarrow> session_ok (fst (session_step dumps s c))"
  by (cases c) (auto simp: dismiss_ok case_prod_beta Let_def dest: apply_event_ok split: option.split)

lemma apply_event_cancelled:
  assumes "apply_event dumps ev w s = Some (s', tr)"
  shows "set (cancelled_ids s) \<subseteq> set (cancelled_ids s')"
proof -
  have "set (cancelled_ids s) \<subseteq> set (cancelled_ids (fst (apply_timer nm timer fp s)))" for nm timer fp
    by (auto simp: apply_timer_def start_timer_def cancel_timer_def finish_timer_def case_prod_beta Let_def)
  with assms show ?thesis
    by (auto simp: apply_event_def split: option.splits if_splits) (metis fst_conv subsetD)+
qed

lemma session_step_cancelled: "set (cancelled_ids s) \<subseteq> set (cancelled_ids (fst (session_step dumps s c)))"
  by (cases c) (auto simp: dismiss_all_def case_prod_beta Let_def dest: apply_event_cancelled split: option.split)

definition tombstoned :: "string \<Rightarrow> alarm_session \<Rightarrow> bool" where
  "tombstoned tid s \<longleftrightarrow> session_ok s \<and> tid \<in> set (cancelled_ids s)"

interpretation session: machine "session_step dumps" session_ok for dumps
  by unfold_locales (rule session_step_ok)

interpretation tombstone: machine "session_step dumps" "tombstoned tid" for dumps tid
  using session_step_cancelled by unfold_locales (auto simp: tombstoned_def session_step_ok)

section \<open>The countdown ring\<close>

definition first_running :: "alarm_session \<Rightarrow> timer_record option" where
  "first_running s = (case running s of [] \<Rightarrow> None | (_, t) # _ \<Rightarrow> Some t)"

definition clamp :: "rat \<Rightarrow> rat \<Rightarrow> rat \<Rightarrow> rat" where
  "clamp v lo hi = max lo (min hi v)"

definition TTL_FLOOR_S :: rat where "TTL_FLOOR_S = 30"
definition TTL_CEILING_S :: rat where "TTL_CEILING_S = 3600"

record countdown =
  cd_color :: "int \<times> int \<times> int"
  cd_fraction_now :: rat
  cd_running_mps :: rat
  cd_ttl_sec :: int

definition countdown_spec :: "timer_record \<Rightarrow> seconds \<Rightarrow> int \<times> int \<times> int \<Rightarrow> countdown option" where
  "countdown_spec timer now color =
     (case received_at timer of
        None \<Rightarrow> None
      | Some at0 \<Rightarrow>
          if total_seconds timer \<le> 0 then None
          else
            let elapsed = (if timer_active timer then now - at0 else 0)
            in Some \<lparr>cd_color = color,
                 cd_fraction_now =
                   clamp ((of_int (seconds_left timer) - elapsed) / of_int (total_seconds timer)) 0 1,
                 cd_running_mps = (if timer_active timer then 1 / of_int (total_seconds timer) else 0),
                 cd_ttl_sec = py_int (min TTL_CEILING_S (max TTL_FLOOR_S (of_int (seconds_left timer) * 2 + 20)))\<rparr>)"

section \<open>The ringing loop\<close>

text \<open>
  One iteration of \<open>TimerAlarmRunner._run\<close>: the clock when a new current timer is noticed, what
  other handlers do to the session during the playback, whether the runner is then cancelled, the
  clock after the burst, and what happens during the pause.
\<close>

definition MAX_RING_S :: seconds where "MAX_RING_S = 120"

record ring_env =
  env_clock :: seconds
  env_play :: "alarm_session \<Rightarrow> alarm_session"
  env_cancelled :: bool
  env_clock_after :: seconds
  env_sleep :: "alarm_session \<Rightarrow> alarm_session"
  env_cancelled_sleep :: bool

datatype ring_effect = OnCurrent string | Burst string | TimedOut string | SessionChanged

fun ring_loop ::
  "seconds \<Rightarrow> alarm_session \<Rightarrow> bool \<Rightarrow> string option \<Rightarrow> seconds \<Rightarrow> ring_env list \<Rightarrow> alarm_session \<times> ring_effect list" where
  "ring_loop m s c cur deadline [] = (s, [])"
| "ring_loop m s c cur deadline (e # es) =
     (case ringing s of
        None \<Rightarrow> (s, [])
      | Some timer \<Rightarrow>
          if c then (s, [])
          else
            let fresh = (cur \<noteq> Some (timer_id timer));
                d = (if fresh then env_clock e + m else deadline);
                s1 = env_play e s;
                out = (if fresh then [OnCurrent (timer_id timer)] else []) @ [Burst (timer_id timer)]
            in if env_cancelled e then (s1, out)
               else if d \<le> env_clock_after e
               then (let (s2, gone) = dismiss_current s1;
                         (s3, out2) = ring_loop m s2 False (Some (timer_id timer)) d es
                     in (s3, out @ (case gone of None \<Rightarrow> [] | Some t \<Rightarrow> [TimedOut (timer_id t)]) @
                             [SessionChanged] @ out2))
               else (let (s3, out2) =
                           ring_loop m (env_sleep e s1) (env_cancelled_sleep e) (Some (timer_id timer)) d es
                     in (s3, out @ out2)))"

section \<open>Properties\<close>

text \<open>once Home Assistant has cancelled a timer, no later
  sequence of events and dismissals makes it ring, wait or run again for this Echo; and whatever is
  pending, something rings (the state is never just queued) and no timer is pending twice.\<close>

theorem cancelled_timer_stays_silent:
  assumes "session_ok s" and "tid \<in> set (cancelled_ids s)"
  shows "let s' = fst (run (session_step dumps) s cs) in
    tid \<notin> set (pending_ids s') \<and> tid \<notin> fst ` set (running s') \<and>
    session_state s' \<noteq> ''queued'' \<and> distinct (pending_ids s')"
proof -
  have "tombstoned tid (fst (run (session_step dumps) s cs))"
    using assms by (intro tombstone.inv_run) (simp add: tombstoned_def)
  then show ?thesis
    by (auto simp: tombstoned_def session_ok_def session_state_def Let_def)
qed

definition cancelled_example :: alarm_session where
  "cancelled_example = fst (session_step (\<lambda>_. ''x'') session_init
     (TimerEvent [(''event'', JStr ''cancelled''), (''timer_id'', JStr ''t1'')] None))"

theorem cancelled_timer_stays_silent_witness:
  "''t1'' \<notin> set (pending_ids (fst (run (session_step (\<lambda>_. ''y'')) cancelled_example
     [TimerEvent [(''event'', JStr ''finished''), (''timer_id'', JStr ''t1'')] None])))"
proof -
  have "session_ok cancelled_example"
    by code_simp
  moreover have "''t1'' \<in> set (cancelled_ids cancelled_example)"
    by code_simp
  ultimately show ?thesis
    using cancelled_timer_stays_silent [of cancelled_example "''t1''" "\<lambda>_. ''y''"
        "[TimerEvent [(''event'', JStr ''finished''), (''timer_id'', JStr ''t1'')] None]"]
    by (simp add: Let_def)
qed

definition refines_fifo :: "timer_record \<Rightarrow> alarm_session \<Rightarrow> alarm_session \<times> transition \<Rightarrow> bool" where
  "refines_fifo timer s r \<longleftrightarrow>
     (pending (fst r) = pending s \<or> pending (fst r) = pending s @ [timer] \<or>
      pending (fst r) = filter (\<lambda>t. timer_id t \<noteq> timer_id timer) (pending s)) \<and>
     (tr_alarm_changed (snd r) \<longleftrightarrow> pending_ids (fst r) \<noteq> pending_ids s)"

lemma map_filter_neq: "map f (filter (\<lambda>t. f t \<noteq> x) xs) \<noteq> map f xs \<longleftrightarrow> x \<in> f ` set xs"
proof (cases "x \<in> f ` set xs")
  case True
  then have "x \<in> set (map f xs)" by simp
  moreover have "x \<notin> set (map f (filter (\<lambda>t. f t \<noteq> x) xs))" by auto
  ultimately show ?thesis using True by metis
next
  case False
  then have "filter (\<lambda>t. f t \<noteq> x) xs = xs"
    by (auto simp: filter_id_conv)
  with False show ?thesis by simp
qed

lemma remove_finished_refines:
  assumes "ringing s1 = None \<longrightarrow> waiting s1 = []" and "distinct (pending_ids s1)" and "pending s1 = pending s"
  shows "refines_fifo timer s
    (let (s2, ch) = remove_finished (timer_id timer) s1 in (s2, accepted_tr False ch))"
  using remove_finished_pending [OF assms(1,2), of "timer_id timer"]
    remove_finished_changed [OF assms(1), of "timer_id timer"] assms(3)
  by (simp add: refines_fifo_def accepted_tr_def pending_ids_def map_filter_neq case_prod_beta Let_def)

lemma start_timer_refines: "session_ok s \<Longrightarrow> refines_fifo timer s (start_timer timer s)"
  unfolding start_timer_def by (rule remove_finished_refines) (auto simp: session_ok_def)

lemma cancel_timer_refines: "session_ok s \<Longrightarrow> refines_fifo timer s (cancel_timer (timer_id timer) s)"
  unfolding cancel_timer_def by (rule remove_finished_refines) (auto simp: session_ok_def)

lemma finish_timer_refines: "session_ok s \<Longrightarrow> refines_fifo timer s (finish_timer timer s)"
  using finish_timer_pending(1,5) [of s timer] by (simp add: refines_fifo_def pending_ids_def session_ok_def)

lemma refines_fifo_frame: "refines_fifo timer (s\<lparr>last_payload := x\<rparr>) r = refines_fifo timer s r"
  by (simp add: refines_fifo_def)

lemma apply_timer_refines: "session_ok s \<Longrightarrow> refines_fifo timer s (apply_timer nm timer fp s)"
  using start_timer_refines [of "s\<lparr>last_payload := put (timer_id timer) fp (last_payload s)\<rparr>" timer]
    cancel_timer_refines [of "s\<lparr>last_payload := put (timer_id timer) fp (last_payload s)\<rparr>" timer]
    finish_timer_refines [of "s\<lparr>last_payload := put (timer_id timer) fp (last_payload s)\<rparr>" timer]
  by (simp add: apply_timer_def refines_fifo_frame Let_def)
    (simp add: refines_fifo_def accepted_tr_def)

lemma apply_event_refines:
  assumes "session_ok s" "apply_event dumps ev w s = Some (s', tr)"
  shows "s' = s \<and> tr = ignored_tr \<or>
    (\<exists>timer. json_str (get_default ev ''timer_id'' JNull) = Some (timer_id timer) \<and>
       from_payload (timer_id timer) ev w = Some timer \<and> refines_fifo timer s (s', tr))"
proof (cases "s' = s \<and> tr = ignored_tr")
  case False
  with assms(2) obtain nm tid timer where t: "json_str (get_default ev ''timer_id'' JNull) = Some tid"
    "from_payload tid ev w = Some timer" "apply_timer nm timer (dumps ev) s = (s', tr)"
    by (auto simp: apply_event_def split: option.splits if_splits)
  then have "timer_id timer = tid"
    by (auto simp: from_payload_def split: option.splits)
  with t apply_timer_refines [OF assms(1), of timer nm "dumps ev"] show ?thesis by auto
qed simp



section \<open>Every timer gets its turn\<close>

text \<open>A call that leaves a timer in the queue, and how many timers are before it.\<close>

definition spares :: "string \<Rightarrow> session_call \<Rightarrow> bool" where
  "spares tid c = (case c of
       TimerEvent ev _ \<Rightarrow> json_str (get_default ev ''timer_id'' JNull) \<noteq> Some tid
     | DismissCurrent \<Rightarrow> True
     | DismissAll \<Rightarrow> False)"

definition ahead_of :: "timer_record \<Rightarrow> alarm_session \<Rightarrow> nat" where
  "ahead_of t s = length (takeWhile (\<lambda>x. x \<noteq> t) (pending s))"

lemma takeWhile_filter_neq: "P t \<Longrightarrow> takeWhile (\<lambda>x. x \<noteq> t) (filter P xs) = filter P (takeWhile (\<lambda>x. x \<noteq> t) xs)"
  by (induction xs) auto

lemma spared_event:
  assumes "session_ok s" "t \<in> set (pending s)" "spares (timer_id t) (TimerEvent ev w)"
  shows "t \<in> set (pending (fst (session_step dumps s (TimerEvent ev w)))) \<and>
    ahead_of t (fst (session_step dumps s (TimerEvent ev w))) \<le> ahead_of t s"
proof (cases "apply_event dumps ev w s")
  case (Some r)
  then obtain s' tr where ev: "apply_event dumps ev w s = Some (s', tr)" by (cases r) auto
  have "pending s' = pending s \<or> (\<exists>timer. timer_id timer \<noteq> timer_id t \<and>
      (pending s' = pending s @ [timer] \<or> pending s' = filter (\<lambda>x. timer_id x \<noteq> timer_id timer) (pending s)))"
    using apply_event_refines [OF assms(1) ev] assms(3) by (auto simp: refines_fifo_def spares_def)
  then show ?thesis
    using assms(2) by (auto simp: ev ahead_of_def takeWhile_append1 takeWhile_filter_neq length_filter_le)
qed (use assms(2) in simp)

lemma dismissed_one:
  assumes "session_ok s" "t \<in> set (pending s)" "ringing s \<noteq> Some t"
  shows "t \<in> set (pending (fst (session_step dumps s DismissCurrent))) \<and>
    ahead_of t s = Suc (ahead_of t (fst (session_step dumps s DismissCurrent)))"
proof (cases "pending s")
  case Nil
  then show ?thesis using assms(2) by simp
next
  case (Cons q qs)
  then have "ringing s = Some q" using assms(1) by (auto simp: pending_def session_ok_def split: option.splits)
  then have "q \<noteq> t" using assms(3) by auto
  with Cons assms(2) show ?thesis
    using dismiss_current_pending(1) [OF assms(1)] by (simp add: ahead_of_def case_prod_beta)
qed

text \<open>Claim C22: a timer or alarm in the queue rings after at most as
  many dismissals as there are timers before it, as long as no event names it and the queue is not
  cleared: whatever other timers start, finish or are cancelled in between, it is never overtaken.\<close>

theorem every_waiting_timer_gets_to_ring:
  assumes "session_ok s" "t \<in> set (pending s)" "list_all (spares (timer_id t)) calls"
    "ahead_of t s \<le> count_list calls DismissCurrent"
  shows "\<exists>k \<le> length calls. ringing (fst (run (session_step dumps) s (take k calls))) = Some t"
  using assms
proof (induction calls arbitrary: s)
  case Nil
  then have "hd (pending s) = t" by (cases "pending s") (auto simp: ahead_of_def split: if_splits)
  with Nil show ?case by (auto simp: pending_def session_ok_def split: option.splits)
next
  case (Cons c calls)
  show ?case
  proof (cases "ringing s = Some t")
    case True
    then show ?thesis by (intro exI [of _ 0]) simp
  next
    case False
    let ?s = "fst (session_step dumps s c)"
    have "t \<in> set (pending ?s) \<and> ahead_of t ?s \<le> count_list calls DismissCurrent"
    proof (cases c)
      case (TimerEvent ev w)
      then show ?thesis
        using spared_event [OF Cons.prems(1,2), of ev w dumps] Cons.prems(3,4) by simp
    next
      case DismissCurrent
      then show ?thesis using dismissed_one [OF Cons.prems(1,2) False, of dumps] Cons.prems(4) by simp
    next
      case DismissAll
      then show ?thesis using Cons.prems(3) by (simp add: spares_def)
    qed
    then obtain k where "k \<le> length calls" "ringing (fst (run (session_step dumps) ?s (take k calls))) = Some t"
      using Cons.IH [of ?s] Cons.prems session_step_ok [of s dumps c] by auto
    then show ?thesis by (intro exI [of _ "Suc k"]) simp
  qed
qed

definition queued_example :: "timer_record" where
  "queued_example = \<lparr>timer_id = ''b'', timer_name = JNull, total_seconds = 0, seconds_left = 0, timer_active = False,
     ha_device_id = JNull, received_at = None\<rparr>"

theorem every_waiting_timer_gets_to_ring_witness:
  "\<exists>k \<le> 1. ringing (fst (run (session_step (\<lambda>_. [])) \<lparr>running = [], ringing = Some (queued_example\<lparr>timer_id := ''a''\<rparr>),
     waiting = [queued_example], last_payload = [], cancelled_ids = []\<rparr> (take k [DismissCurrent]))) = Some queued_example"
  using every_waiting_timer_gets_to_ring [of "\<lparr>running = [], ringing = Some (queued_example\<lparr>timer_id := ''a''\<rparr>),
     waiting = [queued_example], last_payload = [], cancelled_ids = []\<rparr>" queued_example "[DismissCurrent]" "\<lambda>_. []"]
  by (simp add: session_ok_def pending_ids_def pending_def ahead_of_def spares_def queued_example_def)

text \<open>the fraction drawn is between 0 and 1 and never grows while the
  clock runs, the dead-man time is between 30 seconds and an hour, and a spec is built exactly for a
  record with a clock reading and a positive total.\<close>

theorem countdown_bounds:
  "(countdown_spec timer now color = None \<longleftrightarrow> received_at timer = None \<or> total_seconds timer \<le> 0) \<and>
   (countdown_spec timer now color = Some c \<longrightarrow>
     0 \<le> cd_fraction_now c \<and> cd_fraction_now c \<le> 1 \<and> 30 \<le> cd_ttl_sec c \<and> cd_ttl_sec c \<le> 3600 \<and>
     (countdown_spec timer later color = Some c' \<and> now \<le> later \<longrightarrow> cd_fraction_now c' \<le> cd_fraction_now c))"
proof -
  have ttl: "30 \<le> py_int (min 3600 (max 30 x)) \<and> py_int (min 3600 (max 30 x)) \<le> 3600" for x :: rat
    by (simp add: py_int_def le_floor_iff floor_le_iff min_def max_def)
  have unit: "0 \<le> clamp x 0 1 \<and> clamp x 0 1 \<le> 1" for x
    by (simp add: clamp_def)
  have mono: "x \<le> y \<Longrightarrow> clamp x 0 1 \<le> clamp y 0 1" for x y
    by (simp add: clamp_def)
  show ?thesis
    using ttl unit
    by (auto simp: countdown_spec_def TTL_FLOOR_S_def TTL_CEILING_S_def Let_def
        intro!: mono divide_right_mono split: option.splits)
qed

theorem countdown_bounds_witness:
  "\<exists>c. countdown_spec \<lparr>timer_id = ''t'', timer_name = JNull, total_seconds = 60, seconds_left = 90,
      timer_active = True, ha_device_id = JNull, received_at = Some 10\<rparr> 20 (1, 2, 3) = Some c \<and>
    cd_fraction_now c \<le> 1"
proof -
  let ?t = "\<lparr>timer_id = ''t'', timer_name = JNull, total_seconds = 60, seconds_left = 90,
      timer_active = True, ha_device_id = JNull, received_at = Some 10\<rparr>"
  have "countdown_spec ?t 20 (1, 2, 3) \<noteq> None"
    by (simp add: countdown_spec_def)
  then obtain c where "countdown_spec ?t 20 (1, 2, 3) = Some c" by blast
  with countdown_bounds [of ?t 20 "(1, 2, 3)" c 20 c] show ?thesis by blast
qed

text \<open>when the ringing timer is cancelled by Home
  Assistant during the burst in which its ring time runs out, the timeout falls on the next timer in
  the queue, which is dropped without a single burst of its own.\<close>

theorem timeout_can_drop_an_unrung_timer:
  "let t = (\<lambda>i. \<lparr>timer_id = i, timer_name = JNull, total_seconds = 60, seconds_left = 0,
              timer_active = False, ha_device_id = JNull, received_at = None\<rparr>);
       s = session_init\<lparr>ringing := Some (t ''a''), waiting := [t ''b'']\<rparr>;
       quiet_env = \<lparr>env_clock = 0, env_play = id, env_cancelled = False, env_clock_after = 60,
              env_sleep = id, env_cancelled_sleep = False\<rparr>;
       cancel_env = quiet_env\<lparr>env_play := (\<lambda>s. fst (cancel_timer ''a'' s)), env_clock_after := 121\<rparr>;
       (s', out) = ring_loop MAX_RING_S s False None 0 [quiet_env, cancel_env, quiet_env]
   in out = [OnCurrent ''a'', Burst ''a'', Burst ''a'', TimedOut ''b'', SessionChanged] \<and> ringing s' = None"
  by code_simp

end
