(* ===== verification/Admission.thy ===== *)
theory Admission
  imports TurnEngine Arbitration
begin

text \<open>
  How a device's requests become turns, \<open>controller/em_controller.py\<close>: the admission gate and
  \<open>_handle_wake_request\<close>, \<open>handle_button_event\<close>, the per-turn decisions of \<open>_run_voice_locked\<close>,
  and the control messages \<open>wake_request\<close>, \<open>wake_started\<close>, \<open>stop_status\<close> and \<open>stop_detected\<close>.

  A handler's code between two awaits is one function; \<open>now\<close> is the event loop's clock. Numbers
  parsed from a message are given already converted, \<open>None\<close> when the conversion raised.
\<close>

section \<open>Freshness of a grant\<close>

text \<open>\<open>_make_admission_valid\<close>: \<open>same\<close> is \<open>_devices.get(device.device_id) is device\<close>.\<close>

definition admission_valid :: "seconds \<Rightarrow> seconds \<Rightarrow> bool \<Rightarrow> device \<Rightarrow> bool" where
  "admission_valid deadline now same d \<longleftrightarrow>
     same \<and> \<not> muted d \<and> data_connected d \<and> oww_model_ready d \<and> stop_admissible d \<and> now < deadline"

definition button_admission_valid :: "seconds \<Rightarrow> seconds \<Rightarrow> bool \<Rightarrow> device \<Rightarrow> bool" where
  "button_admission_valid deadline now same d \<longleftrightarrow>
     same \<and> \<not> muted d \<and> data_connected d \<and> stop_admissible d \<and> now < deadline"

section \<open>Wake requests\<close>

definition wake_request_admission_gate :: "device \<Rightarrow> string option" where
  "wake_request_admission_gate d =
     (if voice_locked d then (if \<not> barge_in_enabled d then Some ''barge_disabled'' else None)
      else if wake_request_id d \<noteq> None then Some ''busy''
      else None)"

record wake_msg =
  wm_request_id :: json
  wm_source :: json
  wm_model :: json
  wm_numbers :: "(rat \<times> rat \<times> int \<times> int) option"   \<comment> \<open>score, threshold, ageMs, activationSeq\<close>

text \<open>The world around the handler: the arbiter and what \<open>_devices\<close> says.\<close>

record house =
  house_arbiter :: arbiter
  house_count :: nat            \<comment> \<open>\<open>len(_devices)\<close>\<close>
  house_same :: bool            \<comment> \<open>\<open>_devices.get(device.device_id) is device\<close>\<close>

datatype wake_outcome =
    Denied string
  | BargeIn rat rat int seconds      \<comment> \<open>\<open>admit_barge\<close>, with the deadline of its validity check\<close>
  | StartTurn string seconds bool    \<comment> \<open>\<open>_run_voice_locked\<close>: request id, deadline, whether a claim is held\<close>

definition clear_request :: "string \<Rightarrow> device \<Rightarrow> device" where
  "clear_request rid d = (if wake_request_id d = Some rid then d\<lparr>wake_request_id := None\<rparr> else d)"

definition deny :: "string \<Rightarrow> string \<Rightarrow> device \<times> house \<Rightarrow> wake_outcome \<times> (device \<times> house) \<times> effect list" where
  "deny rid why_denied = (\<lambda>(d, h).
     (Denied why_denied, (clear_request rid d, h), [CtlWakeDeny (dev_id d) rid why_denied]))"

text \<open>The \<open>finally\<close> of an admitted request.\<close>

definition wake_cleanup :: "string \<Rightarrow> bool \<Rightarrow> device \<times> house \<Rightarrow> device \<times> house" where
  "wake_cleanup rid claimed = (\<lambda>(d, h).
     (clear_request rid d\<lparr>oww_paused := False\<rparr>,
      if claimed then h\<lparr>house_arbiter := release (dev_id d) (house_arbiter h)\<rparr> else h))"

definition numbers_ok :: "rat \<Rightarrow> rat \<Rightarrow> int \<Rightarrow> int \<Rightarrow> bool" where
  "numbers_ok score threshold age_ms sq \<longleftrightarrow>
     0 \<le> score \<and> score \<le> 1 \<and> 0 \<le> threshold \<and> threshold \<le> 1 \<and> 0 \<le> age_ms \<and> age_ms \<le> 10000 \<and>
     0 \<le> sq \<and> sq \<le> 0xFFFF \<and> threshold \<le> score"

definition wake_deadline :: "seconds \<Rightarrow> int \<Rightarrow> seconds" where
  "wake_deadline now age_ms = now + max 0 ((4000 - of_int age_ms) / 1000)"

text \<open>The admission of a fresh wake on an idle device, after every check of the message.\<close>

definition admit_wake ::
  "seconds \<Rightarrow> string \<Rightarrow> rat \<Rightarrow> rat \<Rightarrow> int \<Rightarrow> int \<Rightarrow> device \<times> house \<Rightarrow> wake_outcome \<times> (device \<times> house) \<times> effect list" where
  "admit_wake now rid score threshold age_ms sq = (\<lambda>(d, h).
     let contest = 0 < wake_arb_ms d \<and> 1 < house_count h;
         (winner, arb) = (if contest then claim now (dev_id d) (of_int (wake_arb_ms d) / 1000) (house_arbiter h)
                          else (dev_id d, house_arbiter h));
         h1 = h\<lparr>house_arbiter := arb\<rparr>
     in if contest \<and> winner \<noteq> dev_id d then deny rid ''arbitration'' (d, h1)
        else
          let d1 = d\<lparr>oww_paused := True,
                     last_wake := Some \<lparr>wake_model = oww_model d, wake_score = round4 score,
                       wake_threshold = round4 threshold, wake_activation_seq = sq,
                       wake_age_ms = Some age_ms\<rparr>\<rparr>
          in if \<not> house_same h
             then let (r, s, es) = deny rid ''disconnected'' (d1, h1) in (r, wake_cleanup rid contest s, es)
             else (StartTurn rid (wake_deadline now age_ms) contest, (d1, h1), []))"

text \<open>\<open>_handle_wake_request\<close>, from its start to the call it ends in.\<close>

definition handle_wake_request ::
  "seconds \<Rightarrow> string \<Rightarrow> wake_msg \<Rightarrow> device \<times> house \<Rightarrow> wake_outcome \<times> (device \<times> house) \<times> effect list" where
  "handle_wake_request now rid m = (\<lambda>(d, h).
     if \<not> wake_request_capable d then deny rid ''unsupported'' (d, h)
     else if wake_request_id d \<noteq> Some rid then deny rid ''busy'' (d, h)
     else if wm_source m \<noteq> JStr ''wakeword'' \<or> wm_model m \<noteq> JStr (oww_model d) then deny rid ''not_ready'' (d, h)
     else if \<not> oww_model_ready d then deny rid ''not_ready'' (d, h)
     else if muted d then deny rid ''muted'' (d, h)
     else if \<not> data_connected d then deny rid ''no_data'' (d, h)
     else case wm_numbers m of
       None \<Rightarrow> deny rid ''malformed'' (d, h)
     | Some (score, threshold, age_ms, sq) \<Rightarrow>
         if \<not> numbers_ok score threshold age_ms sq then deny rid ''malformed'' (d, h)
         else if 4000 < age_ms then deny rid ''stale'' (d, h)
         else if voice_locked d
         then if \<not> barge_in_enabled d then deny rid ''barge_disabled'' (d, h)
              else (BargeIn score threshold sq (wake_deadline now age_ms), (d, h), [])
         else if \<not> stop_admissible d then deny rid ''not_ready'' (d, h)
         else admit_wake now rid score threshold age_ms sq (d, h))"

text \<open>
  The \<open>wake_request\<close> branch of the control loop: \<open>None\<close> is a message without a usable request
  id, which is dropped. The handler runs as its own task right after.
\<close>

definition dispatch_wake_request ::
  "seconds \<Rightarrow> wake_msg \<Rightarrow> device \<times> house \<Rightarrow> (wake_outcome \<times> (device \<times> house) \<times> effect list) option" where
  "dispatch_wake_request now m = (\<lambda>(d, h).
     case json_str (wm_request_id m) of
       None \<Rightarrow> None
     | Some rid \<Rightarrow>
         if rid = [] then None
         else case wake_request_admission_gate d of
           Some why_denied \<Rightarrow> Some (Denied why_denied, (d, h), [CtlWakeDeny (dev_id d) rid why_denied])
         | None \<Rightarrow> Some (handle_wake_request now rid m (d\<lparr>wake_request_id := Some rid\<rparr>, h)))"

text \<open>\<open>_clear_wake_task\<close>, for the task that is the device's current one.\<close>

definition clear_wake_task :: "device \<Rightarrow> device" where
  "clear_wake_task d =
     (if barge_request_id d \<noteq> wake_request_id d then d\<lparr>wake_request_id := None\<rparr> else d)"

section \<open>The loop of a conversation\<close>

datatype loop_next = BargeTurn "string option" seconds | ContinueTurn seconds | LoopEnd

text \<open>
  \<open>_run_voice_locked\<close> after one \<open>trigger_voice_turn\<close> returned \<open>should_continue\<close>: the request is
  cleared, the device state cleaned up, and the next iteration decided.
\<close>

definition voice_after_turn :: "seconds \<Rightarrow> string option \<Rightarrow> bool \<Rightarrow> device \<Rightarrow> loop_next \<times> device" where
  "voice_after_turn now rid should_continue d =
     (let d1 = (case rid of None \<Rightarrow> d | Some q \<Rightarrow> clear_request q d);
          d2 = d1\<lparr>listening := False\<rparr>
      in if barge_detected d2
         then (BargeTurn (barge_request_id d2) (now + 4),
               d2\<lparr>barge_detected := False, barge_request_id := None, cancel_event := False\<rparr>)
         else if should_continue \<and> \<not> cancel_event d2
         then (ContinueTurn (now + 4), d2\<lparr>listening := True\<rparr>)
         else (LoopEnd, d2))"

definition voice_finish :: "device \<times> house \<Rightarrow> device \<times> house" where
  "voice_finish = (\<lambda>(d, h).
     (d\<lparr>oww_paused := False\<rparr>, h\<lparr>house_arbiter := release (dev_id d) (house_arbiter h)\<rparr>))"

section \<open>The Action button\<close>

definition BUTTON_HOLD_MS :: int where "BUTTON_HOLD_MS = 750"

record button_event =
  be_click_type :: json
  be_down :: bool
  be_request_id :: json
  be_held_ms :: int            \<comment> \<open>\<open>event.get("heldMs") or 0\<close>\<close>
  be_muted :: "bool option"    \<comment> \<open>\<open>None\<close> when the firmware does not report it\<close>

datatype button_effect =
    BtnDeny string string
  | BtnHaEvent string int
  | BtnTap int
  | BtnAbort                    \<comment> \<open>\<open>abort_voice_turns\<close> and \<open>speaker_flush\<close>\<close>
  | BtnStartTurn string seconds
  | BtnDismissAlarm

definition button_hold_capable :: "device \<Rightarrow> bool" where
  "button_hold_capable d \<longleftrightarrow> ''button_hold'' \<in> set (capabilities d)"

text \<open>\<open>v == n\<close> for a JSON value and an integer.\<close>

definition json_eq_int :: "json \<Rightarrow> int \<Rightarrow> bool" where
  "json_eq_int v n \<longleftrightarrow>
     (case v of JInt k \<Rightarrow> k = n | JFloat x \<Rightarrow> x = of_int n | JBool b \<Rightarrow> (if b then 1 else 0) = n | _ \<Rightarrow> False)"

definition request_of :: "button_event \<Rightarrow> string option" where
  "request_of ev = (case json_str (be_request_id ev) of None \<Rightarrow> None | Some r \<Rightarrow> if r = [] then None else Some r)"

definition deny_button :: "button_event \<Rightarrow> string \<Rightarrow> button_effect list" where
  "deny_button ev why_denied = (case request_of ev of None \<Rightarrow> [] | Some r \<Rightarrow> [BtnDeny r why_denied])"

definition button_turn :: "seconds \<Rightarrow> button_event \<Rightarrow> device \<Rightarrow> device \<times> button_effect list" where
  "button_turn now ev d =
     (case request_of ev of
        None \<Rightarrow> (d, [])
      | Some r \<Rightarrow>
          if wake_request_id d \<noteq> None then (d, deny_button ev ''busy'')
          else if \<not> stop_admissible d then (d, deny_button ev ''not_ready'')
          else if \<not> data_connected d then (d, deny_button ev ''no_data'')
          else (d\<lparr>wake_request_id := Some r, cancel_event := False, oww_paused := True\<rparr>,
                [BtnStartTurn r (now + 4)]))"

definition handle_button_event ::
  "seconds \<Rightarrow> bool \<Rightarrow> button_event \<Rightarrow> device \<Rightarrow> device \<times> button_effect list" where
  "handle_button_event now alarm_ringing ev d =
     (if be_down ev \<or> \<not> json_eq_int (be_click_type ev) 138 then (d, [])
      else if alarm_ringing \<and> be_held_ms ev < BUTTON_HOLD_MS
      then (d, deny_button ev ''timer_dismissed'' @ [BtnDismissAlarm])
      else
        let is_muted = (case be_muted ev of None \<Rightarrow> muted d | Some b \<Rightarrow> b) in
        case button_decide (be_held_ms ev) BUTTON_HOLD_MS is_muted (voice_locked d)
               (button_single_tap_event d \<and> button_hold_capable d) of
          Hold \<Rightarrow> (d, deny_button ev ''gesture'' @ [BtnHaEvent ''long'' (be_held_ms ev)])
        | TapEvent \<Rightarrow>
            (d, deny_button ev ''gesture'' @
               (if button_multi_tap_ms d \<le> 0 then [BtnHaEvent ''single'' 0] else [BtnTap (button_multi_tap_ms d)]))
        | Blocked \<Rightarrow> (d, deny_button ev ''muted'')
        | CancelTurn \<Rightarrow> (d\<lparr>cancel_event := True\<rparr>, deny_button ev ''cancelled'' @ [BtnAbort])
        | Arbitration.StartTurn \<Rightarrow> button_turn now ev d)"

section \<open>Stop reports\<close>

record stop_report =
  sr_turn_id :: int
  sr_generation :: int
  sr_score :: rat
  sr_threshold :: rat
  sr_age_ms :: int
  sr_phase :: phase

datatype stop_outcome = Malformed | InvalidReport | NotAccepted string | TimerStopped bool | TurnStopped bool

text \<open>What is added to the counters: stops accepted and stops stale.\<close>

definition stop_counters :: "stop_outcome \<Rightarrow> nat \<times> nat" where
  "stop_counters r = (case r of
     Malformed \<Rightarrow> (0, 1) | InvalidReport \<Rightarrow> (0, 0) | NotAccepted _ \<Rightarrow> (0, 1)
   | TimerStopped ok \<Rightarrow> (if ok then (1, 0) else (0, 1)) | TurnStopped ok \<Rightarrow> (if ok then (1, 0) else (0, 1)))"

text \<open>
  \<open>stop_detected\<close> from the device object \<open>r\<close>, \<open>None\<close> when a field did not convert;
  \<open>dismissed\<close> is what \<open>api.dismiss_timer_alarm\<close> answers.
\<close>

definition handle_stop_detected ::
  "seconds \<Rightarrow> bool \<Rightarrow> nat \<Rightarrow> stop_report option \<Rightarrow> engine \<Rightarrow> stop_outcome \<times> engine_step" where
  "handle_stop_detected now dismissed r report e =
     (case report of
        None \<Rightarrow> (Malformed, (e, []))
      | Some m \<Rightarrow>
          let d = heap e r in
          if \<not> stopword_capable d \<or> \<not> stop_model_ready d \<or> sr_score m < sr_threshold m \<or> sr_age_ms m < 0
          then (InvalidReport, (e, []))
          else
            let (ss, decision) = detected (sr_turn_id m) (sr_generation m) (sr_phase m) now (dev_stop_state d);
                d1 = d\<lparr>dev_stop_state := ss\<rparr>; e1 = set_device r d1 e
            in if act decision \<noteq> Accept then (NotAccepted (why decision), (e1, []))
               else
                 let det = \<lparr>stop_word_model = stop_model d, stop_score = sr_score m,
                            stop_threshold = sr_threshold m, stop_phase = sr_phase m,
                            stop_device_age_ms = sr_age_ms m\<rparr>
                 in if sr_phase m = Timer \<and> timer_stop_turn_id d1 = Some (sr_turn_id m)
                    then (TimerStopped dismissed,
                          (set_device r (d1\<lparr>timer_stop_turn_id := None\<rparr>) e,
                           if dismissed then [DbStopTimerTurn (sr_turn_id m) det] else []))
                    else (let (ok, st) = stop_voice_turn (dev_id d) (sr_turn_id m) (Some det) e1
                          in (TurnStopped ok, st)))"

definition handle_stop_status :: "json \<Rightarrow> json \<Rightarrow> device \<Rightarrow> device" where
  "handle_stop_status model ready d =
     (if \<not> stop_word_enabled d then d\<lparr>stop_model_ready := False\<rparr>
      else d\<lparr>stop_model_ready := (truthy ready \<and> model = JStr (stop_model d))\<rparr>)"

text \<open>\<open>wake_started\<close>: \<open>int(msg.get("turnId"))\<close> and the request id.\<close>

definition handle_wake_started :: "nat \<Rightarrow> json \<Rightarrow> json \<Rightarrow> engine \<Rightarrow> engine" where
  "handle_wake_started r turn request e =
     (case (int_of_json turn, json_str request) of
        (Some tid, Some rid) \<Rightarrow> snd (confirm_device_started r rid tid e)
      | _ \<Rightarrow> e)"

section \<open>What an admission means\<close>

definition wins :: "seconds \<Rightarrow> device \<times> house \<Rightarrow> bool" where
  "wins now = (\<lambda>(d, h).
     0 < wake_arb_ms d \<and> 1 < house_count h \<longrightarrow>
       fst (claim now (dev_id d) (of_int (wake_arb_ms d) / 1000) (house_arbiter h)) = dev_id d)"

definition message_ok :: "string \<Rightarrow> wake_msg \<Rightarrow> device \<Rightarrow> bool" where
  "message_ok rid m d \<longleftrightarrow>
     wake_request_capable d \<and> wake_request_id d = Some rid \<and>
     wm_source m = JStr ''wakeword'' \<and> wm_model m = JStr (oww_model d) \<and>
     oww_model_ready d \<and> \<not> muted d \<and> data_connected d \<and>
     (\<exists>score threshold age_ms sq. wm_numbers m = Some (score, threshold, age_ms, sq) \<and>
        numbers_ok score threshold age_ms sq \<and> age_ms \<le> 4000)"

definition denied :: "wake_outcome \<Rightarrow> bool" where
  "denied r \<longleftrightarrow> (case r of Denied _ \<Rightarrow> True | _ \<Rightarrow> False)"

definition answered :: "string \<Rightarrow> device \<Rightarrow> wake_outcome \<times> (device \<times> house) \<times> effect list \<Rightarrow> bool" where
  "answered rid d res \<longleftrightarrow>
     (case res of (r, (d', h'), es) \<Rightarrow>
        (case r of Denied x \<Rightarrow> es = [CtlWakeDeny (dev_id d) rid x] \<and> wake_request_id d' \<noteq> Some rid
         | _ \<Rightarrow> es = []))"

lemma clear_request_id [simp]: "wake_request_id (clear_request rid d) \<noteq> Some rid"
  "dev_id (clear_request rid d) = dev_id d"
  by (simp_all add: clear_request_def)

lemma deny_answered: "dev_id d = dev_id d0 \<Longrightarrow> answered rid d0 (deny rid x (d, h))" "denied (fst (deny rid x s))"
  by (simp_all add: answered_def deny_def denied_def case_prod_beta)

lemma fst_deny [simp]: "fst (deny rid x s) = Denied x"
  by (simp add: deny_def case_prod_beta)

lemma answer_simps [simp]:
  "denied (Denied x)" "\<not> denied (BargeIn a b c t)"
  "answered rid d (BargeIn a b c t, s, [])" "answered rid d (deny rid x (d, h))"
  by (simp_all add: denied_def answered_def deny_def case_prod_beta)

lemma some_deny [simp]: "\<exists>x. deny rid y s = deny rid x s"
  by blast

lemma bad_message_denied:
  "\<not> message_ok rid m d \<Longrightarrow> \<exists>x. handle_wake_request now rid m (d, h) = deny rid x (d, h)"
proof (cases "wm_numbers m")
  case None
  then show ?thesis by (simp add: handle_wake_request_def)
next
  case (Some q)
  moreover assume "\<not> message_ok rid m d"
  ultimately show ?thesis
    by (cases q) (simp add: handle_wake_request_def message_ok_def not_le, blast)
qed

lemma good_message:
  assumes "message_ok rid m d"
  obtains score threshold age_ms sq where
    "wm_numbers m = Some (score, threshold, age_ms, sq)" "numbers_ok score threshold age_ms sq"
    "age_ms \<le> 4000" "\<not> muted d"
    "handle_wake_request now rid m (d, h) =
       (if voice_locked d
        then if \<not> barge_in_enabled d then deny rid ''barge_disabled'' (d, h)
             else (BargeIn score threshold sq (wake_deadline now age_ms), (d, h), [])
        else if \<not> stop_admissible d then deny rid ''not_ready'' (d, h)
        else admit_wake now rid score threshold age_ms sq (d, h))"
  using assms by (auto simp: message_ok_def handle_wake_request_def not_less)

lemma admit_wake_spec:
  "answered rid d (admit_wake now rid sc th age sq (d, h)) \<and>
   (\<not> denied (fst (admit_wake now rid sc th age sq (d, h))) \<longleftrightarrow> wins now (d, h) \<and> house_same h)"
  by (auto simp: admit_wake_def wins_def answered_def denied_def deny_def wake_cleanup_def
      case_prod_beta Let_def clear_request_def)

lemma answered_finish:
  "answered rid d (Denied x, s, es) \<longleftrightarrow> es = [CtlWakeDeny (dev_id d) rid x] \<and> wake_request_id (fst s) \<noteq> Some rid"
  by (auto simp: answered_def case_prod_beta)

lemma handle_wake_request_started:
  assumes "fst (handle_wake_request now rid m (d, h)) = StartTurn q dl contest"
  shows "\<exists>score threshold age_ms sq. wm_numbers m = Some (score, threshold, age_ms, sq) \<and>
           numbers_ok score threshold age_ms sq \<and> age_ms \<le> 4000 \<and> \<not> voice_locked d \<and> \<not> muted d \<and>
           q = rid \<and> dl = wake_deadline now age_ms"
proof -
  have "message_ok rid m d"
    using bad_message_denied [of rid m d now h] assms by force
  then obtain score threshold age_ms sq where g: "wm_numbers m = Some (score, threshold, age_ms, sq)"
    "numbers_ok score threshold age_ms sq" "age_ms \<le> 4000" "\<not> muted d"
    and e: "handle_wake_request now rid m (d, h) =
       (if voice_locked d
        then if \<not> barge_in_enabled d then deny rid ''barge_disabled'' (d, h)
             else (BargeIn score threshold sq (wake_deadline now age_ms), (d, h), [])
        else if \<not> stop_admissible d then deny rid ''not_ready'' (d, h)
        else admit_wake now rid score threshold age_ms sq (d, h))"
    by (rule good_message)
  have s: "\<not> voice_locked d" "fst (admit_wake now rid score threshold age_ms sq (d, h)) = StartTurn q dl contest"
    using assms unfolding e by (simp_all split: if_splits)
  then have "q = rid \<and> dl = wake_deadline now age_ms"
    by (auto simp: admit_wake_def Let_def case_prod_beta split: if_splits)
  with s g show ?thesis by blast
qed

lemma wake_deadline_eq: "age_ms \<le> 4000 \<Longrightarrow> wake_deadline now age_ms = now + 4 - of_int age_ms / 1000"
proof -
  assume "age_ms \<le> 4000"
  then have "(of_int age_ms :: rat) \<le> 4000" by (metis of_int_le_iff of_int_numeral)
  then show ?thesis by (simp add: wake_deadline_def max_def field_simps)
qed

section \<open>Properties\<close>


text \<open>when a wake request started a turn and the grant's
  validity check still passes at time \<open>t\<close>, the wake word was spoken less than four seconds
  before \<open>t\<close>, it scored at least its threshold, and the microphone was open both when the request
  came in and now.\<close>

theorem granted_wake_is_fresh:
  assumes "fst (handle_wake_request now rid m (d, h)) = StartTurn q dl contest"
    and "admission_valid dl t same d'"
  shows "\<exists>score threshold age_ms sq. wm_numbers m = Some (score, threshold, age_ms, sq) \<and> q = rid \<and>
           threshold \<le> score \<and> t - (now - of_int age_ms / 1000) < 4 \<and> \<not> muted d \<and> \<not> muted d' \<and>
           stop_admissible d'"
proof -
  obtain score threshold age_ms sq where "wm_numbers m = Some (score, threshold, age_ms, sq)"
    "numbers_ok score threshold age_ms sq" "age_ms \<le> 4000" "\<not> muted d" "q = rid"
    "dl = wake_deadline now age_ms"
    using handle_wake_request_started [OF assms(1)] by blast
  with assms(2) show ?thesis
    by (auto simp: admission_valid_def numbers_ok_def wake_deadline_eq)
qed

definition idle_device :: device where
  "idle_device = (new_device ''kitchen'' [''wake_request_v1'', ''stopword''] 5)
     \<lparr>oww_model_ready := True, stop_model_ready := True, data_connected := True,
      wake_request_id := Some ''r1'', oww_model := ''okay_nabu''\<rparr>"

definition wake_example :: wake_msg where
  "wake_example = \<lparr>wm_request_id = JStr ''r1'', wm_source = JStr ''wakeword'', wm_model = JStr ''okay_nabu'',
     wm_numbers = Some (9/10, 1/2, 1000, 7)\<rparr>"

definition house_example :: house where
  "house_example = \<lparr>house_arbiter = arbiter_init, house_count = 2, house_same = True\<rparr>"

theorem granted_wake_is_fresh_witness:
  "\<exists>score threshold age_ms sq. wm_numbers wake_example = Some (score, threshold, age_ms, sq) \<and>
     threshold \<le> score \<and> (102 :: rat) - (100 - of_int age_ms / 1000) < 4"
proof -
  have 1: "fst (handle_wake_request 100 ''r1'' wake_example (idle_device, house_example)) = StartTurn ''r1'' 103 True"
    by code_simp
  have 2: "admission_valid 103 102 True idle_device"
    by code_simp
  show ?thesis
    using granted_wake_is_fresh [OF 1 2] by blast
qed

definition button_answers :: "button_effect list \<Rightarrow> nat" where
  "button_answers es =
     length (filter (\<lambda>x. case x of BtnDeny _ _ \<Rightarrow> True | BtnStartTurn _ _ \<Rightarrow> True | _ \<Rightarrow> False) es)"

text \<open>every release of the action button that carries a
  request id is answered once, with a denial or with a turn. It starts a turn exactly when it was a
  short press, no alarm was ringing, taps are not delivered to Home Assistant, the microphone is not
  muted, no turn or request is active and the device may listen; the grant then holds for four
  seconds.\<close>

theorem button_press_answered_once:
  assumes "\<not> be_down ev" and "json_eq_int (be_click_type ev) 138" and "request_of ev = Some r"
  shows "button_answers (snd (handle_button_event now alarm ev d)) = 1 \<and>
    (BtnStartTurn q dl \<in> set (snd (handle_button_event now alarm ev d)) \<longleftrightarrow>
       q = r \<and> dl = now + 4 \<and> \<not> alarm \<and> be_held_ms ev < BUTTON_HOLD_MS \<and>
       \<not> (button_single_tap_event d \<and> button_hold_capable d) \<and>
       \<not> (case be_muted ev of None \<Rightarrow> muted d | Some b \<Rightarrow> b) \<and>
       \<not> voice_locked d \<and> wake_request_id d = None \<and> stop_admissible d \<and> data_connected d)"
  using assms
  by (auto simp: handle_button_event_def button_answers_def deny_button_def button_turn_def
      button_decide_def Let_def not_less split: option.splits)

definition press_example :: button_event where
  "press_example = \<lparr>be_click_type = JInt 138, be_down = False, be_request_id = JStr ''b1'',
     be_held_ms = 120, be_muted = None\<rparr>"

theorem button_press_answered_once_witness:
  "button_answers (snd (handle_button_event 50 False press_example (idle_device\<lparr>wake_request_id := None\<rparr>))) = 1"
  by (rule button_press_answered_once [of _ "''b1''", THEN conjunct1]; code_simp)

lemma detected_accept:
  "act (snd (detected t g p now s)) = Accept \<Longrightarrow>
     (\<exists>x. arm_state s = Some \<lparr>arm_turn_id = t, arm_generation = g, arm_phase = p, arm_expires_mono = x\<rparr> \<and>
          now < x) \<and>
     fst (detected t g p now s) = s\<lparr>arm_state := None, accepted_generation := Some g\<rparr>"
proof (cases "arm_state s")
  case (Some a)
  moreover assume "act (snd (detected t g p now s)) = Accept"
  ultimately show ?thesis
    by (cases a) (simp add: detected_def dec_def not_le split: if_splits)
qed (simp add: detected_def dec_def split: if_splits)

lemma detected_again:
  "detected t g p later (s\<lparr>arm_state := None, accepted_generation := Some g\<rparr>) =
     (s\<lparr>arm_state := None, accepted_generation := Some g\<rparr>, dec Ignore ''duplicate detection'')"
  by (simp add: detected_def)

text \<open>A report that is neither for a timer nor refused reaches \<open>stop_voice_turn\<close>.\<close>

lemma turn_stopped_cases:
  assumes "handle_stop_detected now dismissed r (Some m) e = (TurnStopped True, st)"
  obtains ss dcn det where
    "detected (sr_turn_id m) (sr_generation m) (sr_phase m) now (dev_stop_state (heap e r)) = (ss, dcn)"
    "act dcn = Accept" "stopword_capable (heap e r)" "stop_model_ready (heap e r)"
    "sr_threshold m \<le> sr_score m" "0 \<le> sr_age_ms m"
    "stop_voice_turn (dev_id (heap e r)) (sr_turn_id m) (Some det)
       (set_device r ((heap e r)\<lparr>dev_stop_state := ss\<rparr>) e) = (True, st)"
  using assms
  by (auto simp: handle_stop_detected_def Let_def case_prod_beta prod_eq_iff not_less split: if_splits)

lemma stop_voice_turn_ends:
  assumes "stop_voice_turn did tid (Some det) e = (True, (e', es))"
  obtains t where "map_of (turns e) tid = Some t" "of_device did e t" "es = [PushCancel did tid ''stop'']"
    "e' = set_turn tid (end_turn ''stopped'' True (t\<lparr>stop_detection := Some det\<rparr>)) e"
  using assms by (auto simp: stop_voice_turn_def split: option.splits if_splits)

lemma stop_report_again:
  assumes "stopword_capable (heap e r)" "stop_model_ready (heap e r)" "sr_threshold m \<le> sr_score m"
    "0 \<le> sr_age_ms m" "dev_stop_state (heap e r) = s\<lparr>arm_state := None, accepted_generation := Some (sr_generation m)\<rparr>"
  shows "fst (handle_stop_detected later dismissed r (Some m) e) = NotAccepted ''duplicate detection''"
  using assms by (simp add: handle_stop_detected_def Let_def case_prod_beta detected_again dec_def)

text \<open>Claim C6: a stop report that stopped a turn named the
  live, unexpired arm of its own device; it ends that turn, keeps its first end reason, tells Home
  Assistant once, and leaves every other turn as it was. The same report delivered again is
  ignored as a duplicate.\<close>

theorem stop_detection_ends_the_named_turn:
  assumes "handle_stop_detected now dismissed r (Some m) e = (TurnStopped True, (e', es))"
  shows "\<exists>a t t'. arm_state (dev_stop_state (heap e r)) = Some a \<and> now < arm_expires_mono a \<and>
           arm_turn_id a = sr_turn_id m \<and> arm_phase a = sr_phase m \<and>
           map_of (turns e) (sr_turn_id m) = Some t \<and> of_device (dev_id (heap e r)) e t \<and>
           turns e' = put (sr_turn_id m) t' (turns e) \<and> cancelled t' \<and>
           end_reason t' = (case end_reason t of None \<Rightarrow> Some ''stopped'' | Some x \<Rightarrow> Some x) \<and>
           es = [PushCancel (dev_id (heap e r)) (sr_turn_id m) ''stop''] \<and>
           fst (handle_stop_detected later dismissed r (Some m) e') = NotAccepted ''duplicate detection''"
proof -
  let ?d = "heap e r"
  obtain ss dcn det where det: "detected (sr_turn_id m) (sr_generation m) (sr_phase m) now (dev_stop_state ?d) = (ss, dcn)"
    and acc: "act dcn = Accept" and ok: "stopword_capable ?d" "stop_model_ready ?d"
      "sr_threshold m \<le> sr_score m" "0 \<le> sr_age_ms m"
    and stop: "stop_voice_turn (dev_id ?d) (sr_turn_id m) (Some det)
       (set_device r (?d\<lparr>dev_stop_state := ss\<rparr>) e) = (True, (e', es))"
    using assms by (rule turn_stopped_cases)
  obtain x where a: "arm_state (dev_stop_state ?d) = Some \<lparr>arm_turn_id = sr_turn_id m,
      arm_generation = sr_generation m, arm_phase = sr_phase m, arm_expires_mono = x\<rparr>" "now < x"
    and ss: "ss = (dev_stop_state ?d)\<lparr>arm_state := None, accepted_generation := Some (sr_generation m)\<rparr>"
    using detected_accept [of "sr_turn_id m" "sr_generation m" "sr_phase m" now "dev_stop_state ?d"] det acc
    by auto
  obtain t where t: "map_of (turns e) (sr_turn_id m) = Some t" "of_device (dev_id ?d) e t"
    "es = [PushCancel (dev_id ?d) (sr_turn_id m) ''stop'']"
    and e': "e' = set_turn (sr_turn_id m) (end_turn ''stopped'' True (t\<lparr>stop_detection := Some det\<rparr>))
       (set_device r (?d\<lparr>dev_stop_state := ss\<rparr>) e)"
    using stop by (rule stop_voice_turn_ends) (auto simp: of_device_def split: if_splits)
  have again: "fst (handle_stop_detected later dismissed r (Some m) e') = NotAccepted ''duplicate detection''"
    using ok by (intro stop_report_again [where s = "dev_stop_state ?d"])
      (simp_all add: e' ss stopword_capable_def)
  show ?thesis
    by (rule exI [of _ "the (arm_state (dev_stop_state ?d))"], rule exI [of _ t],
        rule exI [of _ "end_turn ''stopped'' True (t\<lparr>stop_detection := Some det\<rparr>)"])
      (use a t again in \<open>simp add: e' end_turn_def Let_def split: option.splits\<close>)
qed

definition armed_engine :: engine where
  "armed_engine =
     (let d = idle_device\<lparr>dev_stop_state := stop_init\<lparr>arm_state := Some
            \<lparr>arm_turn_id = 1, arm_generation = 6, arm_phase = Playback, arm_expires_mono = 100\<rparr>\<rparr>\<rparr>
      in add_turn 1 (new_turn 1 0 10)
           \<lparr>task_stage = Responding, task_wake = None, task_announcement = False, task_on_admitted = False,
            task_request = None\<rparr> (engine_init (\<lambda>_. d) []))"

definition stop_example :: stop_report where
  "stop_example = \<lparr>sr_turn_id = 1, sr_generation = 6, sr_score = 9/10, sr_threshold = 1/2, sr_age_ms = 40,
                   sr_phase = Playback\<rparr>"

theorem stop_detection_ends_the_named_turn_witness:
  "\<exists>e' es. handle_stop_detected 20 False 0 (Some stop_example) armed_engine = (TurnStopped True, (e', es)) \<and>
     es = [PushCancel ''kitchen'' 1 ''stop''] \<and>
     fst (handle_stop_detected 21 False 0 (Some stop_example) e') = NotAccepted ''duplicate detection''"
proof -
  obtain e' es where
    r: "handle_stop_detected 20 False 0 (Some stop_example) armed_engine = (TurnStopped True, (e', es))"
  proof
    have "fst (handle_stop_detected 20 False 0 (Some stop_example) armed_engine) = TurnStopped True"
      by code_simp
    then show "handle_stop_detected 20 False 0 (Some stop_example) armed_engine =
      (TurnStopped True,
       fst (snd (handle_stop_detected 20 False 0 (Some stop_example) armed_engine)),
       snd (snd (handle_stop_detected 20 False 0 (Some stop_example) armed_engine)))"
      by (simp add: prod_eq_iff)
  qed
  have "dev_id (heap armed_engine 0) = ''kitchen''" "sr_turn_id stop_example = 1"
    by code_simp+
  with stop_detection_ends_the_named_turn [OF r, of 21] r show ?thesis by auto
qed

end
