(* ===== verification/Accounts.thy ===== *)
theory Accounts
  imports Decisions
begin

text \<open>
  Accounts and sessions: the users, sessions and configuration tables of
  \<open>controller/em_db.py\<close>, and \<open>controller/em_auth.py\<close>: tokens, session resolution and the access
  decorators. The tables are lists of rows; a unique constraint that fails is \<open>IntegrityError\<close>.
  Each database function is one transaction. bcrypt is a parameter.
\<close>

section \<open>The tables\<close>

record user_row =
  user_id :: int
  username :: string
  password_hash :: string
  role :: string
  created_at :: int
  ha_user_id :: "string option"

record session_row =
  sess_token :: string
  sess_user :: int
  sess_created_at :: int
  sess_expires_at :: int

record accounts =
  users :: "user_row list"
  sessions :: "session_row list"
  next_user_id :: int                                 \<comment> \<open>\<open>AUTOINCREMENT\<close>\<close>
  system_config :: "(string \<times> string option) list"
  bootstrap_token :: "string option"

datatype db_error = IntegrityError | UserNotFound | UnknownRole

section \<open>Users\<close>

definition get_user_by_username :: "string \<Rightarrow> accounts \<Rightarrow> user_row option" where
  "get_user_by_username name a = find (\<lambda>u. username u = name) (users a)"

definition get_user_by_id :: "int \<Rightarrow> accounts \<Rightarrow> user_row option" where
  "get_user_by_id uid a = find (\<lambda>u. user_id u = uid) (users a)"

definition get_user_by_ha_id :: "string \<Rightarrow> accounts \<Rightarrow> user_row option" where
  "get_user_by_ha_id ha a = find (\<lambda>u. ha_user_id u = Some ha) (users a)"

definition insert_user :: "int \<Rightarrow> string \<Rightarrow> string \<Rightarrow> string \<Rightarrow> string option \<Rightarrow> accounts \<Rightarrow> int \<times> accounts" where
  "insert_user now name hash rl ha a =
     (next_user_id a,
      a\<lparr>users := users a @ [\<lparr>user_id = next_user_id a, username = name, password_hash = hash,
                              role = rl, created_at = now, ha_user_id = ha\<rparr>],
        next_user_id := next_user_id a + 1\<rparr>)"

definition create_user :: "int \<Rightarrow> string \<Rightarrow> string \<Rightarrow> string \<Rightarrow> accounts \<Rightarrow> db_error + (int \<times> accounts)" where
  "create_user now name hash rl a =
     (if name \<in> set (map username (users a)) then Inl IntegrityError
      else Inr (insert_user now name hash rl None a))"

definition ha_admin_count :: "accounts \<Rightarrow> int" where
  "ha_admin_count a = int (length (filter (\<lambda>u. role u = ''admin'' \<and> ha_user_id u \<noteq> None) (users a)))"

definition HA_USER_PASSWORD_SENTINEL :: string where
  "HA_USER_PASSWORD_SENTINEL = ''!ha-authenticated-no-password''"

definition suffixed :: "string \<Rightarrow> nat \<Rightarrow> string" where
  "suffixed name k = (if k = 1 then name else name @ ''-'' @ str_of_nat k)"

text \<open>
  The renaming loop of \<open>create_ha_user\<close>. One round more than there are rows is enough
  (\<open>free_username_fresh\<close>), so \<open>None\<close>, being out of fuel, does not happen.
\<close>

fun free_username_from :: "nat \<Rightarrow> string list \<Rightarrow> string \<Rightarrow> nat \<Rightarrow> string option" where
  "free_username_from 0 names name k = None"
| "free_username_from (Suc n) names name k =
     (if suffixed name k \<in> set names then free_username_from n names name (Suc k)
      else Some (suffixed name k))"

definition free_username :: "string list \<Rightarrow> string \<Rightarrow> string option" where
  "free_username names name = free_username_from (Suc (length names)) names name 1"

definition create_ha_user :: "int \<Rightarrow> string \<Rightarrow> string \<Rightarrow> string \<Rightarrow> accounts \<Rightarrow> db_error + (int \<times> accounts)" where
  "create_ha_user now ha name rl a =
     (case free_username (map username (users a)) name of
        None \<Rightarrow> Inl IntegrityError
      | Some base \<Rightarrow>
          if Some ha \<in> set (map ha_user_id (users a)) then Inl IntegrityError
          else Inr (insert_user now base HA_USER_PASSWORD_SENTINEL rl (Some ha) a))"

definition update_users :: "int \<Rightarrow> (user_row \<Rightarrow> user_row) \<Rightarrow> accounts \<Rightarrow> accounts" where
  "update_users uid f a = a\<lparr>users := map (\<lambda>u. if user_id u = uid then f u else u) (users a)\<rparr>"

definition set_user_role :: "int \<Rightarrow> string \<Rightarrow> accounts \<Rightarrow> db_error + accounts" where
  "set_user_role uid rl a =
     (if rl \<notin> {''admin'', ''readonly''} then Inl UnknownRole
      else Inr (update_users uid (role_update (\<lambda>_. rl)) a))"

definition update_user_password :: "int \<Rightarrow> string \<Rightarrow> accounts \<Rightarrow> db_error + accounts" where
  "update_user_password uid hash a =
     (if get_user_by_id uid a = None then Inl UserNotFound
      else Inr (update_users uid (password_hash_update (\<lambda>_. hash)) a))"

definition admin_count :: "accounts \<Rightarrow> nat" where
  "admin_count a = length (filter (\<lambda>u. role u = ''admin'') (users a))"

definition user_count :: "accounts \<Rightarrow> nat" where
  "user_count a = length (users a)"

section \<open>Sessions and configuration\<close>

definition create_session :: "int \<Rightarrow> string \<Rightarrow> int \<Rightarrow> int \<Rightarrow> accounts \<Rightarrow> db_error + accounts" where
  "create_session now token uid expiry_days a =
     (if token \<in> set (map sess_token (sessions a)) \<or> get_user_by_id uid a = None then Inl IntegrityError
      else Inr (a\<lparr>sessions := sessions a @ [\<lparr>sess_token = token, sess_user = uid,
                    sess_created_at = now, sess_expires_at = now + expiry_days * 86400\<rparr>]\<rparr>))"

definition get_session :: "int \<Rightarrow> string \<Rightarrow> accounts \<Rightarrow> session_row option" where
  "get_session now token a = find (\<lambda>s. sess_token s = token \<and> now < sess_expires_at s) (sessions a)"

definition delete_session :: "string \<Rightarrow> accounts \<Rightarrow> accounts" where
  "delete_session token a = a\<lparr>sessions := filter (\<lambda>s. sess_token s \<noteq> token) (sessions a)\<rparr>"

definition prune_sessions :: "int \<Rightarrow> accounts \<Rightarrow> accounts" where
  "prune_sessions now a = a\<lparr>sessions := filter (\<lambda>s. \<not> sess_expires_at s \<le> now) (sessions a)\<rparr>"

definition get_config :: "string \<Rightarrow> string option \<Rightarrow> accounts \<Rightarrow> string option" where
  "get_config key dflt a =
     (case map_of (system_config a) key of None \<Rightarrow> dflt | Some v \<Rightarrow> v)"

definition set_config :: "string \<Rightarrow> string option \<Rightarrow> accounts \<Rightarrow> accounts" where
  "set_config key v a = a\<lparr>system_config := put key v (system_config a)\<rparr>"

section \<open>Who a request comes from\<close>

record principal =
  pr_id :: "int option"
  pr_username :: string
  pr_role :: string
  pr_token :: string

record web_request =
  rq_authorization :: string        \<comment> \<open>the header, empty when absent\<close>
  rq_cookie :: string               \<comment> \<open>the session cookie\<close>
  rq_query_token :: string
  rq_query_api_key :: string
  rq_user :: "principal option"     \<comment> \<open>\<open>request["user"]\<close>\<close>

definition lower_ascii :: "char \<Rightarrow> char" where
  "lower_ascii c = (if in_range (CHR ''A'') (CHR ''Z'') c then char_of (of_char c + 32 :: nat) else c)"

definition bearer :: "string \<Rightarrow> string" where
  "bearer h = (if startswith (map lower_ascii h) ''bearer '' then py_strip (drop 7 h) else [])"

definition extract_token :: "web_request \<Rightarrow> string option" where
  "extract_token r =
     (if bearer (rq_authorization r) \<noteq> [] then Some (bearer (rq_authorization r))
      else let t = py_strip (rq_cookie r) in if t \<noteq> [] then Some t else None)"

definition resolve_api_key :: "web_request \<Rightarrow> accounts \<Rightarrow> digest_error + principal option" where
  "resolve_api_key r a =
     (let candidate = (if bearer (rq_authorization r) \<noteq> [] then bearer (rq_authorization r)
                       else py_strip (rq_query_api_key r));
          configured = get_config ''ha_api_key'' None a
      in if candidate = [] then Inr None
         else if \<not> present configured then Inr None
         else bind_res (compare_digest candidate (the configured)) (\<lambda>same.
           Inr (if same then Some \<lparr>pr_id = None, pr_username = ''home-assistant-integration'',
                                   pr_role = ''integration'', pr_token = candidate\<rparr>
                else None)))"

definition principal_of :: "user_row \<Rightarrow> string \<Rightarrow> principal" where
  "principal_of u token = \<lparr>pr_id = Some (user_id u), pr_username = username u, pr_role = role u, pr_token = token\<rparr>"

text \<open>The lookups of \<open>resolve_session\<close> once the token is known.\<close>

definition resolve_token ::
  "int \<Rightarrow> string \<Rightarrow> web_request \<Rightarrow> accounts \<Rightarrow> digest_error + principal option" where
  "resolve_token now token r a =
     (case get_session now token a of
        None \<Rightarrow> resolve_api_key r a
      | Some s \<Rightarrow>
          (case get_user_by_id (sess_user s) a of
             None \<Rightarrow> Inr None
           | Some u \<Rightarrow> Inr (Some (principal_of u token))))"

definition resolve_session :: "int \<Rightarrow> web_request \<Rightarrow> accounts \<Rightarrow> digest_error + principal option" where
  "resolve_session now r a =
     (case rq_user r of
        Some p \<Rightarrow> Inr (Some p)
      | None \<Rightarrow>
          (case extract_token r of None \<Rightarrow> resolve_api_key r a | Some t \<Rightarrow> resolve_token now t r a))"

definition ws_resolve_session :: "int \<Rightarrow> web_request \<Rightarrow> accounts \<Rightarrow> digest_error + principal option" where
  "ws_resolve_session now r a =
     (let t = py_strip (rq_cookie r); token = (if t \<noteq> [] then t else py_strip (rq_query_token r))
      in if token = [] then resolve_api_key r a else resolve_token now token r a)"

text \<open>The decorators: \<open>Inr\<close> passes the request on as this principal.\<close>

datatype access_error = NotAuthenticated | Forbidden | DigestRaised

definition require_role :: "(string \<Rightarrow> bool) \<Rightarrow> int \<Rightarrow> web_request \<Rightarrow> accounts \<Rightarrow> access_error + principal" where
  "require_role allowed now r a =
     (case resolve_session now r a of
        Inl _ \<Rightarrow> Inl DigestRaised
      | Inr None \<Rightarrow> Inl NotAuthenticated
      | Inr (Some p) \<Rightarrow> if allowed (pr_role p) then Inr p else Inl Forbidden)"

definition require_auth :: "int \<Rightarrow> web_request \<Rightarrow> accounts \<Rightarrow> access_error + principal" where
  "require_auth = require_role (\<lambda>_. True)"

definition require_admin :: "int \<Rightarrow> web_request \<Rightarrow> accounts \<Rightarrow> access_error + principal" where
  "require_admin = require_role (\<lambda>rl. rl = ''admin'')"

definition require_integration_or_admin :: "int \<Rightarrow> web_request \<Rightarrow> accounts \<Rightarrow> access_error + principal" where
  "require_integration_or_admin = require_role (\<lambda>rl. rl \<in> {''admin'', ''integration''})"

section \<open>Credentials\<close>

definition verify_password :: "(string \<Rightarrow> string \<Rightarrow> bool option) \<Rightarrow> string \<Rightarrow> string \<Rightarrow> bool" where
  "verify_password checkpw password hashed =
     (case checkpw password hashed of None \<Rightarrow> False | Some b \<Rightarrow> b)"

text \<open>\<open>_validate_credentials\<close>: \<open>False\<close> is an \<open>AuthError\<close> with code \<open>invalid_input\<close>.\<close>

definition validate_credentials :: "string \<Rightarrow> string \<Rightarrow> bool" where
  "validate_credentials name password \<longleftrightarrow>
     \<not> (name = [] \<or> length (py_strip name) < 2) \<and> \<not> 64 < length name \<and>
     \<not> (password = [] \<or> length password < 8)"

section \<open>What the tables keep\<close>

definition accounts_ok :: "accounts \<Rightarrow> bool" where
  "accounts_ok a \<longleftrightarrow>
     distinct (map user_id (users a)) \<and> distinct (map username (users a)) \<and>
     distinct (filter (\<lambda>h. h \<noteq> None) (map ha_user_id (users a))) \<and>
     (\<forall>u \<in> set (users a). role u \<in> set VALID_ROLES \<and> user_id u < next_user_id a) \<and>
     distinct (map sess_token (sessions a)) \<and>
     sess_user ` set (sessions a) \<subseteq> user_id ` set (users a)"

lemma update_users_sel [simp]:
  "sessions (update_users uid f a) = sessions a" "next_user_id (update_users uid f a) = next_user_id a"
  "system_config (update_users uid f a) = system_config a"
  "bootstrap_token (update_users uid f a) = bootstrap_token a"
  "users (update_users uid f a) = map (\<lambda>u. if user_id u = uid then f u else u) (users a)"
  by (simp_all add: update_users_def)

lemma insert_user_sel [simp]:
  "sessions (snd (insert_user now n h rl ha a)) = sessions a"
  "next_user_id (snd (insert_user now n h rl ha a)) = next_user_id a + 1"
  "system_config (snd (insert_user now n h rl ha a)) = system_config a"
  "bootstrap_token (snd (insert_user now n h rl ha a)) = bootstrap_token a"
  "users (snd (insert_user now n h rl ha a)) =
     users a @ [\<lparr>user_id = next_user_id a, username = n, password_hash = h, role = rl, created_at = now,
                 ha_user_id = ha\<rparr>]"
  "fst (insert_user now n h rl ha a) = next_user_id a"
  by (simp_all add: insert_user_def)

lemma find_Some_mem: "find P xs = Some x \<Longrightarrow> x \<in> set xs \<and> P x"
  by (induction xs) (auto split: if_splits)

lemma get_user_by_id_Some: "get_user_by_id uid a = Some u \<Longrightarrow> u \<in> set (users a) \<and> user_id u = uid"
  unfolding get_user_by_id_def by (drule find_Some_mem) simp

lemma get_user_by_id_iff:
  "accounts_ok a \<Longrightarrow> get_user_by_id uid a = Some u \<longleftrightarrow> u \<in> set (users a) \<and> user_id u = uid"
proof
  assume ok: "accounts_ok a" and u: "u \<in> set (users a) \<and> user_id u = uid"
  then obtain v where v: "get_user_by_id uid a = Some v"
    by (cases "get_user_by_id uid a") (auto simp: get_user_by_id_def find_None_iff)
  with get_user_by_id_Some [OF v] ok u have "v = u"
    by (auto simp: accounts_ok_def distinct_map inj_on_def)
  with v show "get_user_by_id uid a = Some u" by simp
qed (auto dest: get_user_by_id_Some)

lemma get_user_by_id_None: "get_user_by_id uid a = None \<longleftrightarrow> uid \<notin> user_id ` set (users a)"
  by (auto simp: get_user_by_id_def find_None_iff)

section \<open>The renaming loop\<close>

lemma suffixed_inject: "0 < j \<Longrightarrow> 0 < k \<Longrightarrow> suffixed name j = suffixed name k \<Longrightarrow> j = k"
  by (auto simp: suffixed_def split: if_splits)

lemma free_username_from_Some:
  "free_username_from n names name k = Some x \<Longrightarrow> x \<notin> set names \<and> (\<exists>j \<ge> k. x = suffixed name j)"
proof (induction n arbitrary: k)
  case (Suc n)
  show ?case
  proof (cases "suffixed name k \<in> set names")
    case True
    with Suc have "x \<notin> set names \<and> (\<exists>j \<ge> Suc k. x = suffixed name j)" by simp
    then show ?thesis by (metis Suc_leD)
  qed (use Suc.prems in auto)
qed simp

lemma free_username_from_None:
  "free_username_from n names name k = None \<Longrightarrow> suffixed name ` {k..<k + n} \<subseteq> set names"
proof (induction n arbitrary: k)
  case (Suc n)
  then have "suffixed name k \<in> set names" "suffixed name ` {Suc k..<Suc k + n} \<subseteq> set names"
    using Suc.IH [of "Suc k"] by (simp_all split: if_splits)
  moreover have "{k..<k + Suc n} = insert k {Suc k..<Suc k + n}" by auto
  ultimately show ?case by simp
qed simp

lemma free_username_fresh: "\<exists>x. free_username names name = Some x \<and> x \<notin> set names"
proof (cases "free_username names name")
  case (Some x)
  then have "x \<notin> set names"
    unfolding free_username_def by (drule_tac free_username_from_Some) simp
  with Some show ?thesis by simp
next
  case None
  let ?ks = "{1..<1 + Suc (length names)}"
  have "suffixed name ` ?ks \<subseteq> set names"
    using None free_username_from_None unfolding free_username_def by blast
  moreover have "inj_on (suffixed name) ?ks"
    by (rule inj_onI) (rule suffixed_inject [of _ _ name]; simp)
  ultimately have "Suc (length names) \<le> card (set names)"
    by (metis List.finite_set card_atLeastLessThan card_inj_on_le diff_add_inverse)
  then show ?thesis using card_length [of names] by simp
qed

lemma create_ha_user_Inr:
  "create_ha_user now ha name rl a = Inr (uid, a') \<longleftrightarrow>
     Some ha \<notin> set (map ha_user_id (users a)) \<and>
     (uid, a') = insert_user now (the (free_username (map username (users a)) name))
                   HA_USER_PASSWORD_SENTINEL rl (Some ha) a"
  using free_username_fresh [of "map username (users a)" name] by (auto simp: create_ha_user_def)

section \<open>The invariant\<close>

lemma accounts_ok_insert:
  assumes "accounts_ok a" "name \<notin> set (map username (users a))" "rl \<in> set VALID_ROLES"
    and "ha = None \<or> ha \<notin> set (map ha_user_id (users a))"
  shows "accounts_ok (snd (insert_user now name hash rl ha a))"
  using assms by (force simp: accounts_ok_def)

lemma accounts_ok_update:
  assumes "accounts_ok a" "\<And>u. user_id (f u) = user_id u \<and> username (f u) = username u \<and> ha_user_id (f u) = ha_user_id u"
    "\<And>u. u \<in> set (users a) \<Longrightarrow> role (f u) \<in> set VALID_ROLES"
  shows "accounts_ok (update_users uid f a)"
proof -
  have maps: "map g (users (update_users uid f a)) = map g (users a)" if "\<And>u. g (f u) = g u" for g :: "user_row \<Rightarrow> 'b"
    using that by simp
  have "map user_id (users (update_users uid f a)) = map user_id (users a)"
    "map username (users (update_users uid f a)) = map username (users a)"
    "map ha_user_id (users (update_users uid f a)) = map ha_user_id (users a)"
    using assms(2) by (auto intro!: maps)
  moreover have "user_id ` set (users (update_users uid f a)) = user_id ` set (users a)"
    using calculation(1) by (metis set_map)
  moreover have "\<forall>u \<in> set (users (update_users uid f a)). role u \<in> set VALID_ROLES \<and> user_id u < next_user_id a"
    using assms by (auto simp: accounts_ok_def)
  ultimately show ?thesis
    using assms(1) unfolding accounts_ok_def by (simp del: update_users_sel(5) set_map map_map)
qed

section \<open>Properties\<close>

lemma get_session_iff:
  assumes "accounts_ok a"
  shows "get_session now t a = Some s \<longleftrightarrow> s \<in> set (sessions a) \<and> sess_token s = t \<and> now < sess_expires_at s"
proof
  assume "get_session now t a = Some s"
  then show "s \<in> set (sessions a) \<and> sess_token s = t \<and> now < sess_expires_at s"
    unfolding get_session_def by (drule_tac find_Some_mem) simp
next
  assume s: "s \<in> set (sessions a) \<and> sess_token s = t \<and> now < sess_expires_at s"
  then obtain s' where s': "get_session now t a = Some s'"
    by (cases "get_session now t a") (auto simp: get_session_def find_None_iff)
  then have "s' \<in> set (sessions a) \<and> sess_token s' = t"
    unfolding get_session_def by (drule_tac find_Some_mem) simp
  with s assms have "s' = s" by (auto simp: accounts_ok_def distinct_map inj_on_def)
  with s' show "get_session now t a = Some s" by simp
qed

lemma api_key_role: "resolve_api_key r a = Inr (Some p) \<Longrightarrow> pr_role p = ''integration''"
  by (auto simp: resolve_api_key_def Let_def split: if_splits)

lemma resolve_token_iff:
  assumes "accounts_ok a" "pr_role p \<noteq> ''integration''"
  shows "resolve_token now t r a = Inr (Some p) \<longleftrightarrow>
    (\<exists>s u. s \<in> set (sessions a) \<and> u \<in> set (users a) \<and> sess_token s = t \<and> now < sess_expires_at s \<and>
       user_id u = sess_user s \<and> p = principal_of u t)"
proof (cases "get_session now t a")
  case None
  then have "\<not> (\<exists>s. s \<in> set (sessions a) \<and> sess_token s = t \<and> now < sess_expires_at s)"
    using get_session_iff [OF assms(1)] by (metis option.distinct(1))
  with None assms(2) show ?thesis by (auto simp: resolve_token_def dest: api_key_role)
next
  case (Some s)
  then have s: "s' = s" if "s' \<in> set (sessions a)" "sess_token s' = t" "now < sess_expires_at s'" for s'
    using get_session_iff [OF assms(1)] that by (metis option.inject)
  have "resolve_token now t r a = Inr (Some p) \<longleftrightarrow>
      (\<exists>u. get_user_by_id (sess_user s) a = Some u \<and> p = principal_of u t)"
    by (auto simp: resolve_token_def Some split: option.splits)
  then have "resolve_token now t r a = Inr (Some p) \<longleftrightarrow>
      (\<exists>u. (u \<in> set (users a) \<and> user_id u = sess_user s) \<and> p = principal_of u t)"
    unfolding get_user_by_id_iff [OF assms(1)] .
  moreover have "s \<in> set (sessions a) \<and> sess_token s = t \<and> now < sess_expires_at s"
    using Some get_session_iff [OF assms(1)] by blast
  ultimately show ?thesis using s by blast
qed

text \<open>Claim C32: an admin endpoint lets a request through
  exactly when the request presents, as bearer header or else as cookie, the token of a session that
  has not expired and whose user exists and is an admin now; it then acts as that user. In particular
  the integration's API key never opens an admin endpoint.\<close>

theorem admin_access_needs_live_admin_session:
  assumes "accounts_ok a" and "rq_user r = None"
  shows "require_admin now r a = Inr p \<longleftrightarrow>
    (\<exists>s u. s \<in> set (sessions a) \<and> u \<in> set (users a) \<and> extract_token r = Some (sess_token s) \<and>
       now < sess_expires_at s \<and> user_id u = sess_user s \<and> role u = ''admin'' \<and>
       p = principal_of u (sess_token s))"
proof -
  have "require_admin now r a = Inr p \<longleftrightarrow>
      resolve_session now r a = Inr (Some p) \<and> pr_role p = ''admin''"
    by (auto simp: require_admin_def require_role_def split: sum.splits option.splits if_splits)
  also have "\<dots> \<longleftrightarrow> (\<exists>t. extract_token r = Some t \<and> resolve_token now t r a = Inr (Some p)) \<and> pr_role p = ''admin''"
    using assms(2) by (auto simp: resolve_session_def dest: api_key_role split: option.splits)
  also have "\<dots> \<longleftrightarrow> (\<exists>s u. s \<in> set (sessions a) \<and> u \<in> set (users a) \<and> extract_token r = Some (sess_token s) \<and>
       now < sess_expires_at s \<and> user_id u = sess_user s \<and> role u = ''admin'' \<and> p = principal_of u (sess_token s))"
    (is "?L \<longleftrightarrow> ?R")
  proof
    assume ?L
    then obtain t where t: "extract_token r = Some t" "resolve_token now t r a = Inr (Some p)" and ad: "pr_role p = ''admin''"
      by blast
    then have "pr_role p \<noteq> ''integration''" by simp
    with t obtain s u where su: "s \<in> set (sessions a)" "u \<in> set (users a)" "sess_token s = t"
      "now < sess_expires_at s" "user_id u = sess_user s" "p = principal_of u t"
      using resolve_token_iff [OF assms(1), of p now t r] by blast
    with ad have "role u = ''admin''" by (simp add: principal_of_def)
    with su t(1) show ?R by blast
  next
    assume ?R
    then obtain s u where su: "s \<in> set (sessions a)" "u \<in> set (users a)" "extract_token r = Some (sess_token s)"
      "now < sess_expires_at s" "user_id u = sess_user s" "role u = ''admin''" "p = principal_of u (sess_token s)"
      by blast
    then have ad: "pr_role p = ''admin''" by (simp add: principal_of_def)
    then have "pr_role p \<noteq> ''integration''" by simp
    then have "resolve_token now (sess_token s) r a = Inr (Some p)"
      using resolve_token_iff [OF assms(1), of p now "sess_token s" r] su by blast
    with su ad show ?L by blast
  qed
  finally show ?thesis .
qed

definition two_admins :: accounts where
  "two_admins =
     \<lparr>users = [\<lparr>user_id = 1, username = ''ann'', password_hash = ''x'', role = ''admin'', created_at = 0,
               ha_user_id = None\<rparr>,
              \<lparr>user_id = 2, username = ''bob'', password_hash = ''y'', role = ''admin'', created_at = 0,
               ha_user_id = None\<rparr>],
      sessions = [\<lparr>sess_token = ''t1'', sess_user = 1, sess_created_at = 0, sess_expires_at = 1000\<rparr>,
                  \<lparr>sess_token = ''t2'', sess_user = 2, sess_created_at = 0, sess_expires_at = 1000\<rparr>],
      next_user_id = 3, system_config = [(''ha_api_key'', Some ''em_key'')], bootstrap_token = None\<rparr>"

definition with_header :: "string \<Rightarrow> web_request" where
  "with_header h = \<lparr>rq_authorization = h, rq_cookie = [], rq_query_token = [], rq_query_api_key = [],
                    rq_user = None\<rparr>"

lemma two_admins_ok: "accounts_ok two_admins"
  by (simp add: accounts_ok_def two_admins_def VALID_ROLES_def)

theorem admin_access_needs_live_admin_session_witness:
  "\<exists>p. require_admin 5 (with_header ''Bearer t1'') two_admins = Inr p \<and>
     (\<exists>s u. s \<in> set (sessions two_admins) \<and> u \<in> set (users two_admins) \<and>
        extract_token (with_header ''Bearer t1'') = Some (sess_token s) \<and> role u = ''admin'')"
proof -
  have "rq_user (with_header ''Bearer t1'') = None" by (simp add: with_header_def)
  moreover obtain p where "require_admin 5 (with_header ''Bearer t1'') two_admins = Inr p"
  proof
    show "require_admin 5 (with_header ''Bearer t1'') two_admins =
      Inr \<lparr>pr_id = Some 1, pr_username = ''ann'', pr_role = ''admin'', pr_token = ''t1''\<rparr>"
      by code_simp
  qed
  ultimately show ?thesis
    using admin_access_needs_live_admin_session [OF two_admins_ok] by blast
qed

text \<open>Claim C34: the renaming loop for a new Home Assistant user always ends,
  with a name no account has: the user gets a row of their own with a new id, every other row is as it
  was, and the stored hash lets nobody log in with a password.\<close>

theorem ha_users_never_merged:
  assumes "accounts_ok a" and "get_user_by_ha_id ha a = None"
    and "\<And>pw. checkpw pw HA_USER_PASSWORD_SENTINEL = None"
  shows "\<exists>u a'. create_ha_user now ha name rl a = Inr (user_id u, a') \<and> users a' = users a @ [u] \<and>
    username u \<notin> set (map username (users a)) \<and> user_id u \<notin> set (map user_id (users a)) \<and>
    ha_user_id u = Some ha \<and> role u = rl \<and> sessions a' = sessions a \<and>
    \<not> verify_password checkpw pw (password_hash u)"
proof -
  obtain base where b: "free_username (map username (users a)) name = Some base"
    "base \<notin> set (map username (users a))"
    using free_username_fresh by blast
  have "Some ha \<notin> set (map ha_user_id (users a))"
    using assms(2) by (auto simp: get_user_by_ha_id_def find_None_iff)
  with b have "create_ha_user now ha name rl a = Inr (insert_user now base HA_USER_PASSWORD_SENTINEL rl (Some ha) a)"
    by (simp add: create_ha_user_def)
  moreover have "next_user_id a \<notin> set (map user_id (users a))"
    using assms(1) by (auto simp: accounts_ok_def)
  ultimately show ?thesis
    using b(2) assms(3)
    by (intro exI [of _ "\<lparr>user_id = next_user_id a, username = base, password_hash = HA_USER_PASSWORD_SENTINEL,
        role = rl, created_at = now, ha_user_id = Some ha\<rparr>"])
      (auto simp: insert_user_def verify_password_def)
qed

theorem ha_users_never_merged_witness:
  "\<exists>(u :: user_row) a'. create_ha_user 7 ''ha9'' ''ann'' ''readonly'' two_admins = Inr (user_id u, a') \<and>
     username u \<notin> {''ann'', ''bob''} \<and> \<not> verify_password (\<lambda>_ _. None) ''secret'' (password_hash u)"
proof -
  have "get_user_by_ha_id ''ha9'' two_admins = None"
    by (simp add: two_admins_def get_user_by_ha_id_def)
  note fresh_user = ha_users_never_merged [OF two_admins_ok this, of "\<lambda>_ _. None", OF refl, of 7 "''ann''" "''readonly''" "''secret''"]
  have names: "{''ann'', ''bob''} = set (map username (users two_admins))"
    by (auto simp: two_admins_def)
  show ?thesis unfolding names using fresh_user by blast
qed

end
