(* ===== verification/Requests.thy ===== *)
theory Requests
  imports Prelude
begin

text \<open>
  Requests that run concurrently on the event loop: a request is a value that says what it still
  has to do, and \<open>step i r s\<close> runs it from one await to the next on the shared state \<open>s\<close>, with \<open>i\<close>
  the inputs of that segment. It ends with a reply or goes on as another request.

  \<open>reach step starts cap s0\<close> holds of the states, with the requests still running, that any
  interleaving of at most \<open>cap\<close> requests can lead to. The locales carry an invariant along it:
  \<open>serial_requests\<close> when requests run one at a time, \<open>concurrent_requests\<close> for any number, where
  in addition no request may break what another one relies on.
\<close>

inductive reach ::
  "('i \<Rightarrow> 'j \<Rightarrow> 's \<Rightarrow> ('r + 'j) \<times> 's) \<Rightarrow> ('j \<Rightarrow> bool) \<Rightarrow> nat \<Rightarrow> 's \<Rightarrow> 's \<times> 'j list \<Rightarrow> bool"
  for step starts cap s0
where
  begin_run: "reach step starts cap s0 (s0, [])"
| arrive: "reach step starts cap s0 (s, js) \<Longrightarrow> length js < cap \<Longrightarrow> starts j \<Longrightarrow>
     reach step starts cap s0 (s, js @ [j])"
| go_on: "reach step starts cap s0 (s, js @ j # ks) \<Longrightarrow> step i j s = (Inr j', s') \<Longrightarrow>
     reach step starts cap s0 (s', js @ j' # ks)"
| finish: "reach step starts cap s0 (s, js @ j # ks) \<Longrightarrow> step i j s = (Inl r, s') \<Longrightarrow>
     reach step starts cap s0 (s', js @ ks)"

text \<open>The same rules on positions, for evaluating a given interleaving.\<close>

datatype ('i, 'j) schedule = Arrive 'j | Go nat 'i

fun move ::
  "('i \<Rightarrow> 'j \<Rightarrow> 's \<Rightarrow> ('r + 'j) \<times> 's) \<Rightarrow> 's \<times> 'j list \<Rightarrow> ('i, 'j) schedule \<Rightarrow> 's \<times> 'j list" where
  "move step (s, js) (Arrive j) = (s, js @ [j])"
| "move step (s, js) (Go n i) =
     (case step i (js ! n) s of
        (Inr j', s') \<Rightarrow> (s', take n js @ j' # drop (Suc n) js)
      | (Inl r, s') \<Rightarrow> (s', take n js @ drop (Suc n) js))"

fun move_ok :: "('j \<Rightarrow> bool) \<Rightarrow> nat \<Rightarrow> 's \<times> 'j list \<Rightarrow> ('i, 'j) schedule \<Rightarrow> bool" where
  "move_ok starts cap (s, js) (Arrive j) \<longleftrightarrow> length js < cap \<and> starts j"
| "move_ok starts cap (s, js) (Go n i) \<longleftrightarrow> n < length js"

fun moves ::
  "('i \<Rightarrow> 'j \<Rightarrow> 's \<Rightarrow> ('r + 'j) \<times> 's) \<Rightarrow> ('j \<Rightarrow> bool) \<Rightarrow> nat \<Rightarrow> 's \<times> 'j list \<Rightarrow> ('i, 'j) schedule list \<Rightarrow>
   ('s \<times> 'j list) option" where
  "moves step starts cap c [] = Some c"
| "moves step starts cap c (m # ms) =
     (if move_ok starts cap c m then moves step starts cap (move step c m) ms else None)"

lemma reach_move:
  assumes "reach step starts cap s0 c" "move_ok starts cap c m"
  shows "reach step starts cap s0 (move step c m)"
proof (cases m)
  case (Arrive j)
  with assms show ?thesis by (cases c) (auto intro: reach.arrive)
next
  case (Go n i)
  obtain s js where c: "c = (s, js)" by (cases c)
  have n: "n < length js" using assms(2) Go c by simp
  have split: "js = take n js @ js ! n # drop (Suc n) js" using n by (rule id_take_nth_drop)
  have r: "reach step starts cap s0 (s, take n js @ js ! n # drop (Suc n) js)"
    using assms(1) c split by simp
  obtain res s' where st: "step i (js ! n) s = (res, s')" by (cases "step i (js ! n) s")
  show ?thesis
  proof (cases res)
    case (Inl x)
    with st have "reach step starts cap s0 (s', take n js @ drop (Suc n) js)"
      by (intro reach.finish [OF r]) simp
    with st Inl Go c show ?thesis by simp
  next
    case (Inr j')
    with st have "reach step starts cap s0 (s', take n js @ j' # drop (Suc n) js)"
      by (intro reach.go_on [OF r]) simp
    with st Inr Go c show ?thesis by simp
  qed
qed

lemma reach_moves:
  "reach step starts cap s0 c \<Longrightarrow> moves step starts cap c ms = Some c' \<Longrightarrow> reach step starts cap s0 c'"
proof (induction ms arbitrary: c)
  case Nil
  then show ?case by simp
next
  case (Cons m ms)
  then have "move_ok starts cap c m" "moves step starts cap (move step c m) ms = Some c'"
    by (simp_all split: if_splits)
  with Cons show ?case by (blast intro: reach_move)
qed

text \<open>A request that runs alone, from its first segment to its reply.\<close>

fun alone :: "nat \<Rightarrow> ('i \<Rightarrow> 'j \<Rightarrow> 's \<Rightarrow> ('r + 'j) \<times> 's) \<Rightarrow> 'i \<Rightarrow> 'j \<Rightarrow> 's \<Rightarrow> ('r \<times> 's) option" where
  "alone 0 step i j s = None"
| "alone (Suc n) step i j s =
     (case step i j s of (Inl r, s') \<Rightarrow> Some (r, s') | (Inr j', s') \<Rightarrow> alone n step i j' s')"

lemma alone_reach:
  "alone n step i j s = Some (r, s') \<Longrightarrow> reach step starts cap s0 (s, js @ j # ks) \<Longrightarrow>
     reach step starts cap s0 (s', js @ ks)"
proof (induction n arbitrary: j s)
  case 0
  then show ?case by simp
next
  case (Suc n)
  then show ?case
    by (cases "step i j s") (auto split: sum.splits intro: reach.go_on reach.finish)
qed

lemma reach_serial_length: "reach step starts cap s0 c \<Longrightarrow> length (snd c) \<le> cap"
  by (induction rule: reach.induct) auto

locale serial_requests =
  fixes step :: "'i \<Rightarrow> 'j \<Rightarrow> 's \<Rightarrow> ('r + 'j) \<times> 's"
    and starts :: "'j \<Rightarrow> bool"
    and inv :: "'s \<Rightarrow> bool"
    and relies :: "'s \<Rightarrow> 'j \<Rightarrow> bool"
  assumes starts_relies: "inv s \<Longrightarrow> starts j \<Longrightarrow> relies s j"
    and step_inv: "inv s \<Longrightarrow> relies s j \<Longrightarrow> inv (snd (step i j s))"
    and step_relies: "inv s \<Longrightarrow> relies s j \<Longrightarrow> step i j s = (Inr j', s') \<Longrightarrow> relies s' j'"
begin

lemma serial_reach:
  assumes "reach step starts 1 s0 c" "inv s0"
  shows "inv (fst c) \<and> (\<forall>j \<in> set (snd c). relies (fst c) j)"
  using assms(1)
proof (induction rule: reach.induct)
  case begin_run
  with assms(2) show ?case by simp
next
  case (arrive s js j)
  then show ?case by (auto intro: starts_relies)
next
  case (go_on s js j ks i j' s')
  then have "js = []" "ks = []"
    using reach_serial_length [OF go_on.hyps(1)] by auto
  with go_on step_inv [of s j i] step_relies [of s j i j' s'] show ?case by simp
next
  case (finish s js j ks i r s')
  then have "js = []" "ks = []"
    using reach_serial_length [OF finish.hyps(1)] by auto
  with finish step_inv [of s j i] show ?case by simp
qed

end

locale concurrent_requests = serial_requests +
  assumes step_others: "inv s \<Longrightarrow> relies s j \<Longrightarrow> relies s k \<Longrightarrow> relies (snd (step i j s)) k"
begin

lemma concurrent_reach:
  assumes "reach step starts cap s0 c" "inv s0"
  shows "inv (fst c) \<and> (\<forall>j \<in> set (snd c). relies (fst c) j)"
  using assms(1)
proof (induction rule: reach.induct)
  case begin_run
  with assms(2) show ?case by simp
next
  case (arrive s js j)
  then show ?case by (auto intro: starts_relies)
next
  case (go_on s js j ks i j' s')
  then show ?case
    using step_inv [of s j i] step_relies [of s j i j' s'] step_others [of s j _ i] by auto
next
  case (finish s js j ks i r s')
  then show ?case
    using step_inv [of s j i] step_others [of s j _ i] by auto
qed

end

end
