(* ===== verification/AccountRequests.thy ===== *)
theory AccountRequests
  imports Accounts Requests
begin

text \<open>
  The requests that change accounts: first-run setup, password and ingress login, role change,
  password change and logout (\<open>controller/em_auth.py\<close> and the handlers of
  \<open>controller/em_api.py\<close>), each cut at its awaits so that requests interleave as they do on the
  event loop. Resolving the session of a request is one segment. Hashing and checking a password
  read no shared state and belong to the segment before them.
\<close>

section \<open>Segments\<close>

type_synonym body = "(string \<times> json) list"

record auth_env =
  env_checkpw :: "string \<Rightarrow> string \<Rightarrow> bool option"    \<comment> \<open>\<open>bcrypt.checkpw\<close>, \<open>None\<close> when it raises\<close>
  env_hashpw :: "string \<Rightarrow> string \<Rightarrow> string option"  \<comment> \<open>salt and password, \<open>None\<close> when it raises\<close>

record segment =
  seg_now :: int
  seg_fresh :: string        \<comment> \<open>the random token or salt this segment draws\<close>

datatype request =
    Setup body
  | SetupInsert string string string
  | LoginForm body
  | Login string string
  | LoginVerify user_row string
  | NewSession int string string int
  | IngressLogin "ingress_identity option"
  | IngressCount ingress_identity
  | IngressInsert ingress_identity string
  | IngressFetch int
  | PatchUser web_request string body
  | PatchGet int string
  | PatchCount int string
  | PatchWrite int string
  | ChangePassword web_request body
  | PasswordGet "int option" string string
  | PasswordWrite int string
  | Logout web_request
  | LogoutDelete string
  | Prune

datatype reply = Reply int string | LoggedIn string string | Raised

definition require_str :: "body \<Rightarrow> string \<Rightarrow> string option" where
  "require_str b key =
     (case map_of b key of
        Some (JStr s) \<Rightarrow> (if py_strip s = [] then None else Some (py_strip s))
      | _ \<Rightarrow> None)"

definition missing_field :: reply where "missing_field = Reply 400 ''missing_field''"

definition access_reply :: "access_error \<Rightarrow> reply" where
  "access_reply x = (case x of NotAuthenticated \<Rightarrow> Reply 401 ''not_authenticated''
     | Forbidden \<Rightarrow> Reply 403 ''forbidden'' | DigestRaised \<Rightarrow> Raised)"

text \<open>The end of both logins: a new token for this user, valid for \<open>session_expiry_days\<close>.\<close>

definition open_session :: "segment \<Rightarrow> user_row \<Rightarrow> accounts \<Rightarrow> reply + request" where
  "open_session g u a =
     (let days = get_config ''session_expiry_days'' (Some ''30'') a in
      case int_of_str (if present days then the days else ''30'') of
        None \<Rightarrow> Inl Raised
      | Some n \<Rightarrow> Inr (NewSession (user_id u) (role u) (seg_fresh g) n))"

section \<open>First-run setup\<close>

definition create_first_admin :: "auth_env \<Rightarrow> segment \<Rightarrow> string \<Rightarrow> string \<Rightarrow> string \<Rightarrow> accounts \<Rightarrow> reply + request" where
  "create_first_admin e g token name password a =
     (case bootstrap_token a of
        None \<Rightarrow> Inl (Reply 403 ''setup_complete'')
      | Some b \<Rightarrow>
          (case compare_digest token b of
             Inl _ \<Rightarrow> Inl Raised
           | Inr False \<Rightarrow> Inl (Reply 401 ''invalid_token'')
           | Inr True \<Rightarrow>
               if 0 < user_count a then Inl (Reply 403 ''setup_complete'')
               else if \<not> validate_credentials name password then Inl (Reply 400 ''invalid_input'')
               else (case env_hashpw e (seg_fresh g) password of
                 None \<Rightarrow> Inl Raised
               | Some hash \<Rightarrow> Inr (SetupInsert name password hash))))"

definition setup_insert ::
  "segment \<Rightarrow> string \<Rightarrow> string \<Rightarrow> string \<Rightarrow> accounts \<Rightarrow> (reply + request) \<times> accounts" where
  "setup_insert g name password hash a =
     (case create_user (seg_now g) name hash ''admin'' a of
        Inl _ \<Rightarrow> (Inl Raised, a)
      | Inr (uid, a') \<Rightarrow> (Inr (Login name password), a'\<lparr>bootstrap_token := None\<rparr>))"

definition post_setup :: "auth_env \<Rightarrow> segment \<Rightarrow> body \<Rightarrow> accounts \<Rightarrow> reply + request" where
  "post_setup e g b a =
     (case (require_str b ''token'', require_str b ''username'', require_str b ''password'') of
        (Some t, Some u, Some p) \<Rightarrow> create_first_admin e g t u p a
      | _ \<Rightarrow> Inl missing_field)"

section \<open>Logins\<close>

definition post_login :: "body \<Rightarrow> reply + request" where
  "post_login b =
     (case (require_str b ''username'', require_str b ''password'') of
        (Some u, Some p) \<Rightarrow> Inr (Login u p)
      | _ \<Rightarrow> Inl missing_field)"

definition login :: "string \<Rightarrow> string \<Rightarrow> accounts \<Rightarrow> reply + request" where
  "login name password a =
     (case get_user_by_username name a of
        None \<Rightarrow> Inl (Reply 401 ''invalid_credentials'')
      | Some u \<Rightarrow> Inr (LoginVerify u password))"

definition login_verify :: "auth_env \<Rightarrow> segment \<Rightarrow> user_row \<Rightarrow> string \<Rightarrow> accounts \<Rightarrow> reply + request" where
  "login_verify e g u password a =
     (if verify_password (env_checkpw e) password (password_hash u) then open_session g u a
      else Inl (Reply 401 ''invalid_credentials''))"

definition login_session :: "segment \<Rightarrow> int \<Rightarrow> string \<Rightarrow> string \<Rightarrow> int \<Rightarrow> accounts \<Rightarrow> (reply + request) \<times> accounts" where
  "login_session g uid rl token days a =
     (case create_session (seg_now g) token uid days a of
        Inl _ \<Rightarrow> (Inl Raised, a)
      | Inr a' \<Rightarrow> (Inl (LoggedIn token rl), a'))"

definition login_via_ingress :: "segment \<Rightarrow> ingress_identity option \<Rightarrow> accounts \<Rightarrow> reply + request" where
  "login_via_ingress g ident a =
     (case ident of
        None \<Rightarrow> Inl (Reply 401 ''not_authenticated'')
      | Some i \<Rightarrow>
          (case get_user_by_ha_id (ident_user_id i) a of
             Some u \<Rightarrow> open_session g u a
           | None \<Rightarrow> Inr (IngressCount i)))"

definition ingress_role :: "ingress_identity \<Rightarrow> accounts \<Rightarrow> reply + request" where
  "ingress_role i a =
     Inr (IngressInsert i (role_for (ha_admin_count a) (get_config ''ingress_default_role'' (Some ''readonly'') a)))"

definition ingress_insert :: "segment \<Rightarrow> ingress_identity \<Rightarrow> string \<Rightarrow> accounts \<Rightarrow> (reply + request) \<times> accounts" where
  "ingress_insert g i rl a =
     (case create_ha_user (seg_now g) (ident_user_id i) (ident_username i) rl a of
        Inl _ \<Rightarrow> (Inl Raised, a)
      | Inr (uid, a') \<Rightarrow> (Inr (IngressFetch uid), a'))"

section \<open>Role and password changes\<close>

definition patch_user :: "segment \<Rightarrow> web_request \<Rightarrow> string \<Rightarrow> body \<Rightarrow> accounts \<Rightarrow> reply + request" where
  "patch_user g r ident b a =
     (case require_admin (seg_now g) r a of
        Inl x \<Rightarrow> Inl (access_reply x)
      | Inr _ \<Rightarrow>
          (case require_str b ''role'' of
             None \<Rightarrow> Inl missing_field
           | Some rl \<Rightarrow>
               if rl \<notin> {''admin'', ''readonly''} then Inl (Reply 400 ''bad_request'')
               else (case int_of_str ident of
                 None \<Rightarrow> Inl (Reply 400 ''bad_request'')
               | Some uid \<Rightarrow> Inr (PatchGet uid rl))))"

definition patch_get :: "int \<Rightarrow> string \<Rightarrow> accounts \<Rightarrow> reply + request" where
  "patch_get uid rl a =
     (case get_user_by_id uid a of
        None \<Rightarrow> Inl (Reply 404 ''user_not_found'')
      | Some u \<Rightarrow>
          if role u = rl then Inl (Reply 200 ''unchanged'')
          else if role u = ''admin'' then Inr (PatchCount uid rl)
          else Inr (PatchWrite uid rl))"

definition patch_count :: "int \<Rightarrow> string \<Rightarrow> accounts \<Rightarrow> reply + request" where
  "patch_count uid rl a =
     (if admin_count a \<le> 1 then Inl (Reply 409 ''last_admin'') else Inr (PatchWrite uid rl))"

definition patch_write :: "int \<Rightarrow> string \<Rightarrow> accounts \<Rightarrow> (reply + request) \<times> accounts" where
  "patch_write uid rl a =
     (case set_user_role uid rl a of Inl _ \<Rightarrow> (Inl Raised, a) | Inr a' \<Rightarrow> (Inl (Reply 200 ''changed''), a'))"

definition change_password :: "segment \<Rightarrow> web_request \<Rightarrow> body \<Rightarrow> accounts \<Rightarrow> reply + request" where
  "change_password g r b a =
     (case require_auth (seg_now g) r a of
        Inl x \<Rightarrow> Inl (access_reply x)
      | Inr p \<Rightarrow>
          (case (require_str b ''current_password'', require_str b ''new_password'') of
             (Some old, Some new) \<Rightarrow>
               if length new < 8 then Inl (Reply 400 ''invalid_input'')
               else Inr (PasswordGet (pr_id p) old new)
           | _ \<Rightarrow> Inl missing_field))"

definition password_get :: "auth_env \<Rightarrow> segment \<Rightarrow> int option \<Rightarrow> string \<Rightarrow> string \<Rightarrow> accounts \<Rightarrow> reply + request" where
  "password_get e g uid old new a =
     (case Option.bind uid (\<lambda>n. get_user_by_id n a) of
        None \<Rightarrow> Inl (Reply 404 ''user_not_found'')
      | Some u \<Rightarrow>
          if \<not> verify_password (env_checkpw e) old (password_hash u)
          then Inl (Reply 401 ''invalid_credentials'')
          else (case env_hashpw e (seg_fresh g) new of
            None \<Rightarrow> Inl Raised
          | Some hash \<Rightarrow> Inr (PasswordWrite (user_id u) hash)))"

definition password_write :: "int \<Rightarrow> string \<Rightarrow> accounts \<Rightarrow> (reply + request) \<times> accounts" where
  "password_write uid hash a =
     (case update_user_password uid hash a of
        Inl _ \<Rightarrow> (Inl Raised, a)
      | Inr a' \<Rightarrow> (Inl (Reply 200 ''ok''), a'))"

definition post_logout :: "segment \<Rightarrow> web_request \<Rightarrow> accounts \<Rightarrow> reply + request" where
  "post_logout g r a =
     (case resolve_session (seg_now g) r a of
        Inl _ \<Rightarrow> Inl Raised
      | Inr None \<Rightarrow> Inl (Reply 200 ''ok'')
      | Inr (Some p) \<Rightarrow> Inr (LogoutDelete (pr_token p)))"

section \<open>Running requests\<close>

fun request_step :: "auth_env \<Rightarrow> segment \<Rightarrow> request \<Rightarrow> accounts \<Rightarrow> (reply + request) \<times> accounts" where
  "request_step e g (Setup b) a = (post_setup e g b a, a)"
| "request_step e g (SetupInsert u p h) a = setup_insert g u p h a"
| "request_step e g (LoginForm b) a = (post_login b, a)"
| "request_step e g (Login u p) a = (login u p a, a)"
| "request_step e g (LoginVerify u p) a = (login_verify e g u p a, a)"
| "request_step e g (NewSession uid rl t days) a = login_session g uid rl t days a"
| "request_step e g (IngressLogin i) a = (login_via_ingress g i a, a)"
| "request_step e g (IngressCount i) a = (ingress_role i a, a)"
| "request_step e g (IngressInsert i rl) a = ingress_insert g i rl a"
| "request_step e g (IngressFetch uid) a =
     ((case get_user_by_id uid a of None \<Rightarrow> Inl Raised | Some u \<Rightarrow> open_session g u a), a)"
| "request_step e g (PatchUser r i b) a = (patch_user g r i b a, a)"
| "request_step e g (PatchGet uid rl) a = (patch_get uid rl a, a)"
| "request_step e g (PatchCount uid rl) a = (patch_count uid rl a, a)"
| "request_step e g (PatchWrite uid rl) a = patch_write uid rl a"
| "request_step e g (ChangePassword r b) a = (change_password g r b a, a)"
| "request_step e g (PasswordGet uid old new) a = (password_get e g uid old new a, a)"
| "request_step e g (PasswordWrite uid h) a = password_write uid h a"
| "request_step e g (Logout r) a = (post_logout g r a, a)"
| "request_step e g (LogoutDelete t) a = (Inl (Reply 200 ''ok''), delete_session t a)"
| "request_step e g Prune a = (Inl (Reply 200 ''pruned''), prune_sessions (seg_now g) a)"

definition is_request :: "request \<Rightarrow> bool" where
  "is_request j \<longleftrightarrow> (case j of Setup _ \<Rightarrow> True | LoginForm _ \<Rightarrow> True | IngressLogin _ \<Rightarrow> True
     | PatchUser _ _ _ \<Rightarrow> True | ChangePassword _ _ \<Rightarrow> True | Logout _ \<Rightarrow> True | Prune \<Rightarrow> True | _ \<Rightarrow> False)"

section \<open>What a running request relies on\<close>

definition ids :: "accounts \<Rightarrow> int set" where "ids a = user_id ` set (users a)"

definition relies :: "accounts \<Rightarrow> request \<Rightarrow> bool" where
  "relies a j \<longleftrightarrow>
     (case j of
        LoginVerify u _ \<Rightarrow> user_id u \<in> ids a
      | NewSession uid _ _ _ \<Rightarrow> uid \<in> ids a
      | IngressInsert _ rl \<Rightarrow> rl \<in> set VALID_ROLES
      | IngressFetch uid \<Rightarrow> uid \<in> ids a
      | PatchGet _ rl \<Rightarrow> rl \<in> set VALID_ROLES
      | PatchCount _ rl \<Rightarrow> rl \<in> set VALID_ROLES
      | PatchWrite _ rl \<Rightarrow> rl \<in> set VALID_ROLES
      | _ \<Rightarrow> True)"

definition tables_ok :: "int set \<Rightarrow> accounts \<Rightarrow> bool" where
  "tables_ok I a \<longleftrightarrow> accounts_ok a \<and> I \<subseteq> ids a"

lemmas segment_defs = post_setup_def create_first_admin_def setup_insert_def post_login_def login_def
  login_verify_def login_session_def login_via_ingress_def ingress_role_def ingress_insert_def
  patch_user_def patch_get_def patch_count_def patch_write_def change_password_def password_get_def
  password_write_def post_logout_def open_session_def

lemma ids_insert [simp]: "ids (snd (insert_user now n h rl ha a)) = insert (next_user_id a) (ids a)"
  by (simp add: ids_def)

lemma ids_sessions [simp]:
  "ids (a\<lparr>sessions := x\<rparr>) = ids a" "ids (a\<lparr>bootstrap_token := b\<rparr>) = ids a"
  by (simp_all add: ids_def)

lemma ids_update: "(\<And>u. user_id (f u) = user_id u) \<Longrightarrow> ids (update_users uid f a) = ids a"
  unfolding ids_def update_users_sel set_map image_image by (rule image_cong) auto

lemma create_user_Inr:
  "create_user now n h rl a = Inr (uid, a') \<longleftrightarrow>
     n \<notin> set (map username (users a)) \<and> (uid, a') = insert_user now n h rl None a"
  by (auto simp: create_user_def)

lemma insert_user_Pair: "(uid, a') = insert_user now n h rl ha a \<Longrightarrow> a' = snd (insert_user now n h rl ha a) \<and> uid = next_user_id a"
  by (auto simp: insert_user_def)

lemma ids_removed [simp]: "ids (delete_session t a) = ids a" "ids (prune_sessions now a) = ids a"
  by (simp_all add: delete_session_def prune_sessions_def)

lemma ok_bootstrap [simp]: "accounts_ok (a\<lparr>bootstrap_token := b\<rparr>) \<longleftrightarrow> accounts_ok a"
  by (simp add: accounts_ok_def)

lemma ok_removed:
  "accounts_ok a \<Longrightarrow> accounts_ok (delete_session t a)"
  "accounts_ok a \<Longrightarrow> accounts_ok (prune_sessions now a)"
  by (auto simp: accounts_ok_def delete_session_def prune_sessions_def intro: distinct_map_filter)

lemma ok_create_session:
  "accounts_ok a \<Longrightarrow> create_session now t uid d a = Inr a' \<Longrightarrow> accounts_ok a' \<and> ids a' = ids a \<and> users a' = users a"
  by (auto simp: accounts_ok_def create_session_def get_user_by_id_None ids_def image_subset_iff
      split: if_splits)

lemma ok_create_user:
  assumes "accounts_ok a" "create_user now n h rl a = Inr (uid, a')" "rl \<in> set VALID_ROLES"
  shows "accounts_ok a' \<and> ids a' = insert uid (ids a)"
  using assms insert_user_Pair accounts_ok_insert [of a n rl None now h]
  by (fastforce simp: create_user_Inr)

lemma ok_create_ha_user:
  assumes "accounts_ok a" "create_ha_user now ha n rl a = Inr (uid, a')" "rl \<in> set VALID_ROLES"
  shows "accounts_ok a' \<and> ids a' = insert uid (ids a)"
proof -
  obtain base where b: "free_username (map username (users a)) n = Some base" "base \<notin> set (map username (users a))"
    using free_username_fresh by blast
  with assms(2) have "Some ha \<notin> set (map ha_user_id (users a))"
    and "(uid, a') = insert_user now base HA_USER_PASSWORD_SENTINEL rl (Some ha) a"
    by (simp_all add: create_ha_user_Inr)
  then show ?thesis
    using assms(1,3) b(2) insert_user_Pair
      accounts_ok_insert [of a base rl "Some ha" now HA_USER_PASSWORD_SENTINEL] by fastforce
qed

lemma ok_set_role:
  assumes "accounts_ok a" "set_user_role uid rl a = Inr a'"
  shows "accounts_ok a' \<and> ids a' = ids a"
  using assms
  by (auto simp: set_user_role_def VALID_ROLES_def accounts_ok_def [of a] intro!: accounts_ok_update ids_update
      split: if_splits)

lemma ok_set_password:
  assumes "accounts_ok a" "update_user_password uid h a = Inr a'"
  shows "accounts_ok a' \<and> ids a' = ids a"
  using assms
  by (auto simp: update_user_password_def accounts_ok_def [of a] intro!: accounts_ok_update ids_update
      split: if_splits)

text \<open>Every segment keeps the tables and never removes a user.\<close>

lemma step_keeps:
  assumes "accounts_ok a" "relies a j"
  shows "accounts_ok (snd (request_step e g j a)) \<and> ids a \<subseteq> ids (snd (request_step e g j a))"
proof (cases j)
  case (SetupInsert u p h)
  with assms show ?thesis
    by (auto simp: setup_insert_def VALID_ROLES_def dest: ok_create_user split: sum.split)
next
  case (NewSession uid rl t days)
  with assms show ?thesis
    by (auto simp: login_session_def dest: ok_create_session split: sum.split)
next
  case (IngressInsert i rl)
  with assms show ?thesis
    by (auto simp: ingress_insert_def relies_def dest: ok_create_ha_user split: sum.split)
next
  case (PatchWrite uid rl)
  with assms show ?thesis
    by (auto simp: patch_write_def dest: ok_set_role split: sum.split)
next
  case (PasswordWrite uid h)
  with assms show ?thesis
    by (auto simp: password_write_def dest: ok_set_password split: sum.split)
next
  case (LogoutDelete t)
  with assms show ?thesis by (simp add: ok_removed)
next
  case Prune
  with assms show ?thesis by (simp add: ok_removed)
qed (use assms in simp_all)

lemma relies_mono: "relies a k \<Longrightarrow> ids a \<subseteq> ids a' \<Longrightarrow> relies a' k"
  by (auto simp: relies_def split: request.splits)

lemma get_in_ids: "get_user_by_id uid a = Some u \<Longrightarrow> user_id u \<in> ids a"
  "get_user_by_ha_id h a = Some u \<Longrightarrow> user_id u \<in> ids a"
  "get_user_by_username n a = Some u \<Longrightarrow> user_id u \<in> ids a"
  unfolding ids_def get_user_by_id_def get_user_by_ha_id_def get_user_by_username_def
  by (auto dest!: find_Some_mem)

lemma role_for_valid: "role_for n c \<in> set VALID_ROLES"
  by (simp add: role_for_def VALID_ROLES_def Let_def)

lemma step_relies:
  assumes "accounts_ok a" "relies a j" "request_step e g j a = (Inr j', a')"
  shows "relies a' j'"
proof (cases j)
  case (SetupInsert u p h)
  with assms show ?thesis
    by (auto simp: setup_insert_def relies_def split: sum.splits)
next
  case (IngressInsert i rl)
  with assms show ?thesis
    by (auto simp: ingress_insert_def relies_def dest: ok_create_ha_user split: sum.splits)
qed (use assms role_for_valid in
  \<open>auto simp: segment_defs relies_def VALID_ROLES_def Let_def dest: get_in_ids
     split: option.splits sum.splits bool.splits if_splits\<close>)

interpretation accounts_requests: concurrent_requests "request_step e" is_request "tables_ok I" relies for e I
proof
  fix s j
  assume "is_request j"
  then show "relies s j" by (auto simp: is_request_def relies_def split: request.splits)
next
  fix s j i
  assume "tables_ok I s" "relies s j"
  then show "tables_ok I (snd (request_step e i j s))"
    using step_keeps [of s j e i] by (auto simp: tables_ok_def)
next
  fix s j i j' s'
  assume "tables_ok I s" "relies s j" "request_step e i j s = (Inr j', s')"
  then show "relies s' j'" using step_relies by (auto simp: tables_ok_def)
next
  fix s j k i
  assume "tables_ok I s" "relies s j" "relies s k"
  then show "relies (snd (request_step e i j s)) k"
    using step_keeps [of s j e i] relies_mono by (auto simp: tables_ok_def)
qed

section \<open>One request at a time\<close>

definition has_admin :: "accounts \<Rightarrow> bool" where
  "has_admin a \<longleftrightarrow> (\<exists>u \<in> set (users a). role u = ''admin'')"

definition admin_kept :: "accounts \<Rightarrow> bool" where
  "admin_kept a \<longleftrightarrow> accounts_ok a \<and> (users a = [] \<or> has_admin a)"

definition default_role :: "accounts \<Rightarrow> string" where
  "default_role a = strip_or_empty (get_config ''ingress_default_role'' (Some ''readonly'') a)"

definition guarded :: "accounts \<Rightarrow> request \<Rightarrow> bool" where
  "guarded a j \<longleftrightarrow>
     (case j of
        SetupInsert _ _ _ \<Rightarrow> users a = []
      | IngressInsert _ rl \<Rightarrow>
          (users a = [] \<longrightarrow> rl = ''admin'') \<and>
          (rl = ''admin'' \<longrightarrow> ha_admin_count a = 0 \<or> default_role a = ''admin'')
      | PatchWrite uid rl \<Rightarrow> rl = ''admin'' \<or> (\<exists>u \<in> set (users a). role u = ''admin'' \<and> user_id u \<noteq> uid)
      | _ \<Rightarrow> True)"

lemma another_admin:
  assumes "distinct (map user_id (users a))" "1 < admin_count a"
  shows "\<exists>u \<in> set (users a). role u = ''admin'' \<and> user_id u \<noteq> uid"
proof -
  obtain x y zs where f: "filter (\<lambda>u. role u = ''admin'') (users a) = x # y # zs"
    using assms(2) unfolding admin_count_def
    by (cases "filter (\<lambda>u. role u = ''admin'') (users a)" rule: remdups_adj.cases) auto
  have "distinct (map user_id (filter (\<lambda>u. role u = ''admin'') (users a)))"
    using assms(1) by (rule distinct_map_filter)
  then have "user_id x \<noteq> user_id y" by (simp add: f)
  moreover have "x \<in> set (filter (\<lambda>u. role u = ''admin'') (users a))"
    "y \<in> set (filter (\<lambda>u. role u = ''admin'') (users a))" by (simp_all add: f)
  ultimately show ?thesis by auto
qed

lemma other_admin_not_found:
  "admin_kept a \<Longrightarrow> get_user_by_id uid a = Some v \<Longrightarrow> role v \<noteq> ''admin'' \<Longrightarrow>
     \<exists>u \<in> set (users a). role u = ''admin'' \<and> user_id u \<noteq> uid"
  by (auto simp: admin_kept_def has_admin_def get_user_by_id_iff accounts_ok_def distinct_map inj_on_def
      dest!: get_user_by_id_Some)

lemma role_for_cases:
  "role_for n c = ''admin'' \<longleftrightarrow> n = 0 \<or> strip_or_empty c = ''admin''"
  by (auto simp: role_for_def VALID_ROLES_def Let_def)

lemma ha_admin_count_Nil: "users a = [] \<Longrightarrow> ha_admin_count a = 0"
  by (simp add: ha_admin_count_def)

lemma step_guarded:
  assumes "admin_kept a" "request_step e g j a = (Inr j', a')"
  shows "guarded a' j'"
proof (cases j)
  case (IngressCount i)
  with assms show ?thesis
    by (auto simp: ingress_role_def guarded_def role_for_cases default_role_def ha_admin_count_Nil)
next
  case (PatchGet uid rl)
  with assms show ?thesis
    by (auto simp: patch_get_def guarded_def split: option.splits if_splits dest: other_admin_not_found)
next
  case (PatchCount uid rl)
  with assms show ?thesis
    using another_admin [of a uid]
    by (auto simp: patch_count_def guarded_def admin_kept_def accounts_ok_def not_le split: if_splits)
qed (use assms in \<open>auto simp: segment_defs guarded_def user_count_def Let_def
       split: option.splits sum.splits bool.splits if_splits\<close>)

lemma has_admin_update_iff:
  "has_admin (update_users uid f a) \<longleftrightarrow>
     (\<exists>u \<in> set (users a). role (if user_id u = uid then f u else u) = ''admin'')"
  unfolding has_admin_def update_users_sel set_map bex_simps ..

lemma has_admin_update:
  assumes "has_admin a" "\<And>u. role (f u) = role u"
  shows "has_admin (update_users uid f a)"
  using assms unfolding has_admin_update_iff by (auto simp: has_admin_def)

lemma users_kept [simp]:
  "users (delete_session t a) = users a" "users (prune_sessions now a) = users a"
  by (simp_all add: delete_session_def prune_sessions_def)

lemma has_admin_role:
  assumes "set_user_role uid rl a = Inr a'" "guarded a (PatchWrite uid rl)" "has_admin a"
  shows "has_admin a'"
proof (cases "rl = ''admin''")
  case True
  with assms(1) have "a' = update_users uid (role_update (\<lambda>_. rl)) a"
    by (simp add: set_user_role_def split: if_splits)
  then have "has_admin a' \<longleftrightarrow> (\<exists>u \<in> set (users a). user_id u = uid \<or> role u = ''admin'')"
    using True by (auto simp: has_admin_update_iff)
  with assms(3) show ?thesis by (auto simp: has_admin_def)
next
  case False
  with assms show ?thesis
    by (auto simp: has_admin_update_iff set_user_role_def guarded_def split: if_splits)
qed

lemma step_admin_kept:
  assumes "admin_kept a" "relies a j" "guarded a j"
  shows "admin_kept (snd (request_step e g j a))"
proof -
  have ok: "accounts_ok (snd (request_step e g j a))"
    using assms step_keeps by (simp add: admin_kept_def)
  have "users (snd (request_step e g j a)) = [] \<or> has_admin (snd (request_step e g j a))"
  proof (cases j)
    case (SetupInsert u p h)
    with assms show ?thesis
      by (auto simp: setup_insert_def create_user_Inr insert_user_def guarded_def has_admin_def admin_kept_def
          split: sum.split)
  next
    case (NewSession uid rl t days)
    with assms show ?thesis
      by (auto simp: login_session_def admin_kept_def has_admin_def create_session_def split: sum.split if_splits)
  next
    case (IngressInsert i rl)
    with assms show ?thesis
      by (auto simp: ingress_insert_def create_ha_user_Inr insert_user_def guarded_def has_admin_def admin_kept_def
          split: sum.split)
  next
    case (PatchWrite uid rl)
    with assms has_admin_role [of uid rl a] show ?thesis
      by (auto simp: patch_write_def admin_kept_def set_user_role_def split: sum.split if_splits)
  next
    case (PasswordWrite uid h)
    with assms show ?thesis
      by (auto simp: password_write_def admin_kept_def update_user_password_def intro!: has_admin_update
          split: sum.split if_splits)
  qed (use assms in \<open>auto simp: admin_kept_def has_admin_def\<close>)
  with ok show ?thesis by (simp add: admin_kept_def)
qed

interpretation serial_accounts: serial_requests "request_step e" is_request admin_kept
  "\<lambda>a j. relies a j \<and> guarded a j" for e
proof
  fix s j
  assume "is_request j"
  then show "relies s j \<and> guarded s j"
    by (auto simp: is_request_def relies_def guarded_def split: request.splits)
next
  fix s j i
  assume "admin_kept s" "relies s j \<and> guarded s j"
  then show "admin_kept (snd (request_step e i j s))" by (simp add: step_admin_kept)
next
  fix s j i j' s'
  assume "admin_kept s" "relies s j \<and> guarded s j" "request_step e i j s = (Inr j', s')"
  then show "relies s' j' \<and> guarded s' j'"
    using step_relies [of s j e i j' s'] step_guarded by (auto simp: admin_kept_def)
qed

section \<open>Properties\<close>

text \<open>Claim C12: whatever requests arrive, however many
  run at once and however they interleave, the tables stay consistent: user ids, user names, Home
  Assistant ids and session tokens stay unique, every role is one of the two, every session belongs
  to an existing user, and no user disappears.\<close>

theorem tables_consistent_under_interleaving:
  assumes "reach (request_step e) is_request cap a0 (a, js)" and "accounts_ok a0"
  shows "accounts_ok a \<and> ids a0 \<subseteq> ids a"
proof -
  have "tables_ok (ids a0) a0" using assms(2) by (simp add: tables_ok_def)
  from accounts_requests.concurrent_reach [OF assms(1) this] show ?thesis
    by (simp add: tables_ok_def)
qed


definition example_env :: auth_env where
  "example_env = \<lparr>env_checkpw = \<lambda>p h. Some (p = h), env_hashpw = \<lambda>s p. Some p\<rparr>"

definition go :: "nat \<Rightarrow> string \<Rightarrow> (segment, request) schedule" where
  "go n fresh = Go n \<lparr>seg_now = 10, seg_fresh = fresh\<rparr>"

definition demote :: "string \<Rightarrow> string \<Rightarrow> request" where
  "demote token uid = PatchUser (with_header (''Bearer '' @ token)) uid [(''role'', JStr ''readonly'')]"

theorem tables_consistent_under_interleaving_witness:
  "\<exists>a js. reach (request_step example_env) is_request 2 two_admins (a, js) \<and> js \<noteq> [] \<and>
     accounts_ok a \<and> ids two_admins \<subseteq> ids a"
proof -
  have "moves (request_step example_env) is_request 2 (two_admins, [])
      [Arrive (demote ''t1'' ''2''), go 0 []] = Some (two_admins, [PatchGet 2 ''readonly''])"
    by code_simp
  then have r: "reach (request_step example_env) is_request 2 two_admins (two_admins, [PatchGet 2 ''readonly''])"
    by (rule reach_moves [OF reach.begin_run])
  with tables_consistent_under_interleaving [OF r two_admins_ok] show ?thesis by blast
qed

lemma two_admins_has_admin: "has_admin two_admins"
  by (simp add: has_admin_def two_admins_def)


definition no_accounts :: accounts where
  "no_accounts = \<lparr>users = [], sessions = [], next_user_id = 1, system_config = [],
                  bootstrap_token = Some ''tok''\<rparr>"

definition ha_login :: "string \<Rightarrow> request" where
  "ha_login uid = IngressLogin (ingress_decide True (Some ''172.30.32.2'') (Some uid) None None)"

definition setup_form :: "string \<Rightarrow> request" where
  "setup_form name =
     Setup [(''token'', JStr ''tok''), (''username'', JStr name), (''password'', JStr ''longenough'')]"

text \<open>The state after two requests ran in turns, each up to its next await.\<close>

definition race :: "accounts \<Rightarrow> request \<Rightarrow> request \<Rightarrow> nat list \<Rightarrow> accounts option" where
  "race a j k order =
     map_option fst (moves (request_step example_env) is_request 2 (a, [])
       ([Arrive j, Arrive k] @ map (\<lambda>n. go n (if n = 0 then ''s0'' else ''s1'')) order))"

lemma race_reach:
  assumes "race a0 j k order = Some a"
  shows "\<exists>js. reach (request_step example_env) is_request 2 a0 (a, js)"
proof -
  obtain c where "moves (request_step example_env) is_request 2 (a0, [])
      ([Arrive j, Arrive k] @ map (\<lambda>n. go n (if n = 0 then ''s0'' else ''s1'')) order) = Some c" and "a = fst c"
    using assms unfolding race_def by blast
  then have "reach (request_step example_env) is_request 2 a0 c"
    by (blast intro: reach_moves [OF reach.begin_run])
  with \<open>a = fst c\<close> show ?thesis by (cases c) auto
qed

lemma bad_outcome_reach:
  "opt_holds P (race a0 j k order) \<Longrightarrow>
     \<exists>a js. reach (request_step example_env) is_request 2 a0 (a, js) \<and> P a"
  unfolding opt_holds_iff by (blast dest: race_reach)

text \<open>with two requests in flight
  each of the three guards fails. Two admins who demote each other at the same time leave no admin;
  two Home Assistant users who log in first at the same time both become admins, with the default
  read-only; and the one-time setup token creates two admins.\<close>

theorem two_requests_at_once_break_the_admin_guards:
  "(\<exists>a js. reach (request_step example_env) is_request 2 two_admins (a, js) \<and> \<not> has_admin a) \<and>
   (\<exists>a js. reach (request_step example_env) is_request 2 no_accounts (a, js) \<and>
      ha_admin_count a = 2 \<and> default_role a = ''readonly'') \<and>
   (\<exists>a js. reach (request_step example_env) is_request 2 no_accounts (a, js) \<and> admin_count a = 2 \<and>
      ha_admin_count a = 0)"
proof (intro conjI)
  have "opt_holds (\<lambda>a. \<not> has_admin a)
      (race two_admins (demote ''t1'' ''2'') (demote ''t2'' ''1'') [0, 1, 0, 1, 0, 1, 0, 0])"
    by code_simp
  then show "\<exists>a js. reach (request_step example_env) is_request 2 two_admins (a, js) \<and> \<not> has_admin a"
    by (rule bad_outcome_reach)
  have "opt_holds (\<lambda>a. ha_admin_count a = 2 \<and> default_role a = ''readonly'')
      (race no_accounts (ha_login ''u1'') (ha_login ''u2'') [0, 1, 0, 1, 0, 1])"
    by code_simp
  then show "\<exists>a js. reach (request_step example_env) is_request 2 no_accounts (a, js) \<and>
      ha_admin_count a = 2 \<and> default_role a = ''readonly''"
    by (rule bad_outcome_reach)
  have "opt_holds (\<lambda>a. admin_count a = 2 \<and> ha_admin_count a = 0)
      (race no_accounts (setup_form ''ann'') (setup_form ''bob'') [0, 1, 0, 1])"
    by code_simp
  then show "\<exists>a js. reach (request_step example_env) is_request 2 no_accounts (a, js) \<and> admin_count a = 2 \<and>
      ha_admin_count a = 0"
    by (rule bad_outcome_reach)
qed

end
