(* ===== verification/Player.thy ===== *)
theory Player
  imports Prelude
begin

text \<open>
  Music on a device, \<open>controller/em_player.py\<close>: the media session of one device with its user
  commands, the bracket \<open>interrupt\<close> / \<open>resume_interrupted\<close> that voice turns and alarms put around
  their use of the speaker, and the feed task that decodes and paces the stream.

  A session that does not exist yet behaves like \<open>media_init\<close>. The device is \<open>None\<close> when it is
  not connected and \<open>Some mix\<close> otherwise, \<open>mix\<close> its \<open>audio_mix\<close> capability. The feed is a task
  between awaits: its stage is what it waits for, and an event is that wait ending. The bytes of an
  event are what the equaliser made of the decoded chunk. Each command runs to its end before
  another starts.
\<close>

section \<open>Sessions and feeds\<close>

datatype play_state = Idle | Playing | Paused

datatype command = CmdPlay string | CmdPause | CmdResume | CmdStop

datatype feed_stage =
    Unstarted      \<comment> \<open>created, its first segment has not run\<close>
  | Opening        \<comment> \<open>\<open>_spawn_decoder\<close>\<close>
  | Seeking        \<comment> \<open>the first chunk after a seek, up to \<open>SEEK_STALL_S\<close>\<close>
  | Streaming      \<comment> \<open>the read loop\<close>
  | Draining       \<comment> \<open>after the EOS, waiting out the device buffer\<close>

record feed =
  fd_stage :: feed_stage
  fd_start :: seconds        \<comment> \<open>\<open>start_pos\<close>\<close>
  fd_sent :: nat
  fd_began :: seconds        \<comment> \<open>\<open>seg_start\<close>\<close>
  fd_mix :: bool             \<comment> \<open>music plane or speaker plane\<close>

record media =
  md_state :: play_state
  md_url :: "string option"
  owned_by_turn :: bool
  md_pending :: "command option"
  resume_after :: bool
  ducked :: bool
  lead_s :: seconds
  md_pos :: seconds
  seekable :: bool
  md_feed :: "feed option"

definition SPEAKER_BYTES :: nat where "SPEAKER_BYTES = 4096"
definition BYTES_PER_SEC :: nat where "BYTES_PER_SEC = 96000"
definition LEAD_S :: seconds where "LEAD_S = 4"
definition TURN_LEAD_S :: seconds where "TURN_LEAD_S = 1"
definition RESUME_REWIND_S :: seconds where "RESUME_REWIND_S = 1"

definition media_init :: media where
  "media_init =
     \<lparr>md_state = Idle, md_url = None, owned_by_turn = False, md_pending = None, resume_after = False,
      ducked = False, lead_s = LEAD_S, md_pos = 0, seekable = True, md_feed = None\<rparr>"

datatype wire =
    Audio bool seconds bytes      \<comment> \<open>a frame on the music (\<open>True\<close>) or speaker plane, when it was sent\<close>
  | Eos bool
  | Flush bool
  | Duck bool
  | NotifyHa play_state         \<comment> \<open>the call of the injected \<open>notify_state\<close>\<close>
  | Decode string seconds         \<comment> \<open>ffmpeg on this URL from this position\<close>
  | LinkDown

type_synonym media_result = "media \<times> wire list"

definition reported_state :: "media \<Rightarrow> play_state" where
  "reported_state m =
     (if owned_by_turn m \<and> resume_after m \<and> md_pending m = None then Playing else md_state m)"

definition push_state :: "media \<Rightarrow> wire list" where
  "push_state m = [NotifyHa (reported_state m)]"

definition secs :: "nat \<Rightarrow> seconds" where
  "secs n = of_nat n / of_nat BYTES_PER_SEC"

text \<open>Where a cancelled feed resumes: what has audibly played, less the rewind.\<close>

definition bookmark :: "seconds \<Rightarrow> feed \<Rightarrow> seconds" where
  "bookmark now f = max 0 (fd_start f + min (secs (fd_sent f)) (now - fd_began f) - RESUME_REWIND_S)"

section \<open>The controls of a session\<close>

text \<open>\<open>_halt\<close> with the end of the cancelled feed: one that never ran neither sets the position nor sends EOS.\<close>

definition halt :: "bool option \<Rightarrow> seconds \<Rightarrow> media \<Rightarrow> media_result" where
  "halt dev now m =
     (case md_feed m of
        None \<Rightarrow> (m, [])
      | Some f \<Rightarrow>
          (m\<lparr>md_feed := None, md_pos := (if fd_stage f = Unstarted then md_pos m else bookmark now f)\<rparr>,
           (case dev of None \<Rightarrow> [] | Some mix \<Rightarrow> [Flush mix]) @
           (if fd_stage f \<in> {Unstarted, Draining} then [] else [Eos (fd_mix f)])))"

definition start_feed :: "media \<Rightarrow> media" where
  "start_feed m =
     m\<lparr>md_state := Playing,
       md_feed := Some \<lparr>fd_stage = Unstarted, fd_start = md_pos m, fd_sent = 0, fd_began = 0, fd_mix = False\<rparr>\<rparr>"

definition stop :: "bool option \<Rightarrow> seconds \<Rightarrow> media \<Rightarrow> media_result" where
  "stop dev now m =
     (let (m1, out) = halt dev now m;
          m2 = m1\<lparr>md_state := Idle, md_url := None, md_pos := 0, resume_after := False\<rparr>
      in (m2, out @ (if md_state m \<noteq> Idle then push_state m2 else [])))"

definition play :: "bool option \<Rightarrow> seconds \<Rightarrow> string \<Rightarrow> media \<Rightarrow> media_result" where
  "play dev now url m =
     (let (m1, out) = stop dev now m
      in (start_feed (m1\<lparr>md_url := Some url, md_pos := 0, seekable := True\<rparr>), out))"

definition pause :: "bool option \<Rightarrow> seconds \<Rightarrow> media \<Rightarrow> media_result" where
  "pause dev now m =
     (if md_state m \<noteq> Playing then (m, [])
      else let (m1, out) = halt dev now m; m2 = m1\<lparr>md_state := Paused\<rparr> in (m2, out @ push_state m2))"

definition resume_media :: "media \<Rightarrow> media_result" where
  "resume_media m = (if md_state m \<noteq> Paused \<or> md_url m = None then (m, []) else (start_feed m, []))"

section \<open>Commands of the user and the bracket of a turn\<close>

definition do_command :: "bool option \<Rightarrow> seconds \<Rightarrow> command \<Rightarrow> media \<Rightarrow> media_result" where
  "do_command dev now c m =
     (case c of
        CmdPlay url \<Rightarrow> play dev now url m
      | CmdPause \<Rightarrow> pause dev now m
      | CmdResume \<Rightarrow> resume_media m
      | CmdStop \<Rightarrow> stop dev now m)"

definition intent :: "command \<Rightarrow> play_state" where
  "intent c = (case c of CmdPlay _ \<Rightarrow> Playing | CmdPause \<Rightarrow> Paused | CmdResume \<Rightarrow> Playing | CmdStop \<Rightarrow> Idle)"

definition user_command :: "bool option \<Rightarrow> seconds \<Rightarrow> command \<Rightarrow> media \<Rightarrow> media_result" where
  "user_command dev now c m =
     (if owned_by_turn m then (m\<lparr>md_pending := Some c\<rparr>, [NotifyHa (intent c)])
      else do_command dev now c m)"

definition interrupt :: "bool option \<Rightarrow> seconds \<Rightarrow> media \<Rightarrow> media_result" where
  "interrupt dev now m =
     (let m1 = m\<lparr>owned_by_turn := True, md_pending := None\<rparr> in
      if dev = Some True then (m1\<lparr>ducked := True, lead_s := TURN_LEAD_S\<rparr>, [Duck True])
      else if md_state m1 = Playing then pause dev now (m1\<lparr>resume_after := True\<rparr>)
      else (m1, []))"

definition released :: "media \<Rightarrow> media" where
  "released m = m\<lparr>owned_by_turn := False, md_pending := None, resume_after := False, ducked := False,
                  lead_s := LEAD_S\<rparr>"

definition unduck :: "bool option \<Rightarrow> media \<Rightarrow> wire list" where
  "unduck dev m = (if ducked m \<and> dev \<noteq> None then [Duck False] else [])"

definition settle :: "bool option \<Rightarrow> seconds \<Rightarrow> media \<Rightarrow> media_result" where
  "settle dev now m =
     (case md_pending m of
        Some CmdPause \<Rightarrow> if ducked m then pause dev now (released m) else (released m, [])
      | Some c \<Rightarrow> do_command dev now c (released m)
      | None \<Rightarrow> if resume_after m \<and> md_state m = Paused then resume_media (released m) else (released m, []))"

definition resume_interrupted :: "bool option \<Rightarrow> seconds \<Rightarrow> media \<Rightarrow> media_result" where
  "resume_interrupted dev now m =
     (let (m2, out) = settle dev now m in (m2, unduck dev m @ out))"

text \<open>\<open>device_gone\<close>: the session is dropped and nothing more is sent.\<close>

definition device_gone :: "media \<Rightarrow> media_result" where
  "device_gone m = (media_init, [LinkDown])"

section \<open>The feed\<close>

datatype feed_ev =
    FeedBegin
  | DecoderReady
  | SeekStalled
  | SeekData
  | Chunk bytes
  | SourceEnd bytes          \<comment> \<open>the last, zero-padded partial chunk, or none\<close>
  | SourceDead
  | Drained
  | FeedFailed

definition with_feed :: "media \<Rightarrow> feed \<Rightarrow> media" where
  "with_feed m f = m\<lparr>md_feed := Some f\<rparr>"

definition feed_begin :: "bool option \<Rightarrow> seconds \<Rightarrow> media \<Rightarrow> feed \<Rightarrow> media_result" where
  "feed_begin dev now m f =
     (case dev of
        None \<Rightarrow> (let m1 = m\<lparr>md_state := Idle, md_feed := None\<rparr> in (m1, push_state m1))
      | Some mix \<Rightarrow>
          let p = (if 1/2 < md_pos m \<and> \<not> seekable m then 0 else md_pos m)
          in (with_feed (m\<lparr>md_pos := p\<rparr>)
                \<lparr>fd_stage = Opening, fd_start = p, fd_sent = 0, fd_began = now, fd_mix = mix\<rparr>,
              [Decode (the (md_url m)) p]))"

definition start_streaming :: "seconds \<Rightarrow> media \<Rightarrow> feed \<Rightarrow> media_result" where
  "start_streaming now m f =
     (let m1 = with_feed m (f\<lparr>fd_stage := Streaming, fd_began := now\<rparr>) in (m1, push_state m1))"

text \<open>When a chunk read at \<open>now\<close> is sent: the feed sleeps while it is more than the lead ahead.\<close>

definition ahead :: "feed \<Rightarrow> seconds \<Rightarrow> seconds" where
  "ahead f t = secs (fd_sent f) - (t - fd_began f)"

definition send_time :: "media \<Rightarrow> feed \<Rightarrow> seconds \<Rightarrow> seconds" where
  "send_time m f now = (if lead_s m < ahead f now then now + (ahead f now - lead_s m) else now)"

definition sent_one :: "feed \<Rightarrow> feed" where
  "sent_one f = f\<lparr>fd_sent := fd_sent f + SPEAKER_BYTES\<rparr>"

definition feed_failed :: "media \<Rightarrow> feed \<Rightarrow> media_result" where
  "feed_failed m f =
     (let m1 = m\<lparr>md_state := Idle, md_feed := None\<rparr>
      in (m1, push_state m1 @ (if fd_stage f = Draining then [] else [Eos (fd_mix f)])))"

definition feed_event :: "bool option \<Rightarrow> seconds \<Rightarrow> feed_ev \<Rightarrow> media \<Rightarrow> media_result" where
  "feed_event dev now ev m =
     (case md_feed m of
        None \<Rightarrow> (m, [])
      | Some f \<Rightarrow>
          (case (fd_stage f, ev) of
             (Unstarted, FeedBegin) \<Rightarrow> feed_begin dev now m f
           | (Opening, DecoderReady) \<Rightarrow>
               if 1/2 < fd_start f then (with_feed m (f\<lparr>fd_stage := Seeking\<rparr>), [])
               else start_streaming now m f
           | (Seeking, SeekStalled) \<Rightarrow>
               (with_feed (m\<lparr>seekable := False, md_pos := 0\<rparr>) (f\<lparr>fd_stage := Opening, fd_start := 0\<rparr>),
                [Decode (the (md_url m)) 0])
           | (Seeking, SeekData) \<Rightarrow> start_streaming now m f
           | (Streaming, Chunk bs) \<Rightarrow>
               (with_feed m (sent_one f), [Audio (fd_mix f) (send_time m f now) bs])
           | (Streaming, SourceEnd bs) \<Rightarrow>
               (with_feed m ((if bs = [] then f else sent_one f)\<lparr>fd_stage := Draining\<rparr>),
                (if bs = [] then [] else [Audio (fd_mix f) now bs]) @ [Eos (fd_mix f)])
           | (Streaming, SourceDead) \<Rightarrow> (with_feed m (f\<lparr>fd_stage := Draining\<rparr>), [Eos (fd_mix f)])
           | (Draining, Drained) \<Rightarrow>
               (let m1 = m\<lparr>md_state := Idle, md_url := None, md_pos := 0, md_feed := None\<rparr>
                in (m1, push_state m1))
           | (Unstarted, _) \<Rightarrow> (m, [])
           | (_, FeedFailed) \<Rightarrow> feed_failed m f
           | _ \<Rightarrow> (m, [])))"

datatype media_op = User command | Interrupt | ResumeInterrupted | Feed feed_ev | DeviceGone

fun media_step :: "media \<Rightarrow> bool option \<times> seconds \<times> media_op \<Rightarrow> media_result" where
  "media_step m (dev, now, User c) = user_command dev now c m"
| "media_step m (dev, now, Interrupt) = interrupt dev now m"
| "media_step m (dev, now, ResumeInterrupted) = resume_interrupted dev now m"
| "media_step m (dev, now, Feed ev) = feed_event dev now ev m"
| "media_step m (dev, now, DeviceGone) = device_gone m"

lemmas control_defs = stop_def play_def pause_def resume_media_def halt_def start_feed_def do_command_def
  user_command_def interrupt_def released_def settle_def resume_interrupted_def device_gone_def
lemmas feed_defs = feed_event_def feed_begin_def start_streaming_def feed_failed_def with_feed_def sent_one_def

section \<open>The invariant of a session\<close>

definition media_ok :: "media \<Rightarrow> bool" where
  "media_ok m \<longleftrightarrow>
     (md_feed m \<noteq> None \<longleftrightarrow> md_state m = Playing) \<and>
     (md_state m \<noteq> Idle \<longrightarrow> md_url m \<noteq> None) \<and>
     lead_s m = (if ducked m then TURN_LEAD_S else LEAD_S) \<and>
     (ducked m \<longrightarrow> owned_by_turn m) \<and> (resume_after m \<longrightarrow> owned_by_turn m) \<and>
     (owned_by_turn m \<longrightarrow> ducked m \<or> md_feed m = None)"

lemma media_ok_init: "media_ok media_init"
  by (simp add: media_ok_def media_init_def)

lemma halt_sel [simp]:
  "md_feed (fst (halt dev now m)) = None" "md_state (fst (halt dev now m)) = md_state m"
  "md_url (fst (halt dev now m)) = md_url m" "owned_by_turn (fst (halt dev now m)) = owned_by_turn m"
  "md_pending (fst (halt dev now m)) = md_pending m" "resume_after (fst (halt dev now m)) = resume_after m"
  "ducked (fst (halt dev now m)) = ducked m" "lead_s (fst (halt dev now m)) = lead_s m"
  "seekable (fst (halt dev now m)) = seekable m"
  by (simp_all add: halt_def split: option.split)

lemma ok_stop: "media_ok m \<Longrightarrow> \<not> owned_by_turn m \<Longrightarrow> media_ok (fst (stop dev now m))"
  by (simp add: stop_def media_ok_def case_prod_beta Let_def)

lemma ok_play: "media_ok m \<Longrightarrow> \<not> owned_by_turn m \<Longrightarrow> media_ok (fst (play dev now url m))"
  by (auto simp: play_def stop_def start_feed_def media_ok_def case_prod_beta Let_def)

lemma ok_pause: "media_ok m \<Longrightarrow> media_ok (fst (pause dev now m))"
  by (auto simp: pause_def media_ok_def case_prod_beta Let_def)

lemma ok_resume: "media_ok m \<Longrightarrow> \<not> owned_by_turn m \<Longrightarrow> media_ok (fst (resume_media m))"
  by (auto simp: resume_media_def start_feed_def media_ok_def)

lemma ok_command: "media_ok m \<Longrightarrow> \<not> owned_by_turn m \<Longrightarrow> media_ok (fst (do_command dev now c m))"
  by (simp add: do_command_def ok_stop ok_play ok_pause ok_resume split: command.split)

lemma ok_pending [simp]: "media_ok (m\<lparr>md_pending := p\<rparr>) \<longleftrightarrow> media_ok m"
  by (simp add: media_ok_def)

lemma ok_user_command: "media_ok m \<Longrightarrow> media_ok (fst (user_command dev now c m))"
  by (simp add: user_command_def ok_command)

lemma ok_interrupt: "media_ok m \<Longrightarrow> media_ok (fst (interrupt dev now m))"
  by (auto simp: interrupt_def pause_def media_ok_def case_prod_beta Let_def)

lemma released_sel [simp]:
  "md_state (released m) = md_state m" "md_url (released m) = md_url m" "md_feed (released m) = md_feed m"
  "md_pos (released m) = md_pos m" "\<not> owned_by_turn (released m)" "\<not> ducked (released m)"
  "\<not> resume_after (released m)" "md_pending (released m) = None" "lead_s (released m) = LEAD_S"
  by (simp_all add: released_def)

lemma ok_released: "media_ok m \<Longrightarrow> media_ok (released m)"
  by (auto simp: media_ok_def)

lemma ok_resume_interrupted: "media_ok m \<Longrightarrow> media_ok (fst (resume_interrupted dev now m))"
  using ok_released [of m]
  by (auto simp: resume_interrupted_def settle_def case_prod_beta Let_def ok_command ok_pause ok_resume
      split: option.split command.split)

lemma ok_feed: "media_ok m \<Longrightarrow> media_ok (fst (feed_event dev now ev m))"
  by (cases "md_feed m")
    (auto simp: feed_defs media_ok_def Let_def split: feed_stage.split feed_ev.split option.split)

interpretation media: machine media_step media_ok
proof
  fix m op
  assume "media_ok m"
  then show "media_ok (fst (media_step m op))"
    by (cases "(m, op)" rule: media_step.cases)
      (simp_all add: ok_user_command ok_interrupt ok_resume_interrupted ok_feed device_gone_def media_ok_init)
qed

section \<open>What goes over the wire\<close>

definition is_audio :: "wire \<Rightarrow> bool" where "is_audio x \<longleftrightarrow> (case x of Audio _ _ _ \<Rightarrow> True | _ \<Rightarrow> False)"

lemma is_audio_simps [simp]:
  "is_audio (Audio b t bs)" "\<not> is_audio (Eos b)" "\<not> is_audio (Flush b)" "\<not> is_audio (Duck b)"
  "\<not> is_audio (NotifyHa s)" "\<not> is_audio (Decode u p)" "\<not> is_audio LinkDown"
  by (simp_all add: is_audio_def)

text \<open>Whether audio has gone out that no EOS (or broken link) has followed.\<close>

definition unclosed :: "bool \<Rightarrow> wire \<Rightarrow> bool" where
  "unclosed u x = (case x of Audio _ _ _ \<Rightarrow> True | Eos _ \<Rightarrow> False | LinkDown \<Rightarrow> False | _ \<Rightarrow> u)"

definition dangling :: "wire list \<Rightarrow> bool" where
  "dangling out = foldl unclosed False out"

lemma dangling_simps [simp]:
  "dangling []  = False"
  "dangling (out @ [x]) = unclosed (dangling out) x"
  by (simp_all add: dangling_def)

lemma dangling_append: "dangling (out @ xs) = foldl unclosed (dangling out) xs"
  by (simp add: dangling_def)

definition streaming :: "media \<Rightarrow> bool" where
  "streaming m \<longleftrightarrow> opt_holds (\<lambda>f. fd_stage f = Streaming) (md_feed m)"

definition closed_streams :: "media \<Rightarrow> wire list \<Rightarrow> bool" where
  "closed_streams m out \<longleftrightarrow> (dangling out \<longrightarrow> streaming m)"

lemma unclosed_simps [simp]:
  "unclosed u (Audio b t bs) = True" "unclosed u (Eos b) = False" "unclosed u (Flush b) = u"
  "unclosed u (Duck b) = u" "unclosed u (NotifyHa s) = u" "unclosed u (Decode url p) = u"
  "unclosed u LinkDown = False"
  by (simp_all add: unclosed_def)

lemma halt_closes:
  "closed_streams m out \<Longrightarrow> \<not> foldl unclosed (dangling out) (snd (halt dev now m))"
  by (auto simp: closed_streams_def streaming_def halt_def split: option.splits)

lemma push_keeps [simp]: "foldl unclosed u (push_state m) = u"
  by (simp add: push_state_def)

lemma stop_closes: "closed_streams m out \<Longrightarrow> \<not> foldl unclosed (dangling out) (snd (stop dev now m))"
  using halt_closes [of m out dev now] by (simp add: stop_def case_prod_beta Let_def)

lemma streaming_Playing: "media_ok m \<Longrightarrow> streaming m \<Longrightarrow> md_state m = Playing"
  by (auto simp: media_ok_def streaming_def)

lemma command_closes:
  assumes "closed_streams m out" "media_ok m"
  shows "closed_streams (fst (do_command dev now c m)) (out @ snd (do_command dev now c m))"
  using halt_closes [of m out dev now] stop_closes [of m out dev now] streaming_Playing [of m] assms
  by (auto simp: closed_streams_def do_command_def play_def pause_def resume_media_def start_feed_def
      case_prod_beta Let_def dangling_append split: command.split)

lemma pause_closes:
  "closed_streams m out \<Longrightarrow> media_ok m \<Longrightarrow> closed_streams (fst (pause dev now m)) (out @ snd (pause dev now m))"
  using command_closes [of m out dev now CmdPause] by (simp add: do_command_def)

lemma streaming_cong:
  "md_feed m' = md_feed m \<Longrightarrow> closed_streams m' out \<longleftrightarrow> closed_streams m out"
  by (simp add: closed_streams_def streaming_def)

lemma interrupt_closes:
  assumes "closed_streams m out" "media_ok m"
  shows "closed_streams (fst (interrupt dev now m)) (out @ snd (interrupt dev now m))"
proof -
  have "\<not> foldl unclosed (dangling out) (snd (halt dev now (m\<lparr>owned_by_turn := True, md_pending := None, resume_after := True\<rparr>)))"
    using assms(1) by (intro halt_closes) (simp add: closed_streams_def streaming_def)
  then show ?thesis
    using assms streaming_Playing [of m]
    by (auto simp: interrupt_def pause_def closed_streams_def streaming_def dangling_append case_prod_beta Let_def)
qed

lemma resume_interrupted_closes:
  assumes "closed_streams m out" "media_ok m"
  shows "closed_streams (fst (resume_interrupted dev now m)) (out @ snd (resume_interrupted dev now m))"
proof -
  have r: "closed_streams (released m) (out @ unduck dev m)"
    using assms(1) by (simp add: closed_streams_def streaming_def unduck_def)
  with assms(2) have c: "closed_streams (fst (do_command dev now c (released m)))
      ((out @ unduck dev m) @ snd (do_command dev now c (released m)))" for c
    by (intro command_closes ok_released)
  show ?thesis
    using c [of CmdPause] c [of CmdResume] c [of CmdStop] c [of "CmdPlay _"] r
    by (simp add: resume_interrupted_def settle_def case_prod_beta Let_def do_command_def
        split: option.split command.split)
qed

lemma feed_closes:
  assumes "closed_streams m out"
  shows "closed_streams (fst (feed_event dev now ev m)) (out @ snd (feed_event dev now ev m))"
  using assms
  by (cases "md_feed m")
    (auto simp: feed_defs closed_streams_def streaming_def dangling_append Let_def
      split: feed_stage.split feed_ev.split option.split)

lemma user_command_closes:
  assumes "closed_streams m out" "media_ok m"
  shows "closed_streams (fst (user_command dev now c m)) (out @ snd (user_command dev now c m))"
  using assms command_closes [OF assms]
  by (auto simp: user_command_def closed_streams_def streaming_def)

interpretation media_wire: traced_machine media_step "\<lambda>m out. media_ok m \<and> closed_streams m out"
proof
  fix m out op
  assume "media_ok m \<and> closed_streams m out"
  then show "media_ok (fst (media_step m op)) \<and> closed_streams (fst (media_step m op)) (out @ snd (media_step m op))"
    using media.inv_step [of m op]
    by (cases "(m, op)" rule: media_step.cases)
      (simp_all add: user_command_closes interrupt_closes resume_interrupted_closes feed_closes
        device_gone_def closed_streams_def [of media_init])
qed

section \<open>Properties\<close>

text \<open>from a fresh session, after any calls and feed events, a feed
  runs exactly while the session plays and it has a URL; and while a turn owns the speaker of a device
  that cannot mix, no call and no feed event puts a frame of music on the wire.\<close>

theorem turn_owns_the_speaker:
  "let m = fst (run media_step media_init ops) in
     (md_feed m \<noteq> None \<longleftrightarrow> md_state m = Playing) \<and>
     (md_state m \<noteq> Idle \<longrightarrow> md_url m \<noteq> None) \<and>
     (owned_by_turn m \<and> \<not> ducked m \<longrightarrow> list_all (\<lambda>x. \<not> is_audio x) (snd (media_step m op)))"
proof -
  have ok: "media_ok (fst (run media_step media_init ops))"
    by (rule media.inv_run [OF media_ok_init])
  have "list_all (\<lambda>x. \<not> is_audio x) (snd (media_step m op))" if "media_ok m" "owned_by_turn m" "\<not> ducked m" for m
  proof -
    have "md_feed m = None" using that by (simp add: media_ok_def)
    then show ?thesis
      by (cases "(m, op)" rule: media_step.cases)
        (auto simp: control_defs unduck_def push_state_def feed_event_def Let_def
          split: option.split command.split)
  qed
  note silent = this [OF ok]
  show ?thesis
    unfolding Let_def using silent ok by (auto simp: media_ok_def)
qed

definition speaking_example :: media where
  "speaking_example = fst (run media_step media_init
     [(Some False, 0, User (CmdPlay ''u'')), (Some False, 1, Feed FeedBegin), (Some False, 2, Interrupt)])"

theorem turn_owns_the_speaker_witness:
  "owned_by_turn speaking_example \<and> md_state speaking_example = Paused \<and>
   list_all (\<lambda>x. \<not> is_audio x) (snd (media_step speaking_example (Some False, 3, User (CmdPlay ''v''))))"
proof -
  have "owned_by_turn speaking_example \<and> \<not> ducked speaking_example \<and> md_state speaking_example = Paused"
    by (simp add: speaking_example_def media_init_def control_defs feed_defs push_state_def Let_def)
  with turn_owns_the_speaker [of "[(Some False, 0, User (CmdPlay ''u'')), (Some False, 1, Feed FeedBegin),
      (Some False, 2, Interrupt)]" "(Some False, 3, User (CmdPlay ''v''))"]
  show ?thesis
    unfolding Let_def speaking_example_def [symmetric] by blast
qed

definition core :: "media \<Rightarrow> play_state \<times> string option" where
  "core m = (md_state m, md_url m)"

definition turn_around :: "bool option \<Rightarrow> (seconds \<times> command) list \<Rightarrow> media \<Rightarrow> media" where
  "turn_around dev cs m =
     fst (resume_interrupted dev 2
       (fold (\<lambda>(now, c) s. fst (user_command dev now c s)) cs (fst (interrupt dev 1 m))))"

lemma fold_pending:
  "owned_by_turn m \<Longrightarrow> fold (\<lambda>(now, c) s. fst (user_command dev now c s)) cs m =
     (if cs = [] then m else m\<lparr>md_pending := Some (snd (last cs))\<rparr>)"
  by (induction cs arbitrary: m) (auto simp: user_command_def)

lemma interrupt_owned [simp]: "owned_by_turn (fst (interrupt dev now m))"
  by (simp add: interrupt_def pause_def case_prod_beta Let_def)

text \<open>What a command means for state and URL.\<close>

fun command_core :: "command \<Rightarrow> play_state \<times> string option \<Rightarrow> play_state \<times> string option" where
  "command_core (CmdPlay url) _ = (Playing, Some url)"
| "command_core CmdPause (st, url) = (if st = Playing then Paused else st, url)"
| "command_core CmdResume (st, url) = (if st = Paused \<and> url \<noteq> None then Playing else st, url)"
| "command_core CmdStop _ = (Idle, None)"

lemma core_do_command [simp]: "core (fst (do_command dev now c m)) = command_core c (core m)"
  by (cases c) (auto simp: core_def do_command_def play_def stop_def pause_def resume_media_def start_feed_def
      case_prod_beta Let_def)

lemma core_interrupt:
  "core (fst (interrupt dev now m)) =
     (if dev \<noteq> Some True \<and> md_state m = Playing then (Paused, md_url m) else core m)"
  by (simp add: interrupt_def pause_def core_def case_prod_beta Let_def)

lemma interrupt_flags:
  assumes "media_ok m" "\<not> owned_by_turn m"
  shows "ducked (fst (interrupt dev now m)) \<longleftrightarrow> dev = Some True"
    "resume_after (fst (interrupt dev now m)) \<longleftrightarrow> dev \<noteq> Some True \<and> md_state m = Playing"
    "md_pending (fst (interrupt dev now m)) = None"
  using assms by (auto simp: interrupt_def pause_def media_ok_def case_prod_beta Let_def)

lemma core_settle:
  "core (fst (resume_interrupted dev now m)) =
     (case md_pending m of
        None \<Rightarrow> if resume_after m \<and> md_state m = Paused then command_core CmdResume (core m) else core m
      | Some CmdPause \<Rightarrow> if ducked m then command_core CmdPause (core m) else core m
      | Some c \<Rightarrow> command_core c (core m))"
proof -
  have core_released: "core (released m) = core m" by (simp add: core_def)
  have "core (fst (pause dev now (released m))) = command_core CmdPause (core m)"
    and "core (fst (resume_media (released m))) = command_core CmdResume (core m)"
    using core_do_command [of dev now CmdPause "released m"] core_do_command [of dev now CmdResume "released m"]
    unfolding core_released do_command_def by simp_all
  then show ?thesis
    by (auto simp: resume_interrupted_def settle_def case_prod_beta core_released split: option.split command.split)
qed

text \<open>Claim C10: a voice turn is transparent to the user. Whatever
  commands arrive while it owns the speaker, on a device that mixes or one that does not, the state and
  URL after it are those the last command would have given without the turn, and with no command those
  before the turn.\<close>

theorem last_command_of_the_turn_wins:
  assumes "media_ok m" and "\<not> owned_by_turn m"
  shows "core (turn_around dev cs m) =
      core (if cs = [] then m else fst (do_command dev 0 (snd (last cs)) m)) \<and>
    \<not> owned_by_turn (turn_around dev cs m)"
proof -
  let ?i = "fst (interrupt dev 1 m)"
  let ?j = "if cs = [] then ?i else ?i\<lparr>md_pending := Some (snd (last cs))\<rparr>"
  have t: "turn_around dev cs m = fst (resume_interrupted dev 2 ?j)"
    unfolding turn_around_def by (subst fold_pending) simp_all
  have url: "md_state m \<noteq> Idle \<Longrightarrow> md_url m \<noteq> None"
    using assms(1) by (simp add: media_ok_def)
  note flags = interrupt_flags [OF assms, of dev 1]
  have sel: "core ?j = core ?i" "ducked ?j \<longleftrightarrow> dev = Some True"
    "resume_after ?j \<longleftrightarrow> dev \<noteq> Some True \<and> md_state m = Playing"
    "md_pending ?j = (if cs = [] then None else Some (snd (last cs)))" "md_state ?j = fst (core ?i)"
    using flags by (simp_all add: core_def)
  have "core (turn_around dev cs m) = core (if cs = [] then m else fst (do_command dev 0 (snd (last cs)) m))"
  proof (cases "cs = []")
    case True
    show ?thesis
      unfolding t core_settle sel core_interrupt using True url by (auto simp: core_def)
  next
    case False
    then have "core (turn_around dev cs m) =
        (case snd (last cs) of
           CmdPause \<Rightarrow> if dev = Some True then command_core CmdPause (core ?i) else core ?i
         | c \<Rightarrow> command_core c (core ?i))"
      unfolding t core_settle sel by (simp split: command.split)
    also have "\<dots> = command_core (snd (last cs)) (core m)"
      unfolding core_interrupt using url by (cases "snd (last cs)") (auto simp: core_def)
    finally show ?thesis using False by simp
  qed
  moreover have "\<not> owned_by_turn (fst (resume_interrupted dev 2 s))" for s
    by (simp add: resume_interrupted_def settle_def do_command_def play_def stop_def pause_def resume_media_def
        start_feed_def case_prod_beta Let_def split: option.split command.split)
  ultimately show ?thesis by (simp add: t)
qed

theorem last_command_of_the_turn_wins_witness:
  "core (turn_around (Some False) [(1, CmdPlay ''jazz''), (1, CmdPause)]
     (fst (play (Some False) 0 ''rock'' media_init))) = (Paused, Some ''rock'')"
proof -
  let ?m = "fst (play (Some False) 0 ''rock'' media_init)"
  have ok: "media_ok ?m" by (rule ok_play) (simp_all add: media_ok_init, simp add: media_init_def)
  have ow: "\<not> owned_by_turn ?m" by (simp add: play_def stop_def halt_def start_feed_def media_init_def)
  have "core ?m = (Playing, Some ''rock'')"
    by (simp add: core_def play_def stop_def halt_def start_feed_def media_init_def)
  with last_command_of_the_turn_wins [OF ok ow, of "Some False" "[(1, CmdPlay ''jazz''), (1, CmdPause)]"]
  show ?thesis by simp
qed

text \<open>whatever happens to a session, audio on the wire is followed by
  the EOS of its stream as soon as its feed no longer streams (the device drops its link instead when it
  disconnects), so a device that discards up to the next EOS never waits for ever.\<close>

theorem every_stream_is_closed:
  assumes "dangling (concat (snd (run media_step media_init ops)))"
  shows "\<exists>f. md_feed (fst (run media_step media_init ops)) = Some f \<and> fd_stage f = Streaming"
proof -
  have "closed_streams (fst (run media_step media_init ops)) (concat (snd (run media_step media_init ops)))"
    using media_wire.hist_run [of media_init "[]" ops] by (simp add: media_ok_init closed_streams_def)
  with assms show ?thesis by (simp add: closed_streams_def streaming_def)
qed


lemmas media_exec = media_init_def control_defs feed_defs push_state_def unduck_def reported_state_def Let_def

definition stream_ops :: "(bool option \<times> seconds \<times> media_op) list" where
  "stream_ops =
     [(Some True, 0, User (CmdPlay ''u'')), (Some True, 1, Feed FeedBegin), (Some True, 2, Feed DecoderReady)]"

definition stream_example :: media where
  "stream_example = fst (run media_step media_init stream_ops)"

lemma stream_example_feed:
  "md_feed stream_example =
     Some \<lparr>fd_stage = Streaming, fd_start = 0, fd_sent = 0, fd_began = 2, fd_mix = True\<rparr>"
  by (simp add: stream_example_def stream_ops_def media_exec)

lemma stream_example_ok: "media_ok stream_example"
  unfolding stream_example_def by (rule media.inv_run [OF media_ok_init])

theorem every_stream_is_closed_witness:
  "\<exists>f. md_feed (fst (run media_step media_init (stream_ops @ [(Some True, 3, Feed (Chunk [1]))]))) = Some f \<and>
     fd_stage f = Streaming"
  by (rule every_stream_is_closed) (simp add: stream_ops_def media_exec dangling_def)


text \<open>pausing a running stream and resuming it restarts the decoder at
  a position no later than what had been sent and what can have played by then, and at most one second
  before it, so nothing unheard is skipped; a stream known not to be seekable restarts at its live edge.\<close>

theorem pause_never_skips_audio:
  assumes "media_ok m" and "\<not> owned_by_turn m" and "md_feed m = Some f" and "fd_stage f \<noteq> Unstarted"
    and "md_url m = Some url" and "0 \<le> fd_start f" and "fd_began f \<le> now"
  shows "\<exists>p. snd (feed_event (Some mix) t FeedBegin (fst (resume_media (fst (pause (Some mix) now m))))) = [Decode url p] \<and>
    0 \<le> p \<and> p \<le> fd_start f + secs (fd_sent f) \<and> p \<le> fd_start f + (now - fd_began f) \<and>
    (seekable m \<longrightarrow> fd_start f + min (secs (fd_sent f)) (now - fd_began f) - RESUME_REWIND_S \<le> p)"
proof -
  have pl: "md_state m = Playing" using assms(1,3) by (simp add: media_ok_def)
  let ?p = "if 1/2 < bookmark now f \<and> \<not> seekable m then 0 else bookmark now f"
  have "snd (feed_event (Some mix) t FeedBegin (fst (resume_media (fst (pause (Some mix) now m))))) = [Decode url ?p]"
    using pl assms by (simp add: pause_def resume_media_def start_feed_def halt_def feed_event_def feed_begin_def Let_def)
  moreover have "0 \<le> secs (fd_sent f)" by (simp add: secs_def)
  ultimately show ?thesis
    using assms(6,7) by (intro exI [of _ ?p]) (auto simp: bookmark_def RESUME_REWIND_S_def)
qed

theorem pause_never_skips_audio_witness:
  "\<exists>p. snd (feed_event (Some True) 9 FeedBegin (fst (resume_media (fst (pause (Some True) 8 stream_example))))) =
     [Decode ''u'' p] \<and> 0 \<le> p"
proof -
  have "\<not> owned_by_turn stream_example" "md_url stream_example = Some ''u''"
    by (simp_all add: stream_example_def stream_ops_def media_exec)
  then show ?thesis
    using pause_never_skips_audio [OF stream_example_ok _ stream_example_feed, of "''u''" 8 True 9] by auto
qed

text \<open>ownership of the speaker is one flag. When a timer alarm starts to
  ring during a voice turn and the turn ends first, the music starts again while the alarm still rings;
  and when an idle session is told to pause during a turn, the last state given to the notification
  callback is paused although the session is idle before and after.\<close>

theorem brackets_do_not_nest:
  "let turn_then_alarm = stream_ops @
         [(Some False, 5, Interrupt), (Some False, 6, Interrupt), (Some False, 7, ResumeInterrupted)];
       m = fst (run media_step media_init turn_then_alarm);
       idle_pause = [(Some False, 1, Interrupt), (Some False, 2, User CmdPause), (Some False, 3, ResumeInterrupted)]
   in md_state m = Playing \<and> md_feed m \<noteq> None \<and> \<not> owned_by_turn m \<and>
      concat (snd (run media_step media_init idle_pause)) = [NotifyHa Paused] \<and>
      reported_state (fst (run media_step media_init idle_pause)) = Idle"
  by (simp add: stream_ops_def media_exec intent_def)

end
