(* ===== verification/DeviceConfig.thy ===== *)
theory DeviceConfig
  imports Prelude
begin

text \<open>
  Device configuration: which keys form a section (\<open>controller/em_config_sections.py\<close>) and the
  device registry of \<open>controller/em_db.py\<close>, whose rows hold the configuration a device stores for
  itself, the sections it overrides and its link token. A stored configuration is a JSON object,
  an association list with distinct keys; configuration columns that are no JSON object are not
  modelled. Every operation is one transaction, or one read, of the database.
\<close>

type_synonym config = "(string \<times> json) list"

section \<open>Sections\<close>

definition SECTIONS :: "(string \<times> string \<times> string list) list" where
  "SECTIONS =
     [(''playback'', ''Playback'',
        [''eqBands'', ''eqLoudness'', ''ttsGainDb'', ''outputGainDb'', ''duckDb'',
         ''limiterEnabled'', ''limiterRelease'', ''bassGuardEnabled'', ''bassGuardDb'']),
      (''wakeword'', ''Wake word'',
        [''owwModel'', ''owwThreshold'', ''owwPatienceFrames'', ''bargeInEnabled'',
         ''bargeInThreshold'', ''wakeArbitrationMs'', ''noSpeechTimeoutMs'', ''wakeReplayFrames'',
         ''saveWakeCaptures'', ''wakeCaptureSec'', ''wakeNearMissFloor'']),
      (''stopword'', ''Stop word'',
        [''stopModel'', ''stopThreshold'', ''saveStopCaptures'', ''stopCaptureSec'',
         ''stopNearMissFloor'']),
      (''microphones'', ''Microphones'', [''afeMicGainDb'', ''saveUtterances'']),
      (''ring'', ''Ring'',
        [''ledScene'', ''ledListenColor'', ''ledThinkColor'', ''meterAttack'', ''meterDecay'',
         ''meterFloor'', ''meterGamma'', ''meterRef'', ''meterCurve'']),
      (''advanced'', ''Advanced'',
        [''vadThreshold'', ''vadSpeechMs'', ''vadSilenceMs'', ''buttonSingleTapEvent'',
         ''buttonMultiTapMs'']),
      (''bluetooth'', ''Bluetooth'', [''bleProxyEnabled''])]"

definition STATE_KEYS :: "string list" where
  "STATE_KEYS = [''startupVolume'']"

definition SECTION_IDS :: "string list" where
  "SECTION_IDS = map fst SECTIONS"

text \<open>Python sets of keys are lists here; only membership is used.\<close>

definition section_keys :: "string \<Rightarrow> string list" where
  "section_keys sid = (case map_of SECTIONS sid of None \<Rightarrow> [] | Some (lbl, ks) \<Rightarrow> ks)"

definition keys_for :: "string list \<Rightarrow> string list" where
  "keys_for sids = concat (map section_keys sids)"

definition normalise :: "string list \<Rightarrow> string list" where
  "normalise sids = filter (\<lambda>sid. sid \<in> set sids) SECTION_IDS"

definition take_key :: "config \<Rightarrow> config \<Rightarrow> string \<Rightarrow> config" where
  "take_key d e k = (case map_of d k of None \<Rightarrow> e | Some v \<Rightarrow> put k v e)"

definition merge :: "config \<Rightarrow> config \<Rightarrow> string list \<Rightarrow> config" where
  "merge g d sids = foldl (take_key d) (foldl (take_key d) g (keys_for sids)) STATE_KEYS"

definition summarise :: "string list \<Rightarrow> string" where
  "summarise sids =
     (let n = length (normalise sids) in
      if n = 0 then ''Fleet''
      else ''Local override ('' @ str_of_nat n @ '' of '' @ str_of_nat (length SECTION_IDS) @ '')'')"

text \<open>\<open>{**a, **b}\<close>, and the comprehension that keeps the keys of a set.\<close>

definition dict_update :: "config \<Rightarrow> config \<Rightarrow> config" where
  "dict_update a b = foldl (take_key b) a (map fst b)"

definition keep_keys :: "string list \<Rightarrow> config \<Rightarrow> config" where
  "keep_keys ks c = filter (\<lambda>(k, v). k \<in> set ks) c"

definition scope :: "string list \<Rightarrow> string list" where
  "scope sids = keys_for sids @ STATE_KEYS"

section \<open>The registry\<close>

definition DEFAULT_DEVICE_CONFIG :: config where
  "DEFAULT_DEVICE_CONFIG =
     [(''afeMicGainDb'', JInt 0), (''startupVolume'', JInt 85), (''vadThreshold'', JFloat (1/1000)),
      (''vadSpeechMs'', JInt 32), (''vadSilenceMs'', JInt 900),
      (''buttonSingleTapEvent'', JBool False), (''buttonMultiTapMs'', JInt 0),
      (''owwThreshold'', JFloat (1/2)), (''owwPatienceFrames'', JInt 1),
      (''bargeInEnabled'', JBool True), (''bargeInThreshold'', JFloat (5/100)),
      (''duckDb'', JFloat (- 18)), (''owwModel'', JStr ''hey_jarvis_v0.1''),
      (''noSpeechTimeoutMs'', JInt 5000), (''wakeReplayFrames'', JInt 25),
      (''stopModel'', JStr ''stop''), (''stopThreshold'', JFloat (75/100)),
      (''saveStopCaptures'', JBool False), (''stopCaptureSec'', JFloat 2),
      (''stopNearMissFloor'', JFloat (5/100)), (''wakeArbitrationMs'', JInt 700),
      (''saveUtterances'', JBool False), (''saveWakeCaptures'', JBool False),
      (''wakeCaptureSec'', JFloat 2), (''wakeNearMissFloor'', JFloat (5/100)),
      (''bleProxyEnabled'', JBool False),
      (''eqBands'', JArr (map JFloat [9/2, 3, - (1/2), 0, 3/2, 1, 0, 3/2])),
      (''eqLoudness'', JBool True), (''ttsGainDb'', JFloat 0), (''outputGainDb'', JFloat 0),
      (''bassGuardEnabled'', JBool True), (''bassGuardDb'', JFloat (- 30)),
      (''limiterEnabled'', JBool True), (''limiterRelease'', JInt 150),
      (''ledScene'', JStr ''standard''), (''ledListenColor'', JStr ''#00b400''),
      (''ledThinkColor'', JStr ''#00c800''), (''meterAttack'', JFloat (6/10)),
      (''meterDecay'', JFloat (30/100)), (''meterFloor'', JFloat (6/100)),
      (''meterGamma'', JFloat (22/10)), (''meterRef'', JFloat (22/100)), (''meterCurve'', JFloat (7/10))]"

record device_row =
  dev_id :: device_id
  dev_label :: "string option"
  approved :: bool
  dev_ip :: "string option"
  firmware_ver :: "string option"
  firmware_previous :: "string option"
  first_seen :: int
  last_seen :: int
  dev_config :: config
  config_sections :: "string list"
  use_global_config :: bool
  dev_token :: "string option"

record registry =
  devices :: "device_row list"
  global_device_config :: "config option"      \<comment> \<open>the row of that name in \<open>system_config\<close>\<close>
  log_owners :: "device_id list"               \<comment> \<open>the device of each row of \<open>device_logs\<close>\<close>
  alarm_owners :: "device_id list"             \<comment> \<open>and of \<open>alarms\<close>\<close>

datatype registry_error = DeviceExists | DeviceNotFound

definition get_device :: "device_id \<Rightarrow> registry \<Rightarrow> device_row option" where
  "get_device i r = find (\<lambda>d. dev_id d = i) (devices r)"

definition get_pending_devices :: "registry \<Rightarrow> device_row list" where
  "get_pending_devices r = sort_key first_seen (filter (\<lambda>d. \<not> approved d) (devices r))"

definition new_row :: "int \<Rightarrow> device_id \<Rightarrow> string option \<Rightarrow> string option \<Rightarrow> device_row" where
  "new_row now i ip ver =
     \<lparr>dev_id = i, dev_label = None, approved = False, dev_ip = ip, firmware_ver = ver,
      firmware_previous = None, first_seen = now, last_seen = now,
      dev_config = DEFAULT_DEVICE_CONFIG, config_sections = [], use_global_config = True,
      dev_token = None\<rparr>"

definition register_new_device ::
  "int \<Rightarrow> device_id \<Rightarrow> string \<Rightarrow> string option \<Rightarrow> registry \<Rightarrow> registry_error + registry" where
  "register_new_device now i ip ver r =
     (if get_device i r \<noteq> None then Inl DeviceExists
      else Inr (r\<lparr>devices := devices r @ [new_row now i (Some ip) ver]\<rparr>))"

definition update_device :: "device_id \<Rightarrow> (device_row \<Rightarrow> device_row) \<Rightarrow> registry \<Rightarrow> registry" where
  "update_device i f r = r\<lparr>devices := map (\<lambda>d. if dev_id d = i then f d else d) (devices r)\<rparr>"

text \<open>\<open>approve_device\<close> reads the row first and then writes it back.\<close>

definition approve_read :: "device_id \<Rightarrow> config option \<Rightarrow> registry \<Rightarrow> registry_error + config" where
  "approve_read i cfg r =
     (case get_device i r of
        None \<Rightarrow> Inl DeviceNotFound
      | Some d \<Rightarrow> Inr (case cfg of None \<Rightarrow> dev_config d | Some c \<Rightarrow> c))"

definition approve_write :: "device_id \<Rightarrow> string \<Rightarrow> config \<Rightarrow> registry \<Rightarrow> registry" where
  "approve_write i lbl cfg =
     update_device i (\<lambda>d. d\<lparr>approved := True, dev_label := Some lbl, dev_config := cfg\<rparr>)"

definition upsert_device_seen :: "int \<Rightarrow> device_id \<Rightarrow> string \<Rightarrow> string option \<Rightarrow> registry \<Rightarrow> registry" where
  "upsert_device_seen now i ip ver =
     update_device i (\<lambda>d. d\<lparr>dev_ip := Some ip, firmware_ver := ver, last_seen := now\<rparr>)"

definition touch_device_seen :: "int \<Rightarrow> device_id \<Rightarrow> registry \<Rightarrow> registry" where
  "touch_device_seen now i = update_device i (last_seen_update (\<lambda>_. now))"

definition set_device_label :: "device_id \<Rightarrow> string \<Rightarrow> registry \<Rightarrow> registry" where
  "set_device_label i lbl = update_device i (dev_label_update (\<lambda>_. Some lbl))"

definition set_firmware_previous :: "device_id \<Rightarrow> string option \<Rightarrow> registry \<Rightarrow> registry" where
  "set_firmware_previous i ver = update_device i (firmware_previous_update (\<lambda>_. ver))"

text \<open>An empty token counts as none; minting inserts a pending row if there is none.\<close>

definition get_device_token :: "device_id \<Rightarrow> registry \<Rightarrow> string option" where
  "get_device_token i r =
     (case get_device i r of
        None \<Rightarrow> None
      | Some d \<Rightarrow> if dev_token d = Some [] then None else dev_token d)"

definition mint_token :: "int \<Rightarrow> device_id \<Rightarrow> string \<Rightarrow> registry \<Rightarrow> registry" where
  "mint_token now i tok r =
     update_device i (dev_token_update (\<lambda>_. Some tok))
       (if get_device i r = None then r\<lparr>devices := devices r @ [new_row now i None None]\<rparr> else r)"

definition clear_device_token :: "device_id \<Rightarrow> registry \<Rightarrow> registry" where
  "clear_device_token i = update_device i (dev_token_update (\<lambda>_. None))"

definition delete_device :: "device_id \<Rightarrow> registry \<Rightarrow> registry" where
  "delete_device i r =
     r\<lparr>log_owners := filter (\<lambda>j. j \<noteq> i) (log_owners r),
       alarm_owners := filter (\<lambda>j. j \<noteq> i) (alarm_owners r),
       devices := filter (\<lambda>d. dev_id d \<noteq> i) (devices r)\<rparr>"

section \<open>Configuration of a device and of the fleet\<close>

definition set_device_config :: "device_id \<Rightarrow> config \<Rightarrow> registry \<Rightarrow> registry" where
  "set_device_config i c = update_device i (dev_config_update (\<lambda>_. c))"

definition get_device_config :: "device_id \<Rightarrow> registry \<Rightarrow> config" where
  "get_device_config i r =
     (case get_device i r of
        None \<Rightarrow> DEFAULT_DEVICE_CONFIG
      | Some d \<Rightarrow> if dev_config d = [] then DEFAULT_DEVICE_CONFIG else dev_config d)"

definition get_global_device_config :: "registry \<Rightarrow> config" where
  "get_global_device_config r =
     (case global_device_config r of
        None \<Rightarrow> DEFAULT_DEVICE_CONFIG
      | Some [] \<Rightarrow> DEFAULT_DEVICE_CONFIG
      | Some stored \<Rightarrow> dict_update DEFAULT_DEVICE_CONFIG stored)"

definition get_global_device_config_raw :: "registry \<Rightarrow> config" where
  "get_global_device_config_raw r =
     (case global_device_config r of None \<Rightarrow> [] | Some stored \<Rightarrow> stored)"

definition set_global_device_config :: "config \<Rightarrow> registry \<Rightarrow> registry" where
  "set_global_device_config c r = r\<lparr>global_device_config := Some c\<rparr>"

definition get_device_config_sections :: "device_id \<Rightarrow> registry \<Rightarrow> string list" where
  "get_device_config_sections i r =
     (case get_device i r of None \<Rightarrow> [] | Some d \<Rightarrow> normalise (config_sections d))"

text \<open>\<open>set_device_config_sections\<close>: what it prunes is read before the transaction that writes.\<close>

definition pruned_config :: "string list \<Rightarrow> config \<Rightarrow> config" where
  "pruned_config sids stored = keep_keys (scope (normalise sids)) stored"

definition write_sections :: "device_id \<Rightarrow> string list \<Rightarrow> config \<Rightarrow> registry \<Rightarrow> registry" where
  "write_sections i sids pruned =
     update_device i (\<lambda>d. d\<lparr>config_sections := sids, dev_config := pruned,
                            use_global_config := (sids = [])\<rparr>)"

definition set_device_config_sections :: "device_id \<Rightarrow> string list \<Rightarrow> registry \<Rightarrow> string list \<times> registry" where
  "set_device_config_sections i sids r =
     (normalise sids, write_sections i (normalise sids) (pruned_config sids (get_device_config i r)) r)"

definition get_effective_device_config :: "device_id \<Rightarrow> registry \<Rightarrow> config" where
  "get_effective_device_config i r =
     (case get_device i r of
        None \<Rightarrow> get_global_device_config r
      | Some d \<Rightarrow> merge (get_global_device_config r) (dev_config d) (normalise (config_sections d)))"

section \<open>Lookup in the results\<close>

lemma map_of_take_key [simp]:
  "map_of (take_key d e k) = (map_of e)(k := (case map_of d k of None \<Rightarrow> map_of e k | v \<Rightarrow> v))"
  by (auto simp: take_key_def split: option.split)

lemma map_of_take_keys:
  "map_of (foldl (take_key d) e ks) k =
     (if k \<in> set ks \<and> map_of d k \<noteq> None then map_of d k else map_of e k)"
  by (induction ks arbitrary: e) (auto split: option.split)

lemma map_of_merge:
  "map_of (merge g d sids) k =
     (if k \<in> set (scope sids) \<and> map_of d k \<noteq> None then map_of d k else map_of g k)"
  by (simp add: merge_def map_of_take_keys scope_def del: not_None_eq)

lemma map_of_dict_update [simp]: "map_of (dict_update a b) = map_of a ++ map_of b"
proof
  fix k
  have "map_of b k \<noteq> None \<Longrightarrow> k \<in> set (map fst b)"
    by (auto simp: image_iff dest: map_of_SomeD intro: rev_bexI)
  then show "map_of (dict_update a b) k = (map_of a ++ map_of b) k"
    by (auto simp: dict_update_def map_of_take_keys map_add_def split: option.split)
qed

lemma map_of_keep_keys [simp]: "map_of (keep_keys ks c) k = (if k \<in> set ks then map_of c k else None)"
  by (induction c) (auto simp: keep_keys_def)

lemma distinct_take_keys:
  "distinct (map fst e) \<Longrightarrow> distinct (map fst (foldl (take_key d) e ks))"
  by (induction ks arbitrary: e) (auto simp: take_key_def distinct_put split: option.split)

lemma distinct_merge: "distinct (map fst g) \<Longrightarrow> distinct (map fst (merge g d sids))"
  by (simp add: merge_def distinct_take_keys)

lemma distinct_dict_update: "distinct (map fst a) \<Longrightarrow> distinct (map fst (dict_update a b))"
  by (simp add: dict_update_def distinct_take_keys)

lemma distinct_keep_keys: "distinct (map fst c) \<Longrightarrow> distinct (map fst (keep_keys ks c))"
  unfolding keep_keys_def by (rule distinct_map_filter)

lemma set_keep_keys: "fst ` set (keep_keys ks c) = fst ` set c \<inter> set ks"
  by (force simp: keep_keys_def)

lemma take_keys_keys: "fst ` set (foldl (take_key d) e ks) \<subseteq> fst ` set e \<union> fst ` set d"
proof (induction ks arbitrary: e)
  case Nil
  then show ?case by simp
next
  case (Cons k ks)
  have "fst ` set (take_key d e k) \<subseteq> fst ` set e \<union> fst ` set d"
    by (auto simp: take_key_def dest: map_of_SomeD split: option.split intro: rev_image_eqI)
  with Cons [of "take_key d e k"] show ?case by auto
qed

lemma dict_keys: "fst ` set (dict_update a b) \<subseteq> fst ` set a \<union> fst ` set b"
  unfolding dict_update_def by (rule take_keys_keys)

end
