(* ===== verification/ConfigRequests.thy ===== *)
theory ConfigRequests
  imports DeviceConfig Requests "HOL-Library.List_Lexorder" "HOL-Library.Char_ord"
begin

text \<open>
  The requests and device messages that change the registry: saving a device's or the fleet's
  configuration, registration, approval, volume reports, link tokens, labels and deletion
  (handlers of \<open>controller/em_api.py\<close> and of \<open>handle_control\<close> in \<open>controller/em_controller.py\<close>).
  Each is cut where it awaits the database: one segment is one hop to the executor that reads or
  writes. The access decorators are in \<open>Accounts\<close>; here a request has passed them, and its body is a
  JSON object.
\<close>

section \<open>Segments\<close>

record config_segment =
  cs_now :: int
  cs_token :: string                 \<comment> \<open>\<open>secrets.token_urlsafe\<close>\<close>
  cs_live :: "device_id list"        \<comment> \<open>the connected devices\<close>

datatype config_reply =
    CfgError int string
  | WouldDrop "string list"
  | ConfigSaved config "string list"
  | VolumeSaved
  | GlobalSaved "(device_id \<times> config) list"
  | DeviceApproved
  | HeldPending
  | Accepted
  | LinkToken string
  | DeviceDeleted
  | Relabelled
  | CfgRaised

datatype config_request =
    PostConfig device_id config
  | ScopeRead device_id config bool
  | DropCheck device_id config bool bool "string list"
  | SectionsRead device_id config "string list"
  | SectionsWrite device_id config "string list" config
  | ValuesRead device_id config "string list"
  | ValuesWrite device_id "string list" config
  | EffectiveRead device_id "string list"
  | VolumeState device_id int
  | VolumeWrite device_id config
  | PostGlobal config
  | GlobalWrite config
  | GlobalPush "device_id list" "(device_id \<times> config) list"
  | Approve device_id string "config option"
  | ApproveRead device_id string "config option"
  | ApproveWrite device_id string config
  | Register device_id string "string option" bool
  | RegisterNew device_id string "string option" bool
  | AutoApproveRead device_id string "string option"
  | AutoApproveWrite device_id string "string option" config
  | RegisterAgain device_id string "string option"
  | Seen device_id string "string option" bool
  | EnsureToken device_id
  | MintToken device_id
  | Delete device_id
  | DeleteRows device_id
  | Relabel device_id string
  | RelabelWrite device_id string

section \<open>Saving the configuration of a device\<close>

definition not_null :: "json option \<Rightarrow> json option" where
  "not_null v = (if v = Some JNull then None else v)"

text \<open>The scoping a body asks for; the old boolean means none or all of the sections.\<close>

definition given_sections :: "config \<Rightarrow> json option" where
  "given_sections body =
     (case not_null (map_of body ''config_sections'') of
        Some v \<Rightarrow> Some v
      | None \<Rightarrow> map_option (\<lambda>u. if truthy u then JArr [] else JArr (map JStr SECTION_IDS))
                  (not_null (map_of body ''use_global_config'')))"

text \<open>\<open>s not in SECTIONS\<close> raises for a list or an object, which has no hash.\<close>

fun unhashable :: "json \<Rightarrow> bool" where
  "unhashable (JArr xs) = True"
| "unhashable (JObj kvs) = True"
| "unhashable _ = False"

definition check_sections :: "json list \<Rightarrow> config_reply + string list" where
  "check_sections xs =
     (if list_ex unhashable xs then Inl CfgRaised
      else if list_ex (\<lambda>x. \<not> opt_holds (\<lambda>s. s \<in> set SECTION_IDS) (json_str x)) xs
      then Inl (CfgError 400 ''bad_request'')
      else Inr (map (\<lambda>x. the (json_str x)) xs))"

definition settings_of :: "config \<Rightarrow> config" where
  "settings_of body = pop ''replace'' (pop ''use_global_config'' (pop ''config_sections'' body))"

definition explicit_replace :: "config \<Rightarrow> bool" where
  "explicit_replace body = truthy (get_default body ''replace'' (JBool False))"

definition post_device_config :: "device_id \<Rightarrow> config \<Rightarrow> registry \<Rightarrow> config_reply + config_request" where
  "post_device_config i body r =
     (case get_device i r of
        None \<Rightarrow> Inl (CfgError 404 ''device_not_found'')
      | Some _ \<Rightarrow>
          (case given_sections body of
             None \<Rightarrow> Inr (ScopeRead i (settings_of body) (explicit_replace body))
           | Some (JArr xs) \<Rightarrow>
               map_sum id (\<lambda>sids. DropCheck i (settings_of body) (explicit_replace body) True (normalise sids))
                 (check_sections xs)
           | Some _ \<Rightarrow> Inl (CfgError 400 ''bad_request'')))"

definition dropped_keys :: "config \<Rightarrow> config \<Rightarrow> string list" where
  "dropped_keys incoming stored =
     sort (remdups (filter (\<lambda>k. k \<notin> fst ` set incoming) (map fst stored)))"

definition write_values :: "device_id \<Rightarrow> config \<Rightarrow> string list \<Rightarrow> config_request" where
  "write_values i body sids =
     (if keep_keys (scope sids) body \<noteq> [] then ValuesRead i (keep_keys (scope sids) body) sids
      else EffectiveRead i sids)"

definition drop_check ::
  "device_id \<Rightarrow> config \<Rightarrow> bool \<Rightarrow> bool \<Rightarrow> string list \<Rightarrow> registry \<Rightarrow> config_reply + config_request" where
  "drop_check i body repl given sids r =
     (let dropped = dropped_keys body (keep_keys (scope sids) (get_device_config i r)) in
      if dropped \<noteq> [] \<and> \<not> repl then Inl (WouldDrop dropped)
      else if given then Inr (SectionsRead i body sids)
      else Inr (write_values i body sids))"

section \<open>The configuration of the fleet\<close>

definition post_global_config :: "config \<Rightarrow> registry \<Rightarrow> config_reply + config_request" where
  "post_global_config body r =
     (let cfg = pop ''replace'' body;
          dropped = dropped_keys cfg (get_global_device_config_raw r) in
      if dropped \<noteq> [] \<and> \<not> explicit_replace body then Inl (WouldDrop dropped)
      else Inr (GlobalWrite cfg))"

definition push_all :: "device_id list \<Rightarrow> (device_id \<times> config) list \<Rightarrow> registry \<Rightarrow> config_reply + config_request" where
  "push_all todo pushed r =
     (case todo of
        [] \<Rightarrow> Inl (GlobalSaved pushed)
      | i # rest \<Rightarrow> Inr (GlobalPush rest (pushed @ [(i, get_effective_device_config i r)])))"

section \<open>Registration, approval, tokens and deletion\<close>

definition register :: "device_id \<Rightarrow> string \<Rightarrow> string option \<Rightarrow> bool \<Rightarrow> registry \<Rightarrow> config_reply + config_request" where
  "register i ip ver auto r =
     (case get_device i r of
        None \<Rightarrow> Inr (RegisterNew i ip ver auto)
      | Some d \<Rightarrow> Inr (Seen i ip ver (approved d)))"

definition register_insert ::
  "config_segment \<Rightarrow> device_id \<Rightarrow> string \<Rightarrow> string option \<Rightarrow> bool \<Rightarrow> registry \<Rightarrow>
     (config_reply + config_request) \<times> registry" where
  "register_insert g i ip ver auto r =
     (case register_new_device (cs_now g) i ip ver r of
        Inl _ \<Rightarrow> (Inl CfgRaised, r)
      | Inr r' \<Rightarrow> (if auto then Inr (AutoApproveRead i ip ver) else Inl HeldPending, r'))"

definition approve :: "device_id \<Rightarrow> string \<Rightarrow> config option \<Rightarrow> registry \<Rightarrow> config_reply + config_request" where
  "approve i lbl cfg r =
     (case get_device i r of
        None \<Rightarrow> Inl (CfgError 404 ''device_not_found'')
      | Some d \<Rightarrow> if approved d then Inl (CfgError 409 ''already_approved'')
                  else Inr (ApproveRead i lbl cfg))"

definition read_then_write ::
  "device_id \<Rightarrow> config option \<Rightarrow> (config \<Rightarrow> config_request) \<Rightarrow> registry \<Rightarrow> config_reply + config_request" where
  "read_then_write i cfg k r =
     (case approve_read i cfg r of Inl _ \<Rightarrow> Inl CfgRaised | Inr c \<Rightarrow> Inr (k c))"

definition ensure_device_token :: "device_id \<Rightarrow> registry \<Rightarrow> config_reply + config_request" where
  "ensure_device_token i r =
     (case get_device_token i r of Some t \<Rightarrow> Inl (LinkToken t) | None \<Rightarrow> Inr (MintToken i))"

definition if_found :: "device_id \<Rightarrow> config_request \<Rightarrow> registry \<Rightarrow> config_reply + config_request" where
  "if_found i k r =
     (if get_device i r = None then Inl (CfgError 404 ''device_not_found'') else Inr k)"

text \<open>One segment of a request.\<close>

fun config_step ::
  "config_segment \<Rightarrow> config_request \<Rightarrow> registry \<Rightarrow> (config_reply + config_request) \<times> registry" where
  "config_step g (PostConfig i body) r = (post_device_config i body r, r)"
| "config_step g (ScopeRead i body repl) r =
     (Inr (DropCheck i body repl False (get_device_config_sections i r)), r)"
| "config_step g (DropCheck i body repl given sids) r = (drop_check i body repl given sids r, r)"
| "config_step g (SectionsRead i body sids) r =
     (Inr (SectionsWrite i body sids (pruned_config sids (get_device_config i r))), r)"
| "config_step g (SectionsWrite i body sids pruned) r =
     (Inr (write_values i body sids), write_sections i (normalise sids) pruned r)"
| "config_step g (ValuesRead i vals sids) r =
     (Inr (ValuesWrite i sids (dict_update (get_device_config i r) vals)), r)"
| "config_step g (ValuesWrite i sids c) r = (Inr (EffectiveRead i sids), set_device_config i c r)"
| "config_step g (EffectiveRead i sids) r =
     (Inl (ConfigSaved (get_effective_device_config i r) sids), r)"
| "config_step g (VolumeState i level) r =
     (Inr (VolumeWrite i (put ''startupVolume'' (JInt level) (get_device_config i r))), r)"
| "config_step g (VolumeWrite i c) r = (Inl VolumeSaved, set_device_config i c r)"
| "config_step g (PostGlobal body) r = (post_global_config body r, r)"
| "config_step g (GlobalWrite c) r = (Inr (GlobalPush (cs_live g) []), set_global_device_config c r)"
| "config_step g (GlobalPush todo pushed) r = (push_all todo pushed r, r)"
| "config_step g (Approve i lbl cfg) r = (approve i lbl cfg r, r)"
| "config_step g (ApproveRead i lbl cfg) r = (read_then_write i cfg (ApproveWrite i lbl) r, r)"
| "config_step g (ApproveWrite i lbl c) r = (Inl DeviceApproved, approve_write i lbl c r)"
| "config_step g (Register i ip ver auto) r = (register i ip ver auto r, r)"
| "config_step g (RegisterNew i ip ver auto) r = register_insert g i ip ver auto r"
| "config_step g (AutoApproveRead i ip ver) r =
     (read_then_write i None (AutoApproveWrite i ip ver) r, r)"
| "config_step g (AutoApproveWrite i ip ver c) r =
     (Inr (RegisterAgain i ip ver), approve_write i (''Unknown '' @ take 8 i) c r)"
| "config_step g (RegisterAgain i ip ver) r =
     (case get_device i r of None \<Rightarrow> Inl CfgRaised | Some d \<Rightarrow> Inr (Seen i ip ver (approved d)), r)"
| "config_step g (Seen i ip ver ok) r =
     (Inl (if ok then Accepted else HeldPending), upsert_device_seen (cs_now g) i ip ver r)"
| "config_step g (EnsureToken i) r = (ensure_device_token i r, r)"
| "config_step g (MintToken i) r = (Inl (LinkToken (cs_token g)), mint_token (cs_now g) i (cs_token g) r)"
| "config_step g (Delete i) r = (if_found i (DeleteRows i) r, r)"
| "config_step g (DeleteRows i) r = (Inl DeviceDeleted, delete_device i r)"
| "config_step g (Relabel i lbl) r = (if_found i (RelabelWrite i lbl) r, r)"
| "config_step g (RelabelWrite i lbl) r = (Inl Relabelled, set_device_label i lbl r)"

definition keys_once :: "config option \<Rightarrow> bool" where
  "keys_once c = (case c of None \<Rightarrow> True | Some d \<Rightarrow> distinct (map fst d))"

lemma keys_once_simps [simp]: "keys_once None" "keys_once (Some c) = distinct (map fst c)"
  by (simp_all add: keys_once_def)

definition is_config_request :: "config_request \<Rightarrow> bool" where
  "is_config_request j \<longleftrightarrow>
     (case j of
        PostConfig _ body \<Rightarrow> distinct (map fst body)
      | VolumeState _ _ \<Rightarrow> True
      | PostGlobal body \<Rightarrow> distinct (map fst body)
      | Approve _ _ cfg \<Rightarrow> keys_once cfg
      | Register _ _ _ _ \<Rightarrow> True
      | EnsureToken _ \<Rightarrow> True
      | Delete _ \<Rightarrow> True
      | Relabel _ _ \<Rightarrow> True
      | _ \<Rightarrow> False)"

section \<open>What interleaving cannot break\<close>

definition row_ok :: "device_row \<Rightarrow> bool" where
  "row_ok d \<longleftrightarrow>
     distinct (map fst (dev_config d)) \<and> normalise (config_sections d) = config_sections d \<and>
     use_global_config d = (config_sections d = [])"

definition row_ids :: "registry \<Rightarrow> device_id set" where
  "row_ids r = dev_id ` set (devices r)"

definition registry_ok :: "registry \<Rightarrow> bool" where
  "registry_ok r \<longleftrightarrow>
     distinct (map dev_id (devices r)) \<and> list_all row_ok (devices r) \<and>
     keys_once (global_device_config r) \<and>
     set (log_owners r) \<subseteq> row_ids r \<and> set (alarm_owners r) \<subseteq> row_ids r"

text \<open>The configurations a request carries to a later segment are well formed.\<close>

definition carries_ok :: "registry \<Rightarrow> config_request \<Rightarrow> bool" where
  "carries_ok r j \<longleftrightarrow>
     (case j of
        PostConfig _ c \<Rightarrow> distinct (map fst c)
      | ScopeRead _ c _ \<Rightarrow> distinct (map fst c)
      | DropCheck _ c _ _ _ \<Rightarrow> distinct (map fst c)
      | SectionsRead _ c _ \<Rightarrow> distinct (map fst c)
      | SectionsWrite _ c _ c' \<Rightarrow> distinct (map fst c) \<and> distinct (map fst c')
      | ValuesWrite _ _ c \<Rightarrow> distinct (map fst c)
      | VolumeWrite _ c \<Rightarrow> distinct (map fst c)
      | PostGlobal c \<Rightarrow> distinct (map fst c)
      | GlobalWrite c \<Rightarrow> distinct (map fst c)
      | Approve _ _ c \<Rightarrow> keys_once c
      | ApproveRead _ _ c \<Rightarrow> keys_once c
      | ApproveWrite _ _ c \<Rightarrow> distinct (map fst c)
      | AutoApproveWrite _ _ _ c \<Rightarrow> distinct (map fst c)
      | _ \<Rightarrow> True)"

lemma normalise_idem [simp]: "normalise (normalise sids) = normalise sids"
  by (auto simp: normalise_def intro: filter_cong)

lemma distinct_default [simp]: "distinct (map fst DEFAULT_DEVICE_CONFIG)"
  by code_simp

lemma get_device_Some: "get_device i r = Some d \<Longrightarrow> d \<in> set (devices r) \<and> dev_id d = i"
  unfolding get_device_def by (auto simp: find_Some_iff)

lemma get_device_None: "get_device i r = None \<longleftrightarrow> i \<notin> row_ids r"
  by (auto simp: get_device_def row_ids_def find_None_iff)

lemma update_device_sel [simp]:
  "log_owners (update_device i f r) = log_owners r"
  "alarm_owners (update_device i f r) = alarm_owners r"
  "global_device_config (update_device i f r) = global_device_config r"
  by (simp_all add: update_device_def)

lemma map_id_update:
  assumes "\<And>d. dev_id (f d) = dev_id d"
  shows "map dev_id (devices (update_device i f r)) = map dev_id (devices r)"
  using assms by (simp add: update_device_def o_def if_distrib [of dev_id] cong: if_cong)

lemma row_ids_update: "(\<And>d. dev_id (f d) = dev_id d) \<Longrightarrow> row_ids (update_device i f r) = row_ids r"
  unfolding row_ids_def by (metis list.set_map map_id_update)

lemma get_device_update:
  assumes "\<And>d. dev_id (f d) = dev_id d"
  shows "get_device k (update_device i f r) =
    (if k = i then map_option f (get_device k r) else get_device k r)"
proof -
  have "find (\<lambda>d. dev_id d = k) (map (\<lambda>d. if dev_id d = i then f d else d) ds) =
      (if k = i then map_option f (find (\<lambda>d. dev_id d = k) ds) else find (\<lambda>d. dev_id d = k) ds)" for ds
    by (induction ds) (auto simp: assms)
  then show ?thesis by (simp add: get_device_def update_device_def)
qed

lemma registry_ok_update:
  assumes "registry_ok r" "\<And>d. dev_id (f d) = dev_id d" "\<And>d. row_ok d \<Longrightarrow> row_ok (f d)"
  shows "registry_ok (update_device i f r)"
  using assms by (simp add: registry_ok_def map_id_update row_ids_update)
    (auto simp: update_device_def list_all_iff)

lemma registry_ok_insert:
  "registry_ok r \<Longrightarrow> get_device i r = None \<Longrightarrow> registry_ok (r\<lparr>devices := devices r @ [new_row now i ip ver]\<rparr>)"
  by (auto simp: registry_ok_def new_row_def row_ok_def normalise_def row_ids_def get_device_None)

lemma registry_ok_config: "registry_ok r \<Longrightarrow> distinct (map fst (get_device_config i r))"
  by (auto simp: get_device_config_def registry_ok_def list_all_iff row_ok_def
      dest: get_device_Some split: option.split)

lemma registry_ok_write [intro]:
  "registry_ok r \<Longrightarrow> distinct (map fst c) \<Longrightarrow> registry_ok (set_device_config i c r)"
  "registry_ok r \<Longrightarrow> distinct (map fst c) \<Longrightarrow> registry_ok (approve_write i lbl c r)"
  "registry_ok r \<Longrightarrow> distinct (map fst c) \<Longrightarrow> registry_ok (write_sections i (normalise sids) c r)"
  "registry_ok r \<Longrightarrow> registry_ok (upsert_device_seen now i ip ver r)"
  "registry_ok r \<Longrightarrow> registry_ok (set_device_label i lbl r)"
  by (auto simp: set_device_config_def approve_write_def write_sections_def upsert_device_seen_def
      set_device_label_def row_ok_def intro: registry_ok_update)

lemma registry_ok_mint: "registry_ok r \<Longrightarrow> registry_ok (mint_token now i tok r)"
  by (auto simp: mint_token_def row_ok_def registry_ok_insert intro!: registry_ok_update)

lemma registry_ok_delete: "registry_ok r \<Longrightarrow> registry_ok (delete_device i r)"
  by (auto simp: registry_ok_def delete_device_def row_ids_def list_all_iff intro: distinct_map_filter)

lemma registry_ok_global: "registry_ok r \<Longrightarrow> distinct (map fst c) \<Longrightarrow> registry_ok (set_global_device_config c r)"
  by (simp add: registry_ok_def set_global_device_config_def row_ids_def)

lemmas config_segment_defs = post_device_config_def drop_check_def write_values_def post_global_config_def
  push_all_def register_def register_insert_def approve_def read_then_write_def approve_read_def
  ensure_device_token_def if_found_def

lemma config_step_ok:
  assumes "registry_ok r" "carries_ok r j"
  shows "registry_ok (snd (config_step g j r))"
proof (cases j)
  case (RegisterNew i ip ver auto)
  with assms show ?thesis
    by (auto simp: register_insert_def register_new_device_def intro: registry_ok_insert split: sum.split)
qed (use assms in \<open>auto simp: carries_ok_def registry_ok_mint registry_ok_delete registry_ok_global\<close>)

lemma distinct_settings: "distinct (map fst body) \<Longrightarrow> distinct (map fst (settings_of body))"
  by (simp add: settings_of_def distinct_pop)

lemma map_sum_Inr [simp]: "map_sum f h x = Inr y \<longleftrightarrow> (\<exists>z. x = Inr z \<and> y = h z)"
  by (cases x) auto

lemma config_step_carries:
  assumes "registry_ok r" "carries_ok r j" "config_step g j r = (Inr j', r')"
  shows "carries_ok r' j'"
  using assms registry_ok_config [OF assms(1)]
  by (cases j)
    (auto simp: carries_ok_def config_segment_defs Let_def distinct_settings distinct_pop distinct_put
      distinct_dict_update distinct_keep_keys pruned_config_def registry_ok_def [of r] list_all_iff row_ok_def
      dest!: get_device_Some split: option.splits sum.splits json.splits if_splits list.splits)

lemma carries_ok_any: "carries_ok r j \<Longrightarrow> carries_ok r' j"
  unfolding carries_ok_def .

lemma request_carries_ok: "is_config_request j \<Longrightarrow> carries_ok r j"
  by (cases j) (simp_all add: is_config_request_def carries_ok_def)

interpretation config_requests:
  concurrent_requests config_step is_config_request registry_ok carries_ok
  by unfold_locales
    (erule request_carries_ok, erule (1) config_step_ok, erule (2) config_step_carries,
     erule carries_ok_any)

text \<open>The row of a device that no request is about.\<close>

fun about :: "config_request \<Rightarrow> device_id option" where
  "about (PostConfig i _) = Some i"
| "about (ScopeRead i _ _) = Some i"
| "about (DropCheck i _ _ _ _) = Some i"
| "about (SectionsRead i _ _) = Some i"
| "about (SectionsWrite i _ _ _) = Some i"
| "about (ValuesRead i _ _) = Some i"
| "about (ValuesWrite i _ _) = Some i"
| "about (EffectiveRead i _) = Some i"
| "about (VolumeState i _) = Some i"
| "about (VolumeWrite i _) = Some i"
| "about (PostGlobal _) = None"
| "about (GlobalWrite _) = None"
| "about (GlobalPush _ _) = None"
| "about (Approve i _ _) = Some i"
| "about (ApproveRead i _ _) = Some i"
| "about (ApproveWrite i _ _) = Some i"
| "about (Register i _ _ _) = Some i"
| "about (RegisterNew i _ _ _) = Some i"
| "about (AutoApproveRead i _ _) = Some i"
| "about (AutoApproveWrite i _ _ _) = Some i"
| "about (RegisterAgain i _ _) = Some i"
| "about (Seen i _ _ _) = Some i"
| "about (EnsureToken i) = Some i"
| "about (MintToken i) = Some i"
| "about (Delete i) = Some i"
| "about (DeleteRows i) = Some i"
| "about (Relabel i _) = Some i"
| "about (RelabelWrite i _) = Some i"

lemma about_next: "config_step g j r = (Inr j', r') \<Longrightarrow> about j' = about j"
  by (cases j)
    (auto simp: config_segment_defs Let_def split: option.splits sum.splits json.splits if_splits list.splits)

lemma find_append: "find P (xs @ ys) = (case find P xs of None \<Rightarrow> find P ys | Some x \<Rightarrow> Some x)"
  by (induction xs) auto

lemma get_device_insert:
  "get_device k (r\<lparr>devices := devices r @ [new_row now i ip ver]\<rparr>) =
     (case get_device k r of None \<Rightarrow> if k = i then Some (new_row now i ip ver) else None | d \<Rightarrow> d)"
  by (simp add: get_device_def find_append new_row_def split: option.split)

lemma get_device_delete: "k \<noteq> i \<Longrightarrow> get_device k (delete_device i r) = get_device k r"
proof -
  assume "k \<noteq> i"
  then have "find (\<lambda>d. dev_id d = k) (filter (\<lambda>d. dev_id d \<noteq> i) ds) = find (\<lambda>d. dev_id d = k) ds" for ds
    by (induction ds) auto
  then show ?thesis by (simp add: get_device_def delete_device_def)
qed

lemma get_device_global [simp]: "get_device k (set_global_device_config c r) = get_device k r"
  by (simp add: get_device_def set_global_device_config_def)

lemma get_device_write [simp]:
  "get_device k (set_device_config i c r) =
     (if k = i then map_option (dev_config_update (\<lambda>_. c)) (get_device k r) else get_device k r)"
  "get_device k (write_sections i sids c r) =
     (if k = i then map_option (\<lambda>d. d\<lparr>config_sections := sids, dev_config := c,
        use_global_config := (sids = [])\<rparr>) (get_device k r) else get_device k r)"
  by (simp_all add: set_device_config_def write_sections_def get_device_update)

lemma config_step_others:
  assumes "about j \<noteq> Some k"
  shows "get_device k (snd (config_step g j r)) = get_device k r"
proof (cases j)
  case (RegisterNew i ip ver auto)
  with assms show ?thesis
    by (auto simp: register_insert_def register_new_device_def get_device_insert split: sum.splits option.split)
next
  case (MintToken i)
  with assms show ?thesis
    by (auto simp: mint_token_def get_device_update get_device_insert split: option.split)
qed (use assms in \<open>auto simp: approve_write_def upsert_device_seen_def set_device_label_def
      get_device_update get_device_delete\<close>)

interpretation other_rows: concurrent_requests config_step "\<lambda>j. is_config_request j \<and> about j \<noteq> Some k"
  "\<lambda>r. get_device k r = d" "\<lambda>r j. about j \<noteq> Some k" for k d
  by unfold_locales (auto simp: config_step_others dest: about_next)

section \<open>Properties\<close>

text \<open>Claim C11: whatever requests and device
  messages arrive and however they interleave, device ids stay unique, every stored configuration
  has distinct keys, the stored sections are known ids in canonical order, the compatibility flag
  says whether there are any, and no log or alarm row is left without its device.\<close>

theorem registry_consistent_under_interleaving:
  assumes "reach config_step is_config_request cap r0 (r, js)" and "registry_ok r0"
  shows "registry_ok r"
  using config_requests.concurrent_reach [OF assms] by simp

text \<open>as long as no request about a device
  runs, its row does not change, whatever the requests about other devices and about the fleet do.\<close>

theorem requests_keep_to_their_device:
  assumes "reach config_step (\<lambda>j. is_config_request j \<and> about j \<noteq> Some k) cap r0 (r, js)"
  shows "get_device k r = get_device k r0"
  using other_rows.concurrent_reach [OF assms refl] by simp

text \<open>What saving stores, from the segment that writes the values on.\<close>

lemma dict_update_Nil [simp]: "dict_update c [] = c"
  by (simp add: dict_update_def)

lemma get_device_config_row: "get_device i r = Some d \<Longrightarrow> dev_config d \<noteq> [] \<Longrightarrow> get_device_config i r = dev_config d"
  by (simp add: get_device_config_def)

lemma global_write [simp]:
  "get_global_device_config (set_device_config i c r) = get_global_device_config r"
  "get_global_device_config (write_sections i sids c r) = get_global_device_config r"
  by (simp_all add: get_global_device_config_def set_device_config_def write_sections_def)

lemma write_values_alone:
  assumes "get_device i r = Some d" "dev_config d \<noteq> []" "config_sections d = sids" "normalise sids = sids"
    and c: "c = dict_update (dev_config d) (keep_keys (scope sids) body)"
  shows "\<exists>r'. alone (Suc (Suc (Suc n))) config_step g (write_values i body sids) r =
      Some (ConfigSaved (merge (get_global_device_config r) c sids) sids, r') \<and>
    get_device i r' = Some (d\<lparr>dev_config := c\<rparr>) \<and>
    get_global_device_config r' = get_global_device_config r"
proof (cases "keep_keys (scope sids) body = []")
  case True
  with assms show ?thesis
    by (simp add: write_values_def eval_nat_numeral get_effective_device_config_def)
next
  case False
  with assms show ?thesis
    by (simp add: write_values_def eval_nat_numeral get_effective_device_config_def
        get_device_config_row)
qed

definition new_scoping :: "config \<Rightarrow> device_row \<Rightarrow> string list option" where
  "new_scoping body d =
     (case given_sections body of
        None \<Rightarrow> Some (config_sections d)
      | Some (JArr xs) \<Rightarrow> (case check_sections xs of Inl _ \<Rightarrow> None | Inr sids \<Rightarrow> Some (normalise sids))
      | Some _ \<Rightarrow> None)"

definition accepts_drop :: "config \<Rightarrow> string list \<Rightarrow> device_row \<Rightarrow> bool" where
  "accepts_drop body sids d \<longleftrightarrow>
     fst ` set (keep_keys (scope sids) (dev_config d)) \<subseteq> fst ` set (settings_of body) \<or> explicit_replace body"

lemma dropped_keys_Nil: "dropped_keys b s = [] \<longleftrightarrow> fst ` set s \<subseteq> fst ` set b"
proof -
  have "set (dropped_keys b s) = fst ` set s - fst ` set b"
    by (auto simp: dropped_keys_def)
  then show ?thesis by (metis Diff_eq_empty_iff set_empty)
qed

lemma drop_check_pass:
  "accepts_drop body sids d \<Longrightarrow> get_device_config i r = dev_config d \<Longrightarrow>
     drop_check i (settings_of body) (explicit_replace body) given sids r =
       Inr (if given then SectionsRead i (settings_of body) sids else write_values i (settings_of body) sids)"
  by (auto simp: drop_check_def accepts_drop_def dropped_keys_Nil Let_def)

lemma pruned_not_Nil:
  assumes "''startupVolume'' \<in> fst ` set c"
  shows "c \<noteq> []" "keep_keys (scope sids) c \<noteq> []"
proof -
  have "''startupVolume'' \<in> fst ` set (keep_keys (scope sids) c)"
    using assms by (simp add: set_keep_keys scope_def STATE_KEYS_def)
  then show "keep_keys (scope sids) c \<noteq> []" by auto
  show "c \<noteq> []" using assms by auto
qed

text \<open>The three ways through the handler up to that segment.\<close>

lemma post_config_prefix:
  assumes row: "get_device i r = Some d" and d: "row_ok d" "''startupVolume'' \<in> fst ` set (dev_config d)"
    and sids: "new_scoping body d = Some sids" and ok: "accepts_drop body sids d"
  shows "\<exists>r' c. alone 7 config_step g (PostConfig i body) r =
        (case given_sections body of
           None \<Rightarrow> alone (Suc (Suc (Suc 1))) config_step g (write_values i (settings_of body) sids) r'
         | Some _ \<Rightarrow> alone (Suc (Suc (Suc 0))) config_step g (write_values i (settings_of body) sids) r') \<and>
      get_device i r' = Some (d\<lparr>config_sections := sids, dev_config := c, use_global_config := (sids = [])\<rparr>) \<and>
      c = (if given_sections body = None then dev_config d else keep_keys (scope sids) (dev_config d)) \<and>
      normalise sids = sids \<and> get_global_device_config r' = get_global_device_config r"
proof (cases "given_sections body")
  case None
  with sids d(1) have "d\<lparr>config_sections := sids, use_global_config := (sids = [])\<rparr> = d"
    by (cases d) (simp add: new_scoping_def row_ok_def)
  with None assms show ?thesis
    by (intro exI [of _ r])
      (simp add: eval_nat_numeral post_device_config_def new_scoping_def get_device_config_sections_def
        drop_check_pass [of body _ d] get_device_config_row pruned_not_Nil row_ok_def)
next
  case (Some v)
  then obtain xs where "v = JArr xs" using sids by (cases v) (auto simp: new_scoping_def)
  moreover from this Some sids obtain ss where "check_sections xs = Inr ss" "sids = normalise ss"
    by (auto simp: new_scoping_def split: sum.splits)
  ultimately show ?thesis
    using assms Some
    by (intro exI [of _ "write_sections i sids (keep_keys (scope sids) (dev_config d)) r"])
      (simp add: eval_nat_numeral post_device_config_def drop_check_pass [of body _ d]
        get_device_config_row pruned_not_Nil pruned_config_def)
qed

text \<open>Claim C14: a configuration body that is not refused, saved
  with nothing else running, ends with the sections asked for; the configuration pushed to the device
  is the fleet's, overlaid in the scope of those sections with what the device had stored and then
  with the body; and when the body names its sections, nothing outside their scope stays stored.
  The device is one whose volume is recorded, as registration does.\<close>

theorem saved_config_is_scoped:
  assumes "get_device i r = Some d" and "row_ok d" and "''startupVolume'' \<in> fst ` set (dev_config d)"
    and "new_scoping body d = Some sids" and "accepts_drop body sids d"
  shows "\<exists>c r' d'. alone 7 config_step g (PostConfig i body) r = Some (ConfigSaved c sids, r') \<and>
     map_of c = map_of (get_global_device_config r) ++
       ((map_of (dev_config d) ++ map_of (settings_of body)) |` set (scope sids)) \<and>
     get_device i r' = Some d' \<and> config_sections d' = sids \<and>
     get_effective_device_config i r' = c \<and>
     (given_sections body \<noteq> None \<longrightarrow> fst ` set (dev_config d') \<subseteq> set (scope sids))"
proof -
  obtain r1 c1 where pre: "alone 7 config_step g (PostConfig i body) r =
        (case given_sections body of
           None \<Rightarrow> alone (Suc (Suc (Suc 1))) config_step g (write_values i (settings_of body) sids) r1
         | Some _ \<Rightarrow> alone (Suc (Suc (Suc 0))) config_step g (write_values i (settings_of body) sids) r1)"
    and row: "get_device i r1 = Some (d\<lparr>config_sections := sids, dev_config := c1, use_global_config := (sids = [])\<rparr>)"
    and c1: "c1 = (if given_sections body = None then dev_config d else keep_keys (scope sids) (dev_config d))"
    and sids: "normalise sids = sids" and glob: "get_global_device_config r1 = get_global_device_config r"
    using post_config_prefix [OF assms] by blast
  define c where "c = dict_update c1 (keep_keys (scope sids) (settings_of body))"
  have "c1 \<noteq> []" using assms(3) c1 pruned_not_Nil by auto
  from write_values_alone [OF row, of sids c "settings_of body" _ g] this sids c_def
  have fin: "\<exists>r'. alone (Suc (Suc (Suc n))) config_step g (write_values i (settings_of body) sids) r1 =
      Some (ConfigSaved (merge (get_global_device_config r) c sids) sids, r') \<and>
    get_device i r' = Some (d\<lparr>config_sections := sids, use_global_config := (sids = []), dev_config := c\<rparr>) \<and>
    get_global_device_config r' = get_global_device_config r" for n
    by (simp add: glob)
  obtain r' where r': "alone 7 config_step g (PostConfig i body) r =
      Some (ConfigSaved (merge (get_global_device_config r) c sids) sids, r')"
    "get_device i r' = Some (d\<lparr>config_sections := sids, use_global_config := (sids = []), dev_config := c\<rparr>)"
    "get_global_device_config r' = get_global_device_config r"
    using pre fin [of 0] fin [of 1] by (cases "given_sections body") auto
  have "map_of (merge (get_global_device_config r) c sids) = map_of (get_global_device_config r) ++
       ((map_of (dev_config d) ++ map_of (settings_of body)) |` set (scope sids))"
    by (rule ext) (simp add: map_of_merge c_def c1 map_add_def restrict_map_def split: option.split)
  moreover have "fst ` set c \<subseteq> set (scope sids)" if "given_sections body \<noteq> None"
  proof -
    have "fst ` set c1 \<subseteq> set (scope sids)"
      using that by (auto simp: c1 set_keep_keys)
    with dict_keys [of c1 "keep_keys (scope sids) (settings_of body)"] show ?thesis
      unfolding c_def set_keep_keys by blast
  qed
  ultimately show ?thesis
    using r' sids by (simp add: get_effective_device_config_def)
qed

definition example_segment :: config_segment where
  "example_segment = \<lparr>cs_now = 10, cs_token = ''tok'', cs_live = []\<rparr>"

text \<open>A fleet with another ring scene than the factory's, and a device that has just registered.\<close>

definition example_registry :: registry where
  "example_registry =
     \<lparr>devices = [(new_row 5 ''echo1'' (Some ''10.0.0.7'') None)\<lparr>approved := True, dev_label := Some ''Office''\<rparr>],
      global_device_config = Some [(''ledScene'', JStr ''malevolent'')], log_owners = [''echo1''],
      alarm_owners = []\<rparr>"

definition example_row :: device_row where
  "example_row = hd (devices example_registry)"

lemma example_row_ok: "row_ok example_row" "registry_ok example_registry"
  "get_device ''echo1'' example_registry = Some example_row"
  "''startupVolume'' \<in> fst ` set (dev_config example_row)"
  by code_simp+

definition ring_body :: config where
  "ring_body = [(''config_sections'', JArr [JStr ''ring'']), (''replace'', JBool True)]"

theorem registry_consistent_under_interleaving_witness:
  "\<exists>r js. reach config_step is_config_request 2 example_registry (r, js) \<and> js \<noteq> [] \<and> registry_ok r"
proof -
  have "moves config_step is_config_request 2 (example_registry, [])
      [Arrive (Delete ''echo1''), Go 0 example_segment] = Some (example_registry, [DeleteRows ''echo1''])"
    by code_simp
  then have r: "reach config_step is_config_request 2 example_registry (example_registry, [DeleteRows ''echo1''])"
    by (rule reach_moves [OF reach.begin_run])
  with registry_consistent_under_interleaving [OF r example_row_ok(2)] show ?thesis by blast
qed

theorem requests_keep_to_their_device_witness:
  "\<exists>r js. reach config_step (\<lambda>j. is_config_request j \<and> about j \<noteq> Some ''echo1'') 2 example_registry (r, js) \<and>
     r \<noteq> example_registry \<and> get_device ''echo1'' r = get_device ''echo1'' example_registry"
proof -
  define r2 where "r2 = mint_token 10 ''echo2'' ''tok'' example_registry"
  have "moves config_step (\<lambda>j. is_config_request j \<and> about j \<noteq> Some ''echo1'') 2 (example_registry, [])
      [Arrive (EnsureToken ''echo2''), Go 0 example_segment, Go 0 example_segment] = Some (r2, [])"
    unfolding r2_def by code_simp
  then have r: "reach config_step (\<lambda>j. is_config_request j \<and> about j \<noteq> Some ''echo1'') 2 example_registry (r2, [])"
    by (rule reach_moves [OF reach.begin_run])
  moreover have "devices r2 \<noteq> devices example_registry" unfolding r2_def by code_simp
  then have "r2 \<noteq> example_registry" by blast
  ultimately show ?thesis
    using requests_keep_to_their_device [OF r] by blast
qed

theorem saved_config_is_scoped_witness:
  "\<exists>c r' d'. alone 7 config_step example_segment (PostConfig ''echo1'' ring_body) example_registry =
       Some (ConfigSaved c [''ring''], r') \<and> get_device ''echo1'' r' = Some d' \<and>
     config_sections d' = [''ring''] \<and> fst ` set (dev_config d') \<subseteq> set (scope [''ring''])"
proof -
  have "new_scoping ring_body example_row = Some [''ring'']"
    "accepts_drop ring_body [''ring''] example_row" "given_sections ring_body \<noteq> None"
    by code_simp+
  with saved_config_is_scoped [OF example_row_ok(3,1,4), of ring_body "[''ring'']" example_segment]
  show ?thesis by blast
qed

section \<open>What interleaving and registration leave behind\<close>

definition cgo :: "nat \<Rightarrow> (config_segment, config_request) schedule" where
  "cgo n = Go n example_segment"

text \<open>The same office device, now overriding the ring with a scene of its own.\<close>

definition ring_row :: device_row where
  "ring_row = example_row\<lparr>config_sections := [''ring''], use_global_config := False,
     dev_config := [(''startupVolume'', JInt 60), (''ledScene'', JStr ''custom'')]\<rparr>"

definition ring_registry :: registry where
  "ring_registry = example_registry\<lparr>devices := [ring_row]\<rparr>"

definition follow_fleet :: config_request where
  "follow_fleet = PostConfig ''echo1'' [(''config_sections'', JArr []), (''startupVolume'', JInt 60)]"

definition new_scene :: config_request where
  "new_scene = PostConfig ''echo1'' [(''ledScene'', JStr ''aurora''), (''startupVolume'', JInt 60)]"

text \<open>The outcome of a schedule, as seen by a test on the registry and the running requests.\<close>

definition cfg_after :: "(registry \<times> config_request list \<Rightarrow> bool) \<Rightarrow> registry \<Rightarrow>
    (config_segment, config_request) schedule list \<Rightarrow> bool" where
  "cfg_after P r0 ms = opt_holds P (moves config_step is_config_request 2 (r0, []) ms)"

lemma cfg_after_reach:
  "cfg_after P r0 ms \<Longrightarrow> \<exists>r js. reach config_step is_config_request 2 r0 (r, js) \<and> P (r, js)"
  unfolding cfg_after_def opt_holds_iff by (metis reach_moves [OF reach.begin_run] surj_pair)

definition stored_scene :: "registry \<Rightarrow> json option" where
  "stored_scene r = Option.bind (get_device ''echo1'' r) (\<lambda>d. map_of (dev_config d) ''ledScene'')"

definition saved_scene :: "config_reply \<Rightarrow> json option" where
  "saved_scene rep =
     (case rep of ConfigSaved c sids \<Rightarrow> if sids = [''ring''] then map_of c ''ledScene'' else None | _ \<Rightarrow> None)"

lemma saved_scene_D:
  "saved_scene rep = Some v \<Longrightarrow> \<exists>c. rep = ConfigSaved c [''ring''] \<and> map_of c ''ledScene'' = Some v"
  by (cases rep) (auto simp: saved_scene_def split: if_splits)

text \<open>what the code promises of stored
  configurations fails in four runs. A device that has just registered follows the fleet and yet
  stores a value for every section, so overriding the ring puts the factory's scene in force, not
  the fleet's. A volume report that overlaps a save brings back the values the save discarded, or
  undoes the setting the save wrote. And two requests for a link token issue two tokens, of which the
  device's row keeps only the second.\<close>

theorem shadow_values_and_lost_updates:
  "(\<exists>c r. alone 7 config_step example_segment (PostConfig ''echo1'' ring_body) example_registry =
       Some (ConfigSaved c [''ring''], r) \<and> map_of c ''ledScene'' = Some (JStr ''standard'') \<and>
     map_of (get_global_device_config example_registry) ''ledScene'' = Some (JStr ''malevolent'')) \<and>
   (\<exists>r js. reach config_step is_config_request 2 ring_registry (r, js) \<and> js = [] \<and>
     get_device_config_sections ''echo1'' r = [] \<and> stored_scene r = Some (JStr ''custom'')) \<and>
   (\<exists>r js. reach config_step is_config_request 2 ring_registry (r, js) \<and>
     js = [EffectiveRead ''echo1'' [''ring'']] \<and> stored_scene r = Some (JStr ''custom'')) \<and>
   (\<exists>r js. reach config_step is_config_request 2 example_registry (r, js) \<and>
     js = [MintToken ''echo1''] \<and> get_device_token ''echo1'' r = Some ''tok'')"
proof (intro conjI)
  have "opt_holds (\<lambda>(rep, r). saved_scene rep = Some (JStr ''standard''))
      (alone 7 config_step example_segment (PostConfig ''echo1'' ring_body) example_registry)"
    and g: "map_of (get_global_device_config example_registry) ''ledScene'' = Some (JStr ''malevolent'')"
    by code_simp+
  then obtain rep r where "alone 7 config_step example_segment (PostConfig ''echo1'' ring_body) example_registry =
      Some (rep, r)" and "saved_scene rep = Some (JStr ''standard'')"
    unfolding opt_holds_iff by auto
  with g show "\<exists>c r. alone 7 config_step example_segment (PostConfig ''echo1'' ring_body) example_registry =
       Some (ConfigSaved c [''ring''], r) \<and> map_of c ''ledScene'' = Some (JStr ''standard'') \<and>
     map_of (get_global_device_config example_registry) ''ledScene'' = Some (JStr ''malevolent'')"
    by (blast dest: saved_scene_D)
  have "cfg_after (\<lambda>(r, js). js = [] \<and> get_device_config_sections ''echo1'' r = [] \<and>
      stored_scene r = Some (JStr ''custom'')) ring_registry
      ([Arrive (VolumeState ''echo1'' 60), cgo 0, Arrive follow_fleet] @ replicate 7 (cgo 1) @ [cgo 0])"
    by code_simp
  then show "\<exists>r js. reach config_step is_config_request 2 ring_registry (r, js) \<and> js = [] \<and>
     get_device_config_sections ''echo1'' r = [] \<and> stored_scene r = Some (JStr ''custom'')"
    by (auto dest: cfg_after_reach)
  have "cfg_after (\<lambda>(r, js). js = [EffectiveRead ''echo1'' [''ring'']] \<and>
      stored_scene r = Some (JStr ''custom'')) ring_registry
      ([Arrive (VolumeState ''echo1'' 60), cgo 0, Arrive new_scene] @ replicate 5 (cgo 1) @ [cgo 0])"
    by code_simp
  then show "\<exists>r js. reach config_step is_config_request 2 ring_registry (r, js) \<and>
     js = [EffectiveRead ''echo1'' [''ring'']] \<and> stored_scene r = Some (JStr ''custom'')"
    by (auto dest: cfg_after_reach)
  have "cfg_after (\<lambda>(r, js). js = [MintToken ''echo1''] \<and> get_device_token ''echo1'' r = Some ''tok'')
      example_registry
      [Arrive (EnsureToken ''echo1''), Arrive (EnsureToken ''echo1''), cgo 0, cgo 1, cgo 0]"
    by code_simp
  then show "\<exists>r js. reach config_step is_config_request 2 example_registry (r, js) \<and>
     js = [MintToken ''echo1''] \<and> get_device_token ''echo1'' r = Some ''tok''"
    by (auto dest: cfg_after_reach)
qed

end
