(* ===== verification/Migrations.thy ===== *)
theory Migrations
  imports DeviceConfig
begin

text \<open>
  Schema migrations of \<open>controller/em_db.py\<close>: the list \<open>MIGRATIONS\<close> as statements over a schema
  (tables with their column names; types, constraints and index names are left out), the data fixups
  that follow some of them, and \<open>_migrate\<close>.

  \<open>executescript\<close> commits each statement on its own, so what another start of the controller finds
  after a failure or a kill is the database after some number of commits: \<open>migrate n\<close> runs until \<open>n\<close>
  commits are done. A fixup is one transaction. Of the rows only those with configuration are
  modelled: what \<open>json.loads\<close> makes of the columns, \<open>None\<close> where it raises.
\<close>

section \<open>The database\<close>

record config_row =
  row_device :: device_id
  row_config :: "json option"
  row_sections :: "json option"
  row_global :: bool

record database =
  db_tables :: "(string \<times> string list) list"
  schema_version :: "nat option"
  db_settings :: "(string \<times> string option) list"
  fleet_config :: "json option option"
  config_rows :: "config_row list"

datatype stmt =
    CreateTable string "string list"
  | CreateIndex string
  | AddColumn string string
  | InsertVersion nat
  | InsertSetting string "string option"
  | SetVersion nat
  | SeedFleetConfig
  | BackfillSections
  | UpdateColumns string "string list"

datatype mig_error = NoSuchTable | NoSuchColumn | DuplicateColumn | AttributeError

definition has_table :: "string \<Rightarrow> database \<Rightarrow> bool" where
  "has_table t db \<longleftrightarrow> t \<in> fst ` set (db_tables db)"

definition columns :: "string \<Rightarrow> database \<Rightarrow> string list" where
  "columns t db = (case map_of (db_tables db) t of None \<Rightarrow> [] | Some cs \<Rightarrow> cs)"

definition on_table :: "string \<Rightarrow> (database \<Rightarrow> database) \<Rightarrow> database \<Rightarrow> mig_error + database" where
  "on_table t f db = (if has_table t db then Inr (f db) else Inl NoSuchTable)"

text \<open>A new column holds its default in the rows that exist.\<close>

definition fill_default :: "string \<Rightarrow> config_row \<Rightarrow> config_row" where
  "fill_default c r =
     (if c = ''use_global_config'' then r\<lparr>row_global := True\<rparr>
      else if c = ''config_sections'' then r\<lparr>row_sections := Some (JArr [])\<rparr> else r)"

definition add_column :: "string \<Rightarrow> string \<Rightarrow> database \<Rightarrow> database" where
  "add_column t c db =
     db\<lparr>db_tables := put t (columns t db @ [c]) (db_tables db),
        config_rows := (if t = ''devices'' then map (fill_default c) (config_rows db) else config_rows db)\<rparr>"

definition backfill :: "config_row \<Rightarrow> config_row" where
  "backfill r =
     (if row_global r then r
      else r\<lparr>row_sections := Some (JArr (map JStr
             [''playback'', ''wakeword'', ''microphones'', ''ring'', ''advanced'', ''bluetooth'']))\<rparr>)"

fun exec_stmt :: "stmt \<Rightarrow> database \<Rightarrow> mig_error + database" where
  "exec_stmt (CreateTable t cs) db =
     Inr (if has_table t db then db else db\<lparr>db_tables := put t cs (db_tables db)\<rparr>)"
| "exec_stmt (CreateIndex t) db = on_table t id db"
| "exec_stmt (AddColumn t c) db =
     (if \<not> has_table t db then Inl NoSuchTable
      else if c \<in> set (columns t db) then Inl DuplicateColumn
      else Inr (add_column t c db))"
| "exec_stmt (InsertVersion v) db =
     on_table ''system_config''
       (schema_version_update (\<lambda>x. if x = None then Some v else x)) db"
| "exec_stmt (InsertSetting k v) db =
     on_table ''system_config''
       (db_settings_update (\<lambda>s. if k \<in> fst ` set s then s else s @ [(k, v)])) db"
| "exec_stmt (SetVersion v) db =
     on_table ''system_config'' (schema_version_update (map_option (\<lambda>_. v))) db"
| "exec_stmt SeedFleetConfig db =
     on_table ''system_config''
       (fleet_config_update (\<lambda>x. if x = None then Some (Some (JObj DEFAULT_DEVICE_CONFIG)) else x)) db"
| "exec_stmt BackfillSections db =
     on_table ''devices'' (config_rows_update (map backfill)) db"
| "exec_stmt (UpdateColumns t cs) db =
     (if \<not> has_table t db then Inl NoSuchTable
      else if set cs \<subseteq> set (columns t db) then Inr db else Inl NoSuchColumn)"

section \<open>The migrations\<close>

definition migration_v1 :: "stmt list" where
  "migration_v1 =
     [CreateTable ''devices'' [''device_id'', ''label'', ''approved'', ''ip'', ''firmware_ver'',
         ''firmware_previous'', ''first_seen'', ''last_seen'', ''config''],
      CreateTable ''device_logs'' [''id'', ''device_id'', ''ts'', ''level'', ''source'',
         ''message''],
      CreateIndex ''device_logs'',
      CreateTable ''users'' [''id'', ''username'', ''password_hash'', ''role'', ''created_at''],
      CreateTable ''sessions'' [''token'', ''user_id'', ''created_at'', ''expires_at''],
      CreateTable ''system_config'' [''key'', ''value''],
      InsertVersion 1,
      InsertSetting ''device_approval'' (Some ''strict''),
      InsertSetting ''session_expiry_days'' (Some ''30''),
      InsertSetting ''update_check_interval'' (Some ''3600''),
      InsertSetting ''github_repo'' (Some ''amitra93/echo-voice-satellite''),
      InsertSetting ''latest_version'' None,
      InsertSetting ''latest_binary_url'' None,
      InsertSetting ''last_update_check'' None]"

definition migration_v2 :: "stmt list" where
  "migration_v2 =
     [AddColumn ''devices'' ''esphome_api_port'',
      AddColumn ''devices'' ''esphome_noise_psk'',
      InsertSetting ''next_esphome_port'' (Some ''16001''),
      SetVersion 2]"

definition migration_v3 :: "stmt list" where
  "migration_v3 =
     [AddColumn ''devices'' ''use_global_config'',
      SeedFleetConfig,
      SetVersion 3]"

definition migration_v4 :: "stmt list" where
  "migration_v4 =
     [AddColumn ''devices'' ''ble_proxy_port'',
      SetVersion 4]"

definition migration_v5 :: "stmt list" where
  "migration_v5 =
     [CreateTable ''turns'' [''id'', ''device_id'', ''ts'', ''trigger_type'', ''wake_model'',
         ''wake_score'', ''wake_threshold'', ''noise_floor'', ''outcome'', ''stt_text'',
         ''total_ms'', ''vad_end_ms'', ''stt_ms'', ''tts_url_ms'', ''tts_fetch_ms'',
         ''playback_ms'', ''audio_ms'', ''tts_bytes'', ''underruns'', ''playback_periods''],
      CreateIndex ''turns'',
      CreateTable ''wake_counters'' [''device_id'', ''hour_ts'', ''near_misses'',
         ''near_miss_max'', ''underruns''],
      CreateTable ''device_metrics'' [''device_id'', ''hour_ts'', ''samples'', ''cpu_sum'',
         ''cpu_max'', ''mem_used_sum'', ''mem_total_mb'', ''storage_used_mb'',
         ''storage_total_mb'', ''rssi_sum'', ''rssi_samples'', ''rssi_min''],
      SetVersion 5]"

definition migration_v6 :: "stmt list" where
  "migration_v6 =
     [AddColumn ''devices'' ''token'',
      SetVersion 6]"

definition migration_v7 :: "stmt list" where
  "migration_v7 =
     [AddColumn ''turns'' ''min_depth'',
      AddColumn ''turns'' ''prime_wait_ms'',
      AddColumn ''turns'' ''recv_span_ms'',
      AddColumn ''turns'' ''max_gap_ms'',
      AddColumn ''turns'' ''bytes_recv'',
      AddColumn ''turns'' ''send_ms'',
      AddColumn ''turns'' ''delivery_ms'',
      AddColumn ''turns'' ''eq_ms'',
      AddColumn ''device_metrics'' ''link_speed_last'',
      AddColumn ''device_metrics'' ''link_speed_min'',
      AddColumn ''device_metrics'' ''wifi_freq_last'',
      AddColumn ''device_metrics'' ''wifi_bssid_last'',
      AddColumn ''device_metrics'' ''tx_bytes_sum'',
      AddColumn ''device_metrics'' ''rx_bytes_sum'',
      AddColumn ''device_metrics'' ''tx_errors_sum'',
      AddColumn ''device_metrics'' ''tx_dropped_sum'',
      AddColumn ''device_metrics'' ''rx_crc_sum'',
      SetVersion 7]"

definition migration_v8 :: "stmt list" where
  "migration_v8 =
     [AddColumn ''devices'' ''config_sections'',
      BackfillSections,
      SetVersion 8]"

definition migration_v9 :: "stmt list" where
  "migration_v9 =
     [AddColumn ''device_metrics'' ''rtt_sum_ms'',
      AddColumn ''device_metrics'' ''rtt_samples'',
      AddColumn ''device_metrics'' ''rtt_min_ms'',
      AddColumn ''device_metrics'' ''rtt_max_ms'',
      AddColumn ''device_metrics'' ''rtt_excursions'',
      AddColumn ''device_metrics'' ''rtt_excursions_idle'',
      SetVersion 9]"

definition migration_v10 :: "stmt list" where
  "migration_v10 =
     [AddColumn ''device_metrics'' ''rtt_samples_idle'',
      SetVersion 10]"

definition migration_v11 :: "stmt list" where
  "migration_v11 =
     [SetVersion 11]"

definition migration_v12 :: "stmt list" where
  "migration_v12 =
     [AddColumn ''turns'' ''audio_file'',
      SetVersion 12]"

definition migration_v13 :: "stmt list" where
  "migration_v13 =
     [AddColumn ''turns'' ''dev_wake_score'',
      AddColumn ''turns'' ''dev_wake_delta_ms'',
      AddColumn ''turns'' ''dev_shadow'',
      AddColumn ''wake_counters'' ''dev_frames'',
      AddColumn ''wake_counters'' ''dev_drops'',
      AddColumn ''wake_counters'' ''dev_crossings'',
      AddColumn ''wake_counters'' ''dev_max_score'',
      SetVersion 13]"

definition migration_v14 :: "stmt list" where
  "migration_v14 =
     [AddColumn ''device_metrics'' ''cpu_temp_sum'',
      AddColumn ''device_metrics'' ''cpu_temp_samples'',
      AddColumn ''device_metrics'' ''cpu_temp_max'',
      AddColumn ''device_metrics'' ''max_temp_max'',
      AddColumn ''device_metrics'' ''cores_online_last'',
      AddColumn ''device_metrics'' ''cores_online_min'',
      AddColumn ''device_metrics'' ''cores_total'',
      AddColumn ''device_metrics'' ''thermal_limit_min'',
      SetVersion 14]"

definition migration_v15 :: "stmt list" where
  "migration_v15 =
     [AddColumn ''turns'' ''dev_threshold'',
      SetVersion 15]"

definition migration_v16 :: "stmt list" where
  "migration_v16 =
     [AddColumn ''wake_counters'' ''dev_max_infer_ms'',
      AddColumn ''wake_counters'' ''dev_max_gap_ms'',
      SetVersion 16]"

definition migration_v17 :: "stmt list" where
  "migration_v17 =
     [AddColumn ''turns'' ''ctrl_wake_score'',
      AddColumn ''turns'' ''ctrl_wake_delta_ms'',
      SetVersion 17]"

definition migration_v18 :: "stmt list" where
  "migration_v18 =
     [AddColumn ''users'' ''ha_user_id'',
      CreateIndex ''users'',
      SetVersion 18]"

definition migration_v19 :: "stmt list" where
  "migration_v19 =
     [AddColumn ''turns'' ''state'',
      SetVersion 19]"

definition migration_v20 :: "stmt list" where
  "migration_v20 =
     [AddColumn ''turns'' ''stt_latency_ms'',
      AddColumn ''turns'' ''ha_latency_ms'',
      AddColumn ''turns'' ''tts_latency_ms'',
      AddColumn ''turns'' ''tts_audio_file'',
      SetVersion 20]"

definition migration_v21 :: "stmt list" where
  "migration_v21 =
     [UpdateColumns ''turns'' [''tts_latency_ms'', ''total_ms'', ''stt_latency_ms'',
         ''ha_latency_ms''],
      SetVersion 21]"

definition migration_v22 :: "stmt list" where
  "migration_v22 =
     [SetVersion 22]"

definition migration_v23 :: "stmt list" where
  "migration_v23 =
     [SetVersion 23]"

definition migration_v24 :: "stmt list" where
  "migration_v24 =
     [SetVersion 24]"

definition migration_v25 :: "stmt list" where
  "migration_v25 =
     [AddColumn ''turns'' ''tts_text'',
      SetVersion 25]"

definition migration_v26 :: "stmt list" where
  "migration_v26 =
     [AddColumn ''turns'' ''stop_model'',
      AddColumn ''turns'' ''stop_score'',
      AddColumn ''turns'' ''stop_threshold'',
      AddColumn ''turns'' ''stop_phase'',
      AddColumn ''turns'' ''stop_device_age_ms'',
      AddColumn ''turns'' ''stop_flush_ms'',
      AddColumn ''turns'' ''stop_cancel_ms'',
      AddColumn ''turns'' ''stop_hacs_ack_ms'',
      AddColumn ''wake_counters'' ''stops_accepted'',
      AddColumn ''wake_counters'' ''stops_stale'',
      AddColumn ''wake_counters'' ''stop_model_drops'',
      AddColumn ''wake_counters'' ''stop_model_errors'',
      SetVersion 26]"

definition migration_v27 :: "stmt list" where
  "migration_v27 =
     [SetVersion 27]"

definition migration_v28 :: "stmt list" where
  "migration_v28 =
     [CreateTable ''alarms'' [''id'', ''device_id'', ''label'', ''hour'', ''minute'',
         ''recurrence'', ''weekday_mask'', ''date'', ''tz'', ''enabled'', ''next_fire_utc'',
         ''last_fired_occurrence'', ''created_by'', ''created_at''],
      CreateIndex ''alarms'',
      AddColumn ''devices'' ''timezone'',
      SetVersion 28]"

definition migration_v29 :: "stmt list" where
  "migration_v29 =
     [CreateTable ''turn_tool_calls'' [''id'', ''turn_id'', ''sequence'', ''call_id'', ''name'',
         ''request_json'', ''response_json'', ''status'', ''updated_at''],
      CreateIndex ''turn_tool_calls'',
      SetVersion 29]"

definition MIGRATIONS :: "stmt list list" where
  "MIGRATIONS =
     [migration_v1, migration_v2, migration_v3, migration_v4, migration_v5, migration_v6,
      migration_v7, migration_v8, migration_v9, migration_v10, migration_v11, migration_v12,
      migration_v13, migration_v14, migration_v15, migration_v16, migration_v17, migration_v18,
      migration_v19, migration_v20, migration_v21, migration_v22, migration_v23, migration_v24,
      migration_v25, migration_v26, migration_v27, migration_v28, migration_v29]"

section \<open>Fixups\<close>

text \<open>
  \<open>json.loads(...) or {}\<close> followed by \<open>.items()\<close>: \<open>None\<close> where that is an \<open>AttributeError\<close>. And the
  strings in \<open>set(...)\<close> of a value, \<open>None\<close> where that is a \<open>TypeError\<close>.
\<close>

definition dict_items :: "json \<Rightarrow> config option" where
  "dict_items j = (case j of JObj kvs \<Rightarrow> Some kvs | _ \<Rightarrow> if truthy j then None else Some [])"

fun hashable :: "json \<Rightarrow> bool" where
  "hashable (JArr xs) = False"
| "hashable (JObj kvs) = False"
| "hashable _ = True"

definition set_strings :: "json \<Rightarrow> string list option" where
  "set_strings j =
     (if \<not> truthy j then Some []
      else case j of
        JArr xs \<Rightarrow> if list_all hashable xs then Some (List.map_filter json_str xs) else None
      | JObj kvs \<Rightarrow> Some (map fst kvs)
      | JStr s \<Rightarrow> Some (map (\<lambda>c. [c]) s)
      | _ \<Rightarrow> None)"

text \<open>Rewriting a stored configuration: it is written back only if keys went away.\<close>

definition prune_json :: "(string \<Rightarrow> bool) \<Rightarrow> json \<Rightarrow> mig_error + json" where
  "prune_json keep j =
     (case dict_items j of
        None \<Rightarrow> Inl AttributeError
      | Some kvs \<Rightarrow>
          let pruned = filter (\<lambda>(k, v). keep k) kvs in
          Inr (if length pruned \<noteq> length kvs then JObj pruned else j))"

fun each_row :: "(config_row \<Rightarrow> mig_error + config_row) \<Rightarrow> config_row list \<Rightarrow> mig_error + config_row list" where
  "each_row f [] = Inr []"
| "each_row f (r # rs) = bind_res (f r) (\<lambda>r'. bind_res (each_row f rs) (\<lambda>rs'. Inr (r' # rs')))"

definition prune_row :: "(string \<Rightarrow> bool) \<Rightarrow> config_row \<Rightarrow> mig_error + config_row" where
  "prune_row keep r =
     (case row_config r of
        None \<Rightarrow> Inr r
      | Some j \<Rightarrow> bind_res (prune_json keep j) (\<lambda>j'. Inr (r\<lparr>row_config := Some j'\<rparr>)))"

definition prune_to_scope :: "config_row \<Rightarrow> mig_error + config_row" where
  "prune_to_scope r =
     (case Option.bind (row_sections r) set_strings of
        None \<Rightarrow> Inr r
      | Some sids \<Rightarrow> prune_row (\<lambda>k. k \<in> set (scope (normalise sids))) r)"

definition fixup_v11 :: "database \<Rightarrow> mig_error + database" where
  "fixup_v11 db =
     bind_res (each_row prune_to_scope (config_rows db)) (\<lambda>rs. Inr (db\<lparr>config_rows := rs\<rparr>))"

definition fixup_v22 :: "database \<Rightarrow> mig_error + database" where
  "fixup_v22 db =
     (if ''state'' \<in> set (columns ''turns'' db) then Inr db else exec_stmt (AddColumn ''turns'' ''state'') db)"

definition prune_fleet :: "(string \<Rightarrow> bool) \<Rightarrow> database \<Rightarrow> mig_error + database" where
  "prune_fleet keep db =
     (case fleet_config db of
        Some (Some j) \<Rightarrow> bind_res (prune_json keep j) (\<lambda>j'. Inr (db\<lparr>fleet_config := Some (Some j')\<rparr>))
      | _ \<Rightarrow> Inr db)"

definition remove_keys :: "string list \<Rightarrow> database \<Rightarrow> mig_error + database" where
  "remove_keys ks db =
     bind_res (prune_fleet (\<lambda>k. k \<notin> set ks) db) (\<lambda>db'.
       bind_res (each_row (prune_row (\<lambda>k. k \<notin> set ks)) (config_rows db')) (\<lambda>rs.
         Inr (db'\<lparr>config_rows := rs\<rparr>)))"

definition OBSOLETE_AFE_CONFIG_KEYS :: "string list" where
  "OBSOLETE_AFE_CONFIG_KEYS =
     [''adcMicpga'', ''adcDigitalGain'', ''micGainDb'', ''beamAngle'', ''beamformingEnabled'',
      ''aecEnabled'', ''aecDelayMs'', ''aecTailMs'', ''agcEnabled'', ''vadChannel'']"

definition RETIRED_AUDIO_CONFIG_KEYS :: "string list" where
  "RETIRED_AUDIO_CONFIG_KEYS = [''bassShelfHz'', ''subsonicHz'', ''limiterThreshold'', ''nsAsr'']"

definition RETIRED_WAKE_CONFIG_KEYS :: "string list" where
  "RETIRED_WAKE_CONFIG_KEYS = [''owwOnDevice'', ''owwSpeexNs'']"

definition fixup_v23 :: "database \<Rightarrow> mig_error + database" where
  "fixup_v23 = remove_keys OBSOLETE_AFE_CONFIG_KEYS"

definition fixup_v24 :: "database \<Rightarrow> mig_error + database" where
  "fixup_v24 = remove_keys RETIRED_AUDIO_CONFIG_KEYS"

definition fixup_v27 :: "database \<Rightarrow> mig_error + database" where
  "fixup_v27 = remove_keys RETIRED_WAKE_CONFIG_KEYS"

definition MIGRATION_FIXUPS :: "(nat \<times> (database \<Rightarrow> mig_error + database)) list" where
  "MIGRATION_FIXUPS =
     [(11, fixup_v11), (22, fixup_v22), (23, fixup_v23), (24, fixup_v24), (27, fixup_v27)]"

section \<open>Running them\<close>

datatype commit = Stmt stmt | Fixup nat

datatype outcome = Done | Killed | Failed mig_error | TooNew | Current | NoBackup

definition exec_commit :: "commit \<Rightarrow> database \<Rightarrow> mig_error + database" where
  "exec_commit c db =
     (case c of
        Stmt s \<Rightarrow> exec_stmt s db
      | Fixup v \<Rightarrow> (case map_of MIGRATION_FIXUPS v of None \<Rightarrow> Inr db | Some f \<Rightarrow> f db))"

definition commits_of :: "nat \<Rightarrow> commit list" where
  "commits_of v =
     map Stmt (MIGRATIONS ! (v - 1)) @ (if v \<in> fst ` set MIGRATION_FIXUPS then [Fixup v] else [])"

fun run_commits :: "nat \<Rightarrow> commit list \<Rightarrow> database \<Rightarrow> outcome \<times> database" where
  "run_commits n [] db = (Done, db)"
| "run_commits 0 (c # cs) db = (Killed, db)"
| "run_commits (Suc n) (c # cs) db =
     (case exec_commit c db of Inl e \<Rightarrow> (Failed e, db) | Inr db' \<Rightarrow> run_commits n cs db')"

definition current_version :: "database \<Rightarrow> nat" where
  "current_version db =
     (if has_table ''system_config'' db then (case schema_version db of None \<Rightarrow> 0 | Some v \<Rightarrow> v) else 0)"

definition pending_commits :: "nat \<Rightarrow> nat \<Rightarrow> commit list" where
  "pending_commits cur new = concat (map commits_of [Suc cur..<Suc new])"

text \<open>
  The start of a controller. \<open>backup_ok\<close>: the copy of the database could be written, or was waived;
  a fresh database needs none.
\<close>

definition migrate :: "nat \<Rightarrow> bool \<Rightarrow> database \<Rightarrow> outcome \<times> database" where
  "migrate n backup_ok db =
     (let cur = current_version db in
      if length MIGRATIONS < cur then (TooNew, db)
      else if cur = length MIGRATIONS then (Current, db)
      else if cur \<noteq> 0 \<and> \<not> backup_ok then (NoBackup, db)
      else run_commits n (pending_commits cur (length MIGRATIONS)) db)"

definition empty_database :: database where
  "empty_database =
     \<lparr>db_tables = [], schema_version = None, db_settings = [], fleet_config = None, config_rows = []\<rparr>"

text \<open>The columns \<open>insert_turn\<close> and \<open>update_turn\<close> write.\<close>

definition TURN_COLUMNS :: "string list" where
  "TURN_COLUMNS =
     [''trigger_type'', ''wake_model'', ''wake_score'', ''wake_threshold'', ''noise_floor'',
      ''outcome'', ''stt_text'', ''total_ms'', ''vad_end_ms'', ''stt_ms'', ''tts_url_ms'',
      ''tts_fetch_ms'', ''playback_ms'', ''audio_ms'', ''tts_bytes'', ''underruns'',
      ''playback_periods'', ''min_depth'', ''prime_wait_ms'', ''recv_span_ms'', ''max_gap_ms'',
      ''bytes_recv'', ''send_ms'', ''delivery_ms'', ''eq_ms'', ''dev_wake_score'',
      ''dev_wake_delta_ms'', ''dev_shadow'', ''dev_threshold'', ''ctrl_wake_score'',
      ''ctrl_wake_delta_ms'', ''audio_file'', ''tts_audio_file'', ''tts_text'',
      ''stt_latency_ms'', ''ha_latency_ms'', ''tts_latency_ms'', ''stop_model'', ''stop_score'',
      ''stop_threshold'', ''stop_phase'', ''stop_device_age_ms'', ''stop_flush_ms'',
      ''stop_cancel_ms'', ''stop_hacs_ack_ms'']"

section \<open>What every commit keeps\<close>

lemma run_commits_append:
  "run_commits n (cs @ ds) db =
     (case run_commits n cs db of (Done, db') \<Rightarrow> run_commits (n - length cs) ds db' | r \<Rightarrow> r)"
proof (induction cs arbitrary: n db)
  case Nil
  then show ?case by simp
next
  case (Cons c cs)
  then show ?case by (cases n) (auto split: sum.split prod.split outcome.split)
qed

lemma run_commits_keeps:
  assumes "\<And>c db db'. c \<in> set cs \<Longrightarrow> exec_commit c db = Inr db' \<Longrightarrow> P db \<Longrightarrow> P db'"
    and "P db"
  shows "P (snd (run_commits n cs db))"
  using assms
proof (induction cs arbitrary: n db)
  case Nil
  then show ?case by simp
next
  case (Cons c cs)
  have "P (snd (run_commits m cs db'))" if "exec_commit c db = Inr db'" for m db'
    using Cons.prems that by (intro Cons.IH) auto
  with Cons.prems show ?case by (cases n) (auto split: sum.split)
qed

text \<open>A run that completes has passed every commit: what one of them establishes and the rest keep.\<close>

lemma run_commits_establishes:
  assumes "run_commits n cs db = (Done, db')" "c0 \<in> set cs"
    and "\<And>db db'. exec_commit c0 db = Inr db' \<Longrightarrow> P db'"
    and "\<And>c db db'. c \<in> set cs \<Longrightarrow> exec_commit c db = Inr db' \<Longrightarrow> P db \<Longrightarrow> P db'"
  shows "P db'"
proof -
  obtain as bs where cs: "cs = as @ c0 # bs" using assms(2) by (blast dest: split_list)
  with assms(1) obtain db1 where "run_commits (n - length as) (c0 # bs) db1 = (Done, db')"
    by (auto simp: run_commits_append split: prod.splits outcome.splits)
  then obtain m db2 where "exec_commit c0 db1 = Inr db2" and r: "run_commits m bs db2 = (Done, db')"
    by (cases "n - length as") (auto split: sum.splits)
  with assms(3) have "P db2" by blast
  with run_commits_keeps [of bs P db2 m] assms(4) cs r show ?thesis by auto
qed

definition versioned :: "database \<Rightarrow> bool" where
  "versioned db \<longleftrightarrow> has_table ''system_config'' db \<and> schema_version db \<noteq> None"

lemma has_table_sel [simp]:
  "has_table t (db\<lparr>db_tables := put u cs (db_tables db)\<rparr>) \<longleftrightarrow> t = u \<or> has_table t db"
  "has_table t (db\<lparr>config_rows := rs\<rparr>) = has_table t db"
  "has_table t (db\<lparr>fleet_config := fc\<rparr>) = has_table t db"
  "has_table t (schema_version_update f db) = has_table t db"
  "has_table t (db_settings_update h db) = has_table t db"
  "has_table t (fleet_config_update k db) = has_table t db"
  "has_table t (config_rows_update l db) = has_table t db"
  by (simp_all add: has_table_def)

lemma has_table_cong: "db_tables db' = db_tables db \<Longrightarrow> has_table t db' = has_table t db"
  by (simp add: has_table_def)

lemma has_table_add_column [simp]: "has_table t (add_column u c db) \<longleftrightarrow> t = u \<or> has_table t db"
  by (auto simp: add_column_def has_table_def)

lemma add_column_sel [simp]:
  "schema_version (add_column u c db) = schema_version db"
  "fleet_config (add_column u c db) = fleet_config db"
  by (simp_all add: add_column_def)

lemma exec_stmt_versioned: "exec_stmt s db = Inr db' \<Longrightarrow> versioned db \<Longrightarrow> versioned db'"
  by (cases s) (auto simp: versioned_def on_table_def split: if_splits)

lemma prune_fleet_frame:
  "prune_fleet p db = Inr db' \<Longrightarrow> db_tables db' = db_tables db \<and> schema_version db' = schema_version db \<and>
     config_rows db' = config_rows db"
  by (auto simp: prune_fleet_def split: option.splits)

lemma remove_keys_frame:
  "remove_keys ks db = Inr db' \<Longrightarrow> db_tables db' = db_tables db \<and> schema_version db' = schema_version db"
  by (auto simp: remove_keys_def dest: prune_fleet_frame)

lemma fixup_version:
  assumes "exec_commit (Fixup v) db = Inr db'"
  shows "schema_version db' = schema_version db \<and> (versioned db \<longrightarrow> versioned db')"
proof -
  consider "v \<notin> fst ` set MIGRATION_FIXUPS" | "v = 11" | "v = 22" | "v = 23" | "v = 24" | "v = 27"
    by (auto simp: MIGRATION_FIXUPS_def)
  then show ?thesis
    by cases (use assms in \<open>auto simp: exec_commit_def MIGRATION_FIXUPS_def fixup_v11_def fixup_v22_def
        fixup_v23_def fixup_v24_def fixup_v27_def versioned_def
        dest!: remove_keys_frame intro: has_table_cong [THEN iffD2] split: if_splits\<close>)
qed

lemma exec_commit_versioned: "exec_commit c db = Inr db' \<Longrightarrow> versioned db \<Longrightarrow> versioned db'"
proof (cases c)
  case (Stmt s)
  assume "exec_commit c db = Inr db'" "versioned db"
  with Stmt exec_stmt_versioned [of s db db'] show ?thesis by (simp add: exec_commit_def)
next
  case (Fixup v)
  assume "exec_commit c db = Inr db'" "versioned db"
  with Fixup fixup_version show ?thesis by blast
qed

lemma last_statement_sets_version:
  "list_all (\<lambda>v. last (MIGRATIONS ! (v - 1)) = SetVersion v \<and> MIGRATIONS ! (v - 1) \<noteq> []) [2..<30]"
  by code_simp

lemma commits_of_split:
  assumes "2 \<le> v" "v \<le> 29"
  shows "\<exists>ss. commits_of v = ss @ [Stmt (SetVersion v)] @
     (if v \<in> fst ` set MIGRATION_FIXUPS then [Fixup v] else [])"
proof -
  have "v \<in> set [2..<30]" using assms by (simp del: upt_rec_numeral)
  with last_statement_sets_version have "last (MIGRATIONS ! (v - 1)) = SetVersion v" "MIGRATIONS ! (v - 1) \<noteq> []"
    unfolding list_all_iff by blast+
  then have "MIGRATIONS ! (v - 1) = butlast (MIGRATIONS ! (v - 1)) @ [SetVersion v]"
    by (metis append_butlast_last_id)
  then have "commits_of v = map Stmt (butlast (MIGRATIONS ! (v - 1))) @ [Stmt (SetVersion v)] @
     (if v \<in> fst ` set MIGRATION_FIXUPS then [Fixup v] else [])"
    unfolding commits_of_def by (metis append_assoc list.simps(8,9) map_append)
  then show ?thesis by blast
qed

lemma commits_of_version:
  assumes "2 \<le> v" "v \<le> 29" "run_commits n (commits_of v) db = (Done, db')" "versioned db"
  shows "schema_version db' = Some v \<and> versioned db'"
proof -
  obtain ss where ss: "commits_of v = ss @ [Stmt (SetVersion v)] @
      (if v \<in> fst ` set MIGRATION_FIXUPS then [Fixup v] else [])"
    using commits_of_split [OF assms(1,2)] by blast
  define fx where "fx = (if v \<in> fst ` set MIGRATION_FIXUPS then [Fixup v] else [])"
  obtain db1 where db1: "run_commits n ss db = (Done, db1)"
    and rest: "run_commits (n - length ss) (Stmt (SetVersion v) # fx) db1 = (Done, db')"
    using assms(3) unfolding ss fx_def [symmetric] run_commits_append [of n ss]
    by (auto split: prod.splits outcome.splits)
  have "versioned db1"
    using run_commits_keeps [of ss versioned db n] exec_commit_versioned assms(4) db1 by fastforce
  then obtain w where w: "schema_version db1 = Some w" "has_table ''system_config'' db1"
    by (auto simp: versioned_def)
  define db2 where "db2 = db1\<lparr>schema_version := Some v\<rparr>"
  have "exec_commit (Stmt (SetVersion v)) db1 = Inr db2"
    using w by (simp add: exec_commit_def on_table_def db2_def)
  then have "\<exists>k. run_commits k fx db2 = (Done, db')"
    using rest by (cases "n - length ss") auto
  then have "db' = db2 \<or> exec_commit (Fixup v) db2 = Inr db'"
    by (auto simp: fx_def split: if_splits sum.splits elim!: run_commits.elims)
  moreover have "schema_version db2 = Some v \<and> versioned db2"
    using w by (simp add: db2_def versioned_def has_table_def)
  ultimately show ?thesis using fixup_version by metis
qed

section \<open>What the fixups achieve\<close>

definition lacks :: "string list \<Rightarrow> json option \<Rightarrow> bool" where
  "lacks ks c = (case c of Some (JObj kvs) \<Rightarrow> list_all (\<lambda>(k, v). k \<notin> set ks) kvs | _ \<Rightarrow> True)"

definition fleet_lacks :: "string list \<Rightarrow> database \<Rightarrow> bool" where
  "fleet_lacks ks db = (case fleet_config db of None \<Rightarrow> True | Some c \<Rightarrow> lacks ks c)"

definition free_of :: "string list \<Rightarrow> database \<Rightarrow> bool" where
  "free_of ks db \<longleftrightarrow>
     fleet_lacks ks db \<and> list_all (\<lambda>r. lacks ks (row_config r)) (config_rows db)"

definition in_scope :: "config_row \<Rightarrow> bool" where
  "in_scope r =
     (case (row_config r, Option.bind (row_sections r) set_strings) of
        (Some (JObj kvs), Some sids) \<Rightarrow> list_all (\<lambda>(k, v). k \<in> set (scope (normalise sids))) kvs
      | _ \<Rightarrow> True)"

lemma lacks_simps [simp]:
  "lacks ks None" "lacks ks (Some (JObj kvs)) = (\<forall>kv \<in> set kvs. fst kv \<notin> set ks)"
  by (auto simp: lacks_def list_all_iff)

lemma prune_json_cases:
  assumes "prune_json keep j = Inr j'"
  shows "(\<exists>kvs. j = JObj kvs \<and> j' = JObj (filter (\<lambda>(k, v). keep k) kvs)) \<or> (j' = j \<and> (\<forall>kvs. j \<noteq> JObj kvs))"
proof (cases "\<exists>kvs. j = JObj kvs")
  case True
  then obtain kvs where j: "j = JObj kvs" ..
  have "filter (\<lambda>(k, v). keep k) kvs = kvs" if "length (filter (\<lambda>(k, v). keep k) kvs) = length kvs"
    using that by (metis filter_True length_filter_less nat_neq_iff)
  with assms j show ?thesis by (auto simp: prune_json_def dict_items_def Let_def split: if_splits)
next
  case False
  with assms show ?thesis
    by (auto simp: prune_json_def dict_items_def Let_def split: json.splits if_splits)
qed

lemma prune_json_lacks:
  assumes "prune_json keep j = Inr j'" and "\<forall>k \<in> set ks. \<not> keep k"
  shows "lacks ks (Some j')"
  using prune_json_cases [OF assms(1)]
proof (elim disjE exE conjE)
  fix kvs
  assume "j' = JObj (filter (\<lambda>(k, v). keep k) kvs)"
  with assms(2) show ?thesis by auto
next
  assume "j' = j" "\<forall>kvs. j \<noteq> JObj kvs"
  then show ?thesis by (cases j') (auto simp: lacks_def)
qed

lemma prune_json_lacks_mono:
  assumes "prune_json keep j = Inr j'" "lacks ks (Some j)"
  shows "lacks ks (Some j')"
  using prune_json_cases [OF assms(1)] assms(2) by auto

lemma prune_row_frame:
  "prune_row keep r = Inr r' \<Longrightarrow> row_sections r' = row_sections r \<and>
     (row_config r' = row_config r \<or> (\<exists>j j'. row_config r = Some j \<and> row_config r' = Some j' \<and> prune_json keep j = Inr j'))"
  by (auto simp: prune_row_def split: option.splits)

lemma prune_row_lacks:
  "prune_row keep r = Inr r' \<Longrightarrow> (\<forall>k \<in> set ks. \<not> keep k) \<Longrightarrow> lacks ks (row_config r')"
  "prune_row keep r = Inr r' \<Longrightarrow> lacks ks (row_config r) \<Longrightarrow> lacks ks (row_config r')"
  by (auto simp: prune_row_def split: option.splits intro: prune_json_lacks prune_json_lacks_mono)

lemma in_scope_frame:
  assumes "prune_json keep j = Inr j'" "row_config r = Some j" "row_config r' = Some j'"
    "row_sections r' = row_sections r" "in_scope r"
  shows "in_scope r'"
  using prune_json_cases [OF assms(1)] assms(2-)
  by (elim disjE exE conjE) (auto simp: in_scope_def list_all_iff split: option.splits)

lemma prune_row_in_scope: "prune_row keep r = Inr r' \<Longrightarrow> in_scope r \<Longrightarrow> in_scope r'"
  by (auto simp: prune_row_def split: option.splits intro: in_scope_frame)

lemma prune_to_scope_in_scope:
  assumes "prune_to_scope r = Inr r'"
  shows "in_scope r'"
proof (cases "Option.bind (row_sections r) set_strings")
  case None
  with assms show ?thesis
    by (auto simp: prune_to_scope_def in_scope_def split: option.split json.split)
next
  case (Some sids)
  with assms have p: "prune_row (\<lambda>k. k \<in> set (scope (normalise sids))) r = Inr r'"
    by (simp add: prune_to_scope_def)
  show ?thesis
  proof (cases "row_config r")
    case None
    with p show ?thesis by (simp add: prune_row_def in_scope_def)
  next
    case (Some j)
    with p obtain j' where "prune_json (\<lambda>k. k \<in> set (scope (normalise sids))) j = Inr j'"
      and r': "r' = r\<lparr>row_config := Some j'\<rparr>"
      by (auto simp: prune_row_def)
    from prune_json_cases [OF this(1)] r' \<open>Option.bind (row_sections r) set_strings = Some sids\<close>
    show ?thesis
      by (elim disjE exE conjE) (auto simp: in_scope_def list_all_iff split: option.splits json.splits)
  qed
qed

lemma prune_to_scope_lacks: "prune_to_scope r = Inr r' \<Longrightarrow> lacks ks (row_config r) \<Longrightarrow> lacks ks (row_config r')"
  by (auto simp: prune_to_scope_def split: option.splits intro: prune_row_lacks(2))

lemma each_row_all:
  assumes "each_row f rs = Inr rs'" "\<And>r r'. r \<in> set rs \<Longrightarrow> f r = Inr r' \<Longrightarrow> P r'"
  shows "list_all P rs'"
  using assms
proof (induction rs arbitrary: rs')
  case Nil
  then show ?case by simp
next
  case (Cons r rs)
  then show ?case by fastforce
qed

lemma prune_fleet_lacks:
  "prune_fleet keep db = Inr db' \<Longrightarrow> (\<forall>k \<in> set ks. \<not> keep k) \<Longrightarrow> fleet_lacks ks db'"
  "prune_fleet keep db = Inr db' \<Longrightarrow> fleet_lacks ks db \<Longrightarrow> fleet_lacks ks db'"
  by (auto simp: prune_fleet_def fleet_lacks_def split: option.splits intro: prune_json_lacks prune_json_lacks_mono)

lemma remove_keys_parts:
  assumes "remove_keys ms db = Inr db'"
  obtains db1 where "prune_fleet (\<lambda>k. k \<notin> set ms) db = Inr db1" "fleet_config db' = fleet_config db1"
    "each_row (prune_row (\<lambda>k. k \<notin> set ms)) (config_rows db) = Inr (config_rows db')"
  using assms by (fastforce simp: remove_keys_def dest: prune_fleet_frame)

lemma fleet_lacks_cong: "fleet_config db' = fleet_config db \<Longrightarrow> fleet_lacks ks db' = fleet_lacks ks db"
  by (simp add: fleet_lacks_def)

lemma remove_keys_free:
  assumes "remove_keys ks db = Inr db'"
  shows "free_of ks db'"
  using assms
proof (rule remove_keys_parts)
  fix db1
  assume "prune_fleet (\<lambda>k. k \<notin> set ks) db = Inr db1" "fleet_config db' = fleet_config db1"
    and rows: "each_row (prune_row (\<lambda>k. k \<notin> set ks)) (config_rows db) = Inr (config_rows db')"
  then have "fleet_lacks ks db'"
    using prune_fleet_lacks(1) [of "\<lambda>k. k \<notin> set ks" db db1 ks] by (simp add: fleet_lacks_cong [of db' db1])
  moreover have "list_all (\<lambda>r. lacks ks (row_config r)) (config_rows db')"
    using rows by (rule each_row_all) (simp add: prune_row_lacks(1))
  ultimately show ?thesis by (simp add: free_of_def)
qed

lemma remove_keys_keeps_free:
  assumes "remove_keys ms db = Inr db'" "free_of ks db"
  shows "free_of ks db'"
  using assms(1)
proof (rule remove_keys_parts)
  fix db1
  assume "prune_fleet (\<lambda>k. k \<notin> set ms) db = Inr db1" "fleet_config db' = fleet_config db1"
    and rows: "each_row (prune_row (\<lambda>k. k \<notin> set ms)) (config_rows db) = Inr (config_rows db')"
  then have "fleet_lacks ks db'"
    using prune_fleet_lacks(2) assms(2) by (simp add: fleet_lacks_cong [of db' db1] free_of_def)
  moreover have "list_all (\<lambda>r. lacks ks (row_config r)) (config_rows db')"
    using rows by (rule each_row_all) (use assms(2) in \<open>auto simp: free_of_def list_all_iff intro: prune_row_lacks(2)\<close>)
  ultimately show ?thesis by (simp add: free_of_def)
qed

lemma remove_keys_in_scope:
  assumes "remove_keys ms db = Inr db'" "list_all in_scope (config_rows db)"
  shows "list_all in_scope (config_rows db')"
  using assms(1)
proof (rule remove_keys_parts)
  fix db1
  assume "each_row (prune_row (\<lambda>k. k \<notin> set ms)) (config_rows db) = Inr (config_rows db')"
  then show ?thesis
    by (rule each_row_all) (use assms(2) in \<open>auto simp: list_all_iff intro: prune_row_in_scope\<close>)
qed

lemma add_column_rows:
  "config_rows (add_column t c db) = (if t = ''devices'' then map (fill_default c) (config_rows db) else config_rows db)"
  by (simp add: add_column_def)

lemma row_config_fill [simp]: "row_config (fill_default c r) = row_config r" "row_config (backfill r) = row_config r"
  by (simp_all add: fill_default_def backfill_def)

lemma free_of_add_column: "free_of ks db \<Longrightarrow> free_of ks (add_column t c db)"
  by (auto simp: free_of_def fleet_lacks_def add_column_rows list_all_iff)

definition not_default :: "string list \<Rightarrow> bool" where
  "not_default ks \<longleftrightarrow> list_all (\<lambda>(k, v). k \<notin> set ks) DEFAULT_DEVICE_CONFIG"

lemma exec_stmt_free:
  assumes "exec_stmt s db = Inr db'" "free_of ks db" "not_default ks"
  shows "free_of ks db'"
proof (cases s)
  case (AddColumn t c)
  with assms show ?thesis by (auto intro: free_of_add_column split: if_splits)
next
  case SeedFleetConfig
  with assms show ?thesis
    by (auto simp: on_table_def free_of_def fleet_lacks_def lacks_def not_default_def split: if_splits)
qed (use assms in \<open>auto simp: on_table_def free_of_def fleet_lacks_def list_all_iff split: if_splits\<close>)

lemma fixup_cases:
  assumes "exec_commit (Fixup v) db = Inr db'"
  obtains "db' = db" | "fixup_v11 db = Inr db'" | "fixup_v22 db = Inr db'"
    | ks where "remove_keys ks db = Inr db'"
proof -
  have "db' = db \<or> fixup_v11 db = Inr db' \<or> fixup_v22 db = Inr db' \<or>
      remove_keys OBSOLETE_AFE_CONFIG_KEYS db = Inr db' \<or> remove_keys RETIRED_AUDIO_CONFIG_KEYS db = Inr db' \<or>
      remove_keys RETIRED_WAKE_CONFIG_KEYS db = Inr db'"
    using assms
    by (simp add: exec_commit_def MIGRATION_FIXUPS_def fixup_v23_def fixup_v24_def fixup_v27_def
        split: if_splits)
  then show ?thesis using that by blast
qed

lemma fixup_v11_parts:
  assumes "fixup_v11 db = Inr db'"
  shows "each_row prune_to_scope (config_rows db) = Inr (config_rows db')" "fleet_config db' = fleet_config db"
  using assms by (auto simp: fixup_v11_def)

lemma exec_commit_free:
  assumes "exec_commit c db = Inr db'" "free_of ks db" "not_default ks"
  shows "free_of ks db'"
proof (cases c)
  case (Stmt s)
  with assms exec_stmt_free [of s db db' ks] show ?thesis by (simp add: exec_commit_def)
next
  case (Fixup v)
  from assms(1) [unfolded Fixup] show ?thesis
  proof (cases rule: fixup_cases)
    case 2
    then have "list_all (\<lambda>r. lacks ks (row_config r)) (config_rows db')"
      by (intro each_row_all [OF fixup_v11_parts(1)])
        (use assms(2) in \<open>auto simp: free_of_def list_all_iff intro: prune_to_scope_lacks\<close>)
    with fixup_v11_parts(2) [OF 2] assms(2) show ?thesis
      by (simp add: free_of_def fleet_lacks_cong [of db' db])
  next
    case 3
    with assms(2) show ?thesis by (auto simp: fixup_v22_def intro: free_of_add_column split: if_splits)
  next
    case (4 ms)
    with assms(2) show ?thesis by (blast intro: remove_keys_keeps_free)
  qed (use assms in simp)
qed

text \<open>The statements that change which sections a device overrides.\<close>

fun keeps_sections :: "commit \<Rightarrow> bool" where
  "keeps_sections (Stmt (AddColumn t c)) \<longleftrightarrow> c \<noteq> ''config_sections''"
| "keeps_sections (Stmt BackfillSections) \<longleftrightarrow> False"
| "keeps_sections _ \<longleftrightarrow> True"

lemma row_sections_fill: "c \<noteq> ''config_sections'' \<Longrightarrow> row_sections (fill_default c r) = row_sections r"
  by (simp add: fill_default_def)

lemma fill_in_scope: "c \<noteq> ''config_sections'' \<Longrightarrow> in_scope (fill_default c r) = in_scope r"
  by (simp add: row_sections_fill in_scope_def)

lemma in_scope_add_column:
  "list_all in_scope (config_rows db) \<Longrightarrow> c \<noteq> ''config_sections'' \<Longrightarrow>
     list_all in_scope (config_rows (add_column t c db))"
  by (auto simp: add_column_rows list_all_iff fill_in_scope)

lemma exec_commit_in_scope:
  assumes "exec_commit c db = Inr db'" "list_all in_scope (config_rows db)" "keeps_sections c"
  shows "list_all in_scope (config_rows db')"
proof (cases c)
  case (Stmt s)
  with assms show ?thesis
    by (cases s) (auto simp: exec_commit_def on_table_def in_scope_add_column split: if_splits)
next
  case (Fixup v)
  from assms(1) [unfolded Fixup] show ?thesis
  proof (cases rule: fixup_cases)
    case 2
    then show ?thesis
      by (intro each_row_all [OF fixup_v11_parts(1)]) (auto intro: prune_to_scope_in_scope)
  next
    case 3
    with assms(2) show ?thesis by (auto simp: fixup_v22_def in_scope_add_column split: if_splits)
  next
    case (4 ms)
    with assms(2) show ?thesis by (blast intro: remove_keys_in_scope)
  qed (use assms in simp)
qed

section \<open>Properties\<close>

lemma pending_split: "c \<le> v \<Longrightarrow> v \<le> w \<Longrightarrow> pending_commits c w = pending_commits c v @ pending_commits v w"
proof -
  assume "c \<le> v" "v \<le> w"
  then have "[Suc c..<Suc w] = [Suc c..<Suc v] @ [Suc v..<Suc w]"
    using upt_add_eq_append [of "Suc c" "Suc v" "w - v"] by simp
  then show ?thesis unfolding pending_commits_def by (simp only: map_append concat_append)
qed

lemma pending_step: "pending_commits v (Suc v) = commits_of (Suc v)"
  by (simp add: pending_commits_def)

lemma length_MIGRATIONS [simp]: "length MIGRATIONS = 29"
  by (simp add: MIGRATIONS_def)

lemma fixup_pending: "(v, f) \<in> set MIGRATION_FIXUPS \<Longrightarrow> c < v \<Longrightarrow> v \<le> w \<Longrightarrow> Fixup v \<in> set (pending_commits c w)"
  by (force simp: pending_commits_def commits_of_def)

lemma migrate_Done: "migrate n b db = (Done, db') \<Longrightarrow> run_commits n (pending_commits (current_version db) 29) db = (Done, db')"
  by (auto simp: migrate_def Let_def split: if_splits)

lemma retired_not_default:
  "not_default OBSOLETE_AFE_CONFIG_KEYS" "not_default RETIRED_AUDIO_CONFIG_KEYS"
  "not_default RETIRED_WAKE_CONFIG_KEYS"
  by code_simp+

lemma remove_keys_commits:
  "exec_commit (Fixup 23) db = remove_keys OBSOLETE_AFE_CONFIG_KEYS db"
  "exec_commit (Fixup 24) db = remove_keys RETIRED_AUDIO_CONFIG_KEYS db"
  "exec_commit (Fixup 27) db = remove_keys RETIRED_WAKE_CONFIG_KEYS db"
  by (simp_all add: exec_commit_def MIGRATION_FIXUPS_def fixup_v23_def fixup_v24_def fixup_v27_def)

lemma upgrade_removes:
  assumes "run_commits n cs db = (Done, db')" "Fixup v \<in> set cs"
    "\<And>db. exec_commit (Fixup v) db = remove_keys ks db" "not_default ks"
  shows "free_of ks db'"
proof (rule run_commits_establishes [OF assms(1,2)])
  fix d d'
  assume "exec_commit (Fixup v) d = Inr d'"
  with assms(3) show "free_of ks d'" by (auto intro: remove_keys_free)
next
  fix c d d'
  assume "exec_commit c d = Inr d'" "free_of ks d"
  with assms(4) show "free_of ks d'" by (blast intro: exec_commit_free)
qed

lemma later_keep_sections: "list_all keeps_sections (pending_commits 10 29)"
  by code_simp

lemma fixup_v11_commit: "exec_commit (Fixup 11) db = Inr db' \<Longrightarrow> list_all in_scope (config_rows db')"
  by (simp add: exec_commit_def MIGRATION_FIXUPS_def)
    (blast intro: each_row_all fixup_v11_parts(1) prune_to_scope_in_scope)


definition complete :: "database \<Rightarrow> bool" where
  "complete db \<longleftrightarrow>
     current_version db = 29 \<and>
     set TURN_COLUMNS \<union> {''device_id'', ''ts'', ''state''} \<subseteq> set (columns ''turns'' db) \<and>
     fleet_config db = Some (Some (JObj DEFAULT_DEVICE_CONFIG))"

text \<open>the first start on an empty database runs every
  migration, ends at the newest version with every column a turn is written to, keeps every factory
  default of the fleet's configuration, and the next start finds nothing to do.\<close>

theorem fresh_database_is_complete:
  "\<exists>db. migrate 200 True empty_database = (Done, db) \<and> current_version db = length MIGRATIONS \<and>
     set TURN_COLUMNS \<union> {''device_id'', ''ts'', ''state''} \<subseteq> set (columns ''turns'' db) \<and>
     fleet_config db = Some (Some (JObj DEFAULT_DEVICE_CONFIG)) \<and> migrate 0 False db = (Current, db)"
proof -
  define db where "db = snd (migrate 200 True empty_database)"
  have "case migrate 200 True empty_database of (res, d) \<Rightarrow> res = Done \<and> complete d"
    by code_simp
  then have "migrate 200 True empty_database = (Done, db)" "complete db"
    by (simp_all add: db_def prod_eq_iff case_prod_beta)
  then show ?thesis
    by (intro exI [of _ db]) (simp add: complete_def migrate_def [of _ _ db] Let_def)
qed

lemma run_commits_pending_version:
  assumes "run_commits n (pending_commits c v) db = (Done, db')" "1 \<le> c" "c < v" "v \<le> 29" "versioned db"
  shows "schema_version db' = Some v \<and> versioned db'"
proof -
  obtain u where u: "v = Suc u" using assms(3) by (cases v) auto
  then have "pending_commits c v = pending_commits c u @ commits_of v"
    using assms(3) pending_split [of c u v] by (simp add: pending_step)
  with assms(1) obtain m db1 where db1: "run_commits n (pending_commits c u) db = (Done, db1)"
    and rest: "run_commits m (commits_of v) db1 = (Done, db')"
    by (auto simp: run_commits_append split: prod.splits outcome.splits)
  have "versioned db1"
    using run_commits_keeps [of "pending_commits c u" versioned db n] exec_commit_versioned assms(5) db1 by fastforce
  with rest show ?thesis using assms(2-4) u by (intro commits_of_version) auto
qed

text \<open>A run killed after exactly the commits of a prefix has completed the prefix.\<close>

lemma run_commits_exact:
  "run_commits (length cs) (cs @ ds) db = (Killed, db') \<Longrightarrow> run_commits (length cs + m) cs db = (Done, db')"
proof (induction cs arbitrary: db)
  case Nil
  then show ?case by (cases ds) auto
next
  case (Cons c cs)
  then show ?case by (auto split: sum.splits)
qed

text \<open>a controller that dies between two versions
  leaves a database at the version it had finished, and starting again continues exactly where it
  stopped: any number of further commits gives what the first run would have given.\<close>

theorem upgrade_resumes_between_versions:
  assumes "1 \<le> current_version db" and "current_version db < v" and "v < 29"
    and "migrate (length (pending_commits (current_version db) v)) True db = (Killed, db1)"
  shows "current_version db1 = v \<and>
    migrate m True db1 = migrate (length (pending_commits (current_version db) v) + m) True db"
proof -
  define c where "c = current_version db"
  let ?cs = "pending_commits c v"
  have split: "pending_commits c 29 = ?cs @ pending_commits v 29"
    using assms(2,3) c_def by (intro pending_split) auto
  have mig: "migrate k True db = run_commits k (?cs @ pending_commits v 29) db" for k
    using assms(2,3) by (simp add: migrate_def Let_def c_def [symmetric] split)
  have fin: "run_commits (length ?cs + m) ?cs db = (Done, db1)"
    using assms(4) by (intro run_commits_exact) (simp add: mig c_def [symmetric])
  have ver: "versioned db"
    using assms(1) by (auto simp: current_version_def versioned_def split: if_splits option.splits)
  have "schema_version db1 = Some v \<and> versioned db1"
    using run_commits_pending_version [OF fin] assms ver c_def by simp
  then have cur: "current_version db1 = v"
    by (simp add: current_version_def versioned_def)
  moreover have "migrate m True db1 = run_commits m (pending_commits v 29) db1"
    using assms(3) by (simp add: migrate_def cur Let_def)
  moreover have "migrate (length ?cs + m) True db = run_commits m (pending_commits v 29) db1"
    using mig fin by (simp add: run_commits_append)
  ultimately show ?thesis by (simp add: c_def)
qed

section \<open>Failed and interrupted upgrades\<close>

definition database_at :: "nat \<Rightarrow> database" where
  "database_at v = snd (run_commits 200 (pending_commits 0 v) empty_database)"

text \<open>A database at version 10 with one configuration that is no object and one with old settings.\<close>

definition old_rows :: "config_row list" where
  "old_rows =
     [\<lparr>row_device = ''a'', row_config = Some (JArr [JInt 1]), row_sections = Some (JArr []), row_global = True\<rparr>,
      \<lparr>row_device = ''b'', row_config = Some (JObj [(''micGainDb'', JInt 6), (''ledScene'', JStr ''custom'')]),
       row_sections = Some (JArr []), row_global = True\<rparr>]"

definition old_database :: database where
  "old_database = (database_at 10)\<lparr>config_rows := old_rows\<rparr>"

text \<open>The database after a number of starts, each with enough time to finish.\<close>

fun starts :: "nat \<Rightarrow> database \<Rightarrow> database" where
  "starts 0 db = db"
| "starts (Suc k) db = starts k (snd (migrate 200 True db))"

definition left_behind :: "database \<Rightarrow> bool" where
  "left_behind db \<longleftrightarrow>
     current_version db = 29 \<and> \<not> free_of OBSOLETE_AFE_CONFIG_KEYS db \<and> \<not> list_all in_scope (config_rows db)"


theorem upgrade_resumes_between_versions_witness:
  "current_version (snd (migrate (length (pending_commits 10 12)) True (database_at 10))) = 12"
proof -
  have "let d = database_at 10 in current_version d = 10 \<and>
      fst (migrate (length (pending_commits 10 12)) True d) = Killed"
    by code_simp
  then have c: "current_version (database_at 10) = 10"
    and k: "fst (migrate (length (pending_commits 10 12)) True (database_at 10)) = Killed"
    by (simp_all add: Let_def)
  then have "migrate (length (pending_commits (current_version (database_at 10)) 12)) True (database_at 10) =
      (Killed, snd (migrate (length (pending_commits 10 12)) True (database_at 10)))"
    by (simp add: prod_eq_iff)
  from upgrade_resumes_between_versions [OF _ _ _ this] c show ?thesis by simp
qed

text \<open>statements of a migration are committed one by
  one, before its fixup runs. So a controller killed right after the first statement of version 2 can
  never start again, whatever time later starts get; and when a fixup fails the version is stored
  already, so it is not run again: after five starts an upgrade whose four fixups all failed is at the
  newest version, and the other devices still store what the fixups should have removed.\<close>

theorem failed_upgrades_are_not_undone:
  "(\<exists>db. migrate 1 True (database_at 1) = (Killed, db) \<and> current_version db = 1 \<and>
      (\<forall>k. migrate (Suc k) True db = (Failed DuplicateColumn, db))) \<and>
   (\<exists>db. migrate 200 True old_database = (Failed AttributeError, db) \<and> current_version db = 11 \<and>
      current_version (starts 4 db) = length MIGRATIONS \<and>
      \<not> free_of OBSOLETE_AFE_CONFIG_KEYS (starts 4 db) \<and>
      \<not> list_all in_scope (config_rows (starts 4 db)))"
proof (intro conjI)
  define db where "db = snd (migrate 1 True (database_at 1))"
  have "fst (migrate 1 True (database_at 1)) = Killed" by code_simp
  then have "migrate 1 True (database_at 1) = (Killed, db)" by (simp add: db_def prod_eq_iff)
  moreover have v: "current_version db = 1" unfolding db_def by code_simp
  moreover have "take 1 (pending_commits 1 29) = [Stmt (AddColumn ''devices'' ''esphome_api_port'')]" by code_simp
  then obtain cs where "pending_commits 1 29 = Stmt (AddColumn ''devices'' ''esphome_api_port'') # cs"
    by (cases "pending_commits 1 29") auto
  moreover have "exec_commit (Stmt (AddColumn ''devices'' ''esphome_api_port'')) db = Inl DuplicateColumn"
    unfolding db_def by code_simp
  ultimately show "\<exists>db. migrate 1 True (database_at 1) = (Killed, db) \<and> current_version db = 1 \<and>
      (\<forall>k. migrate (Suc k) True db = (Failed DuplicateColumn, db))"
    by (intro exI [of _ db]) (simp add: migrate_def [of _ _ db] Let_def)
next
  define db where "db = snd (migrate 200 True old_database)"
  have "case migrate 200 True old_database of (res, d) \<Rightarrow>
      res = Failed AttributeError \<and> current_version d = 11 \<and> left_behind (starts 4 d)"
    by code_simp
  then have "migrate 200 True old_database = (Failed AttributeError, db)" "current_version db = 11"
    "left_behind (starts 4 db)"
    by (simp_all add: db_def prod_eq_iff case_prod_beta)
  then show "\<exists>db. migrate 200 True old_database = (Failed AttributeError, db) \<and> current_version db = 11 \<and>
      current_version (starts 4 db) = length MIGRATIONS \<and>
      \<not> free_of OBSOLETE_AFE_CONFIG_KEYS (starts 4 db) \<and>
      \<not> list_all in_scope (config_rows (starts 4 db))"
    by (intro exI [of _ db]) (simp add: left_behind_def)
qed

end
