(* ===== verification/CaptureUpload.thy ===== *)
theory CaptureUpload
  imports Prelude
begin

text \<open>
  Wake-training captures that a device uploads over the data link: the parser of
  \<open>controller/em_capture_upload.py\<close>, a receiver that is fed one frame at a time. \<open>json.loads\<close> of the
  metadata bytes (\<open>None\<close> for bytes that are no JSON) and MD5 are parameters of the model.
\<close>

type_synonym metadata = "(string \<times> json) list"

definition CAPTURE_BEGIN :: byte where "CAPTURE_BEGIN = 0x10"
definition CAPTURE_PCM :: byte where "CAPTURE_PCM = 0x11"
definition CAPTURE_END :: byte where "CAPTURE_END = 0x12"
definition PROTOCOL_VERSION :: byte where "PROTOCOL_VERSION = 1"
definition FRAME_BYTES :: nat where "FRAME_BYTES = 2560"
definition MAX_FRAMES :: nat where "MAX_FRAMES = 62"
definition MAX_METADATA_BYTES :: nat where "MAX_METADATA_BYTES = 4096"

section \<open>Metadata\<close>

text \<open>Errors carry their message. Python compares numbers by value, booleans included.\<close>

fun json_num :: "json \<Rightarrow> rat option" where
  "json_num (JInt n) = Some (of_int n)"
| "json_num (JFloat x) = Some x"
| "json_num (JBool b) = Some (if b then 1 else 0)"
| "json_num _ = None"

fun is_bool :: "json \<Rightarrow> bool" where
  "is_bool (JBool b) = True"
| "is_bool _ = False"

definition key :: "metadata \<Rightarrow> string \<Rightarrow> json" where
  "key m k = get_default m k JNull"

definition equals_int :: "json \<Rightarrow> int \<Rightarrow> bool" where
  "equals_int v n \<longleftrightarrow> json_num v = Some (of_int n)"

definition unit_number :: "string \<Rightarrow> json \<Rightarrow> string + rat" where
  "unit_number name v =
     (if is_bool v then Inl (''invalid '' @ name)
      else case json_num v of
        None \<Rightarrow> Inl (''invalid '' @ name)
      | Some x \<Rightarrow> if 0 \<le> x \<and> x \<le> 1 then Inr x else Inl (''invalid '' @ name))"

definition matches :: "(char \<Rightarrow> bool) \<Rightarrow> nat \<Rightarrow> nat \<Rightarrow> string \<Rightarrow> bool" where
  "matches P lo hi s \<longleftrightarrow> lo \<le> length s \<and> length s \<le> hi \<and> list_all P s"

definition id_ok :: "json \<Rightarrow> bool" where
  "id_ok v = opt_holds (matches (\<lambda>c. is_alnum c \<or> c \<in> set ''_.:-'') 1 96) (json_str v)"

definition model_ok :: "json \<Rightarrow> bool" where
  "model_ok v = opt_holds (matches (\<lambda>c. is_alnum c \<or> c \<in> set ''_.-'') 1 80) (json_str v)"

definition md5_ok :: "json \<Rightarrow> bool" where
  "md5_ok v =
     opt_holds (matches (\<lambda>c. is_digit c \<or> in_range (CHR ''a'') (CHR ''f'') c) 32 32) (json_str v)"

definition int_between :: "int \<Rightarrow> int \<Rightarrow> json \<Rightarrow> bool" where
  "int_between lo hi v = opt_holds (\<lambda>n. lo \<le> n \<and> n \<le> hi) (json_int v)"

definition is_kind :: "string list \<Rightarrow> json \<Rightarrow> bool" where
  "is_kind ks v = opt_holds (\<lambda>s. s \<in> set ks) (json_str v)"

definition check_scores :: "metadata \<Rightarrow> string + rat \<times> rat \<times> rat" where
  "check_scores m =
     bind_res (unit_number ''score'' (key m ''score'')) (\<lambda>score.
     bind_res (unit_number ''threshold'' (key m ''threshold'')) (\<lambda>threshold.
     bind_res (unit_number ''near-miss floor'' (key m ''nearMissFloor'')) (\<lambda>flr.
     if is_kind [''act'', ''stop_act''] (key m ''kind'') \<and> score < threshold
     then Inl ''activation below threshold''
     else if is_kind [''miss'', ''stop_miss''] (key m ''kind'') \<and> \<not> (flr < score \<and> score < threshold)
     then Inl ''near miss outside thresholds''
     else Inr (score, threshold, flr))))"

definition check_framing :: "metadata \<Rightarrow> string + unit" where
  "check_framing m =
     (if \<not> equals_int (key m ''sampleRate'') 16000 \<or> \<not> equals_int (key m ''sampleWidth'') 2
      then Inl ''invalid audio format''
      else if \<not> equals_int (key m ''channels'') 1 \<or> \<not> equals_int (key m ''frameBytes'') (int FRAME_BYTES)
      then Inl ''invalid audio framing''
      else if \<not> int_between 0 0xFFFF (key m ''activationSeq'') then Inl ''invalid activation sequence''
      else if \<not> int_between 80 5000 (key m ''requestedPrerollMs'') then Inl ''invalid requested preroll''
      else if \<not> int_between 80 (int MAX_FRAMES * 80) (key m ''actualPrerollMs'')
      then Inl ''invalid actual preroll''
      else if \<not> is_bool (key m ''complete'') then Inl ''invalid completeness''
      else let actual = the (json_int (key m ''actualPrerollMs''));
               requested = the (json_int (key m ''requestedPrerollMs'')) in
        if requested < actual \<or> truthy (key m ''complete'') \<noteq> (actual = requested)
        then Inl ''inconsistent completeness''
        else if \<not> is_bool (key m ''bargeThresholdActive'') then Inl ''invalid barge flag''
        else Inr ())"

definition validate_metadata :: "json \<Rightarrow> string + metadata" where
  "validate_metadata j =
     (case j of
        JObj m \<Rightarrow>
          if \<not> id_ok (key m ''captureId'') then Inl ''invalid capture id''
          else if \<not> model_ok (key m ''model'') then Inl ''invalid model''
          else if \<not> md5_ok (key m ''classifierMd5'') then Inl ''invalid classifier checksum''
          else if \<not> is_kind [''act'', ''miss'', ''stop_act'', ''stop_miss''] (key m ''kind'')
          then Inl ''invalid kind''
          else bind_res (check_scores m) (\<lambda>(score, threshold, flr).
            bind_res (check_framing m) (\<lambda>_.
              Inr (put ''nearMissFloor'' (JFloat flr) (put ''threshold'' (JFloat threshold)
                     (put ''score'' (JFloat score) m)))))
      | _ \<Rightarrow> Inl ''metadata must be an object'')"

section \<open>The receiver\<close>

record receiver =
  rx_metadata :: "metadata option"
  rx_chunks :: "bytes list"
  rx_next_index :: nat

definition rx_reset :: receiver where
  "rx_reset = \<lparr>rx_metadata = None, rx_chunks = [], rx_next_index = 0\<rparr>"

record completed =
  cap_metadata :: metadata
  cap_pcm :: bytes

text \<open>\<open>json.loads\<close> and MD5, and what a frame may do: nothing yet, a capture, or an error.\<close>

record codec =
  loads :: "bytes \<Rightarrow> json option"
  md5 :: "bytes \<Rightarrow> bytes"

definition rx_begin :: "codec \<Rightarrow> bytes \<Rightarrow> receiver \<Rightarrow> string + receiver" where
  "rx_begin k raw r =
     (if rx_metadata r \<noteq> None \<or> length raw < 4 \<or> raw ! 1 \<noteq> PROTOCOL_VERSION then Inl ''invalid begin''
      else let len = be_decode (take 2 (drop 2 raw)) in
        if len = 0 \<or> MAX_METADATA_BYTES < len \<or> length raw \<noteq> 4 + len
        then Inl ''invalid metadata length''
        else case loads k (drop 4 raw) of
          None \<Rightarrow> Inl ''invalid metadata JSON''
        | Some j \<Rightarrow> bind_res (validate_metadata j) (\<lambda>m. Inr (r\<lparr>rx_metadata := Some m\<rparr>)))"

definition rx_pcm :: "bytes \<Rightarrow> receiver \<Rightarrow> string + receiver" where
  "rx_pcm raw r =
     (if rx_metadata r = None \<or> length raw \<noteq> 3 + FRAME_BYTES then Inl ''invalid PCM frame''
      else let index = be_decode (take 2 (drop 1 raw)) in
        if index \<noteq> rx_next_index r \<or> MAX_FRAMES \<le> index then Inl ''invalid PCM sequence''
        else Inr (r\<lparr>rx_chunks := rx_chunks r @ [drop 3 raw], rx_next_index := rx_next_index r + 1\<rparr>))"

definition rx_end :: "codec \<Rightarrow> bytes \<Rightarrow> receiver \<Rightarrow> string + completed" where
  "rx_end k raw r =
     (case rx_metadata r of
        None \<Rightarrow> Inl ''invalid end frame''
      | Some m \<Rightarrow>
          if length raw \<noteq> 23 \<or> rx_chunks r = [] then Inl ''invalid end frame''
          else let chunks = be_decode (take 2 (drop 1 raw));
                   byte_count = be_decode (take 4 (drop 3 raw));
                   pcm = concat (rx_chunks r) in
            if chunks \<noteq> length (rx_chunks r) \<or> byte_count \<noteq> length pcm
            then Inl ''capture totals mismatch''
            else if \<not> equals_int (key m ''actualPrerollMs'') (int chunks * 80)
            then Inl ''capture duration mismatch''
            else if md5 k pcm \<noteq> take 16 (drop 7 raw) then Inl ''capture digest mismatch''
            else Inr \<lparr>cap_metadata = m, cap_pcm = pcm\<rparr>)"

text \<open>\<open>Receiver.feed\<close>: any error resets, and so does a completed capture.\<close>

definition rx_feed :: "codec \<Rightarrow> bytes \<Rightarrow> receiver \<Rightarrow> (string + completed option) \<times> receiver" where
  "rx_feed k raw r =
     (let fail = (\<lambda>e. (Inl e, rx_reset)); go_on = (\<lambda>r'. (Inr None, r')) in
      if raw = [] then fail ''empty frame''
      else if hd raw = CAPTURE_BEGIN then case_sum fail go_on (rx_begin k raw r)
      else if hd raw = CAPTURE_PCM then case_sum fail go_on (rx_pcm raw r)
      else if hd raw = CAPTURE_END
      then case_sum fail (\<lambda>c. (Inr (Some c), rx_reset)) (rx_end k raw r)
      else fail ''unknown capture frame'')"

text \<open>A connection feeds frames one after the other; the errors are logged and it goes on.\<close>

definition feed_step :: "codec \<Rightarrow> receiver \<Rightarrow> bytes \<Rightarrow> receiver \<times> (string + completed option)" where
  "feed_step k r raw = prod.swap (rx_feed k raw r)"

definition completions :: "(string + completed option) list \<Rightarrow> completed list" where
  "completions os = List.map_filter (case_sum (\<lambda>_. None) id) os"

section \<open>The frames of one capture\<close>

definition begin_frame :: "bytes \<Rightarrow> bytes" where
  "begin_frame meta = [CAPTURE_BEGIN, PROTOCOL_VERSION] @ be_encode 2 (length meta) @ meta"

definition pcm_frame :: "nat \<Rightarrow> bytes \<Rightarrow> bytes" where
  "pcm_frame i chunk = [CAPTURE_PCM] @ be_encode 2 i @ chunk"

definition pcm_frames :: "bytes list \<Rightarrow> bytes list" where
  "pcm_frames chunks = map (\<lambda>(i, c). pcm_frame i c) (enumerate 0 chunks)"

definition end_frame :: "codec \<Rightarrow> bytes list \<Rightarrow> bytes" where
  "end_frame k chunks =
     [CAPTURE_END] @ be_encode 2 (length chunks) @ be_encode 4 (length (concat chunks)) @ md5 k (concat chunks)"

definition capture_frames :: "codec \<Rightarrow> bytes \<Rightarrow> bytes list \<Rightarrow> bytes list" where
  "capture_frames k meta chunks =
     [begin_frame meta] @ pcm_frames chunks @ [end_frame k chunks]"

section \<open>Frames taken apart\<close>

lemma frame_types [simp]:
  "CAPTURE_PCM \<noteq> CAPTURE_BEGIN" "CAPTURE_END \<noteq> CAPTURE_BEGIN" "CAPTURE_END \<noteq> CAPTURE_PCM"
  "CAPTURE_BEGIN \<noteq> CAPTURE_PCM" "CAPTURE_BEGIN \<noteq> CAPTURE_END" "CAPTURE_PCM \<noteq> CAPTURE_END"
  by (simp_all add: CAPTURE_BEGIN_def CAPTURE_PCM_def CAPTURE_END_def)

lemma be_encode_take: "length (take n (drop m raw)) = n \<Longrightarrow> be_encode n (be_decode (take n (drop m raw))) = take n (drop m raw)"
  by (metis be_encode_decode)

lemma be_decode_encode_at:
  "v < 256 ^ n \<Longrightarrow> length p = m \<Longrightarrow> be_decode (take n (drop m (p @ be_encode n v @ rest))) = v"
  by (simp add: be_decode_encode)

lemma begin_frame_split:
  assumes "4 \<le> length raw" "hd raw = CAPTURE_BEGIN" "raw ! 1 = PROTOCOL_VERSION"
    "length raw = 4 + be_decode (take 2 (drop 2 raw))"
  shows "raw = begin_frame (drop 4 raw)"
proof -
  obtain a b rest where raw: "raw = a # b # rest" "2 \<le> length rest"
    using assms(1) by (cases raw rule: remdups_adj.cases) auto
  have "be_encode 2 (be_decode (take 2 rest)) = take 2 rest"
    using raw(2) be_encode_take [of 2 0 rest] by simp
  with raw assms(2-4) show ?thesis by (simp add: begin_frame_def)
qed

lemma pcm_frame_split:
  assumes "3 \<le> length raw" "hd raw = CAPTURE_PCM" "be_decode (take 2 (drop 1 raw)) = i"
  shows "raw = pcm_frame i (drop 3 raw)"
proof -
  obtain a rest where raw: "raw = a # rest" "2 \<le> length rest" using assms(1) by (cases raw) auto
  have "be_encode 2 (be_decode (take 2 rest)) = take 2 rest"
    using raw(2) be_encode_take [of 2 0 rest] by simp
  with raw assms(2,3) show ?thesis by (simp add: pcm_frame_def)
qed

lemma end_frame_split:
  assumes "length raw = 23" "hd raw = CAPTURE_END" "be_decode (take 2 (drop 1 raw)) = length chunks"
    "be_decode (take 4 (drop 3 raw)) = length (concat chunks)" "take 16 (drop 7 raw) = md5 k (concat chunks)"
  shows "raw = end_frame k chunks" "length (md5 k (concat chunks)) = 16"
proof -
  obtain a rest where raw: "raw = a # rest" "length rest = 22" using assms(1) by (cases raw) auto
  have "be_encode 2 (length chunks) = take 2 rest"
    using raw assms(3) be_encode_take [of 2 0 rest] by simp
  moreover have "be_encode 4 (length (concat chunks)) = take 4 (drop 2 rest)"
    using raw assms(4) be_encode_take [of 4 2 rest] by simp
  moreover have "drop 6 rest = md5 k (concat chunks)"
    using raw assms(5) by simp
  moreover have "take 4 (drop 2 rest) @ drop 6 rest = drop 2 rest"
    using append_take_drop_id [of 4 "drop 2 rest"] by simp
  ultimately have "end_frame k chunks = CAPTURE_END # take 2 rest @ drop 2 rest"
    unfolding end_frame_def by simp
  then show "raw = end_frame k chunks"
    using raw(1) assms(2) by simp
  show "length (md5 k (concat chunks)) = 16"
    by (simp add: assms(1) assms(5) [symmetric])
qed

section \<open>What the receiver holds\<close>

definition upload_header :: "codec \<Rightarrow> bytes \<Rightarrow> metadata \<Rightarrow> bool" where
  "upload_header k meta m \<longleftrightarrow>
     0 < length meta \<and> length meta \<le> MAX_METADATA_BYTES \<and>
     opt_holds (\<lambda>j. validate_metadata j = Inr m) (loads k meta)"

definition chunks_ok :: "bytes list \<Rightarrow> bool" where
  "chunks_ok chunks \<longleftrightarrow> length chunks \<le> MAX_FRAMES \<and> list_all (\<lambda>c. length c = FRAME_BYTES) chunks"

text \<open>A capture that may be completed.\<close>

definition well_formed_upload :: "codec \<Rightarrow> bytes \<Rightarrow> bytes list \<Rightarrow> metadata \<Rightarrow> bool" where
  "well_formed_upload k meta chunks m \<longleftrightarrow>
     upload_header k meta m \<and> chunks_ok chunks \<and> chunks \<noteq> [] \<and>
     equals_int (key m ''actualPrerollMs'') (int (length chunks) * 80) \<and>
     length (md5 k (concat chunks)) = 16"

abbreviation fed :: "codec \<Rightarrow> bytes list \<Rightarrow> receiver" where
  "fed k fs \<equiv> fst (run (feed_step k) rx_reset fs)"

definition holding :: "metadata \<Rightarrow> bytes list \<Rightarrow> receiver" where
  "holding m chunks = \<lparr>rx_metadata = Some m, rx_chunks = chunks, rx_next_index = length chunks\<rparr>"

definition receiving :: "codec \<Rightarrow> bytes list \<Rightarrow> receiver \<Rightarrow> bool" where
  "receiving k fs r \<longleftrightarrow>
     r = rx_reset \<or>
     (\<exists>pre meta chunks m. fs = pre @ [begin_frame meta] @ pcm_frames chunks \<and> fed k pre = rx_reset \<and>
        upload_header k meta m \<and> chunks_ok chunks \<and> r = holding m chunks)"

lemma holding_neq_reset [simp]: "holding m cs \<noteq> rx_reset"
  by (simp add: holding_def rx_reset_def)

lemma pcm_frames_snoc: "pcm_frames (cs @ [c]) = pcm_frames cs @ [pcm_frame (length cs) c]"
  by (simp add: pcm_frames_def enumerate_append_eq)

lemma pcm_frames_Nil [simp]: "pcm_frames [] = []"
  by (simp add: pcm_frames_def)

lemma fed_snoc: "fed k (fs @ [raw]) = snd (rx_feed k raw (fed k fs))"
  by (simp add: run_append_fst feed_step_def)

lemma rx_begin_Inr:
  assumes "rx_begin k raw r = Inr r'" "hd raw = CAPTURE_BEGIN" "r = rx_reset"
  shows "\<exists>meta m. raw = begin_frame meta \<and> upload_header k meta m \<and> r' = holding m []"
proof -
  define len where "len = be_decode (take 2 (drop 2 raw))"
  obtain j m where j: "loads k (drop 4 raw) = Some j" "validate_metadata j = Inr m" "r' = r\<lparr>rx_metadata := Some m\<rparr>"
    and c: "4 \<le> length raw" "raw ! 1 = PROTOCOL_VERSION" "length raw = 4 + len" "len \<noteq> 0" "len \<le> MAX_METADATA_BYTES"
    using assms(1) unfolding rx_begin_def Let_def len_def [symmetric]
    by (auto split: if_split_asm option.split_asm)
  have "raw = begin_frame (drop 4 raw)"
    using c(3) unfolding len_def by (rule begin_frame_split [OF c(1) assms(2) c(2)])
  moreover have "length (drop 4 raw) = len" using c(3) by simp
  ultimately show ?thesis
    using assms(3) j c(4,5) by (intro exI [of _ "drop 4 raw"] exI [of _ m])
      (simp add: upload_header_def holding_def rx_reset_def)
qed

lemma rx_pcm_Inr:
  assumes "rx_pcm raw (holding m chunks) = Inr r'" "hd raw = CAPTURE_PCM" "chunks_ok chunks"
  shows "\<exists>c. raw = pcm_frame (length chunks) c \<and> chunks_ok (chunks @ [c]) \<and> r' = holding m (chunks @ [c])"
proof -
  have c: "length raw = 3 + FRAME_BYTES" "be_decode (take 2 (drop 1 raw)) = length chunks"
    "length chunks < MAX_FRAMES" "r' = holding m (chunks @ [drop 3 raw])"
    using assms(1) by (auto simp: rx_pcm_def holding_def Let_def split: if_splits)
  moreover have "raw = pcm_frame (length chunks) (drop 3 raw)"
    using c(1,2) assms(2) by (intro pcm_frame_split) simp_all
  ultimately show ?thesis
    using assms(3) by (intro exI [of _ "drop 3 raw"]) (simp add: chunks_ok_def)
qed

lemma rx_end_Inr:
  assumes "rx_end k raw (holding m chunks) = Inr c" "hd raw = CAPTURE_END"
  shows "raw = end_frame k chunks \<and> chunks \<noteq> [] \<and> c = \<lparr>cap_metadata = m, cap_pcm = concat chunks\<rparr> \<and>
    equals_int (key m ''actualPrerollMs'') (int (length chunks) * 80) \<and> length (md5 k (concat chunks)) = 16"
proof -
  have c: "length raw = 23" "be_decode (take 2 (drop 1 raw)) = length chunks"
    "be_decode (take 4 (drop 3 raw)) = length (concat chunks)" "take 16 (drop 7 raw) = md5 k (concat chunks)"
    "chunks \<noteq> []" "equals_int (key m ''actualPrerollMs'') (int (length chunks) * 80)"
    "c = \<lparr>cap_metadata = m, cap_pcm = concat chunks\<rparr>"
    using assms(1) by (auto simp: rx_end_def holding_def Let_def split: if_splits)
  with end_frame_split [OF c(1) assms(2) c(2,3,4)] show ?thesis by simp
qed

lemma rx_reset_errors [simp]:
  "rx_metadata rx_reset = None" "rx_chunks rx_reset = []"
  by (simp_all add: rx_reset_def)

lemma rx_reset_refuses: "rx_pcm raw rx_reset = Inl ''invalid PCM frame''" "rx_end k raw rx_reset = Inl ''invalid end frame''"
  by (simp_all add: rx_pcm_def rx_end_def)

lemma rx_begin_holding: "rx_begin k raw (holding m cs) = Inl ''invalid begin''"
  by (simp add: rx_begin_def holding_def)

lemma feed_cases:
  obtains (err) e where "rx_feed k raw r = (Inl e, rx_reset)"
  | (starting) r' where "hd raw = CAPTURE_BEGIN" "rx_begin k raw r = Inr r'" "rx_feed k raw r = (Inr None, r')"
  | (chunk) r' where "hd raw = CAPTURE_PCM" "rx_pcm raw r = Inr r'" "rx_feed k raw r = (Inr None, r')"
  | (complete) c where "hd raw = CAPTURE_END" "rx_end k raw r = Inr c" "rx_feed k raw r = (Inr (Some c), rx_reset)"
proof -
  have "(\<exists>e. rx_feed k raw r = (Inl e, rx_reset)) \<or>
      (\<exists>r'. hd raw = CAPTURE_BEGIN \<and> rx_begin k raw r = Inr r' \<and> rx_feed k raw r = (Inr None, r')) \<or>
      (\<exists>r'. hd raw = CAPTURE_PCM \<and> rx_pcm raw r = Inr r' \<and> rx_feed k raw r = (Inr None, r')) \<or>
      (\<exists>c. hd raw = CAPTURE_END \<and> rx_end k raw r = Inr c \<and> rx_feed k raw r = (Inr (Some c), rx_reset))"
    by (auto simp: rx_feed_def Let_def split: sum.split)
  then show ?thesis using that by blast
qed

lemma receiving_start: "receiving k [] rx_reset"
  by (simp add: receiving_def)

lemma receiving_feed:
  assumes "receiving k fs (fed k fs)"
  shows "receiving k (fs @ [raw]) (fed k (fs @ [raw]))"
proof (cases k raw "fed k fs" rule: feed_cases)
  case (starting r')
  then have "fed k fs = rx_reset"
    using assms rx_begin_holding by (auto simp: receiving_def)
  with starting rx_begin_Inr [of k raw "fed k fs" r'] obtain meta m where
    "raw = begin_frame meta" "upload_header k meta m" "r' = holding m []" by blast
  moreover have "chunks_ok []" by (simp add: chunks_ok_def)
  ultimately show ?thesis
    using starting(3) \<open>fed k fs = rx_reset\<close> unfolding receiving_def fed_snoc
    by (metis append_Nil2 pcm_frames_Nil snd_conv append_assoc)
next
  case (chunk r')
  then have "fed k fs \<noteq> rx_reset" by (auto simp: rx_reset_refuses)
  with assms obtain pre meta chunks m where fs: "fs = pre @ [begin_frame meta] @ pcm_frames chunks"
    "fed k pre = rx_reset" "upload_header k meta m" "chunks_ok chunks" "fed k fs = holding m chunks"
    by (auto simp: receiving_def)
  with chunk rx_pcm_Inr [of raw m chunks r'] obtain c where
    "raw = pcm_frame (length chunks) c" "chunks_ok (chunks @ [c])" "r' = holding m (chunks @ [c])" by auto
  with fs chunk(3) show ?thesis
    unfolding receiving_def fed_snoc
    by (intro disjI2 exI [of _ pre] exI [of _ meta] exI [of _ "chunks @ [c]"] exI [of _ m])
      (simp add: pcm_frames_snoc)
qed (auto simp: receiving_def fed_snoc)

lemma receiving_fed: "receiving k fs (fed k fs)"
  by (induction fs rule: rev_induct) (use receiving_start receiving_feed in simp_all)

section \<open>A whole capture\<close>

lemma feed_begin_frame:
  assumes "upload_header k meta m"
  shows "rx_feed k (begin_frame meta) rx_reset = (Inr None, holding m [])"
proof -
  have len: "length meta < 256 ^ 2" using assms by (simp add: upload_header_def MAX_METADATA_BYTES_def)
  have "be_decode (take 2 (drop 2 (begin_frame meta))) = length meta"
    using be_decode_encode_at [OF len, of "[CAPTURE_BEGIN, PROTOCOL_VERSION]" 2 meta]
    by (simp add: begin_frame_def)
  with assms show ?thesis
    by (auto simp: rx_feed_def rx_begin_def Let_def upload_header_def holding_def rx_reset_def begin_frame_def)
qed

lemma feed_pcm_frame:
  assumes "length cs < MAX_FRAMES" "length c = FRAME_BYTES"
  shows "rx_feed k (pcm_frame (length cs) c) (holding m cs) = (Inr None, holding m (cs @ [c]))"
proof -
  have len: "length cs < 256 ^ 2" using assms(1) by (simp add: MAX_FRAMES_def)
  have "be_decode (take 2 (drop 1 (pcm_frame (length cs) c))) = length cs"
    using be_decode_encode_at [OF len, of "[CAPTURE_PCM]" 1 c] by (simp add: pcm_frame_def)
  with assms show ?thesis
    by (simp add: rx_feed_def rx_pcm_def Let_def holding_def) (simp add: pcm_frame_def)
qed

lemma chunk_bytes: "chunks_ok cs \<Longrightarrow> length (concat cs) = FRAME_BYTES * length cs"
  by (induction cs) (auto simp: chunks_ok_def)

lemma feed_end_frame:
  assumes "chunks_ok cs" "cs \<noteq> []" "equals_int (key m ''actualPrerollMs'') (int (length cs) * 80)"
    "length (md5 k (concat cs)) = 16"
  shows "rx_feed k (end_frame k cs) (holding m cs) = (Inr (Some \<lparr>cap_metadata = m, cap_pcm = concat cs\<rparr>), rx_reset)"
proof -
  have n: "length cs < 256 ^ 2" using assms(1) by (simp add: chunks_ok_def MAX_FRAMES_def)
  have b: "length (concat cs) < 256 ^ 4"
    using assms(1) chunk_bytes [OF assms(1)] by (simp add: chunks_ok_def MAX_FRAMES_def FRAME_BYTES_def)
  have "be_decode (take 2 (drop 1 (end_frame k cs))) = length cs"
    using be_decode_encode_at [OF n, of "[CAPTURE_END]" 1] by (simp add: end_frame_def)
  moreover have "be_decode (take 4 (drop 3 (end_frame k cs))) = length (concat cs)"
    using be_decode_encode_at [OF b, of "[CAPTURE_END] @ be_encode 2 (length cs)" 3 "md5 k (concat cs)"]
    by (simp add: end_frame_def)
  moreover have "take 16 (drop 7 (end_frame k cs)) = md5 k (concat cs)"
    using assms(4) by (simp add: end_frame_def)
  moreover have "length (end_frame k cs) = 23" "end_frame k cs \<noteq> []" "hd (end_frame k cs) = CAPTURE_END"
    using assms(4) by (simp_all add: end_frame_def)
  ultimately show ?thesis
    using assms(2-4) by (simp add: rx_feed_def rx_end_def Let_def holding_def)
qed

lemma fed_pcm_frames:
  "chunks_ok chunks \<Longrightarrow> fst (run (feed_step k) (holding m []) (pcm_frames chunks)) = holding m chunks"
proof (induction chunks rule: rev_induct)
  case Nil
  then show ?case by simp
next
  case (snoc c cs)
  then have "length cs < MAX_FRAMES" "length c = FRAME_BYTES" "chunks_ok cs"
    by (simp_all add: chunks_ok_def)
  with snoc.IH show ?case
    by (simp add: pcm_frames_snoc run_append_fst feed_step_def feed_pcm_frame)
qed

lemma fed_capture:
  assumes "fed k pre = rx_reset" "upload_header k meta m" "chunks_ok chunks"
  shows "fed k (pre @ [begin_frame meta] @ pcm_frames chunks) = holding m chunks"
  using assms by (simp add: run_append_fst feed_step_def feed_begin_frame fed_pcm_frames)

section \<open>Properties\<close>

text \<open>Claim C27: on any stream of frames, a frame completes a capture
  exactly when the frames since a reset state are one whole upload: a begin frame with valid metadata,
  PCM frames numbered from zero without a gap, each of the fixed size and at most 62 of them, and an
  end frame whose totals, announced duration and MD5 agree with them. The capture is then the validated
  metadata and the PCM of those frames, in order.\<close>

theorem capture_completes_iff:
  "fst (rx_feed k raw (fed k fs)) = Inr (Some c) \<longleftrightarrow>
     (\<exists>pre meta chunks. fs @ [raw] = pre @ capture_frames k meta chunks \<and> fed k pre = rx_reset \<and>
        well_formed_upload k meta chunks (cap_metadata c) \<and> cap_pcm c = concat chunks)"
proof
  assume fin: "fst (rx_feed k raw (fed k fs)) = Inr (Some c)"
  show "\<exists>pre meta chunks. fs @ [raw] = pre @ capture_frames k meta chunks \<and> fed k pre = rx_reset \<and>
        well_formed_upload k meta chunks (cap_metadata c) \<and> cap_pcm c = concat chunks"
  proof (cases k raw "fed k fs" rule: feed_cases)
    case (complete c')
    with fin have c: "c' = c" by simp
    from complete have "fed k fs \<noteq> rx_reset" by (auto simp: rx_reset_refuses)
    with receiving_fed [of k fs] obtain pre meta chunks m where
      fs: "fs = pre @ [begin_frame meta] @ pcm_frames chunks" "fed k pre = rx_reset"
        "upload_header k meta m" "chunks_ok chunks" "fed k fs = holding m chunks"
      by (auto simp: receiving_def)
    with complete rx_end_Inr [of k raw m chunks c'] c show ?thesis
      by (intro exI [of _ pre] exI [of _ meta] exI [of _ chunks])
        (simp add: capture_frames_def well_formed_upload_def)
  qed (use fin in simp_all)
next
  assume "\<exists>pre meta chunks. fs @ [raw] = pre @ capture_frames k meta chunks \<and> fed k pre = rx_reset \<and>
        well_formed_upload k meta chunks (cap_metadata c) \<and> cap_pcm c = concat chunks"
  then obtain pre meta chunks where eq: "fs @ [raw] = (pre @ [begin_frame meta] @ pcm_frames chunks) @ [end_frame k chunks]"
    and pre: "fed k pre = rx_reset" and ok: "well_formed_upload k meta chunks (cap_metadata c)" "cap_pcm c = concat chunks"
    by (auto simp: capture_frames_def)
  then have "fed k fs = holding (cap_metadata c) chunks" "raw = end_frame k chunks"
    using fed_capture [OF pre, of meta "cap_metadata c" chunks] by (auto simp: well_formed_upload_def)
  with ok show "fst (rx_feed k raw (fed k fs)) = Inr (Some c)"
    by (simp add: feed_end_frame well_formed_upload_def)
qed

text \<open>whatever frames a device sends, the receiver never
  holds more than 62 chunks of 2560 bytes, and after any frame that fails it holds nothing.\<close>

theorem upload_memory_bounded:
  "length (rx_chunks (fed k fs)) \<le> MAX_FRAMES \<and>
   length (concat (rx_chunks (fed k fs))) = FRAME_BYTES * length (rx_chunks (fed k fs)) \<and>
   (case rx_feed k raw (fed k fs) of (Inl e, r) \<Rightarrow> r = rx_reset | _ \<Rightarrow> True)"
proof -
  have "chunks_ok (rx_chunks (fed k fs))"
    using receiving_fed [of k fs] by (auto simp: receiving_def holding_def rx_reset_def chunks_ok_def)
  moreover have "case rx_feed k raw (fed k fs) of (Inl e, r) \<Rightarrow> r = rx_reset | _ \<Rightarrow> True"
    by (cases k raw "fed k fs" rule: feed_cases) auto
  ultimately show ?thesis by (simp add: chunk_bytes) (simp add: chunks_ok_def)
qed

end
