(* ===== verification/Captures.thy ===== *)
theory Captures
  imports CaptureUpload
begin

text \<open>
  The store of wake-training captures, \<open>controller/em_training_captures.py\<close>, and the handler of
  \<open>controller/em_controller.py\<close> that commits an uploaded capture to it. The store is the list of the
  WAV files under \<open>training_captures/<model>/<bucket>/\<close>, in the order the directories list them, each
  with its trim and provenance sidecars; other files are left out. Whether the file system carries
  out an operation is a parameter: \<open>unlink_ok\<close> for one name, \<open>commit_ok\<close> and \<open>move_ok\<close> for a commit or
  a move as a whole, which the code undoes when a part of it fails.
\<close>

section \<open>Names\<close>

definition BUCKETS :: "string list" where
  "BUCKETS = [''untriaged'', ''positive'', ''negative'']"

definition KINDS :: "string list" where
  "KINDS = [''act'', ''miss'', ''stop_act'', ''stop_miss'', ''false_stop'', ''playback_negative'']"

definition UNTRIAGED_CAP :: nat where "UNTRIAGED_CAP = 200"

definition id_char :: "char \<Rightarrow> bool" where
  "id_char c \<longleftrightarrow> is_alnum c \<or> c \<in> set ''_.-''"

definition safe_device_id :: "string \<Rightarrow> string option" where
  "safe_device_id i = (if matches id_char 1 64 i then Some i else None)"

definition safe_model :: "string \<Rightarrow> string option" where
  "safe_model m = (if matches id_char 1 80 m then Some m else None)"

definition score_milli :: "rat \<Rightarrow> nat" where
  "score_milli score = nat (max 0 (min (py_round (score * 1000)) 99999))"

definition pad4 :: "string \<Rightarrow> string" where
  "pad4 s = replicate (4 - length s) (CHR ''0'') @ s"

definition filename :: "string \<Rightarrow> int \<Rightarrow> string \<Rightarrow> rat \<Rightarrow> string option" where
  "filename dev ts kind score =
     (case safe_device_id dev of
        None \<Rightarrow> None
      | Some safe \<Rightarrow>
          if kind \<notin> set KINDS \<or> ts < 0 then None
          else Some (safe @ ''_'' @ str_of_nat (nat ts) @ ''_'' @ kind @ ''_'' @
                     pad4 (str_of_nat (score_milli score)) @ ''.wav''))"

record capture_name =
  cn_device :: string
  cn_ts :: nat
  cn_kind :: string
  cn_milli :: nat

text \<open>The last occurrence of a character splits a string.\<close>

definition rsplit :: "char \<Rightarrow> string \<Rightarrow> (string \<times> string) option" where
  "rsplit c s =
     (let t = rev (takeWhile (\<lambda>x. x \<noteq> c) (rev s)) in
      if length t = length s then None else Some (take (length s - length t - 1) s, t))"

definition digits :: "nat \<Rightarrow> nat \<Rightarrow> string \<Rightarrow> bool" where
  "digits lo hi s = matches is_digit lo hi s"

definition strip_suffix :: "string \<Rightarrow> string \<Rightarrow> string option" where
  "strip_suffix x s = (if endswith s x then Some (take (length s - length x) s) else None)"

text \<open>
  \<open>_NAME_RE.match\<close>, read from the right: the score, the kind, the time and the device. Digits and
  scores hold no underscore and a kind is preceded by digits, so at most one reading exists. The
  dollar of the pattern also matches before a final newline.
\<close>

definition parse_kind :: "string \<Rightarrow> nat \<Rightarrow> string \<Rightarrow> capture_name option" where
  "parse_kind r m kind =
     Option.bind (strip_suffix (''_'' @ kind) r) (\<lambda>p.
     Option.bind (rsplit (CHR ''_'') p) (\<lambda>(dev, ts).
       if digits 1 19 ts \<and> matches id_char 1 64 dev
       then Some \<lparr>cn_device = dev, cn_ts = nat_of_str ts, cn_kind = kind, cn_milli = m\<rparr> else None))"

definition parse_filename :: "string \<Rightarrow> capture_name option" where
  "parse_filename name =
     (let s = (if endswith name [char_of (10::nat)] then butlast name else name) in
      Option.bind (strip_suffix ''.wav'' s) (\<lambda>p.
      Option.bind (rsplit (CHR ''_'') p) (\<lambda>(r, score).
        if digits 1 5 score
        then List.find (\<lambda>x. True) (List.map_filter (parse_kind r (nat_of_str score)) KINDS)
        else None)))"

section \<open>The store\<close>

record capture =
  cp_model :: string
  cp_bucket :: string
  cp_name :: string
  cp_pcm :: bytes
  cp_trim :: "(rat \<times> rat) option"
  cp_meta :: "metadata option"

type_synonym captures = "capture list"

definition at_path :: "string \<Rightarrow> string \<Rightarrow> string \<Rightarrow> capture \<Rightarrow> bool" where
  "at_path m b n c \<longleftrightarrow> cp_model c = m \<and> cp_bucket c = b \<and> cp_name c = n"

definition in_bucket :: "string \<Rightarrow> string \<Rightarrow> captures \<Rightarrow> captures" where
  "in_bucket m b cs = filter (\<lambda>c. cp_model c = m \<and> cp_bucket c = b) cs"

text \<open>\<open>list_captures\<close>: the names that parse, newest first.\<close>

definition capture_ts :: "capture \<Rightarrow> int" where
  "capture_ts c = (case parse_filename (cp_name c) of None \<Rightarrow> 0 | Some f \<Rightarrow> int (cn_ts f))"

definition list_captures :: "string \<Rightarrow> string \<Rightarrow> captures \<Rightarrow> captures" where
  "list_captures m b cs =
     (if safe_model m = None \<or> b \<notin> set BUCKETS then []
      else sort_key (\<lambda>c. - capture_ts c)
             (filter (\<lambda>c. parse_filename (cp_name c) \<noteq> None) (in_bucket m b cs)))"

definition resolve :: "string \<Rightarrow> string \<Rightarrow> captures \<Rightarrow> capture option" where
  "resolve m n cs =
     (if parse_filename n = None \<or> safe_model m = None then None
      else List.find (\<lambda>x. True)
             (List.map_filter (\<lambda>b. List.find (at_path m b n) cs) BUCKETS))"

definition remove_at :: "string \<Rightarrow> string \<Rightarrow> string \<Rightarrow> captures \<Rightarrow> captures" where
  "remove_at m b n cs = filter (\<lambda>c. \<not> at_path m b n c) cs"

definition prune_untriaged :: "nat \<Rightarrow> (string \<Rightarrow> bool) \<Rightarrow> string \<Rightarrow> captures \<Rightarrow> captures" where
  "prune_untriaged cap unlink_ok m cs =
     foldl (\<lambda>cs c. if unlink_ok (cp_name c) then remove_at m ''untriaged'' (cp_name c) cs else cs) cs
       (drop cap (list_captures m ''untriaged'' cs))"

section \<open>Committing an upload\<close>

definition dict_eq :: "metadata \<Rightarrow> metadata \<Rightarrow> bool" where
  "dict_eq a b \<longleftrightarrow> list_all (\<lambda>(k, v). map_of b k = map_of a k) a \<and> list_all (\<lambda>(k, v). map_of a k = map_of b k) b"

definition find_uploaded :: "string \<Rightarrow> string \<Rightarrow> json \<Rightarrow> captures \<Rightarrow> capture option" where
  "find_uploaded m dev cid cs =
     (if safe_model m = None then None
      else List.find (\<lambda>x. True)
        (List.map_filter (\<lambda>b. List.find (\<lambda>c. opt_holds (\<lambda>meta.
             map_of meta ''device_id'' = Some (JStr dev) \<and> key meta ''captureId'' = cid) (cp_meta c))
           (in_bucket m b cs)) BUCKETS))"

text \<open>
  The loop that steps the time stamp while the path exists. There are fewer names than candidates,
  so one is free (\<open>fresh_name_found\<close>).
\<close>

definition fresh_name :: "string \<Rightarrow> nat \<Rightarrow> string \<Rightarrow> rat \<Rightarrow> string list \<Rightarrow> string option" where
  "fresh_name dev ts kind score names =
     List.find (\<lambda>n. n \<notin> set names)
       (List.map_filter (\<lambda>i. filename dev (int (ts + i)) kind score) [0..<Suc (length names)])"

definition score_of :: "metadata \<Rightarrow> rat" where
  "score_of meta = (case json_num (key meta ''score'') of None \<Rightarrow> 0 | Some x \<Rightarrow> x)"

definition save_uploaded ::
  "nat \<Rightarrow> bool \<Rightarrow> (string \<Rightarrow> bool) \<Rightarrow> nat \<Rightarrow> string \<Rightarrow> string \<Rightarrow> metadata \<Rightarrow> bytes \<Rightarrow> captures \<Rightarrow>
     (string option \<times> bool) \<times> captures" where
  "save_uploaded cap commit_ok unlink_ok now m dev meta pcm cs =
     (case safe_device_id dev of
        None \<Rightarrow> ((None, False), cs)
      | Some safe \<Rightarrow>
          if json_str (key meta ''captureId'') = None \<or>
             \<not> is_kind [''act'', ''miss'', ''stop_act'', ''stop_miss''] (key meta ''kind'') \<or>
             safe_model m = None \<or> pcm = []
          then ((None, False), cs)
          else let full = put ''device_id'' (JStr safe) meta in
            (case find_uploaded m safe (key meta ''captureId'') cs of
               Some c \<Rightarrow>
                 ((if opt_holds (\<lambda>old. dict_eq old full) (cp_meta c) then Some (cp_name c) else None, False), cs)
             | None \<Rightarrow>
                 (case fresh_name safe now (the (json_str (key meta ''kind''))) (score_of meta)
                         (map cp_name (in_bucket m ''untriaged'' cs)) of
                    None \<Rightarrow> ((None, False), cs)
                  | Some n \<Rightarrow>
                      if commit_ok
                      then ((Some n, True), prune_untriaged cap unlink_ok m
                              (cs @ [\<lparr>cp_model = m, cp_bucket = ''untriaged'', cp_name = n, cp_pcm = pcm,
                                      cp_trim = None, cp_meta = Some full\<rparr>]))
                      else ((None, False), cs))))"

section \<open>Triage and export\<close>

definition write_trim :: "rat \<Rightarrow> rat \<Rightarrow> bytes \<Rightarrow> bool" where
  "write_trim start fin pcm \<longleftrightarrow>
     (let duration = of_nat (length pcm div 2) * 1000 / 16000 in
      0 \<le> start \<and> start < fin \<and> fin \<le> duration \<and> start < duration)"

definition replace_trim :: "(rat \<times> rat) option \<Rightarrow> capture \<Rightarrow> capture" where
  "replace_trim t c = (case t of None \<Rightarrow> c | Some x \<Rightarrow> c\<lparr>cp_trim := Some x\<rparr>)"

text \<open>\<open>float\<close> of a value of the request body; \<open>fl\<close> reads a string, \<open>None\<close> if it is no finite number.\<close>

definition to_float :: "(string \<Rightarrow> rat option) \<Rightarrow> json \<Rightarrow> rat option" where
  "to_float fl v = (case json_str v of Some s \<Rightarrow> fl s | None \<Rightarrow> json_num v)"

text \<open>The trim a label asks for: an error, none, or the two times.\<close>

definition asked_trim ::
  "(string \<Rightarrow> rat option) \<Rightarrow> json \<Rightarrow> json \<Rightarrow> bytes \<Rightarrow> (rat \<times> rat) option option" where
  "asked_trim fl start fin pcm =
     (if (start = JNull) \<noteq> (fin = JNull) then None
      else if start = JNull then Some None
      else (case (to_float fl start, to_float fl fin) of
              (Some s, Some f) \<Rightarrow> if write_trim s f pcm then Some (Some (s, f)) else None
            | _ \<Rightarrow> None))"

text \<open>
  Renaming over a capture of the same name overwrites it; a sidecar the moved capture does not have
  keeps what was there.
\<close>

definition move_to :: "string \<Rightarrow> capture \<Rightarrow> captures \<Rightarrow> captures" where
  "move_to target src cs =
     (let old = List.find (at_path (cp_model src) target (cp_name src)) cs;
          moved = src\<lparr>cp_bucket := target,
            cp_trim := (case cp_trim src of None \<Rightarrow> Option.bind old cp_trim | t \<Rightarrow> t),
            cp_meta := (case cp_meta src of None \<Rightarrow> Option.bind old cp_meta | t \<Rightarrow> t)\<rparr> in
      remove_at (cp_model src) target (cp_name src)
        (remove_at (cp_model src) (cp_bucket src) (cp_name src) cs) @ [moved])"

definition label_capture :: "bool \<Rightarrow> (string \<Rightarrow> rat option) \<Rightarrow> string \<Rightarrow> string \<Rightarrow> string \<Rightarrow>
    json \<Rightarrow> json \<Rightarrow> captures \<Rightarrow> bool \<times> captures" where
  "label_capture move_ok fl m n target start fin cs =
     (if target \<notin> set BUCKETS then (False, cs)
      else case resolve m n cs of
        None \<Rightarrow> (False, cs)
      | Some src \<Rightarrow>
          (case asked_trim fl start fin (cp_pcm src) of
             None \<Rightarrow> (False, cs)
           | Some trim \<Rightarrow>
               let cs' = map (\<lambda>c. if at_path m (cp_bucket src) n c then replace_trim trim c else c) cs in
               if cp_bucket src = target then (True, cs')
               else if \<not> move_ok then (False, cs')
               else (True, move_to target (replace_trim trim src) cs')))"

definition discard :: "(string \<Rightarrow> bool) \<Rightarrow> string \<Rightarrow> string \<Rightarrow> captures \<Rightarrow> bool \<times> captures" where
  "discard unlink_ok m n cs =
     (case resolve m n cs of
        None \<Rightarrow> (False, cs)
      | Some c \<Rightarrow> if unlink_ok n then (True, remove_at m (cp_bucket c) n cs) else (False, cs))"

text \<open>The frames between two times; the whole recording when they leave nothing.\<close>

definition cropped :: "capture \<Rightarrow> bytes" where
  "cropped c =
     (case cp_trim c of
        None \<Rightarrow> cp_pcm c
      | Some (s, f) \<Rightarrow>
          let a = nat (max 0 (py_int (s * 16000 / 1000)));
              b = min (length (cp_pcm c) div 2) (nat (py_int (f * 16000 / 1000))) in
          if b \<le> a then cp_pcm c else take (2 * (b - a)) (drop (2 * a) (cp_pcm c)))"

definition export_zip :: "bool \<Rightarrow> (string \<Rightarrow> bool) \<Rightarrow> string \<Rightarrow> captures \<Rightarrow>
    (string \<times> string \<times> bytes \<times> metadata option) list \<times> captures" where
  "export_zip delete_after unlink_ok m cs =
     (let exported = concat (map (\<lambda>b. list_captures m b cs) [''positive'', ''negative'']) in
      (map (\<lambda>c. (cp_bucket c, cp_name c, cropped c, cp_meta c)) exported,
       if delete_after
       then foldl (\<lambda>cs c. if unlink_ok (cp_name c) then remove_at m (cp_bucket c) (cp_name c) cs else cs)
              cs exported
       else cs))"

definition delete_captures_of :: "(string \<Rightarrow> bool) \<Rightarrow> string \<Rightarrow> captures \<Rightarrow> nat \<times> captures" where
  "delete_captures_of unlink_ok dev cs =
     (case safe_device_id dev of
        None \<Rightarrow> (0, cs)
      | Some safe \<Rightarrow>
          let gone = (\<lambda>c. cp_bucket c \<in> set BUCKETS \<and> unlink_ok (cp_name c) \<and>
                opt_holds (\<lambda>f. cn_device f = safe) (parse_filename (cp_name c))) in
          (length (filter gone cs), filter (\<lambda>c. \<not> gone c) cs))"


section \<open>Names read back\<close>

lemma strip_suffix_append [simp]: "strip_suffix x (p @ x) = Some p"
  by (simp add: strip_suffix_def)

lemma rsplit_append: "c \<notin> set b \<Longrightarrow> rsplit c (a @ c # b) = Some (a, b)"
  by (simp add: rsplit_def takeWhile_append)

lemma length_str_of_nat: "n < 10 ^ Suc k \<Longrightarrow> length (str_of_nat n) \<le> Suc k"
proof (induction k arbitrary: n)
  case 0
  then show ?case by (simp add: str_of_nat.simps)
next
  case (Suc k)
  then have "n div 10 < 10 ^ Suc k" by (simp add: less_mult_imp_div_less)
  from Suc.IH [OF this] show ?case by (subst str_of_nat.simps) auto
qed

lemma foldl_zeros: "foldl (\<lambda>a c. 10 * a + (of_char c - 48)) 0 (replicate k (CHR ''0'')) = (0::nat)"
  by (induction k) auto

lemma nat_of_str_pad4 [simp]: "nat_of_str (pad4 s) = nat_of_str s"
  by (simp add: nat_of_str_def pad4_def foldl_zeros)


lemma strip_suffix_last: "s \<noteq> [] \<Longrightarrow> x \<noteq> [] \<Longrightarrow> last s \<noteq> last x \<Longrightarrow> strip_suffix x s = None"
  unfolding strip_suffix_def endswith_def by (metis append_take_drop_id last_appendR)

lemma strip_suffix_append_other:
  "length x = length y \<Longrightarrow> x \<noteq> y \<Longrightarrow> strip_suffix x (p @ y) = None"
  by (auto simp: strip_suffix_def endswith_def)

lemma no_underscore: "list_all is_digit s \<Longrightarrow> CHR ''_'' \<notin> set s"
  by (auto simp: list_all_iff is_digit_def in_range_def)

lemma pad4_digits: "list_all is_digit s \<Longrightarrow> list_all is_digit (pad4 s)"
  by (auto simp: pad4_def list_all_iff is_digit_def in_range_def)

lemma score_milli_digits:
  "list_all is_digit (pad4 (str_of_nat (score_milli score)))"
  "digits 1 5 (pad4 (str_of_nat (score_milli score)))"
proof -
  have "score_milli score < 10 ^ Suc 4" by (simp add: score_milli_def)
  then have "length (str_of_nat (score_milli score)) \<le> Suc 4" by (rule length_str_of_nat)
  then show "digits 1 5 (pad4 (str_of_nat (score_milli score)))"
    using str_of_nat_digits [of "score_milli score"] pad4_digits
    by (auto simp: digits_def matches_def pad4_def Suc_le_eq)
  show "list_all is_digit (pad4 (str_of_nat (score_milli score)))"
    using str_of_nat_digits pad4_digits by blast
qed

lemma parse_kind_same:
  assumes "list_all is_digit t" "digits 1 19 t" "matches id_char 1 64 dev"
  shows "parse_kind (dev @ ''_'' @ t @ ''_'' @ kind) m kind =
    Some \<lparr>cn_device = dev, cn_ts = nat_of_str t, cn_kind = kind, cn_milli = m\<rparr>"
proof -
  have "strip_suffix (''_'' @ kind) (dev @ ''_'' @ t @ ''_'' @ kind) = Some (dev @ CHR ''_'' # t)"
    using strip_suffix_append [of "''_'' @ kind" "dev @ CHR ''_'' # t"] by simp
  then show ?thesis
    using assms rsplit_append [OF no_underscore [OF assms(1)], of dev] by (simp add: parse_kind_def)
qed

text \<open>Another kind's suffix does not fit, or what it leaves before it is no time.\<close>

lemma strip_suffix_iff: "strip_suffix x s = Some p \<longleftrightarrow> s = p @ x"
  by (auto simp: strip_suffix_def endswith_def) (metis append_take_drop_id)

lemma parse_kind_SomeD:
  assumes "parse_kind r m kind = Some f"
  obtains p d s where "r = p @ ''_'' @ kind" "rsplit (CHR ''_'') p = Some (d, s)" "digits 1 19 s"
  using assms unfolding parse_kind_def bind_eq_Some_conv strip_suffix_iff
  by (auto split: if_splits)

lemma parse_kind_other:
  assumes t: "list_all is_digit t" "t \<noteq> []" and k: "kind \<in> set KINDS" "k \<in> set KINDS" "k \<noteq> kind"
  shows "parse_kind (dev @ ''_'' @ t @ ''_'' @ kind) m k = None"
proof (rule ccontr)
  assume "\<not> ?thesis"
  then obtain p d s where p: "dev @ ''_'' @ t @ ''_'' @ kind = p @ ''_'' @ k"
    and r: "rsplit (CHR ''_'') p = Some (d, s)" "digits 1 19 s"
    by (meson not_None_eq parse_kind_SomeD)
  obtain c u where u: "rev t = c # u" using t(2) by (cases "rev t") auto
  have "c \<in> set (rev t)" by (simp add: u)
  then have c: "is_digit c" using t(1) by (simp add: list_all_iff)
  from arg_cong [OF p, of rev]
  have p': "rev kind @ ''_'' @ c # u @ ''_'' @ rev dev = rev k @ ''_'' @ rev p" by (simp add: u)
  have "last kind = last k"
    using arg_cong [OF p', of hd] k(1,2) by (auto simp: hd_append hd_rev KINDS_def)
  moreover have "list_all (\<lambda>x. list_all (\<lambda>y. last x = last y \<and> x \<noteq> y \<longrightarrow>
      x = ''stop_'' @ y \<or> y = ''stop_'' @ x) KINDS) KINDS"
    by code_simp
  ultimately consider (long) "kind = ''stop_'' @ k" | (short) "k = ''stop_'' @ kind"
    using k by (auto simp: list_all_iff)
  then have "rev p = ''pots_'' @ c # u @ ''_'' @ rev dev"
  proof cases
    case long then show ?thesis using p' by simp
  next
    case short then show ?thesis using p' c by (simp add: is_digit_def in_range_def)
  qed
  then have "p = (dev @ ''_'' @ t) @ CHR ''_'' # ''stop''" using u
    by (metis append.assoc append_Cons append_Nil rev.simps(2) rev_append rev_rev_ident)
  then have "s = ''stop''"
    using r(1) rsplit_append [of "CHR ''_''" "''stop''" "dev @ ''_'' @ t"] by simp
  with r(2) show False by (simp add: digits_def matches_def is_digit_def in_range_def)
qed


lemma find_first: "list_all (\<lambda>k. f k = None \<or> f k = Some x) ks \<Longrightarrow> k \<in> set ks \<Longrightarrow> f k = Some x \<Longrightarrow>
    List.find (\<lambda>x. True) (List.map_filter f ks) = Some x"
  by (induction ks) (auto simp: List.map_filter_simps)

lemma parse_filename_of:
  assumes "filename dev ts kind score = Some n" "ts < 10 ^ 19"
  shows "parse_filename n = Some \<lparr>cn_device = dev, cn_ts = nat ts, cn_kind = kind, cn_milli = score_milli score\<rparr>"
proof -
  define t where "t = str_of_nat (nat ts)"
  define sc where "sc = pad4 (str_of_nat (score_milli score))"
  define r where "r = dev @ ''_'' @ t @ ''_'' @ kind"
  have dev: "matches id_char 1 64 dev" and k: "kind \<in> set KINDS" and n: "n = (r @ CHR ''_'' # sc) @ ''.wav''"
    using assms(1) by (auto simp: filename_def safe_device_id_def t_def sc_def r_def split: if_splits)
  have t: "list_all is_digit t" "t \<noteq> []" "nat_of_str t = nat ts"
    using str_of_nat_digits by (auto simp: t_def nat_of_str_of_nat)
  have "nat ts < 10 ^ Suc 18" using assms(2) by (simp add: nat_less_iff)
  then have "digits 1 19 t"
    using t length_str_of_nat [of "nat ts" 18] by (cases t) (auto simp: digits_def matches_def t_def)
  then have same: "parse_kind r m kind = Some \<lparr>cn_device = dev, cn_ts = nat ts, cn_kind = kind, cn_milli = m\<rparr>" for m
    unfolding r_def using parse_kind_same [OF t(1) _ dev] t(3) by simp
  have "parse_kind r m k' = None \<or> parse_kind r m k' = parse_kind r m kind" if "k' \<in> set KINDS" for m k'
    using parse_kind_other [OF t(1,2) k that, of dev m] by (cases "k' = kind") (auto simp: r_def)
  then have found: "List.find (\<lambda>x. True) (List.map_filter (parse_kind r (score_milli score)) KINDS) =
      Some \<lparr>cn_device = dev, cn_ts = nat ts, cn_kind = kind, cn_milli = score_milli score\<rparr>"
    using same k by (intro find_first [where k = kind]) (auto simp: list_all_iff)
  have sc: "CHR ''_'' \<notin> set sc" "digits 1 5 sc" "nat_of_str sc = score_milli score"
    using score_milli_digits [of score] no_underscore by (auto simp: sc_def nat_of_str_of_nat)
  have nl: "\<not> endswith n [char_of (10::nat)]"
    using strip_suffix_last [of n "[char_of (10::nat)]"]
    by (simp add: n strip_suffix_def char_of_def split: if_splits)
  have "parse_filename n = Option.bind (strip_suffix ''.wav'' n) (\<lambda>p.
      Option.bind (rsplit (CHR ''_'') p) (\<lambda>(r, score).
        if digits 1 5 score
        then List.find (\<lambda>x. True) (List.map_filter (parse_kind r (nat_of_str score)) KINDS)
        else None))"
    using nl by (simp add: parse_filename_def)
  also have "strip_suffix ''.wav'' n = Some (r @ CHR ''_'' # sc)"
    unfolding n by (rule strip_suffix_append)
  finally show ?thesis
    using sc(2,3) found rsplit_append [OF sc(1), of r] by simp
qed


section \<open>A free name\<close>

lemma filename_inject:
  "filename dev ts kind s = Some n \<Longrightarrow> filename dev ts' kind s = Some n \<Longrightarrow> ts = ts'"
  by (auto simp: filename_def split: option.splits if_splits)

lemma filename_later: "filename dev ts kind s = Some n \<Longrightarrow> \<exists>n'. filename dev (ts + int i) kind s = Some n'"
  by (auto simp: filename_def split: option.splits if_splits)

lemma fresh_name_found:
  assumes "filename dev (int ts) kind s = Some n0"
  obtains n i where "fresh_name dev ts kind s names = Some n" "n \<notin> set names"
    "filename dev (int (ts + i)) kind s = Some n" "i \<le> length names"
proof -
  define f where "f = (\<lambda>i. filename dev (int (ts + i)) kind s)"
  define ns where "ns = map (\<lambda>i. the (f i)) [0..<Suc (length names)]"
  have f: "f i = Some (the (f i))" for i
    using filename_later [OF assms, of i] by (auto simp: f_def)
  then have "f i \<noteq> None" for i by (metis option.distinct(1))
  then have "List.map_filter f is = map (\<lambda>i. the (f i)) is" for "is"
    by (simp add: List.map_filter_def comp_def)
  then have found: "fresh_name dev ts kind s names = List.find (\<lambda>n. n \<notin> set names) ns"
    unfolding fresh_name_def ns_def f_def [symmetric] by simp
  have "inj (\<lambda>i. the (f i))"
    by (rule injI) (metis f f_def filename_inject add_left_cancel of_nat_eq_iff)
  then have "distinct ns" unfolding ns_def distinct_map by (meson distinct_upt inj_on_subset subset_UNIV)
  then have "card (set ns) = Suc (length names)" by (simp only: distinct_card) (simp add: ns_def)
  then have "\<not> set ns \<subseteq> set names"
    using card_mono [of "set names" "set ns"] card_length [of names] by auto
  then have "List.find (\<lambda>n. n \<notin> set names) ns \<noteq> None" by (auto simp: find_None_iff)
  then obtain n where n: "List.find (\<lambda>n. n \<notin> set names) ns = Some n" by auto
  then have "n \<in> set ns" "n \<notin> set names" by (auto simp: find_Some_iff)
  then obtain i where "f i = Some n" "i \<le> length names" using f by (force simp: ns_def simp del: upt_Suc)
  with n found \<open>n \<notin> set names\<close> that show thesis by (simp add: f_def)
qed

section \<open>Operations as filters and replacements\<close>

definition path :: "capture \<Rightarrow> string \<times> string \<times> string" where
  "path c = (cp_model c, cp_bucket c, cp_name c)"

lemma at_path_iff: "at_path m b n c \<longleftrightarrow> path c = (m, b, n)"
  by (auto simp: at_path_def path_def)

lemma remove_each:
  "foldl (\<lambda>cs c. if ok (cp_name c) then remove_at m (b c) (cp_name c) cs else cs) cs xs =
   filter (\<lambda>c. \<not> (\<exists>x \<in> set xs. ok (cp_name x) \<and> at_path m (b x) (cp_name x) c)) cs"
  by (induction xs arbitrary: cs) (auto simp: remove_at_def intro!: filter_cong)

lemma prune_untriaged_eq:
  "prune_untriaged cap ok m cs = filter (\<lambda>c. \<not> (\<exists>x \<in> set (drop cap (list_captures m ''untriaged'' cs)).
     ok (cp_name x) \<and> at_path m ''untriaged'' (cp_name x) c)) cs"
  unfolding prune_untriaged_def by (rule remove_each [where b = "\<lambda>_. ''untriaged''"])

lemma export_store_eq:
  "snd (export_zip del ok m cs) = filter (\<lambda>c. \<not> (del \<and> (\<exists>x \<in> set (concat (map (\<lambda>b. list_captures m b cs)
     [''positive'', ''negative''])). ok (cp_name x) \<and> at_path m (cp_bucket x) (cp_name x) c))) cs"
  unfolding export_zip_def Let_def snd_conv remove_each by (cases del) auto

lemma discard_eq:
  "snd (discard ok m n cs) = filter (\<lambda>c. \<not> (ok n \<and> (\<exists>x. resolve m n cs = Some x \<and> at_path m (cp_bucket x) n c))) cs"
  by (auto simp: discard_def remove_at_def split: option.splits)

lemma set_list_captures:
  "set (list_captures m b cs) = (if safe_model m = None \<or> b \<notin> set BUCKETS then {}
     else {c \<in> set cs. cp_model c = m \<and> cp_bucket c = b \<and> parse_filename (cp_name c) \<noteq> None})"
  by (auto simp: list_captures_def in_bucket_def)

lemma find_mapped_SomeD:
  "List.find (\<lambda>x. True) (List.map_filter f ks) = Some x \<Longrightarrow> \<exists>k \<in> set ks. f k = Some x"
  by (induction ks) (auto simp: List.map_filter_simps split: option.splits)

lemma find_mapped_None:
  "List.find (\<lambda>x. True) (List.map_filter f ks) = None \<longleftrightarrow> (\<forall>k \<in> set ks. f k = None)"
  by (induction ks) (auto simp: List.map_filter_simps split: option.splits)

lemma resolve_SomeD:
  assumes "resolve m n cs = Some c"
  shows "c \<in> set cs" "path c = (m, cp_bucket c, n)" "cp_bucket c \<in> set BUCKETS" "safe_model m \<noteq> None"
proof -
  from assms obtain b where b: "b \<in> set BUCKETS" "List.find (at_path m b n) cs = Some c" "safe_model m \<noteq> None"
    unfolding resolve_def by (auto split: if_splits dest!: find_mapped_SomeD)
  then have "c \<in> set cs" "path c = (m, b, n)" by (auto simp: find_Some_iff at_path_iff)
  with b show "c \<in> set cs" "path c = (m, cp_bucket c, n)" "cp_bucket c \<in> set BUCKETS" "safe_model m \<noteq> None"
    by (auto simp: path_def)
qed

end
