(* ===== verification/ModelNames.thy ===== *)
theory ModelNames
  imports Prelude
begin

text \<open>
  \<open>controller/em_oww_models.py\<close>: the names of wake-word and stop-word models, which uploaded file names
  are accepted, and which configurations refer to a model.
\<close>

definition ONNX :: string where "ONNX = ''.onnx''"

text \<open>\<open>os.path.basename\<close>; for a path that ends in \<open>.onnx\<close> also \<open>Path.name\<close>.\<close>

definition base_name :: "string \<Rightarrow> string" where
  "base_name p = rev (takeWhile (\<lambda>c. c \<noteq> CHR ''/'') (rev p))"

definition path_stem :: "string \<Rightarrow> string" where
  "path_stem p = (let n = base_name p in if n = ONNX then n else take (length n - 5) n)"

definition prediction_key :: "string \<Rightarrow> string" where
  "prediction_key m = (if endswith m ONNX then path_stem m else m)"

text \<open>\<open>_STEM_RE\<close>; its \<open>$\<close> also matches before a final newline.\<close>

definition stem_char :: "char \<Rightarrow> bool" where
  "stem_char c \<longleftrightarrow> is_alnum c \<or> c \<in> {CHR ''_'', CHR ''.'', CHR ''-''}"

definition stem_full :: "string \<Rightarrow> bool" where
  "stem_full s = (case s of [] \<Rightarrow> False | c # cs \<Rightarrow> is_alnum c \<and> length cs \<le> 63 \<and> list_all stem_char cs)"

definition stem_ok :: "string \<Rightarrow> bool" where
  "stem_ok s \<longleftrightarrow> stem_full s \<or> (s \<noteq> [] \<and> last s = CHR 0x0A \<and> stem_full (butlast s))"

definition safe_model_filename :: "string \<Rightarrow> string option" where
  "safe_model_filename filename =
     (let base = base_name filename in
      if endswith base ONNX \<and> stem_ok (take (length base - 5) base) then Some base else None)"

text \<open>Resolving a path, symbolic links included, is the function \<open>resolve\<close>.\<close>

definition in_use_by ::
  "(string \<Rightarrow> string) \<Rightarrow> string \<Rightarrow> (string \<times> string list) list \<Rightarrow> string list" where
  "in_use_by resolve path configs =
     map fst (filter (\<lambda>(_, refs). list_ex (\<lambda>r. endswith r ONNX \<and> resolve r = resolve path) refs) configs)"

end
