(* ===== verification/CaptureRequests.thy ===== *)
theory CaptureRequests
  imports Captures ModelNames
begin

text \<open>
  The store of wake-training captures in use: every operation the controller and the dashboard run
  on it, as the steps of one machine, and the handler of \<open>controller/em_controller.py\<close> that takes a
  completed upload of a device into the store and acknowledges it. The lemmas show that a path and an
  upload are in the store once, what each operation may remove, and that switching captures off
  leaves nothing new behind.
\<close>

section \<open>The store as a machine\<close>

text \<open>The outcomes of the file system in one operation, and how \<open>float\<close> reads strings.\<close>

record filesystem =
  commit_ok :: bool
  move_ok :: bool
  unlink_ok :: "string \<Rightarrow> bool"
  read_float :: "string \<Rightarrow> rat option"

datatype store_op =
  is_SaveUploaded: SaveUploaded nat string string metadata bytes
| LabelCapture string string string json json
| Discard string string
| ExportZip string bool
| DeleteDevice string

datatype store_reply =
  Saved "string option" bool
| Done bool
| Archive "(string \<times> string \<times> bytes \<times> metadata option) list"
| Deleted nat

fun store_step :: "nat \<Rightarrow> captures \<Rightarrow> filesystem \<times> store_op \<Rightarrow> captures \<times> store_reply" where
  "store_step cap cs (fs, SaveUploaded now m dev meta pcm) =
     (case save_uploaded cap (commit_ok fs) (unlink_ok fs) now m dev meta pcm cs of
        ((n, created), cs') \<Rightarrow> (cs', Saved n created))"
| "store_step cap cs (fs, LabelCapture m n target start fin) =
     (case label_capture (move_ok fs) (read_float fs) m n target start fin cs of
        (ok, cs') \<Rightarrow> (cs', Done ok))"
| "store_step cap cs (fs, Discard m n) =
     (case discard (unlink_ok fs) m n cs of (ok, cs') \<Rightarrow> (cs', Done ok))"
| "store_step cap cs (fs, ExportZip m delete_after) =
     (case export_zip delete_after (unlink_ok fs) m cs of (z, cs') \<Rightarrow> (cs', Archive z))"
| "store_step cap cs (fs, DeleteDevice dev) =
     (case delete_captures_of (unlink_ok fs) dev cs of (k, cs') \<Rightarrow> (cs', Deleted k))"

lemma fst_store_step [simp]:
  "fst (store_step cap cs (fs, SaveUploaded now m dev meta pcm)) =
     snd (save_uploaded cap (commit_ok fs) (unlink_ok fs) now m dev meta pcm cs)"
  "fst (store_step cap cs (fs, LabelCapture m n target start fin)) =
     snd (label_capture (move_ok fs) (read_float fs) m n target start fin cs)"
  "fst (store_step cap cs (fs, Discard m n)) = snd (discard (unlink_ok fs) m n cs)"
  "fst (store_step cap cs (fs, ExportZip m del)) = snd (export_zip del (unlink_ok fs) m cs)"
  "fst (store_step cap cs (fs, DeleteDevice dev)) = snd (delete_captures_of (unlink_ok fs) dev cs)"
  by (simp_all split: prod.split)

declare store_step.simps [simp del]

section \<open>One file per path and per upload\<close>

definition upload_key :: "capture \<Rightarrow> (string \<times> json \<times> json) option" where
  "upload_key c = map_option (\<lambda>meta. (cp_model c, key meta ''device_id'', key meta ''captureId''))
     (case cp_meta c of None \<Rightarrow> None
      | Some meta \<Rightarrow> if map_of meta ''device_id'' = None then None else Some meta)"

definition same_upload :: "capture \<Rightarrow> capture \<Rightarrow> bool" where
  "same_upload c d \<longleftrightarrow> upload_key c \<noteq> None \<and> upload_key c = upload_key d"

definition store_ok :: "captures \<Rightarrow> bool" where
  "store_ok cs \<longleftrightarrow> distinct (map path cs) \<and> (\<forall>c \<in> set cs. cp_bucket c \<in> set BUCKETS) \<and>
     (\<forall>c \<in> set cs. \<forall>d \<in> set cs. same_upload c d \<longrightarrow> c = d)"

lemma store_ok_filter: "store_ok cs \<Longrightarrow> store_ok (filter P cs)"
  by (auto simp: store_ok_def distinct_map_filter)

lemma store_ok_path: "store_ok cs \<Longrightarrow> c \<in> set cs \<Longrightarrow> d \<in> set cs \<Longrightarrow> path c = path d \<Longrightarrow> c = d"
  by (auto simp: store_ok_def distinct_map inj_on_def)

lemma store_ok_map:
  assumes "store_ok cs" "\<And>c. path (f c) = path c" "\<And>c. upload_key (f c) = upload_key c"
    "\<And>c. cp_bucket (f c) = cp_bucket c"
  shows "store_ok (map f cs)"
proof -
  have "same_upload (f c) (f d) = same_upload c d" for c d by (simp add: same_upload_def assms(3))
  with assms(1) show ?thesis unfolding store_ok_def by (auto simp: comp_def assms(2,4))
qed

lemma replace_trim_sel [simp]:
  "path (replace_trim t c) = path c" "upload_key (replace_trim t c) = upload_key c"
  "cp_bucket (replace_trim t c) = cp_bucket c" "cp_model (replace_trim t c) = cp_model c"
  "cp_name (replace_trim t c) = cp_name c" "cp_pcm (replace_trim t c) = cp_pcm c"
  "cp_meta (replace_trim t c) = cp_meta c"
  by (auto simp: replace_trim_def path_def upload_key_def split: option.splits)

lemma store_ok_trimmed:
  "store_ok cs \<Longrightarrow> store_ok (map (\<lambda>c. if at_path m b n c then replace_trim t c else c) cs)"
  by (rule store_ok_map) auto

lemma set_move_to:
  "set (move_to target src cs) =
     insert (last (move_to target src cs))
       {c \<in> set cs. path c \<noteq> (cp_model src, target, cp_name src) \<and> path c \<noteq> path src}"
  by (auto simp: move_to_def remove_at_def at_path_iff path_def Let_def)

lemma moved_sel:
  "cp_model (last (move_to target src cs)) = cp_model src"
  "cp_bucket (last (move_to target src cs)) = target"
  "cp_name (last (move_to target src cs)) = cp_name src"
  "cp_pcm (last (move_to target src cs)) = cp_pcm src"
  by (simp_all add: move_to_def Let_def)

lemma moved_meta:
  "cp_meta (last (move_to target src cs)) = cp_meta src \<or>
   (\<exists>old \<in> set cs. path old = (cp_model src, target, cp_name src) \<and>
      cp_meta (last (move_to target src cs)) = cp_meta old)"
proof (cases "List.find (at_path (cp_model src) target (cp_name src)) cs")
  case None
  then show ?thesis by (simp add: move_to_def Let_def split: option.splits)
next
  case (Some old)
  then have "old \<in> set cs" "path old = (cp_model src, target, cp_name src)"
    by (auto simp: find_Some_iff at_path_iff)
  with Some show ?thesis by (auto simp: move_to_def Let_def split: option.splits)
qed

lemma store_ok_move:
  assumes ok: "store_ok cs" and src: "src \<in> set cs" and target: "target \<in> set BUCKETS"
  shows "store_ok (move_to target src cs)"
proof -
  let ?m = "last (move_to target src cs)"
  let ?rest = "filter (\<lambda>c. path c \<noteq> (cp_model src, target, cp_name src) \<and> path c \<noteq> path src) cs"
  have eq: "move_to target src cs = ?rest @ [?m]"
    by (auto simp: move_to_def remove_at_def at_path_iff path_def Let_def intro: filter_cong)
  have "path ?m = (cp_model src, target, cp_name src)" by (simp add: path_def moved_sel)
  moreover have "\<not> same_upload c ?m \<and> \<not> same_upload ?m c" if "c \<in> set ?rest" for c
  proof -
    have "upload_key ?m = upload_key src \<or> (\<exists>old \<in> set cs. path old = (cp_model src, target, cp_name src) \<and>
        upload_key ?m = upload_key old)"
      using moved_meta [of target src cs] by (auto simp: upload_key_def moved_sel path_def)
    then have "\<exists>d \<in> set cs. (path d = path src \<or> path d = (cp_model src, target, cp_name src)) \<and>
        upload_key ?m = upload_key d"
      using src by blast
    moreover have "c \<in> set cs" "path c \<noteq> path src" "path c \<noteq> (cp_model src, target, cp_name src)"
      using that by auto
    ultimately show ?thesis using ok unfolding store_ok_def same_upload_def by metis
  qed
  moreover have "store_ok ?rest" using ok by (rule store_ok_filter)
  ultimately show ?thesis
    using target by (subst eq) (auto simp: store_ok_def moved_sel)
qed


lemma find_uploaded_SomeD:
  assumes "find_uploaded m dev cid cs = Some c"
  shows "c \<in> set cs" "upload_key c = Some (m, JStr dev, cid)"
proof -
  from assms obtain b where "List.find (\<lambda>c. opt_holds (\<lambda>meta. map_of meta ''device_id'' = Some (JStr dev) \<and>
      key meta ''captureId'' = cid) (cp_meta c)) (in_bucket m b cs) = Some c"
    unfolding find_uploaded_def by (auto split: if_splits dest!: find_mapped_SomeD)
  then have "c \<in> set (in_bucket m b cs)" "opt_holds (\<lambda>meta. map_of meta ''device_id'' = Some (JStr dev) \<and>
      key meta ''captureId'' = cid) (cp_meta c)"
    unfolding find_Some_iff by (metis nth_mem)+
  then show "c \<in> set cs" "upload_key c = Some (m, JStr dev, cid)"
    by (auto simp: in_bucket_def upload_key_def key_def get_default_def)
qed

lemma upload_keyD:
  assumes "upload_key c = Some (m, JStr dev, cid)"
  obtains meta where "cp_meta c = Some meta" "map_of meta ''device_id'' = Some (JStr dev)"
    "key meta ''captureId'' = cid" "cp_model c = m"
  using assms by (auto simp: upload_key_def key_def get_default_def split: option.splits if_splits)

lemma find_uploaded_None:
  assumes "find_uploaded m dev cid cs = None" "safe_model m \<noteq> None" "c \<in> set cs" "cp_bucket c \<in> set BUCKETS"
  shows "upload_key c \<noteq> Some (m, JStr dev, cid)"
proof
  assume "upload_key c = Some (m, JStr dev, cid)"
  then obtain meta where meta: "cp_meta c = Some meta" "map_of meta ''device_id'' = Some (JStr dev)"
    "key meta ''captureId'' = cid" "cp_model c = m" by (rule upload_keyD)
  then have "c \<in> set (in_bucket m (cp_bucket c) cs)" using assms(3) by (simp add: in_bucket_def)
  moreover have "List.find (\<lambda>c. opt_holds (\<lambda>meta. map_of meta ''device_id'' = Some (JStr dev) \<and>
      key meta ''captureId'' = cid) (cp_meta c)) (in_bucket m (cp_bucket c) cs) = None"
    using assms(1,2,4) unfolding find_uploaded_def if_not_P [OF assms(2)] find_mapped_None by blast
  ultimately show False using meta unfolding find_None_iff by auto
qed

lemma find_uploaded_unique:
  assumes "store_ok cs" "c \<in> set cs" "upload_key c = Some (m, JStr dev, cid)" "safe_model m \<noteq> None"
  shows "find_uploaded m dev cid cs = Some c"
proof (cases "find_uploaded m dev cid cs")
  case None
  with assms show ?thesis using find_uploaded_None by (metis store_ok_def)
next
  case (Some d)
  then have "same_upload d c" "d \<in> set cs"
    using find_uploaded_SomeD [OF Some] assms by (auto simp: same_upload_def)
  with assms Some show ?thesis by (auto simp: store_ok_def)
qed

section \<open>What an upload does\<close>

definition acceptable :: "string \<Rightarrow> string \<Rightarrow> metadata \<Rightarrow> bytes \<Rightarrow> bool" where
  "acceptable m dev meta pcm \<longleftrightarrow> safe_device_id dev \<noteq> None \<and> json_str (key meta ''captureId'') \<noteq> None \<and>
     is_kind [''act'', ''miss'', ''stop_act'', ''stop_miss''] (key meta ''kind'') \<and> safe_model m \<noteq> None \<and> pcm \<noteq> []"

definition stored :: "string \<Rightarrow> metadata \<Rightarrow> metadata" where
  "stored dev meta = put ''device_id'' (JStr dev) meta"

definition new_capture :: "string \<Rightarrow> string \<Rightarrow> string \<Rightarrow> metadata \<Rightarrow> bytes \<Rightarrow> capture" where
  "new_capture m dev n meta pcm = \<lparr>cp_model = m, cp_bucket = ''untriaged'', cp_name = n, cp_pcm = pcm,
     cp_trim = None, cp_meta = Some (stored dev meta)\<rparr>"

lemma safe_device_id_eq: "safe_device_id d = Some s \<Longrightarrow> s = d"
  by (auto simp: safe_device_id_def split: if_splits)

lemma key_stored [simp]: "key (stored dev meta) ''captureId'' = key meta ''captureId''"
  "key (stored dev meta) ''device_id'' = JStr dev" "map_of (stored dev meta) ''device_id'' = Some (JStr dev)"
  by (simp_all add: key_def stored_def get_default_def)

lemma new_capture_key [simp]:
  "upload_key (new_capture m dev n meta pcm) = Some (m, JStr dev, key meta ''captureId'')"
  by (simp add: upload_key_def new_capture_def)

lemma save_refused: "\<not> acceptable m dev meta pcm \<Longrightarrow> save_uploaded cap ok ul now m dev meta pcm cs = ((None, False), cs)"
  by (auto simp: save_uploaded_def acceptable_def split: option.splits)

lemma save_known:
  assumes "acceptable m dev meta pcm" "find_uploaded m dev (key meta ''captureId'') cs = Some c"
  shows "save_uploaded cap ok ul now m dev meta pcm cs =
    ((if opt_holds (\<lambda>old. dict_eq old (stored dev meta)) (cp_meta c) then Some (cp_name c) else None, False), cs)"
  using assms by (auto simp: save_uploaded_def acceptable_def stored_def dest: safe_device_id_eq split: option.splits)

lemma save_new:
  assumes "acceptable m dev meta pcm" "find_uploaded m dev (key meta ''captureId'') cs = None"
  obtains n i kind where
    "save_uploaded cap ok ul now m dev meta pcm cs =
       (if ok then ((Some n, True), prune_untriaged cap ul m (cs @ [new_capture m dev n meta pcm]))
        else ((None, False), cs))"
    "n \<notin> cp_name ` set (in_bucket m ''untriaged'' cs)"
    "filename dev (int (now + i)) kind (score_of meta) = Some n" "i \<le> length cs"
proof -
  define kind where "kind = the (json_str (key meta ''kind''))"
  have s: "safe_device_id dev = Some dev"
    using assms(1) by (auto simp: acceptable_def dest: safe_device_id_eq)
  have k: "kind \<in> set [''act'', ''miss'', ''stop_act'', ''stop_miss'']"
    using assms(1) by (auto simp: acceptable_def is_kind_def kind_def)
  then have "kind \<in> set KINDS" unfolding KINDS_def by auto
  with s obtain n0 where "filename dev (int now) kind (score_of meta) = Some n0" by (simp add: filename_def)
  from fresh_name_found [OF this, of "map cp_name (in_bucket m ''untriaged'' cs)"] obtain n i
    where n: "fresh_name dev now kind (score_of meta) (map cp_name (in_bucket m ''untriaged'' cs)) = Some n"
      "n \<notin> set (map cp_name (in_bucket m ''untriaged'' cs))"
      "filename dev (int (now + i)) kind (score_of meta) = Some n"
      "i \<le> length (map cp_name (in_bucket m ''untriaged'' cs))" .
  from n(4) have "i \<le> length cs"
    by (simp add: in_bucket_def) (meson le_trans length_filter_le)
  have "save_uploaded cap ok ul now m dev meta pcm cs =
       (if ok then ((Some n, True), prune_untriaged cap ul m (cs @ [new_capture m dev n meta pcm]))
        else ((None, False), cs))"
  proof -
    from assms(1) obtain y z where "safe_model m = Some y" "json_str (key meta ''captureId'') = Some z"
      by (auto simp: acceptable_def simp del: opt_holds_iff)
    with assms s n(1) show ?thesis unfolding save_uploaded_def acceptable_def
      by (simp add: new_capture_def stored_def kind_def Let_def)
  qed
  from that [OF this _ n(3) \<open>i \<le> length cs\<close>] n(2) show thesis by simp
qed


section \<open>Every operation keeps the store\<close>

lemma path_new [simp]: "path (new_capture m dev n meta pcm) = (m, ''untriaged'', n)"
  and bucket_new [simp]: "cp_bucket (new_capture m dev n meta pcm) = ''untriaged''"
  and meta_new [simp]: "cp_meta (new_capture m dev n meta pcm) = Some (stored dev meta)"
  by (simp_all add: path_def new_capture_def)

lemma untriaged_bucket [simp]: "''untriaged'' \<in> set BUCKETS"
  by (simp add: BUCKETS_def)

lemma store_ok_add:
  assumes "store_ok cs" "find_uploaded m dev (key meta ''captureId'') cs = None" "safe_model m \<noteq> None"
    "n \<notin> cp_name ` set (in_bucket m ''untriaged'' cs)"
  shows "store_ok (cs @ [new_capture m dev n meta pcm])"
proof -
  have "path c \<noteq> (m, ''untriaged'', n)" if "c \<in> set cs" for c
    using assms(4) that by (auto simp: path_def in_bucket_def image_iff)
  moreover have "upload_key c \<noteq> Some (m, JStr dev, key meta ''captureId'')" if "c \<in> set cs" for c
    using find_uploaded_None [OF assms(2,3) that] assms(1) that by (auto simp: store_ok_def)
  moreover from this have "\<not> same_upload c (new_capture m dev n meta pcm)"
    "\<not> same_upload (new_capture m dev n meta pcm) c" if "c \<in> set cs" for c
    using that unfolding same_upload_def new_capture_key by metis+
  ultimately show ?thesis using assms(1) by (auto simp: store_ok_def image_iff) metis
qed

lemma save_outcome:
  obtains (same) r where "save_uploaded cap ok ul now m dev meta pcm cs = ((r, False), cs)"
  | (new) n i kind where
      "save_uploaded cap ok ul now m dev meta pcm cs =
         ((Some n, True), prune_untriaged cap ul m (cs @ [new_capture m dev n meta pcm]))"
      "acceptable m dev meta pcm" "ok" "find_uploaded m dev (key meta ''captureId'') cs = None"
      "n \<notin> cp_name ` set (in_bucket m ''untriaged'' cs)"
      "filename dev (int (now + i)) kind (score_of meta) = Some n" "i \<le> length cs"
proof (cases "acceptable m dev meta pcm")
  case False
  then show thesis using save_refused same by blast
next
  case a: True
  show thesis
  proof (cases "find_uploaded m dev (key meta ''captureId'') cs")
    case None
    obtain n i kind where n: "save_uploaded cap ok ul now m dev meta pcm cs =
         (if ok then ((Some n, True), prune_untriaged cap ul m (cs @ [new_capture m dev n meta pcm]))
          else ((None, False), cs))"
      "n \<notin> cp_name ` set (in_bucket m ''untriaged'' cs)"
      "filename dev (int (now + i)) kind (score_of meta) = Some n" "i \<le> length cs"
      using save_new [OF a None] by metis
    then show thesis using new a None same by (cases ok) auto
  next
    case (Some c)
    then show thesis using save_known [OF a] same by blast
  qed
qed

lemma acceptable_model: "acceptable m dev meta pcm \<Longrightarrow> safe_model m \<noteq> None"
  by (simp add: acceptable_def)

lemma store_ok_save:
  assumes "store_ok cs"
  shows "store_ok (snd (save_uploaded cap ok ul now m dev meta pcm cs))"
proof (cases rule: save_outcome [where cap = cap and ok = ok and ul = ul and now = now and m = m and
      dev = dev and meta = meta and pcm = pcm and cs = cs])
  case (same r)
  with assms show ?thesis by simp
next
  case (new n i kind)
  have "store_ok (cs @ [new_capture m dev n meta pcm])"
    using new assms by (intro store_ok_add acceptable_model)
  then show ?thesis unfolding new(1) snd_conv prune_untriaged_eq by (rule store_ok_filter)
qed

text \<open>What labelling leaves: the store as it was, with the trim set, or with the capture moved too.\<close>

lemma label_outcome:
  obtains (same) "label_capture mv fl m n target start fin cs = (False, cs)"
  | (trimmed) src trim r where
      "label_capture mv fl m n target start fin cs =
         (r, map (\<lambda>c. if at_path m (cp_bucket src) n c then replace_trim trim c else c) cs)"
      "resolve m n cs = Some src"
  | (moved) src trim where
      "label_capture mv fl m n target start fin cs =
         (True, move_to target (replace_trim trim src)
            (map (\<lambda>c. if at_path m (cp_bucket src) n c then replace_trim trim c else c) cs))"
      "resolve m n cs = Some src" "cp_bucket src \<noteq> target" "target \<in> set BUCKETS"
proof (cases "resolve m n cs")
  case None
  then show thesis using same by (simp add: label_capture_def)
next
  case src: (Some src)
  show thesis
  proof (cases "target \<in> set BUCKETS \<and> asked_trim fl start fin (cp_pcm src) \<noteq> None")
    case False
    then show thesis using same src by (auto simp: label_capture_def)
  next
    case True
    then obtain trim where "asked_trim fl start fin (cp_pcm src) = Some trim" by auto
    with True src show thesis
      using trimmed [of True src trim] trimmed [of False src trim] moved [of trim src]
      unfolding label_capture_def Let_def
      by (cases "cp_bucket src = target"; cases mv) auto
  qed
qed

lemma store_ok_label:
  assumes "store_ok cs"
  shows "store_ok (snd (label_capture mv fl m n target start fin cs))"
proof (cases rule: label_outcome [where mv = mv and fl = fl and m = m and n = n and target = target and
      start = start and fin = fin and cs = cs])
  case same
  with assms show ?thesis by simp
next
  case (trimmed src trim r)
  then show ?thesis using store_ok_trimmed [OF assms] by simp
next
  case (moved src trim)
  note src = resolve_SomeD [OF moved(2)]
  have "replace_trim trim src \<in> set (map (\<lambda>c. if at_path m (cp_bucket src) n c then replace_trim trim c else c) cs)"
    using src(1,2) by (force simp: at_path_iff)
  with moved show ?thesis using store_ok_move [OF store_ok_trimmed [OF assms]] by simp
qed

lemma store_ok_step: "store_ok cs \<Longrightarrow> store_ok (fst (store_step cap cs op))"
proof (cases op)
  case (Pair fs x)
  assume ok: "store_ok cs"
  show ?thesis
  proof (cases x)
    case (SaveUploaded now m dev meta pcm)
    then show ?thesis using store_ok_save [OF ok] by (simp add: Pair)
  next
    case (LabelCapture m n target start fin)
    then show ?thesis using store_ok_label [OF ok] by (simp add: Pair)
  next
    case (Discard m n)
    then show ?thesis using store_ok_filter [OF ok] by (simp add: Pair discard_eq)
  next
    case (ExportZip m d)
    then show ?thesis using store_ok_filter [OF ok] by (simp add: Pair export_store_eq)
  next
    case (DeleteDevice dev)
    then show ?thesis
      using ok store_ok_filter [OF ok] by (auto simp: Pair delete_captures_of_def Let_def split: option.split)
  qed
qed

interpretation capture_store: machine "store_step cap" store_ok for cap
  by unfold_locales (rule store_ok_step)

lemma store_ok_Nil [simp]: "store_ok []"
  by (simp add: store_ok_def)


section \<open>What an operation can touch\<close>

fun touches :: "store_op \<Rightarrow> capture \<Rightarrow> bool" where
  "touches (SaveUploaded now m dev meta pcm) c \<longleftrightarrow> cp_bucket c = ''untriaged'' \<and> cp_model c = m"
| "touches (LabelCapture m n target start fin) c \<longleftrightarrow> cp_model c = m \<and> cp_name c = n"
| "touches (Discard m n) c \<longleftrightarrow> cp_model c = m \<and> cp_name c = n"
| "touches (ExportZip m delete_after) c \<longleftrightarrow> delete_after \<and> cp_model c = m \<and> cp_bucket c \<noteq> ''untriaged''"
| "touches (DeleteDevice dev) c \<longleftrightarrow> opt_holds (\<lambda>f. cn_device f = dev) (parse_filename (cp_name c))"

lemma label_keeps:
  assumes "c \<in> set cs" "\<not> (cp_model c = m \<and> cp_name c = n)"
  shows "c \<in> set (snd (label_capture mv fl m n target start fin cs))"
proof (cases rule: label_outcome [where mv = mv and fl = fl and m = m and n = n and target = target and
      start = start and fin = fin and cs = cs])
  case same
  with assms show ?thesis by simp
next
  case (trimmed src trim r)
  with assms show ?thesis by (force simp: at_path_def)
next
  case (moved src trim)
  have "c \<in> set (map (\<lambda>c. if at_path m (cp_bucket src) n c then replace_trim trim c else c) cs)"
    using assms by (force simp: at_path_def)
  with moved assms(2) resolve_SomeD(2) [OF moved(2)] show ?thesis
    by (simp add: set_move_to) (auto simp: path_def)
qed

lemma store_step_keeps:
  assumes "c \<in> set cs" "\<not> touches x c"
  shows "c \<in> set (fst (store_step cap cs (fs, x)))"
proof (cases x)
  case (SaveUploaded now m dev meta pcm)
  have "c \<in> set (snd (save_uploaded cap (commit_ok fs) (unlink_ok fs) now m dev meta pcm cs))"
    by (cases rule: save_outcome [where cap = cap and ok = "commit_ok fs" and ul = "unlink_ok fs" and
          now = now and m = m and dev = dev and meta = meta and pcm = pcm and cs = cs])
       (use assms SaveUploaded in \<open>auto simp: prune_untriaged_eq at_path_def\<close>)
  then show ?thesis by (simp add: SaveUploaded)
next
  case (LabelCapture m n target start fin)
  then show ?thesis using label_keeps [OF assms(1)] assms(2) by simp
next
  case (Discard m n)
  then show ?thesis using assms by (auto simp: discard_eq at_path_def)
next
  case (ExportZip m d)
  then show ?thesis using assms by (auto simp: export_store_eq at_path_def set_list_captures)
next
  case (DeleteDevice dev)
  then show ?thesis
    using assms by (auto simp: delete_captures_of_def Let_def dest: safe_device_id_eq split: option.split)
qed

lemma set_prune: "set (prune_untriaged cap ok m cs) \<subseteq> set cs"
  by (auto simp: prune_untriaged_eq)

text \<open>A capture that was not there comes from an upload or a label.\<close>

lemma label_adds:
  assumes "c \<in> set (snd (label_capture mv fl m n target start fin cs))" "c \<notin> set cs"
  shows "cp_model c = m \<and> cp_name c = n \<and>
    (\<exists>d \<in> set cs. cp_model d = m \<and> cp_name d = n \<and> upload_key d = upload_key c)"
proof (cases rule: label_outcome [where mv = mv and fl = fl and m = m and n = n and target = target and
      start = start and fin = fin and cs = cs])
  case same
  with assms show ?thesis by simp
next
  case (trimmed src trim r)
  with assms show ?thesis by (auto simp: at_path_def split: if_splits)
next
  case (moved src trim)
  let ?cs = "map (\<lambda>c. if at_path m (cp_bucket src) n c then replace_trim trim c else c) cs"
  note src = resolve_SomeD [OF moved(2)]
  have old: "\<exists>d \<in> set cs. path d = path c' \<and> upload_key d = upload_key c' \<and> cp_meta d = cp_meta c'"
    if "c' \<in> set ?cs" for c'
    using that by (auto split: if_splits)
  from assms(1) moved(1) consider (moved') "c = last (move_to target (replace_trim trim src) ?cs)" | (rest) "c \<in> set ?cs"
    by (auto simp: set_move_to)
  then show ?thesis
  proof cases
    case moved'
    then have c: "cp_model c = m" "cp_name c = n" using src(2) by (simp_all add: moved_sel path_def)
    have "cp_meta c = cp_meta src \<or> (\<exists>d \<in> set cs. path d = (m, target, n) \<and> cp_meta c = cp_meta d)"
      using moved_meta [of target "replace_trim trim src" ?cs] old src(2) moved' by (fastforce simp: path_def)
    then show ?thesis using c src(1,2) by (auto simp: upload_key_def path_def)
  next
    case rest
    with assms(2) show ?thesis by (auto simp: at_path_def split: if_splits)
  qed
qed

lemma store_step_adds:
  assumes "c \<in> set (fst (store_step cap cs (fs, x)))" "c \<notin> set cs"
  shows "(\<exists>now m dev meta pcm n. x = SaveUploaded now m dev meta pcm \<and> c = new_capture m dev n meta pcm) \<or>
    (\<exists>m n target start fin. x = LabelCapture m n target start fin \<and> cp_model c = m \<and> cp_name c = n \<and>
      (\<exists>d \<in> set cs. cp_model d = m \<and> cp_name d = n \<and> upload_key d = upload_key c))"
proof (cases x)
  case (SaveUploaded now m dev meta pcm)
  have "\<exists>n. c = new_capture m dev n meta pcm"
    by (cases rule: save_outcome [where cap = cap and ok = "commit_ok fs" and ul = "unlink_ok fs" and
          now = now and m = m and dev = dev and meta = meta and pcm = pcm and cs = cs])
       (use assms SaveUploaded set_prune in \<open>fastforce+\<close>)
  then show ?thesis using SaveUploaded by blast
next
  case (LabelCapture m n target start fin)
  then show ?thesis using label_adds assms by fastforce
qed (use assms in \<open>auto simp: discard_eq export_store_eq delete_captures_of_def Let_def split: option.splits\<close>)


lemma run_keeps:
  assumes "c \<in> set cs" "list_all (\<lambda>(fs, x). \<not> touches x c) ops"
  shows "c \<in> set (fst (run (store_step cap) cs ops))"
  using assms
proof (induction ops arbitrary: cs)
  case (Cons e ops)
  then show ?case using store_step_keeps [of c cs "snd e" cap "fst e"] by (cases e) simp
qed simp

text \<open>Nobody stores the upload again or labels a capture of its name.\<close>

definition hands_off :: "string \<Rightarrow> string \<Rightarrow> json \<Rightarrow> string \<Rightarrow> store_op \<Rightarrow> bool" where
  "hands_off m dev cid n x \<longleftrightarrow> (case x of
       SaveUploaded _ m' dev' meta _ \<Rightarrow> \<not> (m' = m \<and> dev' = dev \<and> key meta ''captureId'' = cid)
     | LabelCapture m' n' _ _ _ \<Rightarrow> \<not> (m' = m \<and> n' = n)
     | _ \<Rightarrow> True)"

definition only_at :: "string \<Rightarrow> string \<Rightarrow> json \<Rightarrow> string \<Rightarrow> captures \<Rightarrow> bool" where
  "only_at m dev cid n cs \<longleftrightarrow>
     (\<forall>c \<in> set cs. upload_key c = Some (m, JStr dev, cid) \<longrightarrow> path c = (m, ''untriaged'', n))"

lemma only_at_step:
  assumes "only_at m dev cid n cs" "hands_off m dev cid n x"
  shows "only_at m dev cid n (fst (store_step cap cs (fs, x)))"
  unfolding only_at_def
proof (intro ballI impI)
  fix c
  assume c: "c \<in> set (fst (store_step cap cs (fs, x)))" and k: "upload_key c = Some (m, JStr dev, cid)"
  show "path c = (m, ''untriaged'', n)"
  proof (cases "c \<in> set cs")
    case True
    with assms(1) k show ?thesis by (auto simp: only_at_def)
  next
    case False
    from store_step_adds [OF c False] assms(2) k obtain m' n' t s f d where x: "x = LabelCapture m' n' t s f"
      and d: "d \<in> set cs" "cp_model d = m'" "cp_name d = n'" "upload_key d = Some (m, JStr dev, cid)"
      by (auto simp: hands_off_def)
    from d(1,4) assms(1) have "path d = (m, ''untriaged'', n)" by (auto simp: only_at_def)
    with d x assms(2) show ?thesis by (simp add: hands_off_def path_def)
  qed
qed

lemma only_at_run:
  assumes "only_at m dev cid n cs" "list_all (\<lambda>(fs, x). hands_off m dev cid n x) ops"
  shows "only_at m dev cid n (fst (run (store_step cap) cs ops))"
  using assms
proof (induction ops arbitrary: cs)
  case (Cons e ops)
  then show ?case using only_at_step [of m dev cid n cs "snd e" cap "fst e"] by (cases e) simp
qed simp

section \<open>Accepting an upload\<close>

text \<open>
  The handler of the data link. A device is looked at twice, before the commit and after it; between
  the two other operations may reach the store. The digest of the stop word's classifier comes from
  the file the controller hands out, \<open>None\<close> without one.
\<close>

record capture_link =
  oww_model :: string
  oww_classifier_md5 :: "string option"
  stop_model :: string
  save_wake_captures :: bool
  save_stop_captures :: bool
  is_registered :: bool  \<comment> \<open>\<open>_devices\<close> holds this device object\<close>
  is_data_socket :: bool  \<comment> \<open>the device's \<open>data_ws\<close> is this socket\<close>

datatype capture_word = Wake | StopWord

definition enabled :: "capture_link \<Rightarrow> capture_word \<Rightarrow> bool" where
  "enabled l w = (case w of Wake \<Rightarrow> save_wake_captures l | StopWord \<Rightarrow> save_stop_captures l)"

definition capture_route ::
  "(string \<Rightarrow> string option) \<Rightarrow> capture_link \<Rightarrow> json \<Rightarrow> (capture_word \<times> string \<times> string option) option" where
  "capture_route digest l name =
     (if name = JStr (prediction_key (oww_model l))
      then Some (Wake, prediction_key (oww_model l), oww_classifier_md5 l)
      else if stop_model l \<noteq> [] \<and> prediction_key (stop_model l) \<noteq> [] \<and> name = JStr (prediction_key (stop_model l))
      then Some (StopWord, prediction_key (stop_model l), digest (stop_model l))
      else None)"

record ticket =
  tk_word :: capture_word
  tk_model :: string
  tk_name :: string
  tk_created :: bool

definition commit_upload :: "(string \<Rightarrow> string option) \<Rightarrow> nat \<Rightarrow> filesystem \<Rightarrow> nat \<Rightarrow> capture_link \<Rightarrow> string \<Rightarrow>
    completed \<Rightarrow> captures \<Rightarrow> ticket option \<times> captures" where
  "commit_upload digest cap fs now l dev done cs =
     (let meta = cap_metadata done in
      case capture_route digest l (key meta ''model'') of
        None \<Rightarrow> (None, cs)
      | Some (w, m, checksum) \<Rightarrow>
          if \<not> enabled l w \<or> key meta ''classifierMd5'' \<noteq> (case checksum of None \<Rightarrow> JNull | Some s \<Rightarrow> JStr s) \<or>
             \<not> is_registered l \<or> \<not> is_data_socket l
          then (None, cs)
          else (case save_uploaded cap (commit_ok fs) (unlink_ok fs) now m dev meta (cap_pcm done) cs of
                  ((None, created), cs') \<Rightarrow> (None, cs')
                | ((Some n, created), cs') \<Rightarrow>
                    (Some \<lparr>tk_word = w, tk_model = m, tk_name = n, tk_created = created\<rparr>, cs')))"

text \<open>The reply is whether \<open>capture_ack\<close> is sent.\<close>

definition confirm_upload :: "filesystem \<Rightarrow> capture_link \<Rightarrow> ticket \<Rightarrow> captures \<Rightarrow> bool \<times> captures" where
  "confirm_upload fs l t cs =
     (if \<not> enabled l (tk_word t)
      then (False, if tk_created t then snd (discard (unlink_ok fs) (tk_model t) (tk_name t) cs) else cs)
      else if \<not> is_registered l \<or> \<not> is_data_socket l then (False, cs)
      else (True, cs))"

text \<open>A capture frame on the data link; an error of the parser is logged and the link goes on.\<close>

definition capture_frame :: "codec \<Rightarrow> capture_link \<Rightarrow> bytes \<Rightarrow> receiver \<Rightarrow> completed option \<times> receiver" where
  "capture_frame k l raw rx =
     (if \<not> (save_wake_captures l \<or> save_stop_captures l) then (None, rx_reset)
      else case rx_feed k raw rx of
        (Inl e, rx') \<Rightarrow> (None, rx')
      | (Inr c, rx') \<Rightarrow> (c, rx'))"


lemma commit_uploadE:
  assumes "commit_upload digest cap fs now l dev c cs = (Some t, cs')"
  obtains checksum where
    "capture_route digest l (key (cap_metadata c) ''model'') = Some (tk_word t, tk_model t, checksum)"
    "enabled l (tk_word t)" "is_registered l" "is_data_socket l"
    "key (cap_metadata c) ''classifierMd5'' = (case checksum of None \<Rightarrow> JNull | Some s \<Rightarrow> JStr s)"
    "save_uploaded cap (commit_ok fs) (unlink_ok fs) now (tk_model t) dev (cap_metadata c) (cap_pcm c) cs =
       ((Some (tk_name t), tk_created t), cs')"
  using assms unfolding commit_upload_def Let_def by (auto split: option.splits prod.splits if_splits)

lemma confirm_upload_iff:
  "fst (confirm_upload fs l t cs) \<longleftrightarrow> enabled l (tk_word t) \<and> is_registered l \<and> is_data_socket l"
  by (simp add: confirm_upload_def)

lemma confirm_upload_same: "fst (confirm_upload fs l t cs) \<Longrightarrow> snd (confirm_upload fs l t cs) = cs"
  by (simp add: confirm_upload_def split: if_splits)

lemma dict_eq_refl [simp]: "dict_eq a a"
  by (simp add: dict_eq_def list_all_iff)

lemma saved_name:
  assumes "save_uploaded cap ok ul now m dev meta pcm cs = ((Some n, created), cs')"
  shows "\<exists>c. cp_model c = m \<and> cp_name c = n \<and> opt_holds (\<lambda>old. dict_eq old (stored dev meta)) (cp_meta c) \<and>
    (if created then c = new_capture m dev n meta pcm \<and> cs' = prune_untriaged cap ul m (cs @ [c])
     else c \<in> set cs \<and> cs' = cs)"
proof (cases rule: save_outcome [where cap = cap and ok = ok and ul = ul and now = now and m = m and
      dev = dev and meta = meta and pcm = pcm and cs = cs])
  case (same r)
  have a: "acceptable m dev meta pcm" using assms save_refused by fastforce
  show ?thesis
  proof (cases "find_uploaded m dev (key meta ''captureId'') cs")
    case None
    show ?thesis using save_new [OF a None, of cap ok ul now] assms same by (metis Pair_inject option.distinct(1))
  next
    case (Some c)
    then show ?thesis
      using save_known [OF a Some, of cap ok ul now] assms find_uploaded_SomeD [OF Some]
      by (intro exI [of _ c]) (auto simp: upload_key_def split: if_splits option.splits)
  qed
next
  case (new n' i kind)
  then show ?thesis
    using assms by (intro exI [of _ "new_capture m dev n meta pcm"]) (auto simp: new_capture_def)
qed

lemma only_at_new:
  assumes "store_ok cs" "find_uploaded m dev (key meta ''captureId'') cs = None" "safe_model m \<noteq> None"
  shows "only_at m dev (key meta ''captureId'') n (prune_untriaged cap ul m (cs @ [new_capture m dev n meta pcm]))"
  using assms find_uploaded_None [OF assms(2,3)] by (auto simp: only_at_def prune_untriaged_eq store_ok_def)

lemma resolve_untriaged:
  assumes "parse_filename n \<noteq> None" "safe_model m \<noteq> None" "c \<in> set cs" "path c = (m, ''untriaged'', n)"
  obtains d where "resolve m n cs = Some d" "cp_bucket d = ''untriaged''"
proof -
  from assms(3,4) have "List.find (at_path m ''untriaged'' n) cs \<noteq> None"
    by (auto simp: find_None_iff at_path_iff)
  then obtain d where d: "List.find (at_path m ''untriaged'' n) cs = Some d" by auto
  then have "cp_bucket d = ''untriaged''" by (auto simp: find_Some_iff at_path_iff path_def)
  moreover have "resolve m n cs = Some d"
    using assms(1,2) d by (simp add: resolve_def BUCKETS_def List.map_filter_simps)
  ultimately show thesis by (rule that [rotated])
qed

lemma discard_untriaged:
  assumes "only_at m dev cid n cs" "ul n" "parse_filename n \<noteq> None" "safe_model m \<noteq> None"
    "c \<in> set (snd (discard ul m n cs))"
  shows "upload_key c \<noteq> Some (m, JStr dev, cid)"
proof
  assume k: "upload_key c = Some (m, JStr dev, cid)"
  have c: "c \<in> set cs" using assms(5) by (auto simp: discard_eq)
  with k assms(1) have p: "path c = (m, ''untriaged'', n)" by (auto simp: only_at_def)
  obtain d where "resolve m n cs = Some d" "cp_bucket d = ''untriaged''"
    by (rule resolve_untriaged [OF assms(3,4) c p])
  with assms(2,5) p show False by (auto simp: discard_eq at_path_iff)
qed

text \<open>A small store, and an upload for it.\<close>

definition working :: filesystem where
  "working = \<lparr>commit_ok = True, move_ok = True, unlink_ok = (\<lambda>_. True), read_float = (\<lambda>_. None)\<rparr>"

definition sample_meta :: "string \<Rightarrow> metadata" where
  "sample_meta cid = [(''captureId'', JStr cid), (''model'', JStr ''jarvis''), (''kind'', JStr ''act''),
     (''score'', JFloat (9 / 10)), (''classifierMd5'', JStr ''aa'')]"

definition sample_upload :: "string \<Rightarrow> completed" where
  "sample_upload cid = \<lparr>cap_metadata = sample_meta cid, cap_pcm = [0, 0]\<rparr>"

definition sample_link :: capture_link where
  "sample_link = \<lparr>oww_model = ''jarvis'', oww_classifier_md5 = Some ''aa'', stop_model = ''stop'',
     save_wake_captures = True, save_stop_captures = False, is_registered = True, is_data_socket = True\<rparr>"

definition sample_store :: captures where
  "sample_store = fst (run (store_step 1) []
     [(working, SaveUploaded 1000 ''jarvis'' ''dev1'' (sample_meta ''c1'') [0, 0])])"

section \<open>Properties\<close>

text \<open>a capture an admin has labelled stays in the store, unchanged, through
  any operations but those that label or discard its name, export and delete its wake word's
  labelled captures, or delete its device: uploads and the pruning they do never touch it.\<close>

theorem labelled_captures_survive:
  assumes "c \<in> set cs" "cp_bucket c \<noteq> ''untriaged''"
    "list_all (\<lambda>(fs, x). is_SaveUploaded x \<or> \<not> touches x c) ops"
  shows "c \<in> set (fst (run (store_step cap) cs ops))"
proof (rule run_keeps [OF assms(1)])
  have "\<not> touches x c" if "is_SaveUploaded x" for x
    using assms(2) that by (cases x) simp_all
  with assms(3) show "list_all (\<lambda>(fs, x). \<not> touches x c) ops"
    by (auto simp: list_all_iff)
qed

text \<open>from an empty store, whatever operations came before, an upload that
  is still stored is answered with the name it has there, wherever it was labelled to, and changes
  nothing when the device sends it again; the same capture id with other metadata is refused.\<close>

theorem retried_upload_is_recognised:
  assumes "cs = fst (run (store_step cap) [] ops)" "c \<in> set cs" "cp_model c = m"
    "cp_meta c = Some (stored dev meta)" "acceptable m dev meta' pcm"
    "key meta' ''captureId'' = key meta ''captureId''"
  shows "save_uploaded cap ok ul now m dev meta' pcm cs =
    ((if dict_eq (stored dev meta) (stored dev meta') then Some (cp_name c) else None, False), cs)"
proof -
  have "store_ok cs" using assms(1) capture_store.inv_run by simp
  moreover have "upload_key c = Some (m, JStr dev, key meta' ''captureId'')"
    using assms(3,4,6) by (simp add: upload_key_def)
  ultimately have "find_uploaded m dev (key meta' ''captureId'') cs = Some c"
    using assms(2,5) by (intro find_uploaded_unique) (auto simp: acceptable_def)
  from save_known [OF assms(5) this] assms(4) show ?thesis by simp
qed


lemma filter_not_dropped: "distinct xs \<Longrightarrow> filter (\<lambda>x. x \<notin> set (drop k xs)) xs = take k xs"
proof -
  assume d: "distinct xs"
  have "filter (\<lambda>x. x \<notin> set (drop k xs)) (take k xs) = take k xs"
    using set_take_disj_set_drop_if_distinct [OF d, of k k] by (auto simp: filter_id_conv)
  moreover have "filter (\<lambda>x. x \<notin> set (drop k xs)) (drop k xs) = []"
    by (simp add: filter_empty_conv)
  moreover have "filter P xs = filter P (take k xs) @ filter P (drop k xs)" for P
    by (simp flip: filter_append)
  ultimately show ?thesis by simp
qed

lemma distinct_list_captures: "store_ok cs \<Longrightarrow> distinct (list_captures m b cs)"
  by (auto simp: list_captures_def in_bucket_def store_ok_def distinct_map)

lemma list_captures_filter:
  "list_captures m b (filter P cs) = filter P (list_captures m b cs)"
  by (simp add: list_captures_def in_bucket_def filter_sort conj_ac)

lemma list_captures_pruned:
  assumes "store_ok cs" "\<forall>n. ul n"
  shows "list_captures m ''untriaged'' (prune_untriaged cap ul m cs) = take cap (list_captures m ''untriaged'' cs)"
proof -
  let ?L = "list_captures m ''untriaged'' cs"
  have "(\<exists>x \<in> set (drop cap ?L). at_path m ''untriaged'' (cp_name x) c) \<longleftrightarrow> c \<in> set (drop cap ?L)"
    if "c \<in> set ?L" for c
  proof -
    have "at_path m ''untriaged'' (cp_name x) c \<longleftrightarrow> c = x" if "x \<in> set (drop cap ?L)" for x
      using in_set_dropD [OF that] \<open>c \<in> set ?L\<close> store_ok_path [OF assms(1), of c x]
      by (auto simp: set_list_captures at_path_iff path_def split: if_splits)
    then show ?thesis by auto
  qed
  then have "filter (\<lambda>c. \<not> (\<exists>x \<in> set (drop cap ?L). ul (cp_name x) \<and> at_path m ''untriaged'' (cp_name x) c)) ?L =
      filter (\<lambda>c. c \<notin> set (drop cap ?L)) ?L"
    using assms(2) by (intro filter_cong) auto
  then show ?thesis
    using filter_not_dropped [OF distinct_list_captures [OF assms(1)]]
    by (simp only: prune_untriaged_eq list_captures_filter)
qed

lemma prune_others: "filter (\<lambda>c. \<not> (cp_model c = m \<and> cp_bucket c = ''untriaged'')) (prune_untriaged cap ul m cs) =
    filter (\<lambda>c. \<not> (cp_model c = m \<and> cp_bucket c = ''untriaged'')) cs"
  by (auto simp: prune_untriaged_eq at_path_def intro!: filter_cong)

lemma new_store_ok:
  assumes "store_ok cs" "save_uploaded cap ok ul now m dev meta pcm cs = ((Some n, True), cs')"
  shows "store_ok (cs @ [new_capture m dev n meta pcm])"
    "cs' = prune_untriaged cap ul m (cs @ [new_capture m dev n meta pcm])"
    "find_uploaded m dev (key meta ''captureId'') cs = None" "safe_model m \<noteq> None"
    "int now + int (length cs) < 10 ^ 19 \<Longrightarrow> parse_filename n \<noteq> None"
proof -
  from assms(2) obtain i kind where new:
    "cs' = prune_untriaged cap ul m (cs @ [new_capture m dev n meta pcm])"
    "acceptable m dev meta pcm" "find_uploaded m dev (key meta ''captureId'') cs = None"
    "n \<notin> cp_name ` set (in_bucket m ''untriaged'' cs)"
    "filename dev (int (now + i)) kind (score_of meta) = Some n" "i \<le> length cs"
    by (cases rule: save_outcome [where cap = cap and ok = ok and ul = ul and now = now and m = m and
        dev = dev and meta = meta and pcm = pcm and cs = cs]) auto
  then show "store_ok (cs @ [new_capture m dev n meta pcm])"
    "cs' = prune_untriaged cap ul m (cs @ [new_capture m dev n meta pcm])"
    "find_uploaded m dev (key meta ''captureId'') cs = None" "safe_model m \<noteq> None"
    using store_ok_add [OF assms(1)] acceptable_model by blast+
  assume "int now + int (length cs) < 10 ^ 19"
  with new(6) have "int (now + i) < 10 ^ 19" by simp
  from parse_filename_of [OF new(5) this] show "parse_filename n \<noteq> None" by simp
qed

text \<open>when the disk works, a stored upload leaves the newest \<open>cap\<close> of the
  wake word's untriaged captures, the new one counted in, newest first, and the labelled captures
  and the other wake words as they were.\<close>

theorem uploads_keep_the_newest:
  assumes "cs = fst (run (store_step cap) [] ops)" "\<forall>n. ul n"
    "save_uploaded cap ok ul now m dev meta pcm cs = ((Some n, True), cs')"
  shows "list_captures m ''untriaged'' cs' =
      take cap (list_captures m ''untriaged'' (cs @ [new_capture m dev n meta pcm])) \<and>
    filter (\<lambda>c. \<not> (cp_model c = m \<and> cp_bucket c = ''untriaged'')) cs' =
      filter (\<lambda>c. \<not> (cp_model c = m \<and> cp_bucket c = ''untriaged'')) cs"
proof -
  have "store_ok cs" using assms(1) capture_store.inv_run by simp
  note new = new_store_ok [OF this assms(3)]
  have r1: "list_captures m ''untriaged'' cs' =
      take cap (list_captures m ''untriaged'' (cs @ [new_capture m dev n meta pcm]))"
    using list_captures_pruned [OF new(1) assms(2)] new(2) by simp
  have r2: "filter (\<lambda>c. \<not> (cp_model c = m \<and> cp_bucket c = ''untriaged'')) cs' =
      filter (\<lambda>c. \<not> (cp_model c = m \<and> cp_bucket c = ''untriaged'')) cs"
    unfolding new(2) prune_others by (simp add: new_capture_def)
  show ?thesis using r1 r2 by (intro conjI)
qed

text \<open>an upload is acknowledged only if captures of its word were
  switched on before and after the commit, the device and its data link were still the current ones
  both times, and it was made with the classifier the controller knows; it is then the capture that
  was just stored, or one that was stored before with the same metadata.\<close>

theorem acknowledged_upload:
  assumes "commit_upload digest cap fs now l dev c cs = (Some t, cs')"
    "fst (confirm_upload fs' l' t cs'')"
  shows "enabled l (tk_word t) \<and> enabled l' (tk_word t) \<and> is_registered l \<and> is_registered l' \<and>
      is_data_socket l \<and> is_data_socket l' \<and>
    (\<exists>checksum. capture_route digest l (key (cap_metadata c) ''model'') = Some (tk_word t, tk_model t, checksum) \<and>
      key (cap_metadata c) ''classifierMd5'' = (case checksum of None \<Rightarrow> JNull | Some s \<Rightarrow> JStr s)) \<and>
    (\<exists>x. cp_model x = tk_model t \<and> cp_name x = tk_name t \<and>
      opt_holds (\<lambda>meta. dict_eq meta (stored dev (cap_metadata c))) (cp_meta x) \<and>
      (if tk_created t then cp_pcm x = cap_pcm c \<and> cs' = prune_untriaged cap (unlink_ok fs) (tk_model t) (cs @ [x])
       else x \<in> set cs \<and> cs' = cs))"
proof -
  from commit_uploadE [OF assms(1)] obtain checksum where
    commit: "capture_route digest l (key (cap_metadata c) ''model'') = Some (tk_word t, tk_model t, checksum)"
      "enabled l (tk_word t)" "is_registered l" "is_data_socket l"
      "key (cap_metadata c) ''classifierMd5'' = (case checksum of None \<Rightarrow> JNull | Some s \<Rightarrow> JStr s)"
      "save_uploaded cap (commit_ok fs) (unlink_ok fs) now (tk_model t) dev (cap_metadata c) (cap_pcm c) cs =
         ((Some (tk_name t), tk_created t), cs')" .
  have r1: "enabled l (tk_word t) \<and> enabled l' (tk_word t) \<and> is_registered l \<and> is_registered l' \<and>
      is_data_socket l \<and> is_data_socket l'"
    using commit(2-4) assms(2) confirm_upload_iff by blast
  have r2: "\<exists>checksum. capture_route digest l (key (cap_metadata c) ''model'') = Some (tk_word t, tk_model t, checksum) \<and>
      key (cap_metadata c) ''classifierMd5'' = (case checksum of None \<Rightarrow> JNull | Some s \<Rightarrow> JStr s)"
    using commit(1,5) by blast
  from saved_name [OF commit(6)]
  have r3: "\<exists>x. cp_model x = tk_model t \<and> cp_name x = tk_name t \<and>
      opt_holds (\<lambda>meta. dict_eq meta (stored dev (cap_metadata c))) (cp_meta x) \<and>
      (if tk_created t then cp_pcm x = cap_pcm c \<and> cs' = prune_untriaged cap (unlink_ok fs) (tk_model t) (cs @ [x])
       else x \<in> set cs \<and> cs' = cs)"
    by (rule ex_forward) (auto simp: new_capture_def split: if_splits)
  show ?thesis using r1 r2 r3 by (simp only: conj_assoc simp_thms)
qed

text \<open>when captures are switched off while an upload is being
  stored, it is not acknowledged and afterwards the store has no capture of that upload, whatever else
  happened to the store in between, as long as nobody labelled it or stored it again.\<close>

theorem opting_out_leaves_nothing_new:
  assumes "cs = fst (run (store_step cap) [] before)"
    "commit_upload digest cap fs now l dev c cs = (Some t, cs')" "tk_created t"
    "list_all (\<lambda>(fs, x). hands_off (tk_model t) dev (key (cap_metadata c) ''captureId'') (tk_name t) x) meanwhile"
    "confirm_upload fs' l' t (fst (run (store_step cap) cs' meanwhile)) = (acked, cs'')"
    "\<not> enabled l' (tk_word t)" "unlink_ok fs' (tk_name t)" "int now + int (length cs) < 10 ^ 19"
  shows "\<not> acked \<and>
    (\<forall>x \<in> set cs''. upload_key x \<noteq> Some (tk_model t, JStr dev, key (cap_metadata c) ''captureId''))"
proof -
  have "store_ok cs" using assms(1) capture_store.inv_run by simp
  from commit_uploadE [OF assms(2)] assms(3) have
    "save_uploaded cap (commit_ok fs) (unlink_ok fs) now (tk_model t) dev (cap_metadata c) (cap_pcm c) cs =
       ((Some (tk_name t), True), cs')" by metis
  note new = new_store_ok [OF \<open>store_ok cs\<close> this]
  have "only_at (tk_model t) dev (key (cap_metadata c) ''captureId'') (tk_name t)
      (fst (run (store_step cap) cs' meanwhile))"
    using only_at_new [OF \<open>store_ok cs\<close> new(3,4)] new(2) only_at_run [OF _ assms(4)] by simp
  from discard_untriaged [where ul = "unlink_ok fs'", OF this assms(7) new(5) [OF assms(8)] new(4)] assms(3,5,6)
  have r2: "\<forall>x \<in> set cs''. upload_key x \<noteq> Some (tk_model t, JStr dev, key (cap_metadata c) ''captureId'')"
    by (auto simp: confirm_upload_def)
  have r1: "\<not> acked" using assms(5,6) by (simp add: confirm_upload_def)
  show ?thesis using r1 r2 by (intro conjI)
qed


text \<open>pruning goes by the time in the name, so after the
  wall clock has been set back a new capture is older than a full queue and is deleted by its own
  upload, which is still acknowledged, so the device does not send it again.\<close>

theorem clock_set_back_drops_an_acknowledged_upload:
  "(case commit_upload (\<lambda>_. None) 1 working 500 sample_link ''dev1'' (sample_upload ''c2'') sample_store of
      (Some t, cs) \<Rightarrow> fst (confirm_upload working sample_link t cs) \<and> tk_created t \<and>
        list_all (\<lambda>c. cp_name c \<noteq> tk_name t) cs \<and> cs = sample_store
    | _ \<Rightarrow> False)"
  by code_simp

section \<open>Witnesses\<close>

lemma sample_store_eq: "sample_store = [new_capture ''jarvis'' ''dev1'' ''dev1_1000_act_0900.wav'' (sample_meta ''c1'') [0, 0]]"
  by code_simp

definition sample_labelled :: capture where
  "sample_labelled = (new_capture ''jarvis'' ''dev1'' ''dev1_1000_act_0900.wav'' (sample_meta ''c1'') [0, 0])
     \<lparr>cp_bucket := ''positive''\<rparr>"

definition sample_ops :: "(filesystem \<times> store_op) list" where
  "sample_ops = [(working, SaveUploaded 2000 ''jarvis'' ''dev1'' (sample_meta ''c2'') [0, 0]),
     (working, SaveUploaded 3000 ''jarvis'' ''dev1'' (sample_meta ''c3'') [0, 0]),
     (working, LabelCapture ''jarvis'' ''dev1_3000_act_0900.wav'' ''negative'' JNull JNull),
     (working, Discard ''jarvis'' ''dev1_2000_act_0900.wav''),
     (working, ExportZip ''jarvis'' False), (working, DeleteDevice ''dev2'')]"

theorem labelled_captures_survive_witness:
  "sample_labelled \<in> set (fst (run (store_step 1) [sample_labelled] sample_ops))"
  by (rule labelled_captures_survive) (simp, code_simp, code_simp)

theorem retried_upload_is_recognised_witness:
  "save_uploaded 1 True (\<lambda>_. True) 9000 ''jarvis'' ''dev1'' (sample_meta ''c1'') [0, 0] sample_store =
    ((Some ''dev1_1000_act_0900.wav'', False), sample_store)"
proof -
  let ?c = "new_capture ''jarvis'' ''dev1'' ''dev1_1000_act_0900.wav'' (sample_meta ''c1'') [0, 0]"
  have "acceptable ''jarvis'' ''dev1'' (sample_meta ''c1'') [0, 0]" by code_simp
  moreover have "?c \<in> set sample_store" by (simp add: sample_store_eq)
  ultimately have "save_uploaded 1 True (\<lambda>_. True) 9000 ''jarvis'' ''dev1'' (sample_meta ''c1'') [0, 0] sample_store =
      ((if dict_eq (stored ''dev1'' (sample_meta ''c1'')) (stored ''dev1'' (sample_meta ''c1''))
        then Some (cp_name ?c) else None, False), sample_store)"
    by (intro retried_upload_is_recognised [OF sample_store_def]) (simp_all add: new_capture_def)
  then show ?thesis by (simp add: new_capture_def)
qed

definition sample_saved :: "(string option \<times> bool) \<times> captures" where
  "sample_saved = save_uploaded 1 True (\<lambda>_. True) 2000 ''jarvis'' ''dev1'' (sample_meta ''c2'') [0, 0] sample_store"

theorem uploads_keep_the_newest_witness:
  "list_captures ''jarvis'' ''untriaged'' (snd sample_saved) =
      take 1 (list_captures ''jarvis'' ''untriaged'' (sample_store @
        [new_capture ''jarvis'' ''dev1'' ''dev1_2000_act_0900.wav'' (sample_meta ''c2'') [0, 0]])) \<and>
    length (list_captures ''jarvis'' ''untriaged'' (snd sample_saved)) = 1"
proof
  have "fst sample_saved = (Some ''dev1_2000_act_0900.wav'', True)" by code_simp
  then have "save_uploaded 1 True (\<lambda>_. True) 2000 ''jarvis'' ''dev1'' (sample_meta ''c2'') [0, 0] sample_store =
      ((Some ''dev1_2000_act_0900.wav'', True), snd sample_saved)"
    by (simp add: sample_saved_def prod_eq_iff)
  from uploads_keep_the_newest [OF sample_store_def _ this]
  show "list_captures ''jarvis'' ''untriaged'' (snd sample_saved) =
      take 1 (list_captures ''jarvis'' ''untriaged'' (sample_store @
        [new_capture ''jarvis'' ''dev1'' ''dev1_2000_act_0900.wav'' (sample_meta ''c2'') [0, 0]]))"
    by simp
  show "length (list_captures ''jarvis'' ''untriaged'' (snd sample_saved)) = 1" by code_simp
qed

definition sample_commit :: "ticket option \<times> captures" where
  "sample_commit =
     commit_upload (\<lambda>_. None) 1 working 2000 sample_link ''dev1'' (sample_upload ''c2'') sample_store"

definition sample_ticket :: ticket where
  "sample_ticket =
     \<lparr>tk_word = Wake, tk_model = ''jarvis'', tk_name = ''dev1_2000_act_0900.wav'', tk_created = True\<rparr>"

lemma sample_commit_eq:
  "commit_upload (\<lambda>_. None) 1 working 2000 sample_link ''dev1'' (sample_upload ''c2'') sample_store =
     (Some sample_ticket, snd sample_commit)"
proof -
  have "fst sample_commit = Some sample_ticket" by code_simp
  then show ?thesis by (simp add: sample_commit_def prod_eq_iff)
qed

theorem acknowledged_upload_witness:
  "enabled sample_link (tk_word sample_ticket) \<and> is_data_socket sample_link"
proof -
  have "fst (confirm_upload working sample_link sample_ticket [])" by code_simp
  from acknowledged_upload [OF sample_commit_eq this] show ?thesis by blast
qed

theorem opting_out_leaves_nothing_new_witness:
  "list_all (\<lambda>x. upload_key x \<noteq> Some (''jarvis'', JStr ''dev1'', JStr ''c2''))
     (snd (confirm_upload working (sample_link\<lparr>save_wake_captures := False\<rparr>) sample_ticket
       (fst (run (store_step 1) (snd sample_commit) [(working, ExportZip ''jarvis'' True)]))))"
proof -
  let ?l = "sample_link\<lparr>save_wake_captures := False\<rparr>"
  let ?mid = "[(working, ExportZip ''jarvis'' True)]"
  let ?cs = "fst (run (store_step 1) (snd sample_commit) ?mid)"
  have q: "list_all (\<lambda>(fs, x). hands_off (tk_model sample_ticket) ''dev1''
      (key (cap_metadata (sample_upload ''c2'')) ''captureId'') (tk_name sample_ticket) x) ?mid" by code_simp
  have "confirm_upload working ?l sample_ticket ?cs =
      (fst (confirm_upload working ?l sample_ticket ?cs), snd (confirm_upload working ?l sample_ticket ?cs))" by simp
  from opting_out_leaves_nothing_new [OF sample_store_def sample_commit_eq _ q this]
  have "\<forall>x \<in> set (snd (confirm_upload working ?l sample_ticket ?cs)).
      upload_key x \<noteq> Some (tk_model sample_ticket, JStr ''dev1'', key (cap_metadata (sample_upload ''c2'')) ''captureId'')"
    by (simp add: sample_ticket_def enabled_def working_def sample_store_eq)
  moreover have "key (cap_metadata (sample_upload ''c2'')) ''captureId'' = JStr ''c2''" by code_simp
  ultimately show ?thesis by (simp add: sample_ticket_def list_all_iff)
qed

end
