(* ===== verification/Satellite.thy ===== *)
theory Satellite
  imports Prelude
begin

text \<open>
  Home Assistant's end of a turn: \<open>EchoAssistSatellite\<close> of
  \<open>hacs/custom_components/echo_voice_satellite/assist_satellite.py\<close>. The entity owns at most one turn
  at a time; wake offers, pipeline events, speech streams and announcements are tasks that run between
  awaits, and each carries the turn, the token and the channel it works for.

  A task is the await it is suspended at. An event of the loop resumes one task with what
  its await gave, or is a callback of the controller or of Home Assistant. What the entity sends is a list of
  effects. The turn id, token and channel of the active turn are set and cleared together and are one
  value here; tokens and channels are numbered.
\<close>

section \<open>Turns, actions and tasks\<close>

record owner =
  own_turn :: int
  own_token :: nat
  own_channel :: nat

record tool_record =
  tool_sequence :: nat
  tool_call_id :: string
  tool_name :: string
  tool_request :: json
  tool_response :: json
  tool_status :: string

datatype turn_post =
    Accept | Reject | SpeechStart
  | Transcript string bool
  | Endpoint
  | TtsText string
  | IntentEnd bool
  | PipelineError json json
  | ToolCall tool_record
  | TtsStart | TtsEnd

text \<open>What a pipeline event carries, as far as the handler reads it.\<close>

datatype pipeline_event =
    IntentStart "string option"
  | SttVadStart
  | SttEnd json
  | IntentEnded json bool
  | IntentProgress json
  | TtsReady json
  | ErrorEvent json json
  | OtherEvent

datatype sat_task =
    OfferStart int bool
  | OfferAttach int bool
  | OfferAccept owner bool
  | OfferRejecting "nat option"
  | PipeStart owner bool
  | PipeRun owner
  | PipeGather owner
  | PipeEndpoint owner
  | PipeTtsEnd owner
  | EvStart pipeline_event owner
  | EvTranscript owner
  | EvEndpoint owner
  | EvTtsText owner bool
  | EvTools "tool_record list" owner
  | EvPost owner
  | TtsBegin owner
  | TtsStarting owner
  | TtsStreaming owner
  | TtsFinishing owner bool
  | AnnCreate
  | AnnAttach int
  | AnnStarting owner
  | AnnStreaming owner
  | AnnEnding owner
  | GonePosting nat
  | Posting

datatype sat_effect =
    Post int turn_post
  | CreateTurn
  | AttachAudio int
  | CloseChannel nat
  | RunPipeline owner bool
  | StreamSpeech nat
  | ResponseFinished

text \<open>
  What an await gave: it returned (with a channel, or the id of the created turn), it raised
  \<open>ControllerError\<close>, or it raised something else.
\<close>

datatype await_reply = Returned | GotChannel nat | GotTurn int | Failed | Raised

record satellite =
  active :: "owner option"
  conversation :: "string option"
  tts_task :: "nat option"
  tts_token :: "nat option"
  pipeline_task :: "nat option"
  offer_locked :: bool
  transcript_sent :: bool
  endpoint_sent :: bool
  speech_start_sent :: bool
  continue_conversation :: bool
  tool_calls :: "(string \<times> tool_record) list"
  tool_call_sequence :: nat
  next_token :: nat
  next_task :: nat
  tasks :: "(nat \<times> sat_task) list"
  cancelled_tasks :: "nat list"

definition satellite_init :: satellite where
  "satellite_init = \<lparr>active = None, conversation = None, tts_task = None, tts_token = None,
     pipeline_task = None, offer_locked = False, transcript_sent = False, endpoint_sent = False,
     speech_start_sent = False, continue_conversation = False, tool_calls = [], tool_call_sequence = 0,
     next_token = 0, next_task = 0, tasks = [], cancelled_tasks = []\<rparr>"

definition owns_turn :: "satellite \<Rightarrow> owner \<Rightarrow> bool" where
  "owns_turn s x \<longleftrightarrow> active s = Some x"

definition goto :: "nat \<Rightarrow> sat_task \<Rightarrow> satellite \<Rightarrow> satellite" where
  "goto k t s = s\<lparr>tasks := put k t (tasks s)\<rparr>"

definition finished :: "nat \<Rightarrow> satellite \<Rightarrow> satellite" where
  "finished k s = s\<lparr>tasks := pop k (tasks s)\<rparr>"

definition spawn :: "sat_task \<Rightarrow> satellite \<Rightarrow> satellite" where
  "spawn t s = s\<lparr>tasks := put (next_task s) t (tasks s), next_task := next_task s + 1\<rparr>"

section \<open>Offers\<close>

definition take_turn :: "int \<Rightarrow> nat \<Rightarrow> satellite \<Rightarrow> owner \<times> satellite" where
  "take_turn turn ch s =
     (let x = \<lparr>own_turn = turn, own_token = next_token s, own_channel = ch\<rparr> in
      (x, s\<lparr>active := Some x, next_token := next_token s + 1\<rparr>))"

definition begin_offer :: "nat \<Rightarrow> int \<Rightarrow> bool \<Rightarrow> satellite \<Rightarrow> satellite \<times> sat_effect list" where
  "begin_offer k turn speech s =
     (if offer_locked s then (s, [])
      else let s1 = s\<lparr>offer_locked := True\<rparr> in
        if active s \<noteq> None then (goto k (OfferRejecting None) s1, [Post turn Reject])
        else (goto k (OfferAttach turn speech) s1, [AttachAudio turn]))"

definition release_lock :: "nat \<Rightarrow> satellite \<Rightarrow> satellite" where
  "release_lock k s = (finished k s)\<lparr>offer_locked := False\<rparr>"

definition offer_attached ::
  "nat \<Rightarrow> int \<Rightarrow> bool \<Rightarrow> await_reply \<Rightarrow> satellite \<Rightarrow> satellite \<times> sat_effect list" where
  "offer_attached k turn speech r s =
     (case r of
        GotChannel ch \<Rightarrow>
          (let (x, s1) = take_turn turn ch s in
           (goto k (OfferAccept x speech)
              (s1\<lparr>conversation := None, transcript_sent := False, endpoint_sent := False,
                  speech_start_sent := False, continue_conversation := False, tool_calls := [],
                  tool_call_sequence := 0, tts_task := None\<rparr>),
            [Post turn Accept]))
      | Failed \<Rightarrow> (goto k (OfferRejecting None) s, [Post turn Reject])
      | _ \<Rightarrow> (release_lock k s, []))"

definition offer_accepted ::
  "nat \<Rightarrow> owner \<Rightarrow> bool \<Rightarrow> await_reply \<Rightarrow> satellite \<Rightarrow> satellite \<times> sat_effect list" where
  "offer_accepted k x speech r s =
     (case r of
        Failed \<Rightarrow>
          (goto k (OfferRejecting (Some (own_channel x))) (s\<lparr>active := None, conversation := None\<rparr>),
           [Post (own_turn x) Reject])
      | Raised \<Rightarrow> (release_lock k s, [])
      | _ \<Rightarrow> (release_lock k ((spawn (PipeStart x speech) s)\<lparr>pipeline_task := Some (next_task s)\<rparr>), []))"

definition offer_rejected :: "nat \<Rightarrow> nat option \<Rightarrow> await_reply \<Rightarrow> satellite \<Rightarrow> satellite \<times> sat_effect list" where
  "offer_rejected k ch r s =
     (release_lock k s, case ch of Some c \<Rightarrow> if r = Raised then [] else [CloseChannel c] | None \<Rightarrow> [])"

section \<open>The pipeline\<close>

definition begin_pipeline :: "nat \<Rightarrow> owner \<Rightarrow> bool \<Rightarrow> satellite \<Rightarrow> satellite \<times> sat_effect list" where
  "begin_pipeline k x speech s =
     (if owns_turn s x then (goto k (PipeRun x) s, [RunPipeline x speech]) else (finished k s, []))"

definition drop_pipeline :: "nat \<Rightarrow> satellite \<Rightarrow> satellite" where
  "drop_pipeline k s = (if pipeline_task s = Some k then s\<lparr>pipeline_task := None\<rparr> else s)"

definition pipeline_done :: "nat \<Rightarrow> owner \<Rightarrow> satellite \<Rightarrow> satellite \<times> sat_effect list" where
  "pipeline_done k x s =
     (let s1 = drop_pipeline k s in
      if \<not> owns_turn s1 x then (finished k s1, [])
      else if tts_task s1 \<noteq> None \<and> tts_token s1 = Some (own_token x) then (goto k (PipeGather x) s1, [])
      else if \<not> endpoint_sent s1 then (goto k (PipeEndpoint x) s1, [Post (own_turn x) Endpoint])
      else (goto k (PipeTtsEnd x) s1, [Post (own_turn x) TtsEnd]))"

definition pipeline_endpoint :: "nat \<Rightarrow> owner \<Rightarrow> await_reply \<Rightarrow> satellite \<Rightarrow> satellite \<times> sat_effect list" where
  "pipeline_endpoint k x r s =
     (if r = Failed \<or> r = Raised then (finished k s, [])
      else (goto k (PipeTtsEnd x) (s\<lparr>endpoint_sent := True\<rparr>), [Post (own_turn x) TtsEnd]))"

section \<open>Tool calls\<close>

definition text_field :: "(string \<times> json) list \<Rightarrow> string \<Rightarrow> string option" where
  "text_field d k = (case json_str (get_default d k JNull) of Some v \<Rightarrow> if v = [] then None else Some v | None \<Rightarrow> None)"

definition known_tool :: "string \<Rightarrow> satellite \<Rightarrow> tool_record \<times> satellite" where
  "known_tool i s =
     (case map_of (tool_calls s) i of
        Some c \<Rightarrow> (c, s)
      | None \<Rightarrow>
          (\<lparr>tool_sequence = tool_call_sequence s, tool_call_id = i, tool_name = [], tool_request = JNull,
            tool_response = JNull, tool_status = ''pending''\<rparr>,
           s\<lparr>tool_call_sequence := tool_call_sequence s + 1\<rparr>))"

definition keep_tool :: "tool_record \<Rightarrow> satellite \<Rightarrow> satellite" where
  "keep_tool c s = s\<lparr>tool_calls := put (tool_call_id c) c (tool_calls s)\<rparr>"

definition tool_called :: "json \<Rightarrow> satellite \<Rightarrow> satellite \<times> tool_record list" where
  "tool_called j s =
     (case j of
        JObj d \<Rightarrow>
          (case (text_field d ''id'', text_field d ''tool_name'') of
             (Some i, Some nm) \<Rightarrow>
               (let (c, s1) = known_tool i s;
                    c' = c\<lparr>tool_name := nm, tool_request := get_default d ''tool_args'' JNull\<rparr> in
                (keep_tool c' s1, [c']))
           | _ \<Rightarrow> (s, []))
      | _ \<Rightarrow> (s, []))"

fun tools_called :: "json list \<Rightarrow> satellite \<Rightarrow> satellite \<times> tool_record list" where
  "tools_called [] s = (s, [])"
| "tools_called (j # js) s =
     (let (s1, p) = tool_called j s; (s2, ps) = tools_called js s1 in (s2, p @ ps))"

definition has_error :: "json \<Rightarrow> bool" where
  "has_error j = (case j of JObj d \<Rightarrow> ''error'' \<in> fst ` set d | _ \<Rightarrow> False)"

definition tool_returned :: "(string \<times> json) list \<Rightarrow> satellite \<Rightarrow> satellite \<times> tool_record list" where
  "tool_returned d s =
     (case (text_field d ''tool_call_id'', text_field d ''tool_name'') of
        (Some i, Some nm) \<Rightarrow>
          (let (c, s1) = known_tool i s;
               res = get_default d ''tool_result'' JNull;
               c' = c\<lparr>tool_name := nm, tool_response := res,
                      tool_status := if has_error res then ''error'' else ''ok''\<rparr> in
           (keep_tool c' s1, [c']))
      | _ \<Rightarrow> (s, []))"

definition tool_delta :: "json \<Rightarrow> satellite \<Rightarrow> satellite \<times> tool_record list" where
  "tool_delta j s =
     (case j of
        JObj d \<Rightarrow>
          (case get_default d ''tool_calls'' JNull of
             JArr cs \<Rightarrow> tools_called cs s
           | _ \<Rightarrow> if get_default d ''role'' JNull = JStr ''tool_result'' then tool_returned d s else (s, []))
      | _ \<Rightarrow> (s, []))"

text \<open>The payloads are posted one by one, as long as the turn is still owned.\<close>

definition post_tools :: "nat \<Rightarrow> tool_record list \<Rightarrow> owner \<Rightarrow> satellite \<Rightarrow> satellite \<times> sat_effect list" where
  "post_tools k ps x s =
     (case ps of
        [] \<Rightarrow> (finished k s, [])
      | p # qs \<Rightarrow>
          if owns_turn s x then (goto k (EvTools qs x) s, [Post (own_turn x) (ToolCall p)])
          else (finished k s, []))"


section \<open>Pipeline events\<close>

definition begin_event :: "nat \<Rightarrow> pipeline_event \<Rightarrow> owner \<Rightarrow> satellite \<Rightarrow> satellite \<times> sat_effect list" where
  "begin_event k ev x s =
     (if \<not> owns_turn s x then (finished k s, [])
      else case ev of
        SttVadStart \<Rightarrow>
          if speech_start_sent s then (finished k s, [])
          else (goto k (EvPost x) (s\<lparr>speech_start_sent := True\<rparr>), [Post (own_turn x) SpeechStart])
      | SttEnd txt \<Rightarrow>
          if \<not> transcript_sent s \<and> opt_holds (\<lambda>t. t \<noteq> []) (json_str txt)
          then (goto k (EvTranscript x) s, [Post (own_turn x) (Transcript (the (json_str txt)) True)])
          else (goto k (EvEndpoint x) s, [Post (own_turn x) Endpoint])
      | IntentEnded speech cont \<Rightarrow>
          if opt_holds (\<lambda>t. t \<noteq> []) (json_str speech)
          then (goto k (EvTtsText x cont) s, [Post (own_turn x) (TtsText (the (json_str speech)))])
          else (goto k (EvPost x) (s\<lparr>continue_conversation := cont\<rparr>), [Post (own_turn x) (IntentEnd cont)])
      | IntentProgress delta \<Rightarrow> (let (s1, ps) = tool_delta delta s in post_tools k ps x s1)
      | TtsReady tok \<Rightarrow>
          if truthy tok \<and> tts_task s = None
          then (finished k ((spawn (TtsBegin x) s)
                  \<lparr>tts_token := Some (own_token x), tts_task := Some (next_task s)\<rparr>), [])
          else (finished k s, [])
      | ErrorEvent code msg \<Rightarrow> (goto k (EvPost x) s, [Post (own_turn x) (PipelineError code msg)])
      | _ \<Rightarrow> (finished k s, []))"

text \<open>An action that fails ends the task; otherwise the rest of the branch runs.\<close>

definition transcript_posted :: "nat \<Rightarrow> owner \<Rightarrow> await_reply \<Rightarrow> satellite \<Rightarrow> satellite \<times> sat_effect list" where
  "transcript_posted k x r s =
     (if r = Failed \<or> r = Raised then (finished k s, [])
      else let s1 = s\<lparr>transcript_sent := True\<rparr> in
        if owns_turn s1 x then (goto k (EvEndpoint x) s1, [Post (own_turn x) Endpoint])
        else (finished k s1, []))"

definition endpoint_posted :: "nat \<Rightarrow> await_reply \<Rightarrow> satellite \<Rightarrow> satellite \<times> sat_effect list" where
  "endpoint_posted k r s =
     (finished k (if r = Failed \<or> r = Raised then s else s\<lparr>endpoint_sent := True\<rparr>), [])"

definition tts_text_posted :: "nat \<Rightarrow> owner \<Rightarrow> bool \<Rightarrow> await_reply \<Rightarrow> satellite \<Rightarrow> satellite \<times> sat_effect list" where
  "tts_text_posted k x cont r s =
     (if r = Failed \<or> r = Raised then (finished k s, [])
      else let s1 = s\<lparr>continue_conversation := cont\<rparr> in
        if owns_turn s1 x then (goto k (EvPost x) s1, [Post (own_turn x) (IntentEnd cont)])
        else (finished k s1, []))"

section \<open>Speech\<close>

text \<open>\<open>finally\<close> of the stream: only the current task clears the slot.\<close>

definition tts_finished :: "nat \<Rightarrow> satellite \<Rightarrow> satellite" where
  "tts_finished k s =
     finished k (if tts_task s = Some k then s\<lparr>tts_task := None, tts_token := None\<rparr> else s)"

definition begin_tts :: "nat \<Rightarrow> owner \<Rightarrow> satellite \<Rightarrow> satellite \<times> sat_effect list" where
  "begin_tts k x s =
     (if owns_turn s x then (goto k (TtsStarting x) s, [Post (own_turn x) TtsStart]) else (finished k s, []))"

definition end_tts :: "nat \<Rightarrow> owner \<Rightarrow> bool \<Rightarrow> satellite \<Rightarrow> satellite \<times> sat_effect list" where
  "end_tts k x again s =
     (if owns_turn s x then (goto k (TtsFinishing x again) s, [Post (own_turn x) TtsEnd])
      else (tts_finished k s, []))"

text \<open>A missing stream is \<open>Raised\<close>, as is any failure of the synthesis.\<close>

definition tts_started :: "nat \<Rightarrow> owner \<Rightarrow> await_reply \<Rightarrow> satellite \<Rightarrow> satellite \<times> sat_effect list" where
  "tts_started k x r s =
     (if r = Failed \<or> r = Raised then end_tts k x False s
      else (goto k (TtsStreaming x) s, [StreamSpeech (own_channel x)]))"

definition tts_streamed :: "nat \<Rightarrow> owner \<Rightarrow> await_reply \<Rightarrow> satellite \<Rightarrow> satellite \<times> sat_effect list" where
  "tts_streamed k x r s = end_tts k x (r \<noteq> Failed \<and> r \<noteq> Raised) s"

definition tts_ended :: "nat \<Rightarrow> owner \<Rightarrow> bool \<Rightarrow> await_reply \<Rightarrow> satellite \<Rightarrow> satellite \<times> sat_effect list" where
  "tts_ended k x again r s =
     (if again \<and> (r = Failed \<or> r = Raised) then end_tts k x False s else (tts_finished k s, []))"

section \<open>Announcements\<close>

definition announce_created :: "nat \<Rightarrow> await_reply \<Rightarrow> satellite \<Rightarrow> satellite \<times> sat_effect list" where
  "announce_created k r s =
     (case r of GotTurn t \<Rightarrow> (goto k (AnnAttach t) s, [AttachAudio t]) | _ \<Rightarrow> (finished k s, []))"

definition announce_attached :: "nat \<Rightarrow> int \<Rightarrow> await_reply \<Rightarrow> satellite \<Rightarrow> satellite \<times> sat_effect list" where
  "announce_attached k t r s =
     (case r of
        GotChannel ch \<Rightarrow>
          (let (x, s1) = take_turn t ch s in
           (goto k (AnnStarting x)
              (s1\<lparr>tool_calls := [], tool_call_sequence := 0, tts_task := Some k,
                  tts_token := Some (own_token x)\<rparr>),
            [Post t TtsStart]))
      | _ \<Rightarrow> (finished k s, []))"

definition announce_started :: "nat \<Rightarrow> owner \<Rightarrow> await_reply \<Rightarrow> satellite \<Rightarrow> satellite \<times> sat_effect list" where
  "announce_started k x r s =
     (if r = Failed \<or> r = Raised then (tts_finished k s, [])
      else (goto k (AnnStreaming x) s, [StreamSpeech (own_channel x)]))"

definition announce_streamed :: "nat \<Rightarrow> owner \<Rightarrow> await_reply \<Rightarrow> satellite \<Rightarrow> satellite \<times> sat_effect list" where
  "announce_streamed k x r s =
     (if r = Failed \<or> r = Raised then (tts_finished k s, [])
      else (goto k (AnnEnding x) s, [Post (own_turn x) TtsEnd]))"

section \<open>The controller ends a turn\<close>

definition task_cancel :: "nat option \<Rightarrow> satellite \<Rightarrow> satellite" where
  "task_cancel k s =
     (case k of
        Some i \<Rightarrow> if i \<in> fst ` set (tasks s) then s\<lparr>cancelled_tasks := i # cancelled_tasks s\<rparr> else s
      | None \<Rightarrow> s)"

definition clear_turn :: "satellite \<Rightarrow> satellite" where
  "clear_turn s =
     (task_cancel (tts_task s) (task_cancel (pipeline_task s) s))
       \<lparr>active := None, conversation := None, pipeline_task := None, tts_task := None, tts_token := None\<rparr>"

definition turn_gone :: "int \<Rightarrow> bool \<Rightarrow> satellite \<Rightarrow> satellite \<times> sat_effect list" where
  "turn_gone turn terminal s =
     (case active s of
        None \<Rightarrow> (s, [])
      | Some x \<Rightarrow>
          if own_turn x \<noteq> turn then (s, [])
          else if terminal then (clear_turn s, [ResponseFinished, CloseChannel (own_channel x)])
          else (spawn (GonePosting (own_channel x)) (clear_turn s), [Post turn TtsEnd]))"

definition gone_posted :: "nat \<Rightarrow> nat \<Rightarrow> await_reply \<Rightarrow> satellite \<Rightarrow> satellite \<times> sat_effect list" where
  "gone_posted k ch r s = (finished k s, if r = Raised then [] else [ResponseFinished, CloseChannel ch])"

definition removed :: "satellite \<Rightarrow> satellite \<times> sat_effect list" where
  "removed s =
     (clear_turn s,
      case active s of None \<Rightarrow> [] | Some x \<Rightarrow> [Post (own_turn x) Reject, CloseChannel (own_channel x)])"

section \<open>The event loop\<close>

text \<open>
  A cancelled task ends at its next resumption: only the streams and announcements that have begun
  have a \<open>finally\<close> that writes the state, and the pipeline drops its slot.
\<close>

definition cancel_task :: "nat \<Rightarrow> sat_task \<Rightarrow> satellite \<Rightarrow> satellite" where
  "cancel_task k t s =
     (case t of
        PipeRun x \<Rightarrow> finished k (drop_pipeline k s)
      | TtsStarting x \<Rightarrow> tts_finished k s
      | TtsStreaming x \<Rightarrow> tts_finished k s
      | TtsFinishing x again \<Rightarrow> tts_finished k s
      | AnnStarting x \<Rightarrow> tts_finished k s
      | AnnStreaming x \<Rightarrow> tts_finished k s
      | AnnEnding x \<Rightarrow> tts_finished k s
      | _ \<Rightarrow> finished k s)"

fun resume_task :: "nat \<Rightarrow> sat_task \<Rightarrow> await_reply \<Rightarrow> satellite \<Rightarrow> satellite \<times> sat_effect list" where
  "resume_task k (OfferStart turn speech) r s = begin_offer k turn speech s"
| "resume_task k (OfferAttach turn speech) r s = offer_attached k turn speech r s"
| "resume_task k (OfferAccept x speech) r s = offer_accepted k x speech r s"
| "resume_task k (OfferRejecting ch) r s = offer_rejected k ch r s"
| "resume_task k (PipeStart x speech) r s = begin_pipeline k x speech s"
| "resume_task k (PipeRun x) r s = pipeline_done k x s"
| "resume_task k (PipeGather x) r s = (finished k s, [])"
| "resume_task k (PipeEndpoint x) r s = pipeline_endpoint k x r s"
| "resume_task k (PipeTtsEnd x) r s = (finished k s, [])"
| "resume_task k (EvStart ev x) r s = begin_event k ev x s"
| "resume_task k (EvTranscript x) r s = transcript_posted k x r s"
| "resume_task k (EvEndpoint x) r s = endpoint_posted k r s"
| "resume_task k (EvTtsText x cont) r s = tts_text_posted k x cont r s"
| "resume_task k (EvTools ps x) r s =
     (if r = Failed \<or> r = Raised then (finished k s, []) else post_tools k ps x s)"
| "resume_task k (EvPost x) r s = (finished k s, [])"
| "resume_task k (TtsBegin x) r s = begin_tts k x s"
| "resume_task k (TtsStarting x) r s = tts_started k x r s"
| "resume_task k (TtsStreaming x) r s = tts_streamed k x r s"
| "resume_task k (TtsFinishing x again) r s = tts_ended k x again r s"
| "resume_task k AnnCreate r s = announce_created k r s"
| "resume_task k (AnnAttach t) r s = announce_attached k t r s"
| "resume_task k (AnnStarting x) r s = announce_started k x r s"
| "resume_task k (AnnStreaming x) r s = announce_streamed k x r s"
| "resume_task k (AnnEnding x) r s = (tts_finished k s, [])"
| "resume_task k (GonePosting ch) r s = gone_posted k ch r s"
| "resume_task k Posting r s = (finished k s, [])"

datatype sat_event =
    WakeOffer int bool
  | TurnGone int bool
  | PipelineEv pipeline_event
  | ChatLog string json
  | SttPartial owner string
  | Announce
  | WillRemove
  | Resume nat await_reply

definition note_conversation :: "pipeline_event \<Rightarrow> satellite \<Rightarrow> satellite" where
  "note_conversation ev s =
     (case ev of IntentStart (Some c) \<Rightarrow> if active s \<noteq> None then s\<lparr>conversation := Some c\<rparr> else s | _ \<Rightarrow> s)"

definition chat_role_ok :: "json \<Rightarrow> bool" where
  "chat_role_ok j = (case j of
     JObj d \<Rightarrow> get_default d ''role'' JNull \<in> {JStr ''assistant'', JStr ''tool_result''} | _ \<Rightarrow> False)"

fun sat_step :: "satellite \<Rightarrow> sat_event \<Rightarrow> satellite \<times> sat_effect list" where
  "sat_step s (WakeOffer turn speech) = (spawn (OfferStart turn speech) s, [])"
| "sat_step s (TurnGone turn terminal) = turn_gone turn terminal s"
| "sat_step s (PipelineEv ev) =
     (let s1 = note_conversation ev s in
      (case active s1 of Some x \<Rightarrow> spawn (EvStart ev x) s1 | None \<Rightarrow> s1, []))"
| "sat_step s (ChatLog conv j) =
     (if conversation s \<noteq> Some conv \<or> \<not> chat_role_ok j then (s, [])
      else (case active s of Some x \<Rightarrow> spawn (EvStart (IntentProgress j) x) s | None \<Rightarrow> s, []))"
| "sat_step s (SttPartial x txt) =
     (if owns_turn s x then (spawn Posting s, [Post (own_turn x) (Transcript txt False)]) else (s, []))"
| "sat_step s Announce = (spawn AnnCreate s, [CreateTurn])"
| "sat_step s WillRemove = removed s"
| "sat_step s (Resume k r) =
     (case map_of (tasks s) k of
        None \<Rightarrow> (s, [])
      | Some t \<Rightarrow>
          if k \<in> set (cancelled_tasks s)
          then (cancel_task k t (s\<lparr>cancelled_tasks := removeAll k (cancelled_tasks s)\<rparr>), [])
          else resume_task k t r s)"

declare sat_step.simps [simp del] resume_task.simps [simp del]

lemmas offer_defs = begin_offer_def offer_attached_def offer_accepted_def offer_rejected_def
lemmas event_defs = begin_event_def transcript_posted_def endpoint_posted_def tts_text_posted_def post_tools_def
lemmas speech_defs = begin_tts_def end_tts_def tts_started_def tts_streamed_def tts_ended_def
lemmas announce_defs = announce_created_def announce_attached_def announce_started_def announce_streamed_def
lemmas pipeline_defs = begin_pipeline_def pipeline_done_def pipeline_endpoint_def drop_pipeline_def
lemmas gone_defs = turn_gone_def gone_posted_def removed_def clear_turn_def task_cancel_def
lemmas slot_defs = goto_def finished_def spawn_def release_lock_def tts_finished_def take_turn_def

end
