(* ===== verification/SatelliteTurns.thy ===== *)
theory SatelliteTurns
  imports Satellite
begin

text \<open>
  What the satellite entity guarantees about turns: a turn it has let go is left alone, a turn it holds
  is brought to its end, an idle entity takes an offer; and two ways in which it goes wrong, a notice
  that is lost and a reply that comes late.
\<close>

section \<open>What a step does to the tasks\<close>

text \<open>A property of every task is kept when it holds of the tasks a step adds.\<close>

definition all_tasks :: "(sat_task \<Rightarrow> bool) \<Rightarrow> satellite \<Rightarrow> bool" where
  "all_tasks P s \<longleftrightarrow> (\<forall>(k, t) \<in> set (tasks s). P t)"

lemma all_tasks_put: "all_tasks P s \<Longrightarrow> P t \<Longrightarrow> \<forall>(k, t) \<in> set (put i t (tasks s)). P t"
  using set_put_subset [of i t "tasks s"] by (fastforce simp: all_tasks_def)

lemma all_tasks_intros [simp, intro]:
  "all_tasks P s \<Longrightarrow> P t \<Longrightarrow> all_tasks P (goto k t s)"
  "all_tasks P s \<Longrightarrow> P t \<Longrightarrow> all_tasks P (spawn t s)"
  "all_tasks P s \<Longrightarrow> all_tasks P (finished k s)"
  "all_tasks P s \<Longrightarrow> all_tasks P (drop_pipeline k s)"
  "all_tasks P s \<Longrightarrow> all_tasks P (tts_finished k s)"
  "all_tasks P s \<Longrightarrow> all_tasks P (release_lock k s)"
  "all_tasks P s \<Longrightarrow> all_tasks P (clear_turn s)"
  "all_tasks P s \<Longrightarrow> all_tasks P (cancel_task k t s)"
  using all_tasks_put [of P s t] 
  by (auto simp: all_tasks_def goto_def spawn_def finished_def drop_pipeline_def tts_finished_def
      release_lock_def clear_turn_def task_cancel_def cancel_task_def split: option.split sat_task.split)

lemma all_tasks_frame [simp]:
  "all_tasks P (s\<lparr>active := a\<rparr>) = all_tasks P s" "all_tasks P (s\<lparr>conversation := b\<rparr>) = all_tasks P s"
  "all_tasks P (s\<lparr>tts_task := c\<rparr>) = all_tasks P s" "all_tasks P (s\<lparr>tts_token := c\<rparr>) = all_tasks P s"
  "all_tasks P (s\<lparr>pipeline_task := c\<rparr>) = all_tasks P s" "all_tasks P (s\<lparr>offer_locked := d\<rparr>) = all_tasks P s"
  "all_tasks P (s\<lparr>transcript_sent := d\<rparr>) = all_tasks P s" "all_tasks P (s\<lparr>endpoint_sent := d\<rparr>) = all_tasks P s"
  "all_tasks P (s\<lparr>speech_start_sent := d\<rparr>) = all_tasks P s"
  "all_tasks P (s\<lparr>continue_conversation := d\<rparr>) = all_tasks P s"
  "all_tasks P (s\<lparr>tool_calls := e\<rparr>) = all_tasks P s" "all_tasks P (s\<lparr>tool_call_sequence := f\<rparr>) = all_tasks P s"
  "all_tasks P (s\<lparr>next_token := f\<rparr>) = all_tasks P s" "all_tasks P (s\<lparr>cancelled_tasks := g\<rparr>) = all_tasks P s"
  by (simp_all add: all_tasks_def)

lemma active_frame [simp]:
  "active (goto k t s) = active s" "active (spawn t s) = active s" "active (finished k s) = active s"
  "active (drop_pipeline k s) = active s" "active (tts_finished k s) = active s"
  "active (release_lock k s) = active s" "active (cancel_task k t s) = active s"
  "active (clear_turn s) = None" "active (note_conversation ev s) = active s"
  by (auto simp: goto_def spawn_def finished_def drop_pipeline_def tts_finished_def release_lock_def
      cancel_task_def clear_turn_def note_conversation_def split: sat_task.split pipeline_event.split option.split)

text \<open>Recording tool calls touches nothing but the tool calls.\<close>

lemma known_tool_frame [simp]:
  "active (snd (known_tool i s)) = active s" "tasks (snd (known_tool i s)) = tasks s"
  by (simp_all add: known_tool_def split: option.split)

lemma keep_tool_frame [simp]: "active (keep_tool c s) = active s" "tasks (keep_tool c s) = tasks s"
  by (simp_all add: keep_tool_def)

lemma tool_called_frame [simp]:
  "active (fst (tool_called j s)) = active s" "tasks (fst (tool_called j s)) = tasks s"
  by (simp_all add: tool_called_def case_prod_beta Let_def split: json.split option.split)

lemma tools_called_frame [simp]:
  "active (fst (tools_called js s)) = active s" "tasks (fst (tools_called js s)) = tasks s"
  by (induction js arbitrary: s) (simp_all add: case_prod_beta Let_def)

lemma tool_delta_frame [simp]:
  "active (fst (tool_delta j s)) = active s" "tasks (fst (tool_delta j s)) = tasks s"
  by (simp_all add: tool_delta_def tool_returned_def case_prod_beta Let_def split: json.split option.split)


lemma take_turn_frame [simp]:
  "active (snd (take_turn t ch s)) = Some (fst (take_turn t ch s))"
  "own_turn (fst (take_turn t ch s)) = t" "own_channel (fst (take_turn t ch s)) = ch"
  "tasks (snd (take_turn t ch s)) = tasks s"
  by (simp_all add: take_turn_def Let_def)

lemma all_tasks_cong: "tasks s = tasks s' \<Longrightarrow> all_tasks P s = all_tasks P s'"
  by (simp add: all_tasks_def)

lemma all_tasks_sub [simp]:
  "all_tasks P (snd (take_turn t ch s)) = all_tasks P s" "all_tasks P (fst (tool_delta j s)) = all_tasks P s"
  by (simp_all cong: all_tasks_cong)

text \<open>Which turn an entity holds after a resumption, and what it may post.\<close>

lemma post_tools_frame [simp]: "active (fst (post_tools k ps x s)) = active s"
  by (simp add: post_tools_def split: list.split)

lemma resume_active:
  "active (fst (resume_task k tk r s)) =
     (case tk of
        OfferAttach t sp \<Rightarrow> (case r of GotChannel ch \<Rightarrow> Some (fst (take_turn t ch s)) | _ \<Rightarrow> active s)
      | AnnAttach t \<Rightarrow> (case r of GotChannel ch \<Rightarrow> Some (fst (take_turn t ch s)) | _ \<Rightarrow> active s)
      | OfferAccept x sp \<Rightarrow> if r = Failed then None else active s
      | _ \<Rightarrow> active s)"
  by (cases tk)
     (simp_all add: resume_task.simps offer_defs event_defs speech_defs announce_defs pipeline_defs
       gone_posted_def case_prod_beta Let_def split: await_reply.split pipeline_event.split list.split)

definition working_on :: "int \<Rightarrow> satellite \<Rightarrow> bool" where
  "working_on t s \<longleftrightarrow> (\<exists>x. active s = Some x \<and> own_turn x = t)"

lemma post_tools_posts:
  "Post t a \<in> set (snd (post_tools k ps x s)) \<Longrightarrow> working_on t s"
  by (auto simp: post_tools_def working_on_def owns_turn_def split: list.splits if_splits)

lemma owned_posts:
  assumes "Post t a \<in> set (snd (resume_task k tk r s))" "a \<noteq> Reject" "a \<noteq> TtsEnd"
  shows "working_on t (fst (resume_task k tk r s))"
proof (cases tk)
  case (EvStart ev x)
  then show ?thesis
    using assms
    by (cases ev) (auto simp: resume_task.simps begin_event_def working_on_def owns_turn_def case_prod_beta
        split: if_splits dest!: post_tools_posts)
qed (use assms in \<open>auto simp: resume_task.simps offer_defs transcript_posted_def endpoint_posted_def
      tts_text_posted_def speech_defs announce_defs pipeline_defs gone_posted_def working_on_def owns_turn_def
      case_prod_beta Let_def split: await_reply.splits if_splits option.splits
      dest: post_tools_posts\<close>)


text \<open>Every turn a task is about to take comes from an offer or from an announcement.\<close>

fun wants :: "int \<Rightarrow> sat_task \<Rightarrow> bool" where
  "wants t (OfferStart u sp) = (u = t)"
| "wants t (OfferAttach u sp) = (u = t)"
| "wants t (AnnAttach u) = (u = t)"
| "wants t _ = False"

definition brings :: "int \<Rightarrow> sat_event \<Rightarrow> bool" where
  "brings t e \<longleftrightarrow> (case e of WakeOffer u sp \<Rightarrow> u = t | Resume k r \<Rightarrow> r = GotTurn t | _ \<Rightarrow> False)"

lemma all_tasks_post_tools: "all_tasks P s \<Longrightarrow> (\<And>qs. P (EvTools qs x)) \<Longrightarrow> all_tasks P (fst (post_tools k ps x s))"
  by (auto simp: post_tools_def split: list.split)

lemma resume_unwanted:
  assumes "all_tasks (\<lambda>x. \<not> wants t x) s" "\<not> wants t tk" "r \<noteq> GotTurn t"
  shows "all_tasks (\<lambda>x. \<not> wants t x) (fst (resume_task k tk r s))"
  using assms
  by (cases tk)
     (auto simp: resume_task.simps offer_defs begin_event_def transcript_posted_def endpoint_posted_def
       tts_text_posted_def speech_defs announce_defs pipeline_endpoint_def pipeline_done_def begin_pipeline_def
       gone_posted_def case_prod_beta Let_def intro!: all_tasks_post_tools
       split: await_reply.split pipeline_event.split)

lemma all_tasks_mem: "all_tasks P s \<Longrightarrow> map_of (tasks s) k = Some tk \<Longrightarrow> P tk"
  by (auto simp: all_tasks_def dest: map_of_SomeD)

definition clear_of :: "int \<Rightarrow> satellite \<Rightarrow> bool" where
  "clear_of t s \<longleftrightarrow> \<not> working_on t s \<and> all_tasks (\<lambda>x. \<not> wants t x) s"

lemma note_conversation_tasks [simp]: "all_tasks P (note_conversation ev s) = all_tasks P s"
  by (simp add: note_conversation_def split: pipeline_event.split option.split)

lemma resume_clear:
  assumes "clear_of t s" "\<not> wants t tk" "r \<noteq> GotTurn t"
  shows "clear_of t (fst (resume_task k tk r s))"
  using assms resume_unwanted [of t s tk r k]
  by (cases tk) (auto simp: clear_of_def working_on_def resume_active split: await_reply.splits)

lemma step_clear:
  assumes "clear_of t s" "\<not> brings t e"
  shows "clear_of t (fst (sat_step s e))"
  using assms
proof (cases e)
  case (Resume k r)
  then show ?thesis
    using assms resume_clear [of t s _ r k] all_tasks_mem [of _ s k]
    by (auto simp: sat_step.simps brings_def clear_of_def working_on_def split: option.split)
qed (auto simp: sat_step.simps brings_def clear_of_def working_on_def turn_gone_def removed_def Let_def
    split: option.split)

lemma step_posts_clear:
  assumes "clear_of t s" "\<not> brings t e" "Post t a \<in> set (snd (sat_step s e))"
  shows "a = TtsEnd \<or> a = Reject"
proof (cases e)
  case (Resume k r)
  show ?thesis
  proof (rule ccontr)
    assume "\<not> ?thesis"
    with Resume assms(3) have "working_on t (fst (sat_step s e))"
      using owned_posts by (auto simp: sat_step.simps split: option.splits if_splits)
    then show False using step_clear [OF assms(1,2)] by (simp add: clear_of_def)
  qed
qed (use assms in \<open>auto simp: sat_step.simps clear_of_def working_on_def turn_gone_def removed_def owns_turn_def Let_def
      split: option.splits if_splits\<close>)


text \<open>The closing actions: the only ones an entity may send for a turn it has let go.\<close>

definition only_closing :: "int \<Rightarrow> sat_effect list \<Rightarrow> bool" where
  "only_closing t fs \<longleftrightarrow> (\<forall>a. Post t a \<in> set fs \<longrightarrow> a = TtsEnd \<or> a = Reject)"

lemma step_only_closing: "clear_of t s \<Longrightarrow> \<not> brings t e \<Longrightarrow> only_closing t (snd (sat_step s e))"
  unfolding only_closing_def using step_posts_clear by blast

interpretation released: guarded_machine sat_step "clear_of t" "\<lambda>e. \<not> brings t e" for t
  by unfold_locales (rule step_clear)

lemma run_only_closing:
  assumes "clear_of t s" "list_all (\<lambda>e. \<not> brings t e) es" "r \<in> set (snd (run sat_step s es))"
  shows "only_closing t r"
  using released.guarded_output [of t "only_closing t", OF step_only_closing assms] .

lemma turn_gone_clear:
  "active s = Some x \<Longrightarrow> all_tasks (\<lambda>k. \<not> wants (own_turn x) k) s \<Longrightarrow>
     clear_of (own_turn x) (fst (sat_step s (TurnGone (own_turn x) terminal)))"
  by (auto simp: sat_step.simps turn_gone_def clear_of_def working_on_def)

text \<open>
  A turn the controller forgot to end. While the entity holds a turn and no task is about to take
  another, only the controller's notice for that turn, an announcement or the removal of the entity
  changes what it holds.
\<close>

fun takes_turns :: "sat_task \<Rightarrow> bool" where
  "takes_turns (OfferAttach t sp) = True"
| "takes_turns (OfferAccept x sp) = True"
| "takes_turns AnnCreate = True"
| "takes_turns (AnnAttach t) = True"
| "takes_turns _ = False"

definition stuck_on :: "owner \<Rightarrow> satellite \<Rightarrow> bool" where
  "stuck_on x s \<longleftrightarrow> active s = Some x \<and> all_tasks (\<lambda>t. \<not> takes_turns t) s"

definition unstuck :: "owner \<Rightarrow> sat_event \<Rightarrow> bool" where
  "unstuck x e \<longleftrightarrow> (case e of
     TurnGone t terminal \<Rightarrow> t = own_turn x | Announce \<Rightarrow> True | WillRemove \<Rightarrow> True | _ \<Rightarrow> False)"

lemma resume_stuck:
  assumes "stuck_on x s" "\<not> takes_turns tk"
  shows "stuck_on x (fst (resume_task k tk r s))"
  using assms unfolding stuck_on_def
  by (cases tk)
     (auto simp: resume_active resume_task.simps offer_defs begin_event_def transcript_posted_def endpoint_posted_def
       tts_text_posted_def speech_defs announce_defs pipeline_endpoint_def pipeline_done_def begin_pipeline_def
       gone_posted_def case_prod_beta Let_def intro!: all_tasks_post_tools
       split: await_reply.split pipeline_event.split)

lemma step_stuck:
  assumes "stuck_on x s" "\<not> unstuck x e"
  shows "stuck_on x (fst (sat_step s e))"
proof (cases e)
  case (Resume k r)
  then show ?thesis
    using assms(1) resume_stuck [of x s _ k r] all_tasks_mem [of _ s k]
    by (auto simp: sat_step.simps stuck_on_def split: option.split)
qed (use assms in \<open>auto simp: sat_step.simps unstuck_def stuck_on_def turn_gone_def Let_def split: option.split\<close>)

definition accepts_none :: "sat_effect list \<Rightarrow> bool" where
  "accepts_none fs \<longleftrightarrow> (\<forall>t. Post t Accept \<notin> set fs)"

lemma resume_accepts:
  "Post t Accept \<in> set (snd (resume_task k tk r s)) \<Longrightarrow> \<exists>u sp. tk = OfferAttach u sp"
proof (cases tk)
  case (EvStart ev x)
  then show "Post t Accept \<in> set (snd (resume_task k tk r s)) \<Longrightarrow> ?thesis"
    by (cases ev) (auto simp: resume_task.simps begin_event_def post_tools_def case_prod_beta
        split: if_splits list.splits)
qed (auto simp: resume_task.simps offer_defs transcript_posted_def endpoint_posted_def tts_text_posted_def
      post_tools_def speech_defs announce_defs pipeline_defs gone_posted_def case_prod_beta Let_def
      split: await_reply.splits if_splits option.splits list.splits)

lemma stuck_accepts_none:
  assumes "stuck_on x s" "\<not> unstuck x e"
  shows "accepts_none (snd (sat_step s e))"
proof (cases e)
  case (Resume k r)
  then show ?thesis
    using assms(1) resume_accepts [of _ k _ r s] all_tasks_mem [of _ s k]
    by (fastforce simp: sat_step.simps stuck_on_def accepts_none_def split: option.split)
qed (use assms in \<open>auto simp: sat_step.simps unstuck_def stuck_on_def accepts_none_def turn_gone_def Let_def
      split: option.split\<close>)

interpretation stuck: guarded_machine sat_step "stuck_on x" "\<lambda>e. \<not> unstuck x e" for x
  by unfold_locales (rule step_stuck)

lemma stuck_run_accepts_none:
  assumes "stuck_on x s" "list_all (\<lambda>e. \<not> unstuck x e) es" "r \<in> set (snd (run sat_step s es))"
  shows "accepts_none r"
  using stuck.guarded_output [of x accepts_none, OF stuck_accepts_none assms] .

text \<open>
  Every turn is brought to its end. \<open>driver\<close> is the turn a task is bound to end, by posting \<open>tts/end\<close>
  itself or by starting the task that will; \<open>speaker\<close> is its part after the speech has begun.
\<close>

fun speaker :: "sat_task \<Rightarrow> owner option" where
  "speaker (TtsBegin x) = Some x"
| "speaker (TtsStarting x) = Some x"
| "speaker (TtsStreaming x) = Some x"
| "speaker (AnnStarting x) = Some x"
| "speaker (AnnStreaming x) = Some x"
| "speaker _ = None"

fun driver :: "sat_task \<Rightarrow> owner option" where
  "driver (OfferAccept x sp) = Some x"
| "driver (PipeStart x sp) = Some x"
| "driver (PipeRun x) = Some x"
| "driver (PipeEndpoint x) = Some x"
| "driver t = speaker t"

lemma speaker_driver: "speaker t = Some x \<Longrightarrow> driver t = Some x"
  by (cases t) simp_all

definition covered :: "(sat_task \<Rightarrow> owner option) \<Rightarrow> int set \<Rightarrow> satellite \<Rightarrow> owner \<Rightarrow> bool" where
  "covered f H s x \<longleftrightarrow> (\<exists>k t. map_of (tasks s) k = Some t \<and> f t = Some x) \<or> own_turn x \<in> H"

lemma coveredI: "map_of (tasks s) k = Some t \<Longrightarrow> f t = Some x \<Longrightarrow> covered f H s x"
  by (auto simp: covered_def)

text \<open>The replies after which a turn is left hanging.\<close>

definition loses :: "satellite \<Rightarrow> sat_event \<Rightarrow> bool" where
  "loses s e \<longleftrightarrow> (case e of
     Resume k r \<Rightarrow>
       (case map_of (tasks s) k of
          Some (OfferAccept x sp) \<Rightarrow> r = Raised
        | Some (PipeEndpoint x) \<Rightarrow> r = Failed \<or> r = Raised
        | Some (AnnStarting x) \<Rightarrow> r = Failed \<or> r = Raised
        | Some (AnnStreaming x) \<Rightarrow> r = Failed \<or> r = Raised
        | _ \<Rightarrow> False)
   | _ \<Rightarrow> False)"

fun lossless :: "satellite \<Rightarrow> sat_event list \<Rightarrow> bool" where
  "lossless s [] = True"
| "lossless s (e # es) \<longleftrightarrow> \<not> loses s e \<and> lossless (fst (sat_step s e)) es"

definition ended_by :: "sat_effect list \<Rightarrow> int set" where
  "ended_by fs = {t. Post t TtsEnd \<in> set fs}"

definition ids_fresh :: "satellite \<Rightarrow> bool" where
  "ids_fresh s \<longleftrightarrow>
     (\<forall>k t. map_of (tasks s) k = Some t \<longrightarrow>
        k < next_task s \<and> (\<forall>x. driver t = Some x \<longrightarrow> own_token x < next_token s))
   \<and> (\<forall>k \<in> set (cancelled_tasks s). k < next_task s)
   \<and> (\<forall>x. active s = Some x \<longrightarrow> own_token x < next_token s)
   \<and> (\<forall>k \<in> set (cancelled_tasks s). \<forall>t x. map_of (tasks s) k = Some t \<longrightarrow> driver t = Some x \<longrightarrow> active s \<noteq> Some x)"

definition tended :: "int set \<Rightarrow> satellite \<Rightarrow> bool" where
  "tended H s \<longleftrightarrow>
     (\<forall>x. active s = Some x \<longrightarrow> covered driver H s x)
   \<and> (\<forall>x. active s = Some x \<longrightarrow> tts_task s \<noteq> None \<longrightarrow> tts_token s = Some (own_token x) \<longrightarrow> covered speaker H s x)"

text \<open>A resumption writes only its own task and, at most, the next id.\<close>

lemma map_of_slots [simp]:
  "map_of (tasks (goto k t s)) = (map_of (tasks s))(k \<mapsto> t)"
  "map_of (tasks (finished k s)) = (map_of (tasks s))(k := None)"
  "map_of (tasks (spawn t s)) = (map_of (tasks s))(next_task s \<mapsto> t)"
  "map_of (tasks (drop_pipeline k s)) = map_of (tasks s)"
  "map_of (tasks (tts_finished k s)) = (map_of (tasks s))(k := None)"
  "map_of (tasks (release_lock k s)) = (map_of (tasks s))(k := None)"
  "map_of (tasks (cancel_task k tk s)) = (map_of (tasks s))(k := None)"
  "map_of (tasks (clear_turn s)) = map_of (tasks s)"
  by (simp_all add: slot_defs drop_pipeline_def cancel_task_def clear_turn_def task_cancel_def
      split: sat_task.split option.split)

lemma post_tools_map:
  "i \<noteq> k \<Longrightarrow> map_of (tasks (fst (post_tools k ps x s))) i = map_of (tasks s) i"
  by (simp add: post_tools_def split: list.split)

lemma resume_elsewhere:
  "i \<noteq> k \<Longrightarrow> i \<noteq> next_task s \<Longrightarrow> map_of (tasks (fst (resume_task k tk r s))) i = map_of (tasks s) i"
  by (cases tk)
     (simp_all add: resume_task.simps offer_defs begin_event_def transcript_posted_def endpoint_posted_def
       tts_text_posted_def speech_defs announce_defs pipeline_endpoint_def pipeline_done_def begin_pipeline_def
       gone_posted_def post_tools_map case_prod_beta Let_def split: await_reply.split pipeline_event.split option.split)

text \<open>The counters, the cancelled tasks and the speech slot after a resumption.\<close>

definition same_slots :: "satellite \<Rightarrow> satellite \<Rightarrow> bool" where
  "same_slots s u \<longleftrightarrow> cancelled_tasks u = cancelled_tasks s \<and> next_task u = next_task s
     \<and> next_token u = next_token s \<and> tts_task u = tts_task s \<and> tts_token u = tts_token s"

lemma same_slots_tool_delta: "same_slots s (fst (tool_delta j s))"
proof -
  have called: "same_slots s (fst (tool_called j s))" for j s
    by (simp add: tool_called_def known_tool_def keep_tool_def same_slots_def case_prod_beta Let_def
        split: json.split option.split)
  have "same_slots s (fst (tools_called js s))" for js s
  proof (induction js arbitrary: s)
    case (Cons j js)
    then show ?case using called [of s j]
      by (simp add: same_slots_def case_prod_beta Let_def)
  qed (simp add: same_slots_def)
  then show ?thesis
    by (simp add: tool_delta_def tool_returned_def known_tool_def keep_tool_def case_prod_beta Let_def
        split: json.split option.split) (simp_all add: same_slots_def)
qed

lemma same_slots_post_tools: "same_slots s u \<Longrightarrow> same_slots s (fst (post_tools k ps x u))"
  by (auto simp: same_slots_def post_tools_def slot_defs split: list.split)

lemma resume_progress: "same_slots s (fst (post_tools k ps x (fst (tool_delta j s))))"
  by (rule same_slots_post_tools [OF same_slots_tool_delta])

lemma resume_counters:
  "cancelled_tasks (fst (resume_task k tk r s)) = cancelled_tasks s"
  "next_task s \<le> next_task (fst (resume_task k tk r s))"
  "next_token s \<le> next_token (fst (resume_task k tk r s))"
  using resume_progress [of s k]  same_slots_post_tools [of s s k]
  by (cases tk;
      auto simp: resume_task.simps offer_defs begin_event_def transcript_posted_def endpoint_posted_def
       tts_text_posted_def speech_defs announce_defs pipeline_defs slot_defs
       gone_posted_def case_prod_beta Let_def same_slots_def split: await_reply.split pipeline_event.split option.split)+

text \<open>The driver of the turn the entity holds posts the end, or hands over to another driver.\<close>

lemma speaker_moves_on:
  assumes "speaker tk = Some x" "active s = Some x" "map_of (tasks s) k = Some tk" "\<not> loses s (Resume k r)"
  shows "covered speaker (ended_by (snd (resume_task k tk r s))) (fst (resume_task k tk r s)) x"
proof (cases tk)
  case (TtsStarting y)
  then show ?thesis
    using assms by (cases r) (auto simp: resume_task.simps speech_defs owns_turn_def covered_def ended_by_def)
qed (use assms in \<open>auto simp: resume_task.simps speech_defs announce_defs owns_turn_def covered_def ended_by_def
      loses_def\<close>)

lemma driver_moves_on:
  assumes "driver tk = Some x" "active s = Some x" "map_of (tasks s) k = Some tk" "\<not> loses s (Resume k r)"
    "k < next_task s"
    "\<not> (tk = PipeRun x \<and> tts_task s \<noteq> None \<and> tts_token s = Some (own_token x))"
  shows "active (fst (resume_task k tk r s)) \<noteq> Some x
       \<or> covered driver (ended_by (snd (resume_task k tk r s))) (fst (resume_task k tk r s)) x"
proof (cases "speaker tk = Some x")
  case True
  then show ?thesis
    using speaker_moves_on [OF _ assms(2-4)] speaker_driver by (fastforce simp: covered_def)
next
  case False
  then show ?thesis
    using assms
    by (cases tk)
      (auto simp: resume_task.simps offer_accepted_def pipeline_defs begin_pipeline_def owns_turn_def covered_def
        ended_by_def loses_def split: await_reply.split)
qed

text \<open>The speech slot is filled by a task that speaks for the turn.\<close>

lemma resume_speech:
  assumes "tts_task (fst (resume_task k tk r s)) \<noteq> None" "tts_token (fst (resume_task k tk r s)) = Some n"
    "k < next_task s"
  shows "tts_task s \<noteq> None \<and> tts_token s = Some n
       \<or> (\<exists>x. active (fst (resume_task k tk r s)) = Some x
            \<and> covered speaker {} (fst (resume_task k tk r s)) x)"
proof (cases tk)
  case (EvStart ev x)
  show ?thesis
  proof (cases ev)
    case (TtsReady j)
    then show ?thesis
      using assms EvStart
      by (auto simp: resume_task.simps begin_event_def covered_def owns_turn_def slot_defs split: if_splits)
  next
    case (IntentProgress j)
    then show ?thesis
      using assms EvStart resume_progress [of s k]
      by (auto simp: resume_task.simps begin_event_def same_slots_def case_prod_beta slot_defs split: if_splits)
  qed (use assms EvStart in \<open>auto simp: resume_task.simps begin_event_def slot_defs split: if_splits\<close>)
next
  case (EvTools ps x)
  then show ?thesis
    using assms same_slots_post_tools [of s s k ps x]
    by (auto simp: resume_task.simps same_slots_def slot_defs split: if_splits)
qed (use assms in \<open>auto simp: resume_task.simps offer_defs transcript_posted_def endpoint_posted_def
       tts_text_posted_def speech_defs announce_defs pipeline_defs slot_defs covered_def
       gone_posted_def case_prod_beta Let_def split: await_reply.splits if_splits\<close>)

lemma active_new:
  assumes "active (fst (resume_task k tk r s)) = Some x"
  shows "active s = Some x
       \<or> own_token x = next_token s \<and> next_token (fst (resume_task k tk r s)) = Suc (next_token s)
         \<and> covered driver {} (fst (resume_task k tk r s)) x
         \<and> (tts_task (fst (resume_task k tk r s)) = None \<or> covered speaker {} (fst (resume_task k tk r s)) x)"
proof (cases "active s = Some x")
  case False
  then obtain t ch where "tk = AnnAttach t \<or> (\<exists>sp. tk = OfferAttach t sp)" "r = GotChannel ch"
    "x = fst (take_turn t ch s)"
    using assms by (cases tk) (auto simp: resume_active split: await_reply.splits if_splits)
  then show ?thesis
    by (auto simp: resume_task.simps offer_attached_def announce_attached_def covered_def slot_defs Let_def
        case_prod_beta)
qed simp

lemma post_tools_new:
  assumes "map_of (tasks (fst (post_tools k ps x u))) i = Some t" "i = k \<or> map_of (tasks u) i = None"
  shows "i = k \<and> driver t = None"
proof (cases "i = k")
  case True
  then show ?thesis
    using assms(1) by (auto simp: post_tools_def split: list.splits if_splits)
next
  case False
  then show ?thesis
    using assms post_tools_map [OF False, of ps x u] by simp
qed

lemma resume_new:
  assumes "ids_fresh s" "map_of (tasks s) k = Some tk" "map_of (tasks (fst (resume_task k tk r s))) i = Some t"
    "i = k \<or> i = next_task s"
  shows "i < next_task (fst (resume_task k tk r s))
       \<and> (\<forall>x. driver t = Some x \<longrightarrow> own_token x < next_token (fst (resume_task k tk r s)))"
proof -
  have fresh: "k < next_task s" "map_of (tasks s) (next_task s) = None"
    "\<And>x. driver tk = Some x \<Longrightarrow> own_token x < next_token s"
    "\<And>x. active s = Some x \<Longrightarrow> own_token x < next_token s"
    using assms(1,2) by (auto simp: ids_fresh_def) (metis less_irrefl not_None_eq)
  show ?thesis
  proof (cases tk)
    case (EvStart ev x)
    show ?thesis
    proof (cases ev)
      case (IntentProgress j)
      moreover have "\<not> owns_turn s x \<Longrightarrow> ?thesis"
        using assms(3,4) fresh EvStart by (auto simp: resume_task.simps begin_event_def slot_defs)
      ultimately show ?thesis
        using assms(3,4) fresh EvStart resume_progress [of s k "snd (tool_delta j s)" x j]
          post_tools_new [of k "snd (tool_delta j s)" x "fst (tool_delta j s)" i t]
        by (auto simp: resume_task.simps begin_event_def same_slots_def case_prod_beta)
    qed (use assms(3,4) fresh EvStart in \<open>auto simp: resume_task.simps begin_event_def owns_turn_def slot_defs
        split: if_splits\<close>)
  next
    case (EvTools ps x)
    then show ?thesis
      using assms(3,4) fresh same_slots_post_tools [of s s k ps x] post_tools_new [of k ps x s i t]
      by (auto simp: resume_task.simps same_slots_def slot_defs split: if_splits)
  qed (use assms(2-4) fresh in \<open>auto simp: resume_task.simps offer_defs transcript_posted_def endpoint_posted_def
       tts_text_posted_def speech_defs announce_defs pipeline_defs begin_pipeline_def slot_defs owns_turn_def
       gone_posted_def case_prod_beta Let_def split: await_reply.splits if_splits option.splits\<close>)
qed

lemma resume_ids_fresh:
  assumes "ids_fresh s" "map_of (tasks s) k = Some tk" "k \<notin> set (cancelled_tasks s)"
  shows "ids_fresh (fst (resume_task k tk r s))" (is "ids_fresh ?u")
proof -
  note fresh = assms(1) [unfolded ids_fresh_def]
  have tasks: "i < next_task ?u \<and> (\<forall>x. driver t = Some x \<longrightarrow> own_token x < next_token ?u)"
    if "map_of (tasks ?u) i = Some t" for i t
  proof (cases "i = k \<or> i = next_task s")
    case True
    show ?thesis by (rule resume_new [OF assms(1,2) that True])
  next
    case False
    then have "map_of (tasks s) i = Some t" using that resume_elsewhere [of i k s tk r] by simp
    then show ?thesis
      using fresh resume_counters(2,3) [of s k tk r] by (meson less_le_trans)
  qed
  have cancelled: "active ?u \<noteq> Some x"
    if "i \<in> set (cancelled_tasks s)" "map_of (tasks ?u) i = Some t" "driver t = Some x" for i t x
  proof -
    have "i < next_task s" "i \<noteq> k" using that(1) assms(3) fresh by auto
    then have t: "map_of (tasks s) i = Some t" using that(2) resume_elsewhere [of i k s tk r] by simp
    then have "own_token x < next_token s" "active s \<noteq> Some x" using that(1,3) fresh by blast+
    then show ?thesis using active_new [of k tk r s x] by force
  qed
  have "own_token x < next_token ?u" if "active ?u = Some x" for x
    using active_new [OF that] fresh resume_counters(3) [of s k tk r] by auto
  then show ?thesis
    unfolding ids_fresh_def
    using tasks cancelled fresh resume_counters(1) [of k tk r s] resume_counters(2) [of s k tk r]
    by (auto dest: less_le_trans)
qed

lemma covered_elsewhere:
  assumes "ids_fresh s" "map_of (tasks s) k = Some tk" "covered f H s x" "f tk \<noteq> Some x"
  shows "covered f H (fst (resume_task k tk r s)) x"
proof (cases "own_turn x \<in> H")
  case False
  then obtain i t where t: "map_of (tasks s) i = Some t" "f t = Some x"
    using assms(3) by (auto simp: covered_def)
  then have "i \<noteq> k" "i \<noteq> next_task s" using assms(1,2,4) by (auto simp: ids_fresh_def)
  then show ?thesis using t resume_elsewhere [of i k s tk r] by (auto simp: covered_def)
qed (simp add: covered_def)

lemma covered_mono: "covered f H s x \<Longrightarrow> H \<subseteq> H' \<Longrightarrow> covered f H' s x"
  by (auto simp: covered_def)

lemma covered_speaker: "covered speaker H s x \<Longrightarrow> covered driver H s x"
  by (auto simp: covered_def dest: speaker_driver)

lemma resume_tended:
  assumes "ids_fresh s" "tended H s" "map_of (tasks s) k = Some tk" "\<not> loses s (Resume k r)"
  shows "tended (H \<union> ended_by (snd (resume_task k tk r s))) (fst (resume_task k tk r s))" (is "tended ?H ?u")
proof -
  have k: "k < next_task s" using assms(1,3) by (simp add: ids_fresh_def)
  have mono: "covered f H ?u x \<Longrightarrow> covered f ?H ?u x"
    "covered f {} ?u x \<Longrightarrow> covered f ?H ?u x"
    "covered f (ended_by (snd (resume_task k tk r s))) ?u x \<Longrightarrow> covered f ?H ?u x" for f x
    by (auto elim: covered_mono)
  note elsewhere = covered_elsewhere [OF assms(1,3), THEN mono(1)]
  have speech: "covered speaker ?H ?u x"
    if "active ?u = Some x" "tts_task ?u \<noteq> None" "tts_token ?u = Some (own_token x)" for x
  proof (cases "active s = Some x \<and> tts_task s \<noteq> None \<and> tts_token s = Some (own_token x)")
    case True
    then have "covered speaker H s x" using assms(2) by (simp add: tended_def)
    then show ?thesis
      using elsewhere [of speaker x] speaker_moves_on [OF _ _ assms(3,4)] True mono(3) by blast
  next
    case False
    then show ?thesis
      using resume_speech [OF that(2,3) k] active_new [OF that(1)] that mono(2) by auto
  qed
  have "covered driver ?H ?u x" if "active ?u = Some x" for x
  proof (cases "active s = Some x")
    case True
    then have x: "covered driver H s x" using assms(2) by (simp add: tended_def)
    show ?thesis
    proof (cases "tk = PipeRun x \<and> tts_task s \<noteq> None \<and> tts_token s = Some (own_token x)")
      case pipe: True
      then have "covered speaker H s x" using assms(2) True by (simp add: tended_def)
      then show ?thesis using elsewhere [of speaker x] pipe covered_speaker by auto
    next
      case False
      then show ?thesis
        using elsewhere [of driver x, OF x] driver_moves_on [OF _ True assms(3,4) k] that mono(3) by blast
    qed
  next
    case False
    then show ?thesis using active_new [OF that] mono(2) by blast
  qed
  with speech show ?thesis by (simp add: tended_def)
qed

definition attended :: "int set \<Rightarrow> satellite \<Rightarrow> bool" where
  "attended H s \<longleftrightarrow> ids_fresh s \<and> tended H s"

lemma ids_fresh_sub:
  assumes "ids_fresh s" "next_task s \<le> next_task u" "next_token u = next_token s"
    "active u = None \<or> active u = active s"
    "\<And>i t. map_of (tasks u) i = Some t \<Longrightarrow>
       map_of (tasks s) i = Some t \<or> i = next_task s \<and> i < next_task u \<and> driver t = None"
    "\<And>i. i \<in> set (cancelled_tasks u) \<Longrightarrow> i < next_task s \<and> (i \<in> set (cancelled_tasks s) \<or> active u = None)"
  shows "ids_fresh u"
proof -
  note fresh = assms(1) [unfolded ids_fresh_def]
  have "i < next_task u \<and> (\<forall>x. driver t = Some x \<longrightarrow> own_token x < next_token u)"
    if "map_of (tasks u) i = Some t" for i t
    using assms(5) [OF that]
  proof
    assume "map_of (tasks s) i = Some t"
    then show ?thesis using fresh assms(2,3) by (metis less_le_trans)
  qed simp
  moreover have "active u \<noteq> Some x"
    if "i \<in> set (cancelled_tasks u)" "map_of (tasks u) i = Some t" "driver t = Some x" for i t x
    using assms(5) [OF that(2)] assms(6) [OF that(1)]
  proof (elim conjE disjE)
    assume "map_of (tasks s) i = Some t" "i \<in> set (cancelled_tasks s)"
    then show ?thesis using fresh assms(4) that(3) by (metis option.distinct(1))
  qed (use that(3) in simp_all)
  moreover have "own_token x < next_token u" if "active u = Some x" for x
    using fresh assms(3,4) that by (metis option.distinct(1))
  moreover have "i < next_task u" if "i \<in> set (cancelled_tasks u)" for i
    using assms(2) assms(6) [OF that] by simp
  ultimately show ?thesis unfolding ids_fresh_def by blast
qed

lemma tended_sub:
  assumes "tended H s" "active u = active s"
    "tts_task u = None \<or> tts_task u = tts_task s \<and> tts_token u = tts_token s"
    "\<And>f x. active s = Some x \<Longrightarrow> f = driver \<or> f = speaker \<Longrightarrow> covered f H s x \<Longrightarrow> covered f H u x"
  shows "tended H u"
  using assms unfolding tended_def by auto

lemma tended_idle: "active u = None \<Longrightarrow> tended H u"
  by (simp add: tended_def)

lemma covered_keep:
  assumes "covered f H s x" "\<And>i t. map_of (tasks s) i = Some t \<Longrightarrow> f t = Some x \<Longrightarrow> map_of (tasks u) i = Some t"
  shows "covered f H u x"
  using assms unfolding covered_def by blast

lemma attended_spawn:
  assumes "attended H s" "driver t = None"
  shows "attended H (spawn t s)"
proof -
  have s: "ids_fresh s" "tended H s" using assms(1) by (simp_all add: attended_def)
  have "ids_fresh (spawn t s)"
    by (rule ids_fresh_sub [OF s(1)]) (use s(1) assms(2) in \<open>auto simp: spawn_def ids_fresh_def split: if_splits\<close>)
  moreover have "map_of (tasks s) (next_task s) = None"
    using s(1) by (metis ids_fresh_def less_irrefl not_None_eq)
  then have "covered f H s x \<Longrightarrow> covered f H (spawn t s) x" for f x
    by (erule_tac covered_keep) auto
  then have "tended H (spawn t s)"
    by (intro tended_sub [OF s(2)]) (auto simp: spawn_def)
  ultimately show ?thesis by (simp add: attended_def)
qed

lemma attended_cancelled:
  assumes "attended H s" "k \<in> set (cancelled_tasks s)" "map_of (tasks s) k = Some t"
  shows "attended H (cancel_task k t (s\<lparr>cancelled_tasks := removeAll k (cancelled_tasks s)\<rparr>))" (is "attended H ?u")
proof -
  have s: "ids_fresh s" "tended H s" using assms(1) by (simp_all add: attended_def)
  have u: "active ?u = active s" "next_task ?u = next_task s" "next_token ?u = next_token s"
    "cancelled_tasks ?u = removeAll k (cancelled_tasks s)"
    "tts_task ?u = None \<or> tts_task ?u = tts_task s \<and> tts_token ?u = tts_token s"
    "map_of (tasks ?u) = (map_of (tasks s))(k := None)"
    by (auto simp: cancel_task_def slot_defs drop_pipeline_def split: sat_task.split)
  have other: "f t \<noteq> Some x" if "active s = Some x" "f = driver \<or> f = speaker" for f x
    using s(1) assms(2,3) that speaker_driver [of t x] unfolding ids_fresh_def by blast
  have "covered f H ?u x" if "active s = Some x" "f = driver \<or> f = speaker" "covered f H s x" for f x
  proof (rule covered_keep [OF that(3)])
    fix i v
    assume "map_of (tasks s) i = Some v" "f v = Some x"
    moreover from this have "i \<noteq> k" using other [OF that(1,2)] assms(3) by auto
    ultimately show "map_of (tasks ?u) i = Some v" unfolding u(6) by simp
  qed
  then have "tended H ?u"
    by (intro tended_sub [OF s(2) u(1,5)])
  moreover have "ids_fresh ?u"
    by (rule ids_fresh_sub [OF s(1)]; unfold u) (use s(1) in \<open>auto simp: ids_fresh_def split: if_splits\<close>)
  ultimately show ?thesis by (simp add: attended_def)
qed

lemma ids_fresh_task: "ids_fresh s \<Longrightarrow> (k, t) \<in> set (tasks s) \<Longrightarrow> k < next_task s"
  by (metis ids_fresh_def weak_map_of_SomeI)

lemma attended_clear_turn:
  assumes "ids_fresh s"
  shows "attended H (clear_turn s)"
proof -
  have "ids_fresh (clear_turn s)"
    by (rule ids_fresh_sub [OF assms])
      (use assms ids_fresh_task [OF assms] in \<open>auto simp: clear_turn_def task_cancel_def ids_fresh_def split: option.splits if_splits\<close>)
  then show ?thesis by (simp add: attended_def tended_idle)
qed

lemma attended_note: "attended H s \<Longrightarrow> attended H (note_conversation ev s)"
  by (simp add: note_conversation_def attended_def ids_fresh_def tended_def covered_def
      split: pipeline_event.split option.split)

lemma attended_mono: "attended H s \<Longrightarrow> H \<subseteq> H' \<Longrightarrow> attended H' s"
  unfolding attended_def tended_def by (meson covered_mono)

lemma attended_step:
  assumes "attended H s" "\<not> loses s e"
  shows "attended (H \<union> ended_by (snd (sat_step s e))) (fst (sat_step s e))"
proof (rule attended_mono)
  have s: "ids_fresh s" "tended H s" using assms(1) by (simp_all add: attended_def)
  note spawned = attended_spawn [OF assms(1)] attended_spawn [OF attended_note [OF assms(1)]]
  show "attended (case e of Resume k r \<Rightarrow> H \<union> ended_by (snd (sat_step s e)) | _ \<Rightarrow> H) (fst (sat_step s e))"
  proof (cases e)
    case (Resume k r)
    show ?thesis
    proof (cases "map_of (tasks s) k")
      case None
      then show ?thesis using Resume assms(1) by (simp add: sat_step.simps ended_by_def)
    next
      case (Some t)
      show ?thesis
      proof (cases "k \<in> set (cancelled_tasks s)")
        case True
        then show ?thesis
          using Resume Some attended_cancelled [OF assms(1) True Some] by (simp add: sat_step.simps ended_by_def)
      next
        case False
        then show ?thesis
          using Resume Some resume_ids_fresh [OF s(1) Some False] resume_tended [OF s Some] assms(2)
          by (simp add: sat_step.simps attended_def)
      qed
    qed
  next
    case (TurnGone t terminal)
    then show ?thesis
      using assms(1) attended_clear_turn [OF s(1)] attended_spawn [OF attended_clear_turn [OF s(1)]]
      by (simp add: sat_step.simps turn_gone_def split: option.split)
  next
    case WillRemove
    then show ?thesis using attended_clear_turn [OF s(1)] by (simp add: sat_step.simps removed_def)
  next
    case (PipelineEv ev)
    then show ?thesis
      using spawned(2) attended_note [OF assms(1)] by (simp add: sat_step.simps Let_def split: option.split)
  qed (use assms(1) spawned(1) in \<open>simp_all add: sat_step.simps split: option.split\<close>)
qed (auto split: sat_event.split)

lemma attended_run:
  "attended H s \<Longrightarrow> lossless s es \<Longrightarrow>
     attended (H \<union> ended_by (concat (snd (run sat_step s es)))) (fst (run sat_step s es))"
proof (induction es arbitrary: s H)
  case Nil
  then show ?case by (auto intro: attended_mono)
next
  case (Cons e es)
  then have "attended (H \<union> ended_by (snd (sat_step s e))) (fst (sat_step s e))" by (simp add: attended_step)
  from Cons.IH [OF this] Cons.prems(2) show ?case
    by (simp add: ended_by_def Un_assoc Collect_disj_eq)
qed

lemma attended_init: "attended {} satellite_init"
  by (simp add: attended_def ids_fresh_def tended_def satellite_init_def)

section \<open>Properties\<close>

text \<open>A turn taken from an offer and one whose pipeline has ended without speech, for the witnesses.\<close>

definition taken_turn :: satellite where
  "taken_turn = fst (run sat_step satellite_init
     [WakeOffer 7 False, Resume 0 Returned, Resume 0 (GotChannel 4), Resume 0 Returned, Resume 1 Returned])"

definition silent_turn :: satellite where
  "silent_turn = fst (sat_step taken_turn (Resume 1 Returned))"

definition late_reply_state :: satellite where
  "late_reply_state = fst (run sat_step taken_turn
     [PipelineEv (SttEnd (JStr ''on'')), Resume 2 Returned, TurnGone 7 True,
      WakeOffer 8 False, Resume 3 Returned, Resume 3 (GotChannel 5), Resume 3 Returned, Resume 4 Returned])"

text \<open>Claim C5: once the controller has cancelled or ended the turn the
  entity owns, and as long as that turn is not offered again, nothing the entity does, in any
  interleaving of its pipeline, its streams, its callbacks and other turns, sends an action for it, save
  the closing \<open>tts/end\<close> and a rejection.\<close>

theorem released_turn_is_left_alone:
  assumes "active s = Some x" "all_tasks (\<lambda>k. \<not> wants (own_turn x) k) s"
    "list_all (\<lambda>e. \<not> brings (own_turn x) e) es"
    "Post (own_turn x) a \<in> set (concat (snd (run sat_step (fst (sat_step s (TurnGone (own_turn x) terminal))) es)))"
  shows "a = TtsEnd \<or> a = Reject"
  using run_only_closing [OF turn_gone_clear [OF assms(1,2)] assms(3)] assms(4)
  unfolding only_closing_def by fastforce

theorem released_turn_is_left_alone_witness:
  "Post 7 TtsEnd \<in> set (concat (snd (run sat_step (fst (sat_step silent_turn (TurnGone 7 True))) [Resume 1 Returned])))
   \<and> (TtsEnd = TtsEnd \<or> TtsEnd = Reject)"
proof -
  let ?x = "\<lparr>own_turn = 7, own_token = 0, own_channel = 4\<rparr>"
  have "active silent_turn = Some ?x" "list_all (\<lambda>(k, t). \<not> wants 7 t) (tasks silent_turn)"
    "Post 7 TtsEnd \<in> set (concat (snd (run sat_step (fst (sat_step silent_turn (TurnGone 7 True))) [Resume 1 Returned])))"
    by code_simp+
  then show ?thesis
    using released_turn_is_left_alone [of silent_turn ?x "[Resume 1 Returned]" TtsEnd True]
    by (simp add: all_tasks_def list_all_iff brings_def)
qed

text \<open>when the notice that ends a turn never arrives
  (the event stream was down, the controller restarted), the entity keeps that turn whatever else
  happens, and accepts no wake offer ever again, until an announcement or a reload.\<close>

theorem lost_notice_blocks_every_offer:
  assumes "active s = Some x" "all_tasks (\<lambda>t. \<not> takes_turns t) s" "list_all (\<lambda>e. \<not> unstuck x e) es"
  shows "active (fst (run sat_step s es)) = Some x
       \<and> Post t Accept \<notin> set (concat (snd (run sat_step s es)))"
  using stuck.guarded_run [of x s es] stuck_run_accepts_none [of x s es] assms
  by (fastforce simp: stuck_on_def accepts_none_def)

theorem lost_notice_blocks_every_offer_witness:
  "active (fst (run sat_step taken_turn
       [Resume 1 Returned, Resume 1 Returned, WakeOffer 8 False, Resume 2 Returned, Resume 2 Returned])) =
     Some \<lparr>own_turn = 7, own_token = 0, own_channel = 4\<rparr>
   \<and> Post 8 Accept \<notin> set (concat (snd (run sat_step taken_turn
       [Resume 1 Returned, Resume 1 Returned, WakeOffer 8 False, Resume 2 Returned, Resume 2 Returned])))"
proof -
  let ?x = "\<lparr>own_turn = 7, own_token = 0, own_channel = 4\<rparr>"
  have "active taken_turn = Some ?x" "list_all (\<lambda>(k, t). \<not> takes_turns t) (tasks taken_turn)"
    by code_simp+
  then show ?thesis
    using lost_notice_blocks_every_offer [of taken_turn ?x
        "[Resume 1 Returned, Resume 1 Returned, WakeOffer 8 False, Resume 2 Returned, Resume 2 Returned]" 8]
    by (simp add: all_tasks_def list_all_iff unstuck_def)
qed

text \<open>an idle entity whose offer lock is free takes a wake offer:
  it attaches the audio, posts \<open>accept\<close>, holds the turn with a token of its own, starts the pipeline on
  the attached channel, and nothing of an earlier turn is left in its flags or its tool trace.\<close>

theorem idle_entity_takes_the_offer:
  assumes "active s = None" "\<not> offer_locked s" "next_task s \<notin> set (cancelled_tasks s)"
  shows "let k = next_task s; x = \<lparr>own_turn = t, own_token = next_token s, own_channel = ch\<rparr>;
             (s', out) = run sat_step s
               [WakeOffer t sp, Resume k Returned, Resume k (GotChannel ch), Resume k Returned] in
         concat out = [AttachAudio t, Post t Accept] \<and> active s' = Some x \<and> \<not> offer_locked s'
         \<and> pipeline_task s' = Some (k + 1) \<and> map_of (tasks s') (k + 1) = Some (PipeStart x sp)
         \<and> \<not> transcript_sent s' \<and> \<not> endpoint_sent s' \<and> \<not> speech_start_sent s'
         \<and> tool_calls s' = [] \<and> tts_task s' = None \<and> conversation s' = None"
  using assms
  by (simp add: Let_def case_prod_beta sat_step.simps resume_task.simps offer_defs slot_defs)

theorem idle_entity_takes_the_offer_witness:
  "let k = next_task satellite_init; x = \<lparr>own_turn = 7, own_token = 0, own_channel = 4\<rparr>;
       (s', out) = run sat_step satellite_init
         [WakeOffer 7 True, Resume k Returned, Resume k (GotChannel 4), Resume k Returned] in
     concat out = [AttachAudio 7, Post 7 Accept] \<and> active s' = Some x \<and> pipeline_task s' = Some 1"
  using idle_entity_takes_the_offer [of satellite_init 7 4 True]
  by (simp add: satellite_init_def Let_def case_prod_beta)

text \<open>the reply to an earlier turn's final transcript, when it
  comes after the next turn has been taken, marks the transcript of that next turn as sent: its own final
  transcript is never posted, only its endpoint is.\<close>

theorem late_reply_silences_next_turn:
  assumes "active s = Some y" "map_of (tasks s) k = Some (EvTranscript x)" "x \<noteq> y"
    "k \<notin> set (cancelled_tasks s)" "next_task s \<notin> set (cancelled_tasks s)" "k \<noteq> next_task s"
  shows "concat (snd (run sat_step s
           [Resume k Returned, PipelineEv (SttEnd (JStr (c # cs))), Resume (next_task s) Returned]))
         = [Post (own_turn y) Endpoint]"
  using assms
  by (simp add: sat_step.simps resume_task.simps transcript_posted_def begin_event_def owns_turn_def
      note_conversation_def slot_defs)

theorem late_reply_silences_next_turn_witness:
  "concat (snd (run sat_step late_reply_state
     [Resume 2 Returned, PipelineEv (SttEnd (JStr ''off'')), Resume 5 Returned])) = [Post 8 Endpoint]"
proof -
  have "active late_reply_state = Some \<lparr>own_turn = 8, own_token = 1, own_channel = 5\<rparr>"
    "map_of (tasks late_reply_state) 2 = Some (EvTranscript \<lparr>own_turn = 7, own_token = 0, own_channel = 4\<rparr>)"
    "cancelled_tasks late_reply_state = [1]" "next_task late_reply_state = 5"
    by code_simp+
  then show ?thesis
    using late_reply_silences_next_turn [of late_reply_state
        "\<lparr>own_turn = 8, own_token = 1, own_channel = 5\<rparr>" 2 "\<lparr>own_turn = 7, own_token = 0, own_channel = 4\<rparr>"]
    by simp
qed



end
