(* ===== verification/EventStream.thy ===== *)
theory EventStream
  imports Prelude "HOL-Library.List_Lexorder" "HOL-Library.Char_ord"
begin

text \<open>
  The event stream between the controller and Home Assistant: the fan-out of
  \<open>controller/em_api.py\<close> (\<open>_ws_events\<close>, \<open>_push_event\<close>), and its other end in
  \<open>hacs/custom_components/echo_voice_satellite\<close>: the connection of \<open>client.py\<close> (\<open>async_connect\<close>,
  \<open>_reader\<close>, \<open>_dispatch\<close>, \<open>async_close\<close>) and the coordinator of \<open>coordinator.py\<close>, with the device
  list it keeps, the capabilities it remembers and the task that reconnects.

  Both ends are machines whose events are the resumptions of the event loop. The listeners of the
  coordinator are called where they are, as an effect; a device record is a JSON object.
\<close>

section \<open>The controller's fan-out\<close>

text \<open>
  \<open>fan_clients\<close> is the set of connected sockets in the order an iteration meets them. A push is
  suspended at a send; it knows the size of the set when its iteration began, the sockets it has
  sent to and those that failed. An iteration that finds the set resized raises \<open>RuntimeError\<close>.
\<close>

record 'e push_task =
  push_payload :: 'e
  push_size :: nat
  push_seen :: "nat list"
  push_dead :: "nat list"

record 'e fanout =
  fan_clients :: "nat list"
  fan_pushes :: "(nat \<times> 'e push_task) list"

datatype 'e fan_event = ClientJoins nat | ClientLeaves nat | PushEvent nat 'e | SendDone nat bool

datatype 'e fan_effect = SendStr nat 'e | PushRaises nat

definition push_next :: "nat \<Rightarrow> 'e push_task \<Rightarrow> 'e fanout \<Rightarrow> 'e fanout \<times> 'e fan_effect list" where
  "push_next k p s =
     (if length (fan_clients s) \<noteq> push_size p then (s\<lparr>fan_pushes := pop k (fan_pushes s)\<rparr>, [PushRaises k])
      else case filter (\<lambda>c. c \<notin> set (push_seen p)) (fan_clients s) of
        [] \<Rightarrow> (s\<lparr>fan_clients := filter (\<lambda>c. c \<notin> set (push_dead p)) (fan_clients s),
                 fan_pushes := pop k (fan_pushes s)\<rparr>, [])
      | c # cs \<Rightarrow>
          (s\<lparr>fan_pushes := put k (p\<lparr>push_seen := c # push_seen p\<rparr>) (fan_pushes s)\<rparr>,
           [SendStr c (push_payload p)]))"

fun fan_step :: "'e fanout \<Rightarrow> 'e fan_event \<Rightarrow> 'e fanout \<times> 'e fan_effect list" where
  "fan_step s (ClientJoins c) =
     (if c \<in> set (fan_clients s) then s else s\<lparr>fan_clients := fan_clients s @ [c]\<rparr>, [])"
| "fan_step s (ClientLeaves c) = (s\<lparr>fan_clients := removeAll c (fan_clients s)\<rparr>, [])"
| "fan_step s (PushEvent k e) =
     (if fan_clients s = [] then (s, [])
      else push_next k \<lparr>push_payload = e, push_size = length (fan_clients s), push_seen = [], push_dead = []\<rparr> s)"
| "fan_step s (SendDone k ok) =
     (case map_of (fan_pushes s) k of
        None \<Rightarrow> (s, [])
      | Some p \<Rightarrow>
          push_next k (if ok \<or> push_seen p = [] then p else p\<lparr>push_dead := hd (push_seen p) # push_dead p\<rparr>) s)"

section \<open>Device records\<close>

type_synonym device_rec = "(string \<times> json) list"

definition field :: "string \<Rightarrow> device_rec \<Rightarrow> json" where
  "field k d = get_default d k JNull"

text \<open>\<open>current.update(incoming)\<close>.\<close>

definition merge_into :: "device_rec \<Rightarrow> device_rec \<Rightarrow> device_rec" where
  "merge_into cur new = foldl (\<lambda>d (k, v). put k v d) cur new"

text \<open>\<open>for item in devices: if item["device_id"] == device_id: ...\<close>\<close>

definition on_device :: "json \<Rightarrow> (device_rec \<Rightarrow> device_rec) \<Rightarrow> device_rec list \<Rightarrow> device_rec list" where
  "on_device i f ds = map (\<lambda>d. if field ''device_id'' d = i then f d else d) ds"

text \<open>The records a snapshot or a poll carries: the elements that are objects.\<close>

definition records_of :: "json \<Rightarrow> device_rec list" where
  "records_of j = (case j of JArr js \<Rightarrow> concat (map (\<lambda>x. case x of JObj d \<Rightarrow> [d] | _ \<Rightarrow> []) js) | _ \<Rightarrow> [])"

definition STATE_EVENT_FIELDS :: "(string \<times> string \<times> string) list" where
  "STATE_EVENT_FIELDS =
     [(''ambient_light'', ''lux'', ''ambient_light_lux''), (''volume_state'', ''volume'', ''volume''),
      (''capabilities'', ''capabilities'', ''capabilities''), (''wake_model'', ''model_id'', ''wake_model_id''),
      (''mute_state'', ''muted'', ''muted'')]"

section \<open>The coordinator\<close>

text \<open>
  A connection is made by the set-up or by the reconnecting task: it dials, then waits for the
  snapshot. \<open>Awaiting n signalled\<close> is the wait for \<open>snapshot_ready\<close>; a wait that was signalled returns
  even when the event is cleared since.
\<close>

datatype link_stage = Sleeping nat | Dialling nat | Awaiting nat bool

type_synonym caps = "(string \<times> string list) list"

record link =
  dev_list :: "device_rec list option"
  known_caps :: caps
  stored_caps :: caps
  control_up :: bool
  sock_up :: bool
  reader_on :: bool
  link_snapshot :: "device_rec option"
  connecting :: "link_stage option"
  reconnecting :: "link_stage option"

datatype link_effect =
    StoreCaps caps
  | NotifyEntities
  | EmitEvent device_rec
  | PollFailed
  | SetupFailed

text \<open>\<open>known_capabilities\<close> at construction: what the config entry has stored.\<close>

definition link_init :: "caps \<Rightarrow> link" where
  "link_init cs = \<lparr>dev_list = None, known_caps = cs, stored_caps = cs, control_up = False, sock_up = False,
     reader_on = False, link_snapshot = None, connecting = None, reconnecting = None\<rparr>"

definition caps_of :: "string \<Rightarrow> caps \<Rightarrow> string list" where
  "caps_of i cs = (case map_of cs i of Some vs \<Rightarrow> vs | None \<Rightarrow> [])"

definition json_strs :: "json list \<Rightarrow> string list" where
  "json_strs js = concat (map (\<lambda>j. case json_str j of Some t \<Rightarrow> [t] | None \<Rightarrow> []) js)"

definition remember_one :: "device_rec \<Rightarrow> caps \<times> bool \<Rightarrow> caps \<times> bool" where
  "remember_one d acc =
     (let (cs, changed) = acc in
      case (json_str (field ''device_id'' d), get_default d ''capabilities'' (JArr [])) of
        (Some i, JArr js) \<Rightarrow>
          if i = [] then acc
          else let old = caps_of i cs; new = fold List.insert (json_strs js) old in
            (put i new cs, changed \<or> length new \<noteq> length old)
      | _ \<Rightarrow> acc)"

definition remember_caps :: "device_rec list \<Rightarrow> link \<Rightarrow> link \<times> link_effect list" where
  "remember_caps ds s =
     (let (cs, changed) = fold remember_one ds (known_caps s, False);
          s1 = s\<lparr>known_caps := cs\<rparr>;
          out = map (\<lambda>(i, vs). (i, sort vs)) cs in
      if changed then (s1\<lparr>stored_caps := out\<rparr>, [StoreCaps out]) else (s1, []))"

definition set_data :: "device_rec list \<Rightarrow> link \<Rightarrow> link \<times> link_effect list" where
  "set_data ds s =
     (let (s1, fx) = remember_caps ds s in (s1\<lparr>dev_list := Some ds\<rparr>, fx @ [NotifyEntities]))"

definition live_update :: "string \<Rightarrow> device_rec \<Rightarrow> (device_rec \<Rightarrow> device_rec) option" where
  "live_update ty m =
     (if ty = ''device_disconnected'' then Some (put ''connected'' (JBool False))
      else if ty = ''device_update'' then
        Some (case field ''state'' m of JObj st \<Rightarrow> (\<lambda>d. merge_into d st) | _ \<Rightarrow> id)
      else case map_of STATE_EVENT_FIELDS ty of
        Some (key, fld) \<Rightarrow> Some (put fld (field key m))
      | None \<Rightarrow> None)"

definition handle_event :: "device_rec \<Rightarrow> link \<Rightarrow> link \<times> link_effect list" where
  "handle_event m s =
     (if field ''type'' m = JStr ''snapshot'' then
        (let (s1, fx) = set_data (records_of (get_default m ''devices'' (JArr []))) s in (s1, fx @ [EmitEvent m]))
      else case (dev_list s, json_str (get_default m ''type'' (JStr [])), truthy (field ''device_id'' m)) of
        (Some ds, Some ty, True) \<Rightarrow>
          (case live_update ty m of
             Some f \<Rightarrow>
               (let (s1, fx) = set_data (on_device (field ''device_id'' m) f ds) s in (s1, fx @ [EmitEvent m]))
           | None \<Rightarrow> (s, [EmitEvent m]))
      | _ \<Rightarrow> (s, [EmitEvent m]))"

section \<open>REST polls\<close>

text \<open>\<open>ids\<close> are the devices known before the poll; ids are distinct, being the key of the devices table.\<close>

definition merge_one :: "json set \<Rightarrow> device_rec \<Rightarrow> device_rec list \<Rightarrow> device_rec list" where
  "merge_one ids new cur =
     (let i = field ''device_id'' new in
      if \<not> truthy i then cur
      else if i \<in> ids then on_device i (\<lambda>d. merge_into d new) cur
      else cur @ [new])"

definition ids_of :: "device_rec list \<Rightarrow> json set" where
  "ids_of ds = field ''device_id'' ` set ds"

definition merge_rest_devices :: "device_rec list \<Rightarrow> link \<Rightarrow> device_rec list" where
  "merge_rest_devices ds s =
     (case dev_list s of
        None \<Rightarrow> ds
      | Some cur \<Rightarrow> filter (\<lambda>d. field ''device_id'' d \<in> ids_of ds) (fold (merge_one (ids_of cur)) ds cur))"

definition rest_poll :: "device_rec list option \<Rightarrow> link \<Rightarrow> link \<times> link_effect list" where
  "rest_poll r s =
     (case r of
        None \<Rightarrow> (s, [PollFailed])
      | Some ds \<Rightarrow>
          (let (s1, fx) = remember_caps ds s in
           (s1\<lparr>dev_list := Some (merge_rest_devices ds s1)\<rparr>, fx @ [NotifyEntities])))"

section \<open>The connection\<close>

datatype link_event =
    SetupConnect
  | Dialled bool bool
  | EventMsg device_rec
  | ReaderEnds
  | SnapshotSeen bool
  | SnapshotTimeout bool
  | Slept
  | PollReply "device_rec list option"
  | EntryUnloads

text \<open>
  The first argument of an event names the task: the set-up (\<open>True\<close>) or the reconnecting task.
  \<open>async_close\<close> cancels the reader without calling the disconnect handler.
\<close>

definition stage_of :: "bool \<Rightarrow> link \<Rightarrow> link_stage option" where
  "stage_of setup s = (if setup then connecting s else reconnecting s)"

definition set_link_stage :: "bool \<Rightarrow> link_stage option \<Rightarrow> link \<Rightarrow> link" where
  "set_link_stage setup st s = (if setup then s\<lparr>connecting := st\<rparr> else s\<lparr>reconnecting := st\<rparr>)"

definition client_close :: "link \<Rightarrow> link" where
  "client_close s = s\<lparr>reader_on := False, sock_up := False\<rparr>"

text \<open>A failed attempt: the set-up closes the client and raises; the task tries again unless control is up.\<close>

definition attempt_failed :: "bool \<Rightarrow> nat \<Rightarrow> link \<Rightarrow> link \<times> link_effect list" where
  "attempt_failed setup n s =
     (if setup then (set_link_stage True None (client_close s), [SetupFailed])
      else (set_link_stage False (if control_up s then None else Some (Sleeping n)) s, []))"

definition signal_stage :: "link_stage option \<Rightarrow> link_stage option" where
  "signal_stage st = (case st of Some (Awaiting n b) \<Rightarrow> Some (Awaiting n True) | _ \<Rightarrow> st)"

definition dispatch_event :: "device_rec \<Rightarrow> link \<Rightarrow> link \<times> link_effect list" where
  "dispatch_event m s =
     handle_event m
       (if field ''type'' m = JStr ''snapshot''
        then s\<lparr>link_snapshot := Some m, connecting := signal_stage (connecting s),
               reconnecting := signal_stage (reconnecting s)\<rparr>
        else s)"

definition control_lost :: "link \<Rightarrow> link \<times> link_effect list" where
  "control_lost s =
     (let s1 = s\<lparr>control_up := False\<rparr> in
      (if reconnecting s1 = None then s1\<lparr>reconnecting := Some (Sleeping 0)\<rparr> else s1, [NotifyEntities]))"

definition snapshot_devices :: "link \<Rightarrow> device_rec list" where
  "snapshot_devices s =
     (case link_snapshot s of Some m \<Rightarrow> records_of (get_default m ''devices'' (JArr [])) | None \<Rightarrow> [])"

text \<open>The snapshot the wait was signalled for is there; the fetch in its place is never needed.\<close>

definition connected_control :: "bool \<Rightarrow> link \<Rightarrow> link \<times> link_effect list" where
  "connected_control setup s =
     (set_link_stage setup None (s\<lparr>control_up := True, dev_list := Some (snapshot_devices s)\<rparr>), [NotifyEntities])"

fun link_step :: "link \<Rightarrow> link_event \<Rightarrow> link \<times> link_effect list" where
  "link_step s SetupConnect = (if connecting s = None then set_link_stage True (Some (Dialling 0)) s else s, [])"
| "link_step s (Dialled setup ok) =
     (case stage_of setup s of
        Some (Dialling n) \<Rightarrow>
          if ok then (set_link_stage setup (Some (Awaiting n False)) (s\<lparr>sock_up := True, reader_on := True\<rparr>), [])
          else attempt_failed setup n s
      | _ \<Rightarrow> (s, []))"
| "link_step s (EventMsg m) = (if reader_on s then dispatch_event m s else (s, []))"
| "link_step s ReaderEnds =
     (if reader_on s then control_lost (s\<lparr>reader_on := False, sock_up := False\<rparr>) else (s, []))"
| "link_step s (SnapshotSeen setup) =
     (case stage_of setup s of
        Some (Awaiting n True) \<Rightarrow> connected_control setup s
      | _ \<Rightarrow> (s, []))"
| "link_step s (SnapshotTimeout setup) =
     (case stage_of setup s of
        Some (Awaiting n False) \<Rightarrow> attempt_failed setup n s
      | _ \<Rightarrow> (s, []))"
| "link_step s Slept =
     (case reconnecting s of
        Some (Sleeping n) \<Rightarrow> (set_link_stage False (Some (Dialling (n + 1))) (client_close s), [])
      | _ \<Rightarrow> (s, []))"
| "link_step s (PollReply r) = rest_poll r s"
| "link_step s EntryUnloads = (client_close (s\<lparr>reconnecting := None, connecting := None\<rparr>), [])"

lemmas link_defs = stage_of_def set_link_stage_def client_close_def attempt_failed_def dispatch_event_def
  control_lost_def connected_control_def

section \<open>What an event leaves alone\<close>

text \<open>Merging data touches nothing of the connection.\<close>

definition same_link :: "link \<Rightarrow> link \<Rightarrow> bool" where
  "same_link s u \<longleftrightarrow> control_up u = control_up s \<and> sock_up u = sock_up s \<and> reader_on u = reader_on s
     \<and> link_snapshot u = link_snapshot s \<and> connecting u = connecting s \<and> reconnecting u = reconnecting s"

lemma same_link_refl [simp]: "same_link s s"
  by (simp add: same_link_def)

lemma same_link_data [simp]: "same_link s (u\<lparr>dev_list := d\<rparr>) = same_link s u"
  by (simp add: same_link_def)

lemma same_link_remember [simp]: "same_link s (fst (remember_caps ds s))"
  by (simp add: remember_caps_def same_link_def case_prod_beta Let_def)

lemma same_link_set_data [simp]: "same_link s (fst (set_data ds s))"
  by (simp add: set_data_def case_prod_beta)

lemma same_link_event: "same_link s (fst (handle_event m s))"
  by (auto simp: handle_event_def case_prod_beta split: option.split bool.split)

lemma same_link_poll: "same_link s (fst (rest_poll r s))"
  by (auto simp: rest_poll_def case_prod_beta split: option.split)

lemma same_linkD:
  "same_link s u \<Longrightarrow> control_up u = control_up s" "same_link s u \<Longrightarrow> sock_up u = sock_up s"
  "same_link s u \<Longrightarrow> reader_on u = reader_on s" "same_link s u \<Longrightarrow> link_snapshot u = link_snapshot s"
  "same_link s u \<Longrightarrow> connecting u = connecting s" "same_link s u \<Longrightarrow> reconnecting u = reconnecting s"
  by (simp_all add: same_link_def)

lemmas event_link [simp] = same_link_event [THEN same_linkD(1)] same_link_event [THEN same_linkD(2)]
  same_link_event [THEN same_linkD(3)] same_link_event [THEN same_linkD(4)]
  same_link_event [THEN same_linkD(5)] same_link_event [THEN same_linkD(6)]

lemmas poll_link [simp] = same_link_poll [THEN same_linkD(1)] same_link_poll [THEN same_linkD(2)]
  same_link_poll [THEN same_linkD(3)] same_link_poll [THEN same_linkD(4)]
  same_link_poll [THEN same_linkD(5)] same_link_poll [THEN same_linkD(6)]

section \<open>Losing and regaining the link\<close>

definition repaired :: "link \<Rightarrow> bool" where
  "repaired s \<longleftrightarrow> control_up s \<or> reconnecting s \<noteq> None"

lemma repaired_step:
  assumes "repaired s" "e \<noteq> EntryUnloads"
  shows "repaired (fst (link_step s e))"
  using assms
  by (cases e) (auto simp: repaired_def link_defs signal_stage_def case_prod_beta Let_def
      split: option.split link_stage.split bool.split)

interpretation repair: guarded_machine link_step repaired "\<lambda>e. e \<noteq> EntryUnloads"
  by unfold_locales (rule repaired_step)

text \<open>The control is reported up, and nothing reads the stream or will reconnect.\<close>

definition deaf :: "link \<Rightarrow> bool" where
  "deaf s \<longleftrightarrow> control_up s \<and> \<not> reader_on s \<and> connecting s = None \<and> reconnecting s = None"

definition silent :: "link_effect list \<Rightarrow> bool" where
  "silent fx \<longleftrightarrow> (\<forall>m. EmitEvent m \<notin> set fx)"

definition reloads :: "link_event \<Rightarrow> bool" where
  "reloads e \<longleftrightarrow> (case e of SetupConnect \<Rightarrow> True | EntryUnloads \<Rightarrow> True | _ \<Rightarrow> False)"

lemma silent_remember: "silent (snd (remember_caps ds s))"
  by (simp add: silent_def remember_caps_def case_prod_beta Let_def)

lemma silent_poll: "silent (snd (rest_poll r s))"
  using silent_remember by (auto simp: silent_def rest_poll_def case_prod_beta split: option.split)

lemma deaf_step:
  assumes "deaf s" "\<not> reloads e"
  shows "deaf (fst (link_step s e)) \<and> silent (snd (link_step s e))"
proof (cases e)
  case (PollReply r)
  then show ?thesis using assms silent_poll by (simp add: deaf_def)
qed (use assms in \<open>auto simp: deaf_def reloads_def silent_def stage_of_def\<close>)

interpretation deafness: guarded_machine link_step deaf "\<lambda>e. \<not> reloads e"
  by unfold_locales (simp add: deaf_step)

lemma deaf_run_silent:
  assumes "deaf s" "list_all (\<lambda>e. \<not> reloads e) es" "r \<in> set (snd (run link_step s es))"
  shows "silent r"
  using deafness.guarded_output [of silent, OF _ assms] deaf_step by blast

section \<open>The reconnecting task gets through\<close>

text \<open>Failed attempts only count; messages that are no snapshot do not wake the waiting task.\<close>

lemma failed_attempts:
  "reconnecting s = Some (Sleeping n) \<Longrightarrow> \<not> control_up s \<Longrightarrow>
     reconnecting (fst (run link_step s (concat (replicate j [Slept, Dialled False False])))) = Some (Sleeping (n + j))
   \<and> \<not> control_up (fst (run link_step s (concat (replicate j [Slept, Dialled False False]))))"
proof (induction j arbitrary: s n)
  case (Suc j)
  let ?u = "fst (link_step (fst (link_step s Slept)) (Dialled False False))"
  have "reconnecting ?u = Some (Sleeping (Suc n))" "\<not> control_up ?u"
    using Suc.prems by (simp_all add: link_defs)
  from Suc.IH [OF this] show ?case by simp
qed simp

definition snapshot_of :: "device_rec \<Rightarrow> bool" where
  "snapshot_of m \<longleftrightarrow> field ''type'' m = JStr ''snapshot''"

definition waits_for :: "device_rec \<Rightarrow> link \<Rightarrow> bool" where
  "waits_for m s \<longleftrightarrow> reader_on s \<and> link_snapshot s = Some m \<and> (\<exists>n. reconnecting s = Some (Awaiting n True))"

lemma waits_for_messages:
  "waits_for m s \<Longrightarrow> list_all (\<lambda>x. \<not> snapshot_of x) ms \<Longrightarrow>
     waits_for m (fst (run link_step s (map EventMsg ms)))"
proof (induction ms arbitrary: s)
  case (Cons x ms)
  then have "waits_for m (fst (link_step s (EventMsg x)))"
    by (auto simp: waits_for_def dispatch_event_def snapshot_of_def)
  with Cons show ?case by simp
qed simp

lemma snapshot_wakes:
  assumes "reader_on s" "reconnecting s = Some (Awaiting n b)" "snapshot_of m"
  shows "waits_for m (fst (link_step s (EventMsg m)))"
  using assms by (simp add: waits_for_def dispatch_event_def snapshot_of_def signal_stage_def)

lemma woken:
  assumes "waits_for m s"
  shows "fst (link_step s (SnapshotSeen False)) =
      s\<lparr>control_up := True, dev_list := Some (records_of (get_default m ''devices'' (JArr []))), reconnecting := None\<rparr>"
  using assms by (auto simp: waits_for_def stage_of_def connected_control_def set_link_stage_def snapshot_devices_def)

section \<open>Claims\<close>

text \<open>A link that waits for its snapshot after a loss, and messages for it, for the witnesses.\<close>

definition waiting_link :: link where
  "waiting_link = fst (run link_step (link_init []) [SetupConnect, Dialled True True, ReaderEnds, SnapshotTimeout True,
     Slept, Dialled False False, Slept, Dialled False True])"

definition sample_snapshot :: device_rec where
  "sample_snapshot = [(''type'', JStr ''snapshot''), (''devices'', JArr [JObj [(''device_id'', JStr ''a''),
     (''connected'', JBool False), (''capabilities'', JArr [JStr ''leds''])]])]"

definition sample_update :: device_rec where
  "sample_update = [(''type'', JStr ''device_update''), (''device_id'', JStr ''a''),
     (''state'', JObj [(''connected'', JBool True)])]"

text \<open>Claim C16: once the link has been up, whatever the order in which its
  reader ends, attempts fail, waits time out and polls come in, at every moment until the entry is
  unloaded the control is reported up or the reconnecting task is there.\<close>

theorem lost_link_is_repaired:
  assumes "control_up s \<or> reconnecting s \<noteq> None" "list_all (\<lambda>e. e \<noteq> EntryUnloads) es"
  shows "control_up (fst (run link_step s es)) \<or> reconnecting (fst (run link_step s es)) \<noteq> None"
  using repair.guarded_run [of s es] assms by (simp add: repaired_def)

theorem lost_link_is_repaired_witness:
  "control_up (fst (run link_step waiting_link [SnapshotTimeout False, PollReply None, Slept]))
   \<or> (\<exists>st. reconnecting (fst (run link_step waiting_link [SnapshotTimeout False, PollReply None, Slept])) = Some st)"
proof -
  let ?es = "[SnapshotTimeout False, PollReply None, Slept]"
  have start: "control_up waiting_link \<or> reconnecting waiting_link \<noteq> None" by code_simp
  have loaded: "list_all (\<lambda>e. e \<noteq> EntryUnloads) ?es" by code_simp
  show ?thesis using lost_link_is_repaired [OF start loaded] by (simp only: not_None_eq)
qed



text \<open>when the stream ends right after its snapshot, before
  the reconnecting task has resumed from its wait, the task reports the control up on a dead connection
  and ends: from then on the control stays up, nothing reads the stream, and no event of the controller
  reaches a listener, until the entry is reloaded.\<close>

theorem link_dead_but_reported_up:
  assumes "reader_on s" "reconnecting s = Some (Awaiting n b)" "connecting s = None" "snapshot_of m"
    "list_all (\<lambda>e. \<not> reloads e) es"
  shows "let (v, first) = run link_step s [EventMsg m, ReaderEnds, SnapshotSeen False];
             (u, out) = run link_step v es in
         control_up u \<and> \<not> reader_on u \<and> reconnecting u = None \<and> EmitEvent x \<notin> set (concat out)"
proof -
  let ?v = "fst (run link_step s [EventMsg m, ReaderEnds, SnapshotSeen False])"
  let ?a = "fst (link_step s (EventMsg m))"
  have "waits_for m ?a" "connecting ?a = None"
    using snapshot_wakes [OF assms(1,2,4)] assms(3)
    by (simp_all add: dispatch_event_def signal_stage_def)
  then have "deaf ?v"
    by (auto simp: deaf_def link_defs waits_for_def Let_def)
  then show ?thesis
    using deafness.guarded_run [of ?v es] deaf_run_silent [of ?v es] assms(5)
    by (fastforce simp: case_prod_beta deaf_def silent_def)
qed

theorem link_dead_but_reported_up_witness:
  "let (v, first) = run link_step waiting_link [EventMsg sample_snapshot, ReaderEnds, SnapshotSeen False];
       (u, out) = run link_step v [EventMsg sample_update, ReaderEnds, PollReply (Some []), Slept] in
   control_up u \<and> \<not> reader_on u \<and> reconnecting u = None \<and> EmitEvent sample_update \<notin> set (concat out)"
  by (rule link_dead_but_reported_up [where n = 2 and b = False]) code_simp+

text \<open>the messages the reader handles between a
  snapshot and the resumption of the reconnecting task are undone by it: the device list is the
  snapshot's again.\<close>

theorem late_wake_rolls_back_live_events:
  assumes "reader_on s" "reconnecting s = Some (Awaiting n b)" "snapshot_of m" "list_all (\<lambda>x. \<not> snapshot_of x) ms"
  shows "dev_list (fst (run link_step s (EventMsg m # map EventMsg ms @ [SnapshotSeen False])))
         = Some (records_of (get_default m ''devices'' (JArr [])))"
  using woken [OF waits_for_messages [OF snapshot_wakes [OF assms(1-3)] assms(4)]]
  by (simp add: run_append_fst)

theorem late_wake_rolls_back_live_events_witness:
  "dev_list (fst (run link_step waiting_link
     (EventMsg sample_snapshot # map EventMsg [sample_update] @ [SnapshotSeen False])))
   = Some (records_of (get_default sample_snapshot ''devices'' (JArr [])))
   \<and> dev_list (fst (run link_step waiting_link [EventMsg sample_snapshot, EventMsg sample_update]))
   \<noteq> Some (records_of (get_default sample_snapshot ''devices'' (JArr [])))"
proof -
  have "reader_on waiting_link \<and> reconnecting waiting_link = Some (Awaiting 2 False) \<and> snapshot_of sample_snapshot
      \<and> list_all (\<lambda>x. \<not> snapshot_of x) [sample_update]"
    "dev_list (fst (run link_step waiting_link [EventMsg sample_snapshot, EventMsg sample_update]))
     \<noteq> Some (records_of (get_default sample_snapshot ''devices'' (JArr [])))"
    by code_simp+
  then show ?thesis
    using late_wake_rolls_back_live_events [of waiting_link 2 False sample_snapshot "[sample_update]"] by simp
qed

section \<open>Merging a poll\<close>

text \<open>The record of a device, as \<open>device_record\<close> of \<open>entities.py\<close> reads it.\<close>

definition device_record :: "json \<Rightarrow> device_rec list \<Rightarrow> device_rec" where
  "device_record i ds = (case filter (\<lambda>d. field ''device_id'' d = i) ds of d # _ \<Rightarrow> d | [] \<Rightarrow> [])"

definition records_ok :: "device_rec list \<Rightarrow> bool" where
  "records_ok ds \<longleftrightarrow> distinct (map (field ''device_id'') ds) \<and> list_all (\<lambda>d. distinct (map fst d)) ds
     \<and> list_all (\<lambda>d. truthy (field ''device_id'' d)) ds"

lemma foldl_put_map: "distinct (map fst kvs) \<Longrightarrow> map_of (foldl (\<lambda>d (k, v). put k v d) cur kvs) = map_of cur ++ map_of kvs"
proof (induction kvs arbitrary: cur)
  case (Cons kv kvs)
  obtain k v where kv: "kv = (k, v)" by (cases kv)
  have "map_of (foldl (\<lambda>d (k, v). put k v d) cur (kv # kvs)) = map_of (put k v cur) ++ map_of kvs"
    using Cons kv by (simp del: map_of_put)
  also have "\<dots> = map_of cur ++ map_of (kv # kvs)"
    using Cons.prems kv by (simp add: map_add_upd_left dom_map_of_conv_image_fst)
  finally show ?case .
qed simp

lemma merge_into_map: "distinct (map fst new) \<Longrightarrow> map_of (merge_into cur new) = map_of cur ++ map_of new"
  by (simp add: merge_into_def foldl_put_map)

lemma merge_into_id:
  assumes "distinct (map fst new)" "field ''device_id'' new = field ''device_id'' cur" "truthy (field ''device_id'' new)"
  shows "field ''device_id'' (merge_into cur new) = field ''device_id'' cur"
  using assms
  by (auto simp: field_def get_default_def merge_into_map map_add_def simp del: map_of_eq_Some_iff split: option.splits)

lemma ids_of_simps [simp]:
  "ids_of [] = {}" "ids_of (d # ds) = insert (field ''device_id'' d) (ids_of ds)"
  "ids_of (ds @ es) = ids_of ds \<union> ids_of es"
  by (auto simp: ids_of_def)

lemma device_record_Cons:
  "device_record i (d # ds) = (if field ''device_id'' d = i then d else device_record i ds)"
  by (simp add: device_record_def)

lemma device_record_append:
  "device_record i (ds @ es) = (if i \<in> ids_of ds then device_record i ds else device_record i es)"
  by (induction ds) (auto simp: device_record_Cons ids_of_def)

lemma device_record_filter:
  "device_record i (filter (\<lambda>d. field ''device_id'' d \<in> I) ds) = (if i \<in> I then device_record i ds else [])"
  by (induction ds) (auto simp: device_record_Cons, simp_all add: device_record_def)

lemma on_device_Cons:
  "on_device j f (d # ds) = (if field ''device_id'' d = j then f d else d) # on_device j f ds"
  by (simp add: on_device_def)

lemma device_record_on_device:
  assumes "\<And>d. field ''device_id'' d = j \<Longrightarrow> field ''device_id'' (f d) = j"
  shows "device_record i (on_device j f ds) = (if i = j \<and> i \<in> ids_of ds then f (device_record i ds) else device_record i ds)"
proof (induction ds)
  case (Cons d ds)
  then show ?case
    using assms [of d] by (cases "field ''device_id'' d = j") (auto simp: device_record_Cons on_device_Cons ids_of_def)
qed (simp add: on_device_def ids_of_def)

lemma device_record_absent: "i \<notin> ids_of ds \<Longrightarrow> device_record i ds = []"
  by (induction ds) (auto simp: device_record_Cons ids_of_def, simp add: device_record_def)

lemma ids_on_device:
  assumes "\<And>d. field ''device_id'' d = j \<Longrightarrow> field ''device_id'' (f d) = j"
  shows "ids_of (on_device j f ds) = ids_of ds"
proof (induction ds)
  case (Cons d ds)
  then show ?case
    using assms [of d] by (cases "field ''device_id'' d = j") (simp_all add: on_device_Cons ids_of_def)
qed (simp add: on_device_def)

lemma fold_merge_record:
  assumes "records_ok ds" "ids \<subseteq> ids_of cur" "ids_of cur \<inter> ids_of ds \<subseteq> ids"
  shows "device_record i (fold (merge_one ids) ds cur) =
     (if i \<in> ids_of ds then if i \<in> ids then merge_into (device_record i cur) (device_record i ds)
                             else device_record i ds
      else device_record i cur)"
  using assms
proof (induction ds arbitrary: cur)
  case Nil
  then show ?case by (simp add: ids_of_def)
next
  case (Cons d ds)
  let ?j = "field ''device_id'' d"
  have d: "truthy ?j" "?j \<notin> ids_of ds" "distinct (map fst d)" "records_ok ds"
    using Cons.prems(1) by (auto simp: records_ok_def ids_of_def)
  show ?case
  proof (cases "?j \<in> ids")
    case True
    have keep: "field ''device_id'' c = ?j \<Longrightarrow> field ''device_id'' (merge_into c d) = ?j" for c
      using merge_into_id [OF d(3), of c] d(1) by simp
    let ?cur = "on_device ?j (\<lambda>c. merge_into c d) cur"
    have "merge_one ids d cur = ?cur" using True d(1) by (simp add: merge_one_def Let_def)
    moreover have "ids_of ?cur = ids_of cur" by (rule ids_on_device [OF keep])
    moreover have "device_record i (fold (merge_one ids) ds ?cur) =
        (if i \<in> ids_of ds then if i \<in> ids then merge_into (device_record i ?cur) (device_record i ds)
                               else device_record i ds
         else device_record i ?cur)"
      using Cons.prems(2,3) d(4) calculation(2) by (intro Cons.IH) auto
    ultimately show ?thesis
      using d(2) True Cons.prems(2)
        device_record_on_device [where f = "\<lambda>c. merge_into c d" and j = ?j and ds = cur and i = i, OF keep]
      by (cases "i = ?j") (auto simp: device_record_Cons)
  next
    case False
    then have "?j \<notin> ids_of cur" using Cons.prems(3) by auto
    moreover have "device_record i (fold (merge_one ids) ds (cur @ [d])) =
        (if i \<in> ids_of ds then if i \<in> ids then merge_into (device_record i (cur @ [d])) (device_record i ds)
                               else device_record i ds
         else device_record i (cur @ [d]))"
      using Cons.prems(2,3) d(2,4) by (intro Cons.IH) auto
    moreover have "merge_one ids d cur = cur @ [d]" using False d(1) by (simp add: merge_one_def Let_def)
    ultimately show ?thesis
      using Cons.prems(2) False d(2)
      by (cases "i = ?j") (auto simp: device_record_Cons device_record_append device_record_absent)
  qed
qed


lemma same_data_remember [simp]: "dev_list (fst (remember_caps ds s)) = dev_list s"
  by (simp add: remember_caps_def case_prod_beta Let_def)

text \<open>after a poll the coordinator knows exactly the devices of
  the poll; of each, every field the poll carries has the poll's value, whatever a live event has said
  since the controller answered, and the other fields keep theirs.\<close>

theorem poll_merges_field_by_field:
  assumes "dev_list s = Some cur" "records_ok ds"
  shows "\<exists>new. dev_list (fst (link_step s (PollReply (Some ds)))) = Some new
           \<and> map_of (device_record i new) =
               (if i \<in> ids_of ds then map_of (device_record i cur) ++ map_of (device_record i ds) else Map.empty)"
proof -
  let ?new = "merge_rest_devices ds (fst (remember_caps ds s))"
  have "dev_list (fst (link_step s (PollReply (Some ds)))) = Some ?new"
    by (simp add: rest_poll_def case_prod_beta)
  moreover have keys: "distinct (map fst (device_record i ds))"
    using assms(2) by (auto simp: device_record_def records_ok_def list_all_iff split: list.split dest: filter_eq_ConsD)
  have "device_record i ?new =
      (if i \<in> ids_of ds then if i \<in> ids_of cur then merge_into (device_record i cur) (device_record i ds)
                              else device_record i ds else [])"
    using fold_merge_record [OF assms(2) order_refl, of cur i] assms(1)
    by (simp add: merge_rest_devices_def device_record_filter)
  ultimately show ?thesis
    using merge_into_map [OF keys] by (simp add: device_record_absent)
qed

theorem poll_merges_field_by_field_witness:
  "\<exists>new. dev_list (fst (link_step (waiting_link\<lparr>dev_list := Some
        [[(''device_id'', JStr ''a''), (''muted'', JBool True), (''lux'', JInt 3)]]\<rparr>)
      (PollReply (Some [[(''device_id'', JStr ''a''), (''muted'', JBool False)]])))) = Some new
    \<and> map_of (device_record (JStr ''a'') new) ''muted'' = Some (JBool False)
    \<and> map_of (device_record (JStr ''a'') new) ''lux'' = Some (JInt 3)"
proof -
  let ?s = "waiting_link\<lparr>dev_list := Some [[(''device_id'', JStr ''a''), (''muted'', JBool True), (''lux'', JInt 3)]]\<rparr>"
  have "records_ok [[(''device_id'', JStr ''a''), (''muted'', JBool False)]]" by code_simp
  from poll_merges_field_by_field [of ?s, OF _ this, where i = "JStr ''a''"] obtain new where
    "dev_list (fst (link_step ?s (PollReply (Some [[(''device_id'', JStr ''a''), (''muted'', JBool False)]])))) = Some new"
    "map_of (device_record (JStr ''a'') new) = [''device_id'' \<mapsto> JStr ''a'', ''muted'' \<mapsto> JBool True, ''lux'' \<mapsto> JInt 3]
       ++ [''device_id'' \<mapsto> JStr ''a'', ''muted'' \<mapsto> JBool False]"
    by (auto simp: field_def get_default_def device_record_Cons fun_upd_twist)
  then show ?thesis by simp
qed

section \<open>Capabilities are remembered for good\<close>

definition stored_exactly :: "link \<Rightarrow> bool" where
  "stored_exactly s \<longleftrightarrow> (\<forall>i. set (caps_of i (stored_caps s)) = set (caps_of i (known_caps s)))"

lemma caps_of_put [simp]: "caps_of i (put j vs cs) = (if i = j then vs else caps_of i cs)"
  by (simp add: caps_of_def)

lemma set_fold_insert: "set (fold List.insert vs ws) = set vs \<union> set ws"
  by (induction vs arbitrary: ws) auto

lemma caps_of_sorted: "set (caps_of i (map (\<lambda>(j, vs). (j, sort vs)) cs)) = set (caps_of i cs)"
  by (induction cs) (auto simp: caps_of_def)

text \<open>An insertion that leaves the length adds nothing.\<close>

lemma length_fold_insert: "length ws \<le> length (fold List.insert vs ws)"
proof (induction vs arbitrary: ws)
  case (Cons v vs)
  from Cons [of "List.insert v ws"] show ?case by (auto simp: List.insert_def split: if_splits)
qed simp

lemma fold_insert_same: "length (fold List.insert vs ws) = length ws \<Longrightarrow> fold List.insert vs ws = ws"
proof (induction vs arbitrary: ws)
  case (Cons v vs)
  have "v \<in> set ws"
  proof (rule ccontr)
    assume "v \<notin> set ws"
    then have "length ws < length (fold List.insert vs (List.insert v ws))"
      using length_fold_insert [of "List.insert v ws" vs] by simp
    then show False using Cons.prems by simp
  qed
  then show ?case using Cons by (simp add: in_set_insert)
qed simp

definition grows :: "caps \<times> bool \<Rightarrow> caps \<times> bool \<Rightarrow> bool" where
  "grows a b \<longleftrightarrow> (\<forall>i. set (caps_of i (fst a)) \<subseteq> set (caps_of i (fst b))) \<and> (snd a \<longrightarrow> snd b)
     \<and> (\<not> snd b \<longrightarrow> (\<forall>i. caps_of i (fst b) = caps_of i (fst a)))"

lemma grows_one: "grows a (remember_one d a)"
  by (auto simp: grows_def remember_one_def case_prod_beta Let_def set_fold_insert fold_insert_same
      split: option.split json.split)

lemma grows_trans: "grows a b \<Longrightarrow> grows b c \<Longrightarrow> grows a c"
  by (fastforce simp: grows_def)

lemma grows_fold: "grows a (fold remember_one ds a)"
proof (induction ds arbitrary: a)
  case (Cons d ds)
  from grows_trans [OF grows_one Cons] show ?case by simp
qed (simp add: grows_def)

definition reported :: "string \<Rightarrow> string \<Rightarrow> device_rec list \<Rightarrow> bool" where
  "reported i c ds \<longleftrightarrow> (\<exists>d \<in> set ds. json_str (field ''device_id'' d) = Some i \<and> i \<noteq> []
     \<and> (case get_default d ''capabilities'' (JArr []) of JArr js \<Rightarrow> c \<in> set (json_strs js) | _ \<Rightarrow> False))"

lemma remembered_fold: "reported i c ds \<Longrightarrow> c \<in> set (caps_of i (fst (fold remember_one ds a)))"
proof (induction ds arbitrary: a)
  case (Cons d ds)
  show ?case
  proof (cases "reported i c ds")
    case False
    then have "reported i c [d]" using Cons.prems by (auto simp: reported_def)
    then have "c \<in> set (caps_of i (fst (remember_one d a)))"
      by (auto simp: reported_def remember_one_def case_prod_beta Let_def set_fold_insert split: json.splits)
    then show ?thesis using grows_fold [of "remember_one d a" ds] by (auto simp: grows_def)
  qed (use Cons in simp)
qed (simp add: reported_def)

definition keeps_caps :: "link \<Rightarrow> link \<Rightarrow> bool" where
  "keeps_caps s u \<longleftrightarrow> (stored_exactly s \<longrightarrow> stored_exactly u)
     \<and> (\<forall>i. set (caps_of i (known_caps s)) \<subseteq> set (caps_of i (known_caps u)))"

lemma keeps_caps_refl [simp]: "keeps_caps s s"
  by (simp add: keeps_caps_def)

lemma keeps_caps_same:
  "known_caps u = known_caps s \<Longrightarrow> stored_caps u = stored_caps s \<Longrightarrow> keeps_caps s u"
  by (simp add: keeps_caps_def stored_exactly_def)

lemma keeps_caps_frame [simp]: "keeps_caps s (u\<lparr>dev_list := d\<rparr>) = keeps_caps s u"
  by (simp add: keeps_caps_def stored_exactly_def)

lemma keeps_caps_remember: "keeps_caps s (fst (remember_caps ds s))"
  using grows_fold [of "(known_caps s, False)" ds]
  by (auto simp: keeps_caps_def stored_exactly_def remember_caps_def grows_def case_prod_beta Let_def caps_of_sorted)

lemma known_after_remember: "known_caps (fst (remember_caps ds s)) = fst (fold remember_one ds (known_caps s, False))"
  by (simp add: remember_caps_def case_prod_beta Let_def)

lemma keeps_caps_event: "keeps_caps s (fst (handle_event m s))"
  using keeps_caps_remember
  by (auto simp: handle_event_def set_data_def case_prod_beta split: option.split bool.split)

lemma keeps_caps_link [simp]:
  "keeps_caps (s\<lparr>link_snapshot := a, connecting := b, reconnecting := c\<rparr>) u = keeps_caps s u"
  by (simp add: keeps_caps_def stored_exactly_def)

lemma keeps_caps_dispatch: "keeps_caps s (fst (dispatch_event m s))"
proof (cases "field ''type'' m = JStr ''snapshot''")
  case True
  show ?thesis
    using keeps_caps_event [of "s\<lparr>link_snapshot := Some m, connecting := signal_stage (connecting s),
      reconnecting := signal_stage (reconnecting s)\<rparr>" m] True
    by (simp add: dispatch_event_def)
qed (simp add: dispatch_event_def keeps_caps_event)

lemma keeps_caps_step: "keeps_caps s (fst (link_step s e))"
proof (cases e)
  case (EventMsg m)
  then show ?thesis using keeps_caps_dispatch by simp
next
  case (PollReply r)
  then show ?thesis using keeps_caps_remember by (simp add: rest_poll_def case_prod_beta split: option.split)
qed (auto simp: stage_of_def set_link_stage_def client_close_def attempt_failed_def control_lost_def
      connected_control_def Let_def intro!: keeps_caps_same split: option.split link_stage.split bool.split)

interpretation remembering: machine link_step "\<lambda>s. stored_exactly s \<and> c \<in> set (caps_of i (known_caps s))" for i c
  using keeps_caps_step by unfold_locales (auto simp: keeps_caps_def)

text \<open>What a notice reports of every device at once: a snapshot or a poll.\<close>

definition reports :: "link_event \<Rightarrow> device_rec list option" where
  "reports e = (case e of
     EventMsg m \<Rightarrow> if snapshot_of m then Some (records_of (get_default m ''devices'' (JArr []))) else None
   | PollReply r \<Rightarrow> r
   | _ \<Rightarrow> None)"

lemma report_remembered:
  assumes "reports e = Some ds" "reported i c ds" "reader_on s"
  shows "c \<in> set (caps_of i (known_caps (fst (link_step s e))))"
  using assms remembered_fold
  by (auto simp: reports_def dispatch_event_def handle_event_def set_data_def rest_poll_def snapshot_of_def
      known_after_remember case_prod_beta split: link_event.splits if_splits)

text \<open>a capability that a snapshot or a poll reports of a
  device is in the stored configuration from then on, whatever later notices leave out.\<close>

theorem capability_once_seen_is_stored:
  assumes "reader_on (fst (run link_step (link_init cs) es))" "reports e = Some ds" "reported i c ds"
  shows "c \<in> set (caps_of i (stored_caps (fst (run link_step (link_init cs) (es @ e # fs)))))"
proof -
  let ?s = "fst (run link_step (link_init cs) es)"
  have "stored_exactly (link_init cs)" by (simp add: stored_exactly_def link_init_def)
  then have "stored_exactly ?s"
    using keeps_caps_step by (induction es rule: rev_induct) (auto simp: run_append_fst keeps_caps_def)
  then have "stored_exactly (fst (link_step ?s e)) \<and> c \<in> set (caps_of i (known_caps (fst (link_step ?s e))))"
    using report_remembered [OF assms(2,3,1)] keeps_caps_step [of ?s e] by (simp add: keeps_caps_def)
  from remembering.inv_run [OF this, of fs] show ?thesis
    by (simp add: run_append_fst stored_exactly_def)
qed

theorem capability_once_seen_is_stored_witness:
  "''leds'' \<in> set (caps_of ''a'' (stored_caps (fst (run link_step (link_init [])
     ([SetupConnect, Dialled True True] @ EventMsg sample_snapshot # [PollReply (Some []), ReaderEnds])))))"
  by (rule capability_once_seen_is_stored
      [where ds = "[[(''device_id'', JStr ''a''), (''connected'', JBool False), (''capabilities'', JArr [JStr ''leds''])]]"])
    code_simp+

section \<open>One push\<close>

text \<open>A push that has sent to \<open>as\<close> and \<open>a\<close> and has \<open>bs\<close> to come.\<close>

definition sending :: "nat \<Rightarrow> 'e \<Rightarrow> nat list \<Rightarrow> nat \<Rightarrow> nat list \<Rightarrow> nat list \<Rightarrow> 'e fanout \<Rightarrow> bool" where
  "sending k e as a bs dead s \<longleftrightarrow> fan_clients s = as @ a # bs \<and> distinct (as @ a # bs) \<and> set dead \<subseteq> set as
     \<and> map_of (fan_pushes s) k =
         Some \<lparr>push_payload = e, push_size = length (fan_clients s), push_seen = a # rev as, push_dead = dead\<rparr>"

lemma not_seen: "distinct (as @ a # bs) \<Longrightarrow> filter (\<lambda>c. c \<notin> set (a # rev as)) (as @ a # bs) = bs"
  by (auto simp: filter_empty_conv intro!: filter_True)

lemma sending_next:
  assumes "sending k e as a (b # bs) dead s"
  shows "snd (fan_step s (SendDone k ok)) = [SendStr b e]
       \<and> sending k e (as @ [a]) b bs (if ok then dead else a # dead) (fst (fan_step s (SendDone k ok)))"
  using assms not_seen [of as a "b # bs"]
  by (auto simp: sending_def push_next_def)

lemma sending_last:
  assumes "sending k e as a [] dead s"
  shows "snd (fan_step s (SendDone k ok)) = []
       \<and> fan_clients (fst (fan_step s (SendDone k ok))) = filter (\<lambda>c. c \<notin> set dead) as @ (if ok then [a] else [])
       \<and> map_of (fan_pushes (fst (fan_step s (SendDone k ok)))) k = None"
  using assms not_seen [of as a "[]"]
  by (auto simp: sending_def push_next_def intro!: filter_cong)

declare fan_step.simps [simp del]

lemma sending_run:
  "sending k e as a bs dead s \<Longrightarrow> length oks \<le> length bs \<Longrightarrow>
     concat (snd (run fan_step s (map (SendDone k) oks))) = map (\<lambda>c. SendStr c e) (take (length oks) bs)
   \<and> (\<exists>as' a' dead'. as' @ [a'] = as @ a # take (length oks) bs
        \<and> sending k e as' a' (drop (length oks) bs) dead' (fst (run fan_step s (map (SendDone k) oks)))
        \<and> filter (\<lambda>c. c \<notin> set dead') as' = filter (\<lambda>c. c \<notin> set dead) as @ map fst (filter snd (zip (a # bs) oks)))"
proof (induction oks arbitrary: as a bs dead s)
  case Nil
  then show ?case by auto
next
  case (Cons ok oks)
  then obtain b bs' where bs: "bs = b # bs'" by (cases bs) auto
  let ?d = "if ok then dead else a # dead"
  let ?u = "fst (fan_step s (SendDone k ok))"
  note next_one = sending_next [OF Cons.prems(1) [unfolded bs], of ok]
  from Cons.IH [of "as @ [a]" b bs' ?d ?u] next_one Cons.prems(2) bs
  obtain as' a' dead' where later:
    "concat (snd (run fan_step ?u (map (SendDone k) oks))) = map (\<lambda>c. SendStr c e) (take (length oks) bs')"
    "as' @ [a'] = (as @ [a]) @ b # take (length oks) bs'"
    "sending k e as' a' (drop (length oks) bs') dead' (fst (run fan_step ?u (map (SendDone k) oks)))"
    "filter (\<lambda>c. c \<notin> set dead') as' = filter (\<lambda>c. c \<notin> set ?d) (as @ [a]) @ map fst (filter snd (zip (b # bs') oks))"
    by auto
  have "a \<notin> set as" "a \<notin> set dead" using Cons.prems(1) by (auto simp: sending_def)
  then have "filter (\<lambda>c. c \<notin> set ?d) (as @ [a]) = filter (\<lambda>c. c \<notin> set dead) as @ (if ok then [a] else [])"
    by (auto intro!: filter_cong)
  with later(4) have "filter (\<lambda>c. c \<notin> set dead') as' =
      filter (\<lambda>c. c \<notin> set dead) as @ map fst (filter snd (zip (a # bs) (ok # oks)))"
    by (simp add: bs)
  note kept = this
  show ?case
    by (rule conjI, use later(1) next_one in \<open>simp add: bs\<close>,
        rule exI [of _ as'], rule exI [of _ a'], rule exI [of _ dead'], use later(2,3) kept in \<open>simp add: bs\<close>)
qed

lemma push_begins:
  assumes "fan_clients s = c # cs" "distinct (c # cs)"
  shows "snd (fan_step s (PushEvent k e)) = [SendStr c e] \<and> sending k e [] c cs [] (fst (fan_step s (PushEvent k e)))"
  using assms by (simp add: fan_step.simps push_next_def sending_def)

lemma newcomer_raises:
  assumes "sending k e as a bs dead s" "d \<notin> set (fan_clients s)"
  shows "snd (run fan_step s [ClientJoins d, SendDone k ok]) = [[], [PushRaises k]]
       \<and> map_of (fan_pushes (fst (run fan_step s [ClientJoins d, SendDone k ok]))) k = None"
  using assms by (simp add: sending_def fan_step.simps push_next_def)

text \<open>while no client comes or goes, an event is sent to every
  connected client exactly once, in the order of the set, whichever sends fail; afterwards the clients
  whose send failed are gone and the others are still connected.\<close>

theorem event_reaches_every_client:
  assumes "fan_clients s = c # cs" "distinct (c # cs)" "length oks = length (c # cs)"
  shows "let (u, out) = run fan_step s (PushEvent k e # map (SendDone k) oks) in
         concat out = map (\<lambda>d. SendStr d e) (c # cs)
         \<and> fan_clients u = map fst (filter snd (zip (c # cs) oks)) \<and> map_of (fan_pushes u) k = None"
proof -
  obtain init ok where oks: "oks = init @ [ok]" "length init = length cs"
    using assms(3) by (cases oks rule: rev_cases) auto
  note begun = push_begins [OF assms(1,2), of k e]
  from sending_run [OF conjunct2 [OF begun], of init] oks(2) obtain as' a' dead' where
    all: "concat (snd (run fan_step (fst (fan_step s (PushEvent k e))) (map (SendDone k) init))) = map (\<lambda>c. SendStr c e) cs"
    "as' @ [a'] = c # cs"
    "sending k e as' a' [] dead' (fst (run fan_step (fst (fan_step s (PushEvent k e))) (map (SendDone k) init)))"
    "filter (\<lambda>c. c \<notin> set dead') as' = map fst (filter snd (zip (c # cs) init))"
    by auto
  have "length as' = length init" using arg_cong [OF all(2), of length] oks(2) by simp
  then have "zip (c # cs) oks = zip (c # cs) init @ [(a', ok)]"
    unfolding all(2) [symmetric] oks(1) by (simp add: zip_append1)
  then show ?thesis
    using all sending_last [OF all(3), of ok] begun oks(1)
    by (simp add: case_prod_beta run_append_fst run_append_snd)
qed

theorem event_reaches_every_client_witness:
  "let (u, out) = run fan_step \<lparr>fan_clients = [4, 7], fan_pushes = []\<rparr> (PushEvent 0 ''x'' # map (SendDone 0) [False, True]) in
   concat out = [SendStr 4 ''x'', SendStr 7 ''x''] \<and> fan_clients u = [7] \<and> map_of (fan_pushes u) 0 = None"
  using event_reaches_every_client [of "\<lparr>fan_clients = [4, 7], fan_pushes = []\<rparr>" 4 "[7]" "[False, True]" 0 "''x''"]
  by (simp add: case_prod_beta)

text \<open>when a client connects while a push waits for one of its
  sends, the push raises at its next step: the clients it had not reached never get the event.\<close>

theorem newcomer_cuts_the_event_off:
  assumes "fan_clients s = c # cs" "distinct (c # cs)" "length oks \<le> length cs" "d \<notin> set (c # cs)"
  shows "let (u, out) = run fan_step s (PushEvent k e # map (SendDone k) oks @ [ClientJoins d, SendDone k ok]) in
         concat out = map (\<lambda>d. SendStr d e) (take (Suc (length oks)) (c # cs)) @ [PushRaises k]
         \<and> map_of (fan_pushes u) k = None"
proof -
  note begun = push_begins [OF assms(1,2), of k e]
  let ?u = "fst (run fan_step (fst (fan_step s (PushEvent k e))) (map (SendDone k) oks))"
  from sending_run [OF conjunct2 [OF begun] assms(3)] obtain as' a' dead' where
    some: "concat (snd (run fan_step (fst (fan_step s (PushEvent k e))) (map (SendDone k) oks))) =
        map (\<lambda>c. SendStr c e) (take (length oks) cs)"
    "as' @ [a'] = c # take (length oks) cs" "sending k e as' a' (drop (length oks) cs) dead' ?u"
    by auto
  have "fan_clients ?u = c # cs"
  proof -
    have "fan_clients ?u = (as' @ [a']) @ drop (length oks) cs" using some(3) by (simp add: sending_def)
    then show ?thesis unfolding some(2) by simp
  qed
  then have "snd (run fan_step ?u [ClientJoins d, SendDone k ok]) = [[], [PushRaises k]]
      \<and> map_of (fan_pushes (fst (run fan_step ?u [ClientJoins d, SendDone k ok]))) k = None"
    using assms(4) by (intro newcomer_raises [OF some(3)]) simp
  then show ?thesis
    using some(1) begun by (simp add: case_prod_beta run_append_fst run_append_snd)
qed

theorem newcomer_cuts_the_event_off_witness:
  "let (u, out) = run fan_step \<lparr>fan_clients = [4, 7], fan_pushes = []\<rparr>
       (PushEvent 0 ''turn.terminal'' # map (SendDone 0) [] @ [ClientJoins 9, SendDone 0 True]) in
   concat out = [SendStr 4 ''turn.terminal'', PushRaises 0] \<and> map_of (fan_pushes u) 0 = None"
  using newcomer_cuts_the_event_off [of "\<lparr>fan_clients = [4, 7], fan_pushes = []\<rparr>" 4 "[7]" "[]" 9 0 "''turn.terminal''" True]
  by (simp add: case_prod_beta)

end
