(* ===== verification/TimerRing.thy ===== *)
theory TimerRing
  imports Timers
begin

text \<open>
  How a finished timer or a fired alarm reaches the speaker of an Echo and the card of Home Assistant:
  the handlers of \<open>controller/em_api.py\<close> around an \<open>AlarmSession\<close> (\<open>_post_timer_event\<close>, \<open>fire_alarm\<close>,
  \<open>_deliver_finished\<close>, \<open>dismiss_timer_alarm\<close>, \<open>notify_device_disconnected\<close>) and the task of
  \<open>TimerAlarmRunner\<close> in \<open>em_timer_alarm.py\<close>, for one Echo; and at the other end \<open>AlarmPresence\<close> of
  \<open>hacs/custom_components/echo_voice_satellite/timer_card.py\<close>, which shows what the last
  \<open>timer.alarm\<close> event said.

  A push of an event is one step here; \<open>EventStream\<close> has its inside.
\<close>

section \<open>What is published\<close>

definition as_dict :: "timer_record \<Rightarrow> json" where
  "as_dict t = JObj [(''timer_id'', JStr (timer_id t)), (''name'', timer_name t),
     (''total_seconds'', JInt (total_seconds t)), (''seconds_left'', JInt (seconds_left t)),
     (''is_active'', JBool (timer_active t)), (''ha_device_id'', ha_device_id t)]"

definition session_snapshot :: "alarm_session \<Rightarrow> json_object" where
  "session_snapshot s = [(''state'', JStr (session_state s)),
     (''current'', case ringing s of Some t \<Rightarrow> as_dict t | None \<Rightarrow> JNull),
     (''queue'', JArr (map as_dict (waiting s)))]"

definition alarm_event :: "device_id \<Rightarrow> alarm_session \<Rightarrow> json_object" where
  "alarm_event d s = (''type'', JStr ''timer.alarm'') # (''device_id'', JStr d) # session_snapshot s"

definition timer_alarm_snapshot :: "(device_id \<times> alarm_session) list \<Rightarrow> json" where
  "timer_alarm_snapshot ss =
     JArr (map (\<lambda>(d, s). JObj [(''device_id'', JStr d),
         (''current'', get_default (session_snapshot s) ''current'' JNull),
         (''queue'', get_default (session_snapshot s) ''queue'' JNull)])
       (filter (\<lambda>(d, s). ringing s \<noteq> None \<or> waiting s \<noteq> []) ss))"

section \<open>One Echo\<close>

text \<open>
  A runner task is the await it is suspended at: not begun, decoding the sound, announcing itself,
  arming the stop word for the timer it noticed, in a burst, in the gap after it, or in its
  \<open>finally\<close>. \<open>_tasks\<close> holds at most one task per Echo: \<open>er_tracked\<close>. The Boolean says that the task
  was cancelled. A handler that stops the runner waits for the task to end: a dismissal (\<open>True\<close>) or
  the end of the control link (\<open>False\<close>).
\<close>

datatype ring_phase =
    Created | LoadingSound | Announcing
  | Noticing string
  | Bursting string seconds
  | Gap string seconds
  | Closing

record echo_ring =
  er_session :: alarm_session
  er_online :: bool
  er_muted :: bool
  er_runners :: "(nat \<times> ring_phase \<times> bool) list"
  er_tracked :: "nat option"
  er_next :: nat
  er_waiters :: "(nat \<times> bool) list"

datatype ring_out =
    AlarmPushed json_object
  | TimerPushed json_object
  | StateOn | StateOff
  | CurrentNoticed string
  | BurstPlayed string
  | SpeakerFlush
  | AnswerDismissed bool

definition ring_init :: echo_ring where
  "ring_init = \<lparr>er_session = session_init, er_online = True, er_muted = False, er_runners = [],
     er_tracked = None, er_next = 0, er_waiters = []\<rparr>"

definition push_alarm :: "device_id \<Rightarrow> echo_ring \<Rightarrow> ring_out" where
  "push_alarm d s = AlarmPushed (alarm_event d (er_session s))"

text \<open>\<open>is_running\<close> and \<open>start\<close>.\<close>

definition runner_alive :: "echo_ring \<Rightarrow> bool" where
  "runner_alive s \<longleftrightarrow> (case er_tracked s of Some k \<Rightarrow> map_of (er_runners s) k \<noteq> None | None \<Rightarrow> False)"

definition start_runner :: "echo_ring \<Rightarrow> echo_ring" where
  "start_runner s =
     (if runner_alive s then s
      else s\<lparr>er_runners := put (er_next s) (Created, False) (er_runners s), er_tracked := Some (er_next s),
             er_next := er_next s + 1\<rparr>)"

definition start_if_ringing :: "echo_ring \<Rightarrow> echo_ring" where
  "start_if_ringing s = (if ringing (er_session s) \<noteq> None then start_runner s else s)"

definition deliver_finished :: "device_id \<Rightarrow> transition \<Rightarrow> echo_ring \<Rightarrow> echo_ring \<times> ring_out list" where
  "deliver_finished d tr s =
     (if \<not> er_online s \<or> er_muted s then
        (let s1 = s\<lparr>er_session := fst (dismiss_all (er_session s))\<rparr> in (s1, [push_alarm d s1]))
      else if tr_alarm_changed tr then (start_if_ringing s, [push_alarm d s])
      else (s, []))"

text \<open>
  \<open>_post_timer_event\<close>. The body is checked, then applied as it is; one whose numbers do not convert is
  refused too. The refusals change nothing.
\<close>

definition timer_body_ok :: "json_object \<Rightarrow> bool" where
  "timer_body_ok ev \<longleftrightarrow>
     (case json_str (get_default ev ''event'' JNull) of Some nm \<Rightarrow> nm \<in> set LIFECYCLE_EVENTS | None \<Rightarrow> False)
   \<and> (case json_str (get_default ev ''timer_id'' JNull) of Some tid \<Rightarrow> py_strip tid \<noteq> [] | None \<Rightarrow> False)
   \<and> (get_default ev ''ha_device_id'' JNull = JNull \<or> json_str (get_default ev ''ha_device_id'' JNull) \<noteq> None)"

definition post_timer_event ::
  "(json_object \<Rightarrow> string) \<Rightarrow> device_id \<Rightarrow> json_object \<Rightarrow> seconds \<Rightarrow> echo_ring \<Rightarrow> echo_ring \<times> ring_out list" where
  "post_timer_event dumps d ev now s =
     (if \<not> timer_body_ok ev then (s, []) else
      case apply_event dumps ev (Some now) (er_session s) of
        None \<Rightarrow> (s, [])
      | Some (ses, tr) \<Rightarrow>
          let s1 = s\<lparr>er_session := ses\<rparr>; fwd = TimerPushed ((''type'', JStr ''timer.event'') # (''device_id'', JStr d) # ev) in
          if \<not> tr_accepted tr \<or> tr_duplicate tr then (s1, [])
          else if get_default ev ''event'' JNull = JStr ''finished'' then
            (let (s2, out) = deliver_finished d tr s1 in (s2, fwd # out))
          else (s1, fwd # (if tr_alarm_changed tr then [push_alarm d s1] else [])))"

definition alarm_payload :: "string \<Rightarrow> string option \<Rightarrow> json_object" where
  "alarm_payload tid label =
     [(''event'', JStr ''finished''), (''timer_id'', JStr tid),
      (''name'', JStr (case label of Some l \<Rightarrow> if l = [] then ''Alarm'' else l | None \<Rightarrow> ''Alarm'')),
      (''total_seconds'', JInt 0), (''seconds_left'', JInt 0), (''is_active'', JBool False)]"

definition fire_alarm ::
  "(json_object \<Rightarrow> string) \<Rightarrow> device_id \<Rightarrow> string \<Rightarrow> string option \<Rightarrow> seconds \<Rightarrow> echo_ring \<Rightarrow> echo_ring \<times> ring_out list" where
  "fire_alarm dumps d tid label now s =
     (case apply_event dumps (alarm_payload tid label) (Some now) (er_session s) of
        None \<Rightarrow> (s, [])
      | Some (ses, tr) \<Rightarrow>
          if \<not> tr_accepted tr \<or> tr_duplicate tr then (s\<lparr>er_session := ses\<rparr>, [])
          else deliver_finished d tr (s\<lparr>er_session := ses\<rparr>))"

section \<open>Stopping the runner\<close>

text \<open>What a handler does after \<open>stop\<close> has returned.\<close>

definition after_stop :: "device_id \<Rightarrow> bool \<Rightarrow> echo_ring \<Rightarrow> echo_ring \<times> ring_out list" where
  "after_stop d dismissal s =
     (if dismissal then (start_if_ringing s, [push_alarm d s, AnswerDismissed True])
      else let (ses, gone) = dismiss_all (er_session s); s1 = s\<lparr>er_session := ses\<rparr> in
        (s1, if gone = [] then [] else [push_alarm d s1]))"

definition stop_runner :: "device_id \<Rightarrow> bool \<Rightarrow> echo_ring \<Rightarrow> echo_ring \<times> ring_out list" where
  "stop_runner d dismissal s =
     (case er_tracked s of
        Some k \<Rightarrow>
          (case map_of (er_runners s) k of
             Some (ph, c) \<Rightarrow>
               (s\<lparr>er_runners := put k (ph, True) (er_runners s), er_waiters := er_waiters s @ [(k, dismissal)]\<rparr>,
                if er_online s then [SpeakerFlush] else [])
           | None \<Rightarrow> after_stop d dismissal s)
      | None \<Rightarrow> after_stop d dismissal s)"

definition dismiss_timer_alarm :: "device_id \<Rightarrow> echo_ring \<Rightarrow> echo_ring \<times> ring_out list" where
  "dismiss_timer_alarm d s =
     (if ringing (er_session s) = None then (s, [AnswerDismissed False])
      else stop_runner d True (s\<lparr>er_session := fst (dismiss_current (er_session s))\<rparr>))"

text \<open>The waiting handler resumes once its task has ended; \<open>stop\<close> then forgets the tracked task.\<close>

definition stop_returns :: "device_id \<Rightarrow> nat \<Rightarrow> echo_ring \<Rightarrow> echo_ring \<times> ring_out list" where
  "stop_returns d n s =
     (if n < length (er_waiters s) \<and> map_of (er_runners s) (fst (er_waiters s ! n)) = None
      then after_stop d (snd (er_waiters s ! n))
        (s\<lparr>er_tracked := None, er_waiters := take n (er_waiters s) @ drop (Suc n) (er_waiters s)\<rparr>)
      else (s, []))"
section \<open>The runner\<close>

datatype runner_reply = RunnerOk seconds | RunnerFails

text \<open>The task ends; its done-callback empties the slot of the Echo, whichever task it names.\<close>

definition end_runner :: "nat \<Rightarrow> echo_ring \<Rightarrow> echo_ring" where
  "end_runner k s = s\<lparr>er_runners := pop k (er_runners s), er_tracked := None\<rparr>"

definition runner_at :: "nat \<Rightarrow> ring_phase \<Rightarrow> echo_ring \<Rightarrow> echo_ring" where
  "runner_at k ph s = s\<lparr>er_runners := put k (ph, False) (er_runners s)\<rparr>"

definition give_up :: "device_id \<Rightarrow> nat \<Rightarrow> echo_ring \<Rightarrow> echo_ring \<times> ring_out list" where
  "give_up d k s =
     (let s1 = s\<lparr>er_session := fst (dismiss_all (er_session s))\<rparr> in (end_runner k s1, [push_alarm d s1]))"

definition ring_head :: "nat \<Rightarrow> string option \<Rightarrow> seconds \<Rightarrow> echo_ring \<Rightarrow> echo_ring \<times> ring_out list" where
  "ring_head k cur deadline s =
     (case ringing (er_session s) of
        None \<Rightarrow> (runner_at k Closing s, [])
      | Some t \<Rightarrow>
          if cur \<noteq> Some (timer_id t) then (runner_at k (Noticing (timer_id t)) s, [CurrentNoticed (timer_id t)])
          else (runner_at k (Bursting (timer_id t) deadline) s, [BurstPlayed (timer_id t)]))"

definition runner_cancelled :: "nat \<Rightarrow> ring_phase \<Rightarrow> echo_ring \<Rightarrow> echo_ring \<times> ring_out list" where
  "runner_cancelled k ph s =
     (case ph of
        Created \<Rightarrow> (end_runner k s, [])
      | LoadingSound \<Rightarrow> (end_runner k s, [])
      | Closing \<Rightarrow> (end_runner k s, [StateOff])
      | _ \<Rightarrow> (runner_at k Closing s, []))"

fun runner_resumes ::
  "device_id \<Rightarrow> nat \<Rightarrow> ring_phase \<Rightarrow> runner_reply \<Rightarrow> echo_ring \<Rightarrow> echo_ring \<times> ring_out list" where
  "runner_resumes d k Created r s =
     (if er_online s then (runner_at k LoadingSound s, []) else give_up d k s)"
| "runner_resumes d k LoadingSound r s =
     (if r = RunnerFails then give_up d k s else (runner_at k Announcing s, [StateOn]))"
| "runner_resumes d k Announcing r s =
     (case r of RunnerOk now \<Rightarrow> ring_head k None 0 s | RunnerFails \<Rightarrow> (runner_at k Closing s, []))"
| "runner_resumes d k (Noticing tid) r s =
     (case r of
        RunnerOk now \<Rightarrow> (runner_at k (Bursting tid (now + MAX_RING_S)) s, [BurstPlayed tid])
      | RunnerFails \<Rightarrow> (runner_at k Closing s, []))"
| "runner_resumes d k (Bursting tid deadline) r s =
     (case r of
        RunnerOk now \<Rightarrow>
          if deadline \<le> now then
            (let s1 = s\<lparr>er_session := fst (dismiss_current (er_session s))\<rparr>;
                 (s2, out) = ring_head k (Some tid) deadline s1 in
             (s2, push_alarm d s1 # out))
          else (runner_at k (Gap tid deadline) s, [])
      | RunnerFails \<Rightarrow> (runner_at k Closing s, []))"
| "runner_resumes d k (Gap tid deadline) r s = ring_head k (Some tid) deadline s"
| "runner_resumes d k Closing r s = (end_runner k s, [StateOff])"

datatype ring_event =
    HaTimer json_object seconds
  | AlarmFires string "string option" seconds
  | DismissPressed
  | StopReturns nat
  | LinkLost
  | LinkBack
  | MuteIs bool
  | RunnerResumes nat runner_reply

fun echo_step ::
  "(json_object \<Rightarrow> string) \<Rightarrow> device_id \<Rightarrow> echo_ring \<Rightarrow> ring_event \<Rightarrow> echo_ring \<times> ring_out list" where
  "echo_step dumps d s (HaTimer ev now) = post_timer_event dumps d ev now s"
| "echo_step dumps d s (AlarmFires tid label now) = fire_alarm dumps d tid label now s"
| "echo_step dumps d s DismissPressed = dismiss_timer_alarm d s"
| "echo_step dumps d s (StopReturns n) = stop_returns d n s"
| "echo_step dumps d s LinkLost = stop_runner d False (s\<lparr>er_online := False\<rparr>)"
| "echo_step dumps d s LinkBack = (s\<lparr>er_online := True\<rparr>, [])"
| "echo_step dumps d s (MuteIs m) = (s\<lparr>er_muted := m\<rparr>, [])"
| "echo_step dumps d s (RunnerResumes k r) =
     (case map_of (er_runners s) k of
        None \<Rightarrow> (s, [])
      | Some (ph, c) \<Rightarrow> if c then runner_cancelled k ph s else runner_resumes d k ph r s)"

section \<open>Home Assistant's end\<close>

text \<open>\<open>AlarmPresence\<close>: per Echo, the current and the queued records of its last event.\<close>

type_synonym presence = "(device_id \<times> json \<times> json list) list"

definition json_list :: "json \<Rightarrow> json list" where
  "json_list j = (case j of JArr xs \<Rightarrow> xs | _ \<Rightarrow> [])"

definition presence_update :: "json_object \<Rightarrow> presence \<Rightarrow> presence" where
  "presence_update ev p =
     (case json_str (get_default ev ''device_id'' JNull) of
        Some d \<Rightarrow>
          if d = [] then p
          else put d (get_default ev ''current'' JNull, json_list (get_default ev ''queue'' JNull)) p
      | None \<Rightarrow> p)"

definition presence_hydrate :: "json \<Rightarrow> presence" where
  "presence_hydrate snaps = fold (\<lambda>j p. case j of JObj ev \<Rightarrow> presence_update ev p | _ \<Rightarrow> p) (json_list snaps) []"

definition timer_id_of :: "json \<Rightarrow> json" where
  "timer_id_of j = (case j of JObj r \<Rightarrow> get_default r ''timer_id'' JNull | _ \<Rightarrow> JNull)"

record card_row =
  row_id :: json
  row_device :: json
  row_name :: json
  row_state :: string
  row_duration :: json
  row_remaining :: int
  row_finishes :: "seconds option"
  row_device_name :: "string option"
  row_area :: "json option"

definition alarm_row :: "json \<Rightarrow> string \<Rightarrow> card_row" where
  "alarm_row j st =
     (let r = (case j of JObj kvs \<Rightarrow> kvs | _ \<Rightarrow> []) in
      \<lparr>row_id = get_default r ''timer_id'' JNull, row_device = get_default r ''ha_device_id'' JNull,
       row_name = get_default r ''name'' JNull, row_state = st,
       row_duration = get_default r ''total_seconds'' (JInt 0), row_remaining = 0,
       row_finishes = None, row_device_name = None, row_area = None\<rparr>)"

definition presence_rows :: "json list \<Rightarrow> presence \<Rightarrow> card_row list" where
  "presence_rows known p =
     concat (map (\<lambda>(d, cur, q).
       (if truthy cur \<and> timer_id_of cur \<notin> set known then [alarm_row cur ''ringing''] else [])
       @ map (\<lambda>j. alarm_row j ''queued'') (filter (\<lambda>j. timer_id_of j \<notin> set known) q)) p)"

definition echomuse_device_for_timer :: "string \<Rightarrow> presence \<Rightarrow> device_id option" where
  "echomuse_device_for_timer tid p =
     map_option fst (List.find (\<lambda>(d, cur, q).
       truthy cur \<and> timer_id_of cur = JStr tid \<or> (\<exists>j \<in> set q. timer_id_of j = JStr tid)) p)"

text \<open>
  Home Assistant's \<open>TimerManager\<close> is a list of its timers; \<open>ti_command\<close> marks a delayed command.
  The names of devices come from its registry, \<open>names\<close>.
\<close>

record timer_info =
  ti_id :: string
  ti_device :: json
  ti_name :: json
  ti_active :: bool
  ti_left :: int
  ti_created :: int
  ti_command :: bool
  ti_area :: json

definition manager_row :: "(json \<Rightarrow> string option) \<Rightarrow> seconds \<Rightarrow> timer_info \<Rightarrow> card_row" where
  "manager_row names now t =
     \<lparr>row_id = JStr (ti_id t), row_device = ti_device t, row_name = ti_name t,
      row_state = (if ti_active t then ''active'' else ''paused''), row_duration = JInt (ti_created t),
      row_remaining = ti_left t, row_finishes = (if ti_active t then Some (now + of_int (ti_left t)) else None),
      row_device_name = names (ti_device t), row_area = Some (ti_area t)\<rparr>"

definition manager_rows :: "(json \<Rightarrow> string option) \<Rightarrow> seconds \<Rightarrow> timer_info list \<Rightarrow> card_row list" where
  "manager_rows names now ts = map (manager_row names now) (filter (\<lambda>t. \<not> ti_command t) ts)"

definition build_snapshot ::
  "(json \<Rightarrow> string option) \<Rightarrow> seconds \<Rightarrow> timer_info list option \<Rightarrow> presence \<Rightarrow> card_row list" where
  "build_snapshot names now mgr p =
     (let known = (case mgr of Some ts \<Rightarrow> map (JStr \<circ> ti_id) ts | None \<Rightarrow> []) in
      (case mgr of Some ts \<Rightarrow> manager_rows names now ts | None \<Rightarrow> [])
      @ map (\<lambda>r. r\<lparr>row_device_name := names (row_device r)\<rparr>) (presence_rows known p))"

text \<open>The coordinator's listener hands every \<open>timer.alarm\<close> event to the presence.\<close>

definition presence_hears :: "ring_out \<Rightarrow> presence \<Rightarrow> presence" where
  "presence_hears fx p = (case fx of AlarmPushed ev \<Rightarrow> presence_update ev p | _ \<Rightarrow> p)"

definition presence_after :: "ring_out list list \<Rightarrow> presence \<Rightarrow> presence" where
  "presence_after outs p = fold presence_hears (concat outs) p"

section \<open>The card agrees with the session\<close>

definition presented :: "alarm_session \<Rightarrow> json \<times> json list" where
  "presented s = (case ringing s of Some t \<Rightarrow> as_dict t | None \<Rightarrow> JNull, map as_dict (waiting s))"

definition shown_for :: "device_id \<Rightarrow> presence \<Rightarrow> json \<times> json list" where
  "shown_for d p = (case map_of p d of Some x \<Rightarrow> x | None \<Rightarrow> (JNull, []))"

lemma alarm_event_fields [simp]:
  "json_str (get_default (alarm_event d s) ''device_id'' JNull) = Some d"
  "get_default (alarm_event d s) ''current'' JNull = fst (presented s)"
  "json_list (get_default (alarm_event d s) ''queue'' JNull) = snd (presented s)"
  by (simp_all add: alarm_event_def session_snapshot_def get_default_def presented_def json_list_def)

lemma pushed_is_shown [simp]:
  "d \<noteq> [] \<Longrightarrow> shown_for d (presence_hears (push_alarm d s) p) = presented (er_session s)"
  by (simp add: presence_hears_def push_alarm_def presence_update_def shown_for_def)

lemma quiet_outputs [simp]:
  "presence_hears (TimerPushed ev) p = p" "presence_hears StateOn p = p" "presence_hears StateOff p = p"
  "presence_hears (CurrentNoticed t) p = p" "presence_hears (BurstPlayed t) p = p"
  "presence_hears SpeakerFlush p = p" "presence_hears (AnswerDismissed b) p = p"
  by (simp_all add: presence_hears_def)

text \<open>What is pending determines what is presented, and an event that did not change it left it alone.\<close>

lemma presented_pending:
  assumes "session_ok s" "session_ok u" "pending u = pending s"
  shows "presented u = presented s"
proof -
  have "ringing w = (case pending w of [] \<Rightarrow> None | t # _ \<Rightarrow> Some t) \<and> waiting w = tl (pending w)"
    if "session_ok w" for w
    using that by (auto simp: pending_def session_ok_def split: option.split)
  then show ?thesis using assms unfolding presented_def by metis
qed

lemma unchanged_pending:
  assumes "session_ok s" "apply_event dumps ev w s = Some (u, tr)" "\<not> tr_alarm_changed tr"
  shows "pending u = pending s"
proof -
  consider "u = s" | timer where "refines_fifo timer s (u, tr)"
    using apply_event_refines [OF assms(1,2)] by blast
  then show ?thesis
  proof cases
    case 2
    then have "pending_ids u = pending_ids s"
      "pending u = pending s \<or> pending u = pending s @ [timer]
       \<or> pending u = filter (\<lambda>t. timer_id t \<noteq> timer_id timer) (pending s)"
      using assms(3) by (auto simp: refines_fifo_def)
    then show ?thesis
    proof (elim disjE)
      assume "pending_ids u = pending_ids s" "pending u = filter (\<lambda>t. timer_id t \<noteq> timer_id timer) (pending s)"
      then show ?thesis
        unfolding pending_ids_def by (metis length_filter_less length_map nat_neq_iff filter_True)
    qed (auto simp: pending_ids_def)
  qed simp
qed

lemma apply_event_presented:
  assumes "session_ok s" "apply_event dumps ev w s = Some (u, tr)" "\<not> tr_alarm_changed tr"
  shows "presented u = presented s"
  using presented_pending [OF assms(1) apply_event_ok [OF assms(1,2)] unchanged_pending [OF assms]] .

lemma refused_unchanged:
  assumes "session_ok s" "apply_event dumps ev w s = Some (u, tr)" "\<not> tr_accepted tr \<or> tr_duplicate tr"
  shows "\<not> tr_alarm_changed tr"
  using assms(2,3)
  by (auto simp: apply_event_def apply_timer_def start_timer_def cancel_timer_def finish_timer_def
      accepted_tr_def ignored_tr_def Let_def case_prod_beta split: option.splits if_splits)

definition agrees :: "device_id \<Rightarrow> echo_ring \<Rightarrow> presence \<Rightarrow> bool" where
  "agrees d s p \<longleftrightarrow> session_ok (er_session s)
     \<and> (shown_for d p = presented (er_session s) \<or> (\<exists>w \<in> set (er_waiters s). snd w))"

lemma ring_frame [simp]:
  "er_session (start_if_ringing s) = er_session s" "er_waiters (start_if_ringing s) = er_waiters s"
  "er_session (runner_at k ph s) = er_session s" "er_waiters (runner_at k ph s) = er_waiters s"
  "er_session (end_runner k s) = er_session s" "er_waiters (end_runner k s) = er_waiters s"
  "er_session (fst (ring_head k cur dl s)) = er_session s" "er_waiters (fst (ring_head k cur dl s)) = er_waiters s"
  by (simp_all add: start_if_ringing_def start_runner_def runner_at_def end_runner_def ring_head_def split: option.split)

lemma ring_head_quiet [simp]: "fold presence_hears (snd (ring_head k cur dl s)) p = p"
  by (simp add: ring_head_def split: option.split)

lemma push_agrees:
  "d \<noteq> [] \<Longrightarrow> session_ok (er_session s) \<Longrightarrow> er_session u = er_session s \<Longrightarrow> agrees d u (presence_hears (push_alarm d s) p)"
  by (simp add: agrees_def)

lemma agrees_deliver:
  assumes "d \<noteq> []" "agrees d s p" "session_ok ses" "\<not> tr_alarm_changed tr \<longrightarrow> presented ses = presented (er_session s)"
  shows "agrees d (fst (deliver_finished d tr (s\<lparr>er_session := ses\<rparr>)))
           (fold presence_hears (snd (deliver_finished d tr (s\<lparr>er_session := ses\<rparr>))) p)"
  using assms dismiss_ok(2) [OF assms(3)] by (auto simp: deliver_finished_def agrees_def Let_def)

lemma agrees_event:
  assumes "d \<noteq> []" "agrees d s p" "apply_event dumps ev w (er_session s) = Some (ses, tr)"
  shows "session_ok ses" "\<not> tr_alarm_changed tr \<longrightarrow> presented ses = presented (er_session s)"
    "\<not> tr_accepted tr \<or> tr_duplicate tr \<longrightarrow> presented ses = presented (er_session s)"
  using assms(2) apply_event_ok [OF _ assms(3)] apply_event_presented [OF _ assms(3)] refused_unchanged [OF _ assms(3)]
  by (auto simp: agrees_def)

lemma agrees_post:
  assumes "d \<noteq> []" "agrees d s p"
  shows "agrees d (fst (post_timer_event dumps d ev now s)) (fold presence_hears (snd (post_timer_event dumps d ev now s)) p)"
proof (cases "apply_event dumps ev (Some now) (er_session s)")
  case (Some r)
  then obtain ses tr where ev: "apply_event dumps ev (Some now) (er_session s) = Some (ses, tr)" by (cases r) auto
  note facts = agrees_event [OF assms ev]
  show ?thesis
    using agrees_deliver [OF assms facts(1,2)] facts assms
    by (auto simp: post_timer_event_def ev agrees_def case_prod_beta Let_def)
qed (use assms in \<open>auto simp: post_timer_event_def\<close>)

lemma agrees_fire:
  assumes "d \<noteq> []" "agrees d s p"
  shows "agrees d (fst (fire_alarm dumps d tid label now s)) (fold presence_hears (snd (fire_alarm dumps d tid label now s)) p)"
proof (cases "apply_event dumps (alarm_payload tid label) (Some now) (er_session s)")
  case (Some r)
  then obtain ses tr where ev: "apply_event dumps (alarm_payload tid label) (Some now) (er_session s) = Some (ses, tr)"
    by (cases r) auto
  note facts = agrees_event [OF assms ev]
  show ?thesis
    using agrees_deliver [OF assms facts(1,2)] facts assms
    by (auto simp: fire_alarm_def ev agrees_def)
qed (use assms in \<open>simp add: fire_alarm_def\<close>)

lemma dismiss_all_nothing: "session_ok s \<Longrightarrow> snd (dismiss_all s) = [] \<Longrightarrow> fst (dismiss_all s) = s"
  by (cases s) (auto simp: dismiss_all_def split: option.splits)

text \<open>After \<open>stop\<close>: a dismissal publishes in any case, a lost link when something was dropped.\<close>

lemma agrees_after_stop:
  assumes "d \<noteq> []" "session_ok (er_session s)" "dm \<or> agrees d s p"
  shows "agrees d (fst (after_stop d dm s)) (fold presence_hears (snd (after_stop d dm s)) p)"
proof (cases dm)
  case True
  then show ?thesis using push_agrees [OF assms(1,2), of "start_if_ringing s" p] by (simp add: after_stop_def)
next
  case False
  then show ?thesis
    using assms dismiss_ok(2) [OF assms(2)] dismiss_all_nothing [OF assms(2)]
    by (auto simp: after_stop_def agrees_def case_prod_beta Let_def)
qed

lemma agrees_stop:
  assumes "d \<noteq> []" "session_ok (er_session s)" "dm \<or> agrees d s p"
  shows "agrees d (fst (stop_runner d dm s)) (fold presence_hears (snd (stop_runner d dm s)) p)"
proof -
  show ?thesis
  proof (cases "runner_alive s")
    case True
    then obtain k ph c where "er_tracked s = Some k" "map_of (er_runners s) k = Some (ph, c)"
      by (auto simp: runner_alive_def split: option.splits)
    then show ?thesis using assms(2,3) by (auto simp: stop_runner_def agrees_def)
  next
    case False
    then have "stop_runner d dm s = after_stop d dm s"
      by (auto simp: stop_runner_def runner_alive_def split: option.split)
    then show ?thesis using agrees_after_stop [OF assms] by simp
  qed
qed

lemma agrees_dismiss:
  assumes "d \<noteq> []" "agrees d s p"
  shows "agrees d (fst (dismiss_timer_alarm d s)) (fold presence_hears (snd (dismiss_timer_alarm d s)) p)"
proof (cases "ringing (er_session s) = None")
  case False
  have "session_ok (fst (dismiss_current (er_session s)))" using assms(2) dismiss_ok(1) by (simp add: agrees_def)
  then show ?thesis
    using False agrees_stop [OF assms(1), of "s\<lparr>er_session := fst (dismiss_current (er_session s))\<rparr>" True p]
    by (auto simp: dismiss_timer_alarm_def)
qed (use assms(2) in \<open>simp add: dismiss_timer_alarm_def\<close>)

lemma agrees_runner:
  assumes "d \<noteq> []" "agrees d s p"
  shows "agrees d (fst (runner_resumes d k ph r s)) (fold presence_hears (snd (runner_resumes d k ph r s)) p)"
proof -
  have ok: "session_ok (fst (dismiss_current (er_session s)))" "session_ok (fst (dismiss_all (er_session s)))"
    using assms(2) dismiss_ok by (auto simp: agrees_def)
  have gu: "agrees d (fst (give_up d k s)) (fold presence_hears (snd (give_up d k s)) p)"
    using ok(2) assms(1) by (simp add: give_up_def agrees_def Let_def)
  show ?thesis
    using assms ok(1) gu
    by (cases ph; cases r) (auto simp: agrees_def case_prod_beta Let_def)
qed

lemma agrees_frame [simp]:
  "agrees d (s\<lparr>er_online := b\<rparr>) p = agrees d s p" "agrees d (s\<lparr>er_muted := b\<rparr>) p = agrees d s p"
  by (simp_all add: agrees_def)

lemma agrees_step:
  assumes "d \<noteq> []" "agrees d s p"
  shows "agrees d (fst (echo_step dumps d s e)) (fold presence_hears (snd (echo_step dumps d s e)) p)"
proof (cases e)
  case (StopReturns n)
  show ?thesis
  proof (cases "n < length (er_waiters s) \<and> map_of (er_runners s) (fst (er_waiters s ! n)) = None")
    case True
    let ?u = "s\<lparr>er_tracked := None, er_waiters := take n (er_waiters s) @ drop (Suc n) (er_waiters s)\<rparr>"
    have "set (er_waiters s) = insert (er_waiters s ! n) (set (er_waiters ?u))"
      using True arg_cong [OF id_take_nth_drop [of n "er_waiters s"], of set] by simp
    then have "snd (er_waiters s ! n) \<or> agrees d ?u p" using assms(2) by (auto simp: agrees_def)
    then show ?thesis
      using agrees_after_stop [OF assms(1), of ?u "snd (er_waiters s ! n)" p] assms(2) True StopReturns
      by (simp add: stop_returns_def agrees_def)
  qed (use assms(2) StopReturns in \<open>auto simp: stop_returns_def\<close>)
next
  case LinkLost
  then show ?thesis
    using agrees_stop [OF assms(1), of "s\<lparr>er_online := False\<rparr>" False p] assms(2) by (simp add: agrees_def)
next
  case (RunnerResumes k r)
  then show ?thesis
    using agrees_runner [OF assms] assms(2)
    by (auto simp: runner_cancelled_def agrees_def split: option.split ring_phase.split)
qed (use agrees_post [OF assms] agrees_fire [OF assms] agrees_dismiss [OF assms] assms(2) in \<open>simp_all\<close>)

lemma agrees_run:
  "d \<noteq> [] \<Longrightarrow> agrees d s p \<Longrightarrow>
     agrees d (fst (run (echo_step dumps d) s es)) (presence_after (snd (run (echo_step dumps d) s es)) p)"
proof (induction es arbitrary: s p)
  case (Cons e es)
  from Cons.IH [OF Cons.prems(1) agrees_step [OF Cons.prems]] show ?case by (simp add: presence_after_def)
qed (simp add: presence_after_def)

lemma agrees_init: "agrees d ring_init []"
  by (simp add: agrees_def ring_init_def session_init_def session_ok_def pending_ids_def pending_def shown_for_def presented_def)

section \<open>Claims on ringing\<close>

text \<open>Events, and a runner that has been dismissed and closes, for the witnesses.\<close>

definition finish_of :: "string \<Rightarrow> json_object" where
  "finish_of tid = [(''event'', JStr ''finished''), (''timer_id'', JStr tid)]"

definition closing_ring :: echo_ring where
  "closing_ring = \<lparr>er_session = session_init, er_online = True, er_muted = False,
     er_runners = [(0, Closing, False)], er_tracked = Some 0, er_next = 1, er_waiters = []\<rparr>"



text \<open>a timer that finishes while the runner of the last
  alarm is in its \<open>finally\<close> is published as ringing but never rings: no new runner is started, and when
  the old one has ended none is left.\<close>

theorem alarm_lost_while_runner_winds_down:
  assumes "er_runners s = [(k, Closing, False)]" "er_tracked s = Some k" "er_online s" "\<not> er_muted s"
    "session_ok (er_session s)" "ringing (er_session s) = None"
    "get_default ev ''event'' JNull = JStr ''finished''" "timer_body_ok ev"
    "apply_event dumps ev (Some now) (er_session s) = Some (ses, tr)" "tr_accepted tr" "\<not> tr_duplicate tr"
    "tr_alarm_changed tr"
  shows "let (u, out) = run (echo_step dumps d) s [HaTimer ev now, RunnerResumes k r] in
         ringing (er_session u) \<noteq> None \<and> er_runners u = [] \<and> er_tracked u = None
         \<and> AlarmPushed (alarm_event d ses) \<in> set (concat out)
         \<and> (\<forall>t. BurstPlayed t \<notin> set (concat out))"
proof -
  have "pending ses \<noteq> []"
    using refused_unchanged [OF assms(5,9)] apply_event_refines [OF assms(5,9)] assms(6,12)
    by (auto simp: refines_fifo_def ignored_tr_def pending_ids_def pending_def session_ok_def assms(5) [unfolded session_ok_def]
        split: option.splits)
  then have "ringing ses \<noteq> None"
    using apply_event_ok [OF assms(5,9)] by (auto simp: session_ok_def pending_def)
  then show ?thesis
    using assms
    by (auto simp: post_timer_event_def deliver_finished_def start_if_ringing_def start_runner_def runner_alive_def
        push_alarm_def end_runner_def pop_def case_prod_beta Let_def)
qed

theorem alarm_lost_while_runner_winds_down_witness:
  "\<exists>ses. let (u, out) = run (echo_step (\<lambda>_. []) ''kitchen'') closing_ring
       [HaTimer (finish_of ''t'') 5, RunnerResumes 0 (RunnerOk 6)] in
     ringing (er_session u) \<noteq> None \<and> er_runners u = [] \<and> AlarmPushed (alarm_event ''kitchen'' ses) \<in> set (concat out)"
proof -
  let ?r = "apply_event (\<lambda>_. []) (finish_of ''t'') (Some 5) (er_session closing_ring)"
  have r: "case ?r of Some (ses, tr) \<Rightarrow> tr_accepted tr \<and> \<not> tr_duplicate tr \<and> tr_alarm_changed tr | None \<Rightarrow> False"
    by code_simp
  then obtain ses tr where "?r = Some (ses, tr)" "tr_accepted tr" "\<not> tr_duplicate tr" "tr_alarm_changed tr"
    by (auto split: option.splits)
  moreover have "session_ok (er_session closing_ring) \<and> timer_body_ok (finish_of ''t'')" by code_simp
  ultimately show ?thesis
    using alarm_lost_while_runner_winds_down [of closing_ring 0 "finish_of ''t''" "\<lambda>_. []" 5 ses tr "''kitchen''" "RunnerOk 6"]
    by (auto simp: closing_ring_def session_init_def finish_of_def get_default_def case_prod_beta intro!: exI [of _ ses])
qed

section \<open>The card\<close>

lemma as_dict_reads [simp]: "truthy (as_dict t)" "timer_id_of (as_dict t) = JStr (timer_id t)"
  by (simp_all add: as_dict_def timer_id_of_def get_default_def)

definition hydrated :: "(device_id \<times> alarm_session) list \<Rightarrow> presence" where
  "hydrated ss = map (\<lambda>(d, s). (d, presented s)) (filter (\<lambda>(d, s). ringing s \<noteq> None \<or> waiting s \<noteq> []) ss)"

lemma hydrate_fold:
  "distinct (map fst ss) \<Longrightarrow> [] \<notin> fst ` set ss \<Longrightarrow> fst ` set p \<inter> fst ` set ss = {} \<Longrightarrow>
     fold (\<lambda>j p. case j of JObj ev \<Rightarrow> presence_update ev p | _ \<Rightarrow> p) (json_list (timer_alarm_snapshot ss)) p
     = p @ hydrated ss"
proof (induction ss arbitrary: p)
  case (Cons x ss)
  obtain d s where x: "x = (d, s)" by (cases x)
  have d: "d \<noteq> []" "d \<notin> fst ` set p" using Cons.prems x by auto
  show ?case
  proof (cases "ringing s \<noteq> None \<or> waiting s \<noteq> []")
    case True
    have "presence_update [(''device_id'', JStr d), (''current'', get_default (session_snapshot s) ''current'' JNull),
        (''queue'', get_default (session_snapshot s) ''queue'' JNull)] p = p @ [(d, presented s)]"
      using d by (simp add: presence_update_def put_fresh get_default_def session_snapshot_def json_list_def presented_def)
    then show ?thesis
      using Cons.IH [of "p @ [(d, presented s)]"] Cons.prems True x
      by (auto simp: timer_alarm_snapshot_def hydrated_def json_list_def)
  next
    case False
    then show ?thesis
      using Cons x by (auto simp: timer_alarm_snapshot_def hydrated_def json_list_def)
  qed
qed (simp add: timer_alarm_snapshot_def hydrated_def json_list_def)

text \<open>The rows of one session: its ringing timer, then its queue, without those the manager still has.\<close>

definition session_rows :: "json list \<Rightarrow> alarm_session \<Rightarrow> card_row list" where
  "session_rows known s =
     (case ringing s of Some t \<Rightarrow> if JStr (timer_id t) \<in> set known then [] else [alarm_row (as_dict t) ''ringing'']
      | None \<Rightarrow> [])
     @ map (\<lambda>t. alarm_row (as_dict t) ''queued'') (filter (\<lambda>t. JStr (timer_id t) \<notin> set known) (waiting s))"

lemma presence_rows_hydrated: "presence_rows known (hydrated ss) = concat (map (session_rows known \<circ> snd) ss)"
proof (induction ss)
  case (Cons x ss)
  then show ?case
    by (cases x) (auto simp: hydrated_def presence_rows_def session_rows_def presented_def filter_map comp_def
        split: option.split)
qed (simp add: hydrated_def presence_rows_def)

lemma reconnected:
  assumes "distinct (map fst ss)" "[] \<notin> fst ` set ss"
  shows "presence_hydrate (timer_alarm_snapshot ss) = hydrated ss"
    "presence_rows known (presence_hydrate (timer_alarm_snapshot ss)) = concat (map (session_rows known \<circ> snd) ss)"
  using hydrate_fold [OF assms, of "[]"] by (simp_all add: presence_hydrate_def presence_rows_hydrated)

text \<open>from the snapshot that opens an event stream, the
  card shows for every Echo its ringing timer and its queue in their order, and nothing else, leaving
  out what Home Assistant still counts; and a dismissal of a timer is addressed to the Echo whose
  session has it pending.\<close>

theorem reconnected_card_shows_every_session:
  assumes "distinct (map fst ss)" "[] \<notin> fst ` set ss"
  shows "presence_rows known (presence_hydrate (timer_alarm_snapshot ss)) = concat (map (session_rows known \<circ> snd) ss)
       \<and> echomuse_device_for_timer tid (presence_hydrate (timer_alarm_snapshot ss))
         = map_option fst (List.find (\<lambda>(d, s). tid \<in> set (pending_ids s)) ss)"
proof -
  note p = reconnected(1) [OF assms]
  have "map_option fst (List.find (\<lambda>(d, cur, q). truthy cur \<and> timer_id_of cur = JStr tid \<or> (\<exists>j \<in> set q. timer_id_of j = JStr tid))
      (hydrated ss)) = map_option fst (List.find (\<lambda>(d, s). tid \<in> set (pending_ids s)) ss)"
  proof (induction ss)
    case (Cons x ss)
    then show ?case
      by (cases x) (auto simp: hydrated_def presented_def pending_ids_def pending_def image_iff
          split: option.splits)
  qed (simp add: hydrated_def)
  then show ?thesis unfolding p echomuse_device_for_timer_def by (simp add: presence_rows_hydrated)
qed

definition ringing_session :: alarm_session where
  "ringing_session = fst (session_step (\<lambda>_. []) session_init (TimerEvent (finish_of ''t'') None))"

theorem reconnected_card_shows_every_session_witness:
  "echomuse_device_for_timer ''t'' (presence_hydrate (timer_alarm_snapshot
     [(''hall'', session_init), (''kitchen'', ringing_session)])) = Some ''kitchen''"
proof -
  have "map_option fst (List.find (\<lambda>(d, s). ''t'' \<in> set (pending_ids s))
      [(''hall'', session_init), (''kitchen'', ringing_session)]) = Some ''kitchen''"
    by code_simp
  then show ?thesis
    using reconnected_card_shows_every_session [of "[(''hall'', session_init), (''kitchen'', ringing_session)]" "[]" "''t''"]
    by simp
qed

lemma alarm_row_id [simp]: "row_id (alarm_row (as_dict t) st) = JStr (timer_id t)"
  by (simp add: alarm_row_def as_dict_def get_default_def)

lemma session_row_ids:
  "map row_id (session_rows known s) = filter (\<lambda>j. j \<notin> set known) (map JStr (pending_ids s))"
  by (simp add: session_rows_def pending_ids_def pending_def filter_map comp_def split: option.split)

lemma card_row_ids:
  "map row_id (concat (map (session_rows known \<circ> snd) ss))
   = filter (\<lambda>j. j \<notin> set known) (map JStr (concat (map (pending_ids \<circ> snd) ss)))"
  by (induction ss) (simp_all add: session_row_ids)

text \<open>in the list the card gets, every timer of Home Assistant
  that is no delayed command has one row, every alarm pending on an Echo and unknown to Home Assistant
  has one row, and no timer has two.\<close>

theorem card_shows_no_timer_twice:
  assumes "distinct (map fst ss)" "[] \<notin> fst ` set ss" "distinct (map ti_id ts)"
    "distinct (concat (map (pending_ids \<circ> snd) ss))"
  shows "distinct (map row_id (build_snapshot names now (Some ts) (presence_hydrate (timer_alarm_snapshot ss))))
       \<and> set (map row_id (build_snapshot names now (Some ts) (presence_hydrate (timer_alarm_snapshot ss))))
         = JStr ` (ti_id ` {t \<in> set ts. \<not> ti_command t} \<union>
                   ((\<Union>s \<in> snd ` set ss. set (pending_ids s)) - ti_id ` set ts))"
proof -
  let ?known = "map (JStr \<circ> ti_id) ts"
  have p: "presence_rows ?known (presence_hydrate (timer_alarm_snapshot ss)) = concat (map (session_rows ?known \<circ> snd) ss)"
    by (rule reconnected(2) [OF assms(1,2)])
  have ids: "map row_id (build_snapshot names now (Some ts) (presence_hydrate (timer_alarm_snapshot ss))) =
      map JStr (map ti_id (filter (\<lambda>t. \<not> ti_command t) ts))
      @ filter (\<lambda>j. j \<notin> set ?known) (map JStr (concat (map (pending_ids \<circ> snd) ss)))"
  proof -
    have "map row_id (map (\<lambda>r. r\<lparr>row_device_name := names (row_device r)\<rparr>) rs) = map row_id rs" for rs :: "card_row list"
      by simp
    moreover have "map row_id (manager_rows names now ts) = map JStr (map ti_id (filter (\<lambda>t. \<not> ti_command t) ts))"
      by (simp add: manager_rows_def manager_row_def)
    ultimately show ?thesis
      unfolding build_snapshot_def Let_def option.case p by (simp only: map_append card_row_ids)
  qed
  have "distinct (map JStr (map ti_id (filter (\<lambda>t. \<not> ti_command t) ts)))"
    using assms(3) by (simp add: distinct_map_filter distinct_map inj_on_def)
  moreover have "distinct (map JStr (concat (map (pending_ids \<circ> snd) ss)))"
    using assms(4) by (subst distinct_map) (simp add: inj_on_def)
  ultimately show ?thesis
    unfolding ids by (auto simp: distinct_filter image_iff)
qed

theorem card_shows_no_timer_twice_witness:
  "distinct (map row_id (build_snapshot (\<lambda>_. None) 0 (Some [\<lparr>ti_id = ''u'', ti_device = JNull, ti_name = JNull,
     ti_active = True, ti_left = 4, ti_created = 9, ti_command = False, ti_area = JNull\<rparr>])
     (presence_hydrate (timer_alarm_snapshot [(''kitchen'', ringing_session)]))))"
proof -
  have "distinct (concat (map (pending_ids \<circ> snd) [(''kitchen'', ringing_session)]))" by code_simp
  then show ?thesis
    using card_shows_no_timer_twice [of "[(''kitchen'', ringing_session)]" "[\<lparr>ti_id = ''u'', ti_device = JNull, ti_name = JNull,
     ti_active = True, ti_left = 4, ti_created = 9, ti_command = False, ti_area = JNull\<rparr>]" "\<lambda>_. None" 0] by simp
qed

end
