(* ===== verification/ShellPlane.thy ===== *)
theory ShellPlane
  imports Prelude
begin

text \<open>
  The programmatic shell of one device, which everything the controller does on a device's file
  system goes through: \<open>_get_device_shell_ws\<close>, \<open>_release_shell_ws\<close> and the frame of \<open>_shell_run\<close> in
  \<open>controller/em_api.py\<close>, and the programmatic half of \<open>handle_shell\<close> in \<open>em_controller.py\<close>.

  A session is a task suspended at the lock, at the device's answer, in its commands, or in one of the
  two awaits of its release. \<open>asyncio.Lock\<close> serves its waiters in order: a release leaves it free until the
  first waiter wakes, and nobody overtakes that one. The dashboard's interactive terminal bypasses the lock and is not modelled.
\<close>

section \<open>State\<close>

datatype shell_phase = WaitLock | WaitOpen | Opened nat | Using nat | ClosingWs | Releasing

record shell_plane =
  sp_locked :: bool
  sp_queue :: "nat list"
  sp_pending :: "nat option"
  sp_ws :: "nat option"
  sp_tasks :: "(nat \<times> shell_phase) list"

datatype shell_effect = SendOpen | SendClose | CloseSocket nat

definition plane_init :: shell_plane where
  "plane_init = \<lparr>sp_locked = False, sp_queue = [], sp_pending = None, sp_ws = None, sp_tasks = []\<rparr>"

definition in_phase :: "nat \<Rightarrow> shell_phase \<Rightarrow> shell_plane \<Rightarrow> shell_plane" where
  "in_phase k ph s = s\<lparr>sp_tasks := put k ph (sp_tasks s)\<rparr>"

section \<open>Opening\<close>

text \<open>Past the lock: a new future, for which \<open>sp_pending\<close> stands while it is not resolved.\<close>

definition request_shell :: "nat \<Rightarrow> shell_plane \<Rightarrow> shell_plane \<times> shell_effect list" where
  "request_shell k s = (in_phase k WaitOpen (s\<lparr>sp_locked := True, sp_pending := Some k\<rparr>), [SendOpen])"

definition begin_session :: "nat \<Rightarrow> shell_plane \<Rightarrow> shell_plane \<times> shell_effect list" where
  "begin_session k s =
     (if map_of (sp_tasks s) k \<noteq> None then (s, [])
      else if sp_locked s \<or> sp_queue s \<noteq> [] then (in_phase k WaitLock (s\<lparr>sp_queue := sp_queue s @ [k]\<rparr>), [])
      else request_shell k s)"

definition waiter_wakes :: "nat \<Rightarrow> shell_plane \<Rightarrow> shell_plane \<times> shell_effect list" where
  "waiter_wakes k s =
     (case sp_queue s of
        [] \<Rightarrow> (s, [])
      | q # qs \<Rightarrow> if sp_locked s \<or> q \<noteq> k then (s, []) else request_shell k (s\<lparr>sp_queue := qs\<rparr>))"

text \<open>\<open>handle_shell\<close>: the device's connection resolves the pending future.\<close>

definition device_opens :: "nat \<Rightarrow> shell_plane \<Rightarrow> shell_plane \<times> shell_effect list" where
  "device_opens w s =
     (case sp_pending s of
        None \<Rightarrow> (s, [CloseSocket w])
      | Some k \<Rightarrow> (in_phase k (Opened w) (s\<lparr>sp_pending := None\<rparr>), []))"

section \<open>Releasing\<close>

text \<open>
  \<open>_release_shell_ws\<close> runs in the caller's \<open>finally\<close>, whether or not the caller has the lock. It is cut at
  its two awaits: closing the socket, and telling the device.
\<close>

definition begin_release :: "nat \<Rightarrow> shell_plane \<Rightarrow> shell_plane \<times> shell_effect list" where
  "begin_release k s =
     (case sp_ws s of
        Some w \<Rightarrow> (in_phase k ClosingWs (s\<lparr>sp_ws := None\<rparr>), [CloseSocket w])
      | None \<Rightarrow> (in_phase k Releasing (s\<lparr>sp_pending := None\<rparr>), [SendClose]))"

definition end_session :: "nat \<Rightarrow> shell_plane \<Rightarrow> shell_plane" where
  "end_session k s = s\<lparr>sp_tasks := pop k (sp_tasks s), sp_locked := False\<rparr>"

datatype shell_event =
    Begin nat
  | WaiterWakes nat
  | LockTimesOut nat
  | DeviceOpens nat
  | OpenTimesOut nat
  | TaskResumes nat

text \<open>
  A task that waits for the lock or the device may time out; any other resumption of a task is its
  next step. A timed-out wait raises, and \<open>finally\<close> runs the release; the wait for the device has
  then already released the lock itself.
\<close>

fun plane_step :: "shell_plane \<Rightarrow> shell_event \<Rightarrow> shell_plane \<times> shell_effect list" where
  "plane_step s (Begin k) = begin_session k s"
| "plane_step s (WaiterWakes k) = waiter_wakes k s"
| "plane_step s (LockTimesOut k) =
     (if map_of (sp_tasks s) k = Some WaitLock then begin_release k (s\<lparr>sp_queue := removeAll k (sp_queue s)\<rparr>)
      else (s, []))"
| "plane_step s (DeviceOpens w) = device_opens w s"
| "plane_step s (OpenTimesOut k) =
     (if map_of (sp_tasks s) k = Some WaitOpen
      then begin_release k (s\<lparr>sp_pending := None, sp_ws := None, sp_locked := False\<rparr>)
      else (s, []))"
| "plane_step s (TaskResumes k) =
     (case map_of (sp_tasks s) k of
        Some (Opened w) \<Rightarrow> (in_phase k (Using w) (s\<lparr>sp_ws := Some w\<rparr>), [])
      | Some (Using w) \<Rightarrow> begin_release k s
      | Some ClosingWs \<Rightarrow> (in_phase k Releasing (s\<lparr>sp_pending := None\<rparr>), [SendClose])
      | Some Releasing \<Rightarrow> (end_session k s, [])
      | _ \<Rightarrow> (s, []))"

lemmas plane_defs =
  in_phase_def request_shell_def begin_session_def waiter_wakes_def device_opens_def begin_release_def
  end_session_def

section \<open>Exclusive sessions\<close>

definition waiting :: "shell_plane \<Rightarrow> nat \<Rightarrow> bool" where
  "waiting s k \<longleftrightarrow> (case map_of (sp_tasks s) k of Some ph \<Rightarrow> ph = WaitLock | None \<Rightarrow> True)"

fun socket_of :: "shell_phase \<Rightarrow> nat option" where
  "socket_of (Using w) = Some w"
| "socket_of _ = None"

definition held_by :: "nat \<Rightarrow> shell_phase \<Rightarrow> shell_plane \<Rightarrow> bool" where
  "held_by k ph s \<longleftrightarrow>
     sp_locked s \<and> map_of (sp_tasks s) k = Some ph \<and> ph \<noteq> WaitLock \<and> (\<forall>i. i \<noteq> k \<longrightarrow> waiting s i)
     \<and> sp_ws s = socket_of ph \<and> sp_pending s = (if ph = WaitOpen then Some k else None)"

definition plane_free :: "shell_plane \<Rightarrow> bool" where
  "plane_free s \<longleftrightarrow> \<not> sp_locked s \<and> (\<forall>i. waiting s i) \<and> sp_ws s = None \<and> sp_pending s = None"

definition exclusive :: "shell_plane \<Rightarrow> bool" where
  "exclusive s \<longleftrightarrow> plane_free s \<or> (\<exists>k ph. held_by k ph s)"

fun punctual :: "shell_event \<Rightarrow> bool" where
  "punctual (LockTimesOut k) = False"
| "punctual (OpenTimesOut k) = False"
| "punctual _ = True"

lemma waiting_phase: "waiting s k \<Longrightarrow> map_of (sp_tasks s) k = Some ph \<Longrightarrow> ph = WaitLock"
  by (simp add: waiting_def)

lemma free_step:
  assumes "plane_free s" "punctual e"
  shows "exclusive (fst (plane_step s e))"
proof (cases e)
  case (TaskResumes k)
  with assms show ?thesis by (auto simp: exclusive_def plane_free_def waiting_def split: option.splits shell_phase.splits)
qed (use assms in \<open>auto simp: exclusive_def plane_free_def held_by_def waiting_def plane_defs split: list.splits\<close>)

lemma held_resumes:
  assumes "held_by k ph s"
  shows "exclusive (fst (plane_step s (TaskResumes i)))"
proof (cases "i = k")
  case True
  with assms show ?thesis
    by (cases ph) (auto simp: exclusive_def plane_free_def held_by_def waiting_def plane_defs)
next
  case False
  then have "waiting s i" using assms by (simp add: held_by_def)
  with assms show ?thesis
    by (auto simp: exclusive_def waiting_def split: option.splits)
qed

lemma held_step:
  assumes "held_by k ph s" "punctual e"
  shows "exclusive (fst (plane_step s e))"
proof (cases e)
  case (TaskResumes i)
  with assms held_resumes show ?thesis by simp
next
  case (Begin i)
  with assms show ?thesis
    unfolding exclusive_def by (intro disjI2 exI [of _ k] exI [of _ ph]) (auto simp: held_by_def waiting_def plane_defs)
next
  case (WaiterWakes i)
  with assms show ?thesis
    unfolding exclusive_def
    by (intro disjI2 exI [of _ k] exI [of _ ph]) (auto simp: held_by_def waiting_def plane_defs split: list.splits)
next
  case (DeviceOpens w)
  with assms show ?thesis
    unfolding exclusive_def
    by (intro disjI2 exI [of _ k] exI [of _ "if ph = WaitOpen then Opened w else ph"])
      (auto simp: held_by_def waiting_def plane_defs)
qed (use assms in auto)

lemma exclusive_step: "exclusive s \<Longrightarrow> punctual e \<Longrightarrow> exclusive (fst (plane_step s e))"
  using free_step held_step unfolding exclusive_def by blast

interpretation punctual_plane: guarded_machine plane_step exclusive punctual
  by unfold_locales (rule exclusive_step)

lemma exclusive_init: "exclusive plane_init"
  by (simp add: exclusive_def plane_free_def plane_init_def waiting_def)

lemma only_one_at_work:
  "exclusive s \<Longrightarrow> \<not> waiting s k \<Longrightarrow> \<not> waiting s i \<Longrightarrow> k = i"
  unfolding exclusive_def plane_free_def held_by_def by metis

lemma held_by_phase:
  assumes "exclusive s" "map_of (sp_tasks s) k = Some ph" "ph \<noteq> WaitLock"
  shows "held_by k ph s"
proof -
  from assms(2,3) have nw: "\<not> waiting s k" by (simp add: waiting_def)
  with assms(1) obtain i ph' where h: "held_by i ph' s" by (auto simp: exclusive_def plane_free_def)
  then have "\<forall>j. j \<noteq> i \<longrightarrow> waiting s j" by (simp add: held_by_def)
  with nw have "i = k" by auto
  with h assms(2) show ?thesis by (auto simp: held_by_def)
qed

lemma socket_closed_by_its_user:
  assumes "exclusive s" "punctual e" "CloseSocket w \<in> set (snd (plane_step s e))"
  shows "e = DeviceOpens w \<or> (\<exists>k. e = TaskResumes k \<and> map_of (sp_tasks s) k = Some (Using w))"
proof (cases e)
  case (TaskResumes k)
  with assms(3) obtain v where v: "map_of (sp_tasks s) k = Some (Using v)" "sp_ws s = Some w"
    by (simp add: begin_release_def split: option.splits shell_phase.splits)
  from held_by_phase [OF assms(1) v(1)] v(2) have "v = w" by (simp add: held_by_def)
  with v TaskResumes show ?thesis by simp
next
  case (Begin k)
  with assms(3) show ?thesis by (simp add: begin_session_def request_shell_def split: if_splits)
next
  case (WaiterWakes k)
  with assms(3) show ?thesis by (simp add: waiter_wakes_def request_shell_def split: if_splits list.splits)
next
  case (DeviceOpens v)
  with assms(3) show ?thesis by (simp add: device_opens_def split: option.splits)
qed (use assms in simp_all)

text \<open>
  Claim C13: Sessions are exclusive as long as no wait times out: in every interleaving of sessions beginning,
  waking, opening and ending, at most one is past the lock, and a socket is closed only by the task
  that uses it, or on arrival when nobody asked for it.
\<close>
theorem sessions_are_exclusive:
  assumes "list_all punctual es"
  shows "(\<not> waiting (fst (run plane_step plane_init es)) k \<longrightarrow> \<not> waiting (fst (run plane_step plane_init es)) i \<longrightarrow> k = i)
    \<and> (punctual e \<longrightarrow> CloseSocket w \<in> set (snd (plane_step (fst (run plane_step plane_init es)) e)) \<longrightarrow>
        e = DeviceOpens w \<or> (\<exists>j. e = TaskResumes j \<and> map_of (sp_tasks (fst (run plane_step plane_init es))) j = Some (Using w)))"
proof -
  have "exclusive (fst (run plane_step plane_init es))"
    by (rule punctual_plane.guarded_run [OF exclusive_init assms])
  then show ?thesis using only_one_at_work socket_closed_by_its_user by blast
qed

section \<open>The lock is never lost\<close>

definition lock_owned :: "shell_plane \<Rightarrow> bool" where
  "lock_owned s \<longleftrightarrow> (sp_locked s \<longrightarrow> (\<exists>k. \<not> waiting s k))"

lemma lock_owned_by: "\<not> waiting s k \<Longrightarrow> lock_owned s"
  by (auto simp: lock_owned_def)

lemma lock_owned_unlocked: "\<not> sp_locked s \<Longrightarrow> lock_owned s"
  by (simp add: lock_owned_def)

lemma waiting_in_phase [simp]:
  "waiting (in_phase k ph s) i \<longleftrightarrow> (if i = k then ph = WaitLock else waiting s i)"
  by (simp add: waiting_def in_phase_def)

lemma waiting_cong: "sp_tasks s = sp_tasks t \<Longrightarrow> waiting s = waiting t"
  by (simp add: waiting_def fun_eq_iff)

lemma waiting_update [simp]:
  "waiting (s\<lparr>sp_locked := l\<rparr>) = waiting s" "waiting (s\<lparr>sp_queue := q\<rparr>) = waiting s"
  "waiting (s\<lparr>sp_pending := p\<rparr>) = waiting s" "waiting (s\<lparr>sp_ws := w\<rparr>) = waiting s"
  by (simp_all add: waiting_def fun_eq_iff)

lemma owned_moves: "lock_owned s \<Longrightarrow> ph \<noteq> WaitLock \<Longrightarrow> lock_owned (in_phase k ph t)"
  by (rule lock_owned_by [of _ k]) simp

lemma owned_queues:
  assumes "lock_owned s" "map_of (sp_tasks s) k = None"
  shows "lock_owned (in_phase k WaitLock (s\<lparr>sp_queue := q\<rparr>))"
proof (cases "sp_locked s")
  case True
  with assms obtain i where "\<not> waiting s i" by (auto simp: lock_owned_def)
  with assms show ?thesis by (intro lock_owned_by [of _ i]) (auto simp: waiting_def in_phase_def)
qed (simp add: lock_owned_def in_phase_def)

lemma owned_release: "lock_owned (fst (begin_release k s))"
  by (simp add: begin_release_def split: option.splits) (intro conjI impI allI lock_owned_by [of _ k]; simp)+

lemma owned_step: "lock_owned s \<Longrightarrow> lock_owned (fst (plane_step s e))"
proof (cases e)
  case (TaskResumes k)
  assume "lock_owned s"
  with TaskResumes show ?thesis
    by (simp add: owned_release owned_moves lock_owned_unlocked end_session_def
        split: option.split shell_phase.split)
qed (simp_all add: owned_release owned_moves owned_queues request_shell_def begin_session_def
    waiter_wakes_def device_opens_def split: option.split list.split)

interpretation owned: machine plane_step lock_owned
  by unfold_locales (rule owned_step)

text \<open>
  The lock is never lost, whatever times out and in whatever order tasks run: whenever no session is
  past the lock, the first one in the queue gets it as soon as it wakes and asks the device for a shell.
\<close>
theorem free_lock_serves_the_next:
  fixes es :: "shell_event list"
  defines "s \<equiv> fst (run plane_step plane_init es)"
  assumes "\<forall>i. waiting s i" "sp_queue s = k # ks"
  shows "snd (plane_step s (WaiterWakes k)) = [SendOpen]
    \<and> map_of (sp_tasks (fst (plane_step s (WaiterWakes k)))) k = Some WaitOpen
    \<and> sp_queue (fst (plane_step s (WaiterWakes k))) = ks"
proof -
  have "lock_owned plane_init" by (simp add: lock_owned_def plane_init_def)
  then have "lock_owned s" unfolding s_def by (rule owned.inv_run)
  then have "\<not> sp_locked s" using assms(2) by (simp add: lock_owned_def)
  with assms(3) show ?thesis by (simp add: plane_defs)
qed

section \<open>What a timeout does to the others\<close>

text \<open>
  A session that gives up waiting for the lock closes the socket of the session that has it, and
  frees its lock: the next in the queue opens a shell of its own while the first is still at work.
\<close>
theorem lock_timeout_kills_the_session_in_use:
  assumes "map_of (sp_tasks s) h = Some (Using w)" "sp_ws s = Some w"
    and "map_of (sp_tasks s) k = Some WaitLock" "sp_queue s = k # q # qs" "k \<notin> set (q # qs)" "h \<noteq> q"
  defines "r \<equiv> run plane_step s [LockTimesOut k, TaskResumes k, TaskResumes k, WaiterWakes q]"
  shows "CloseSocket w \<in> set (hd (snd r)) \<and> map_of (sp_tasks (fst r)) h = Some (Using w)
    \<and> map_of (sp_tasks (fst r)) q = Some WaitOpen \<and> last (snd r) = [SendOpen]"
proof -
  have "h \<noteq> k" "k \<noteq> q" "removeAll k qs = qs" using assms(1,3,5) by auto
  with assms(1-6) show ?thesis by (simp add: r_def plane_defs)
qed

definition held_and_queued :: shell_plane where
  "held_and_queued =
     fst (run plane_step plane_init [Begin 1, DeviceOpens 10, TaskResumes 1, Begin 2, Begin 3])"

lemma sessions_are_exclusive_witness:
  "waiting held_and_queued 2 \<and> snd (plane_step held_and_queued (TaskResumes 1)) = [CloseSocket 10]
    \<and> map_of (sp_tasks held_and_queued) 1 = Some (Using 10)"
proof -
  have "list_all punctual [Begin 1, DeviceOpens 10, TaskResumes 1, Begin 2, Begin 3]" by simp
  from sessions_are_exclusive [OF this, of 1 2 "TaskResumes 1" 10] show ?thesis
    by (simp add: held_and_queued_def) (simp add: plane_init_def plane_defs waiting_def)
qed

lemma free_lock_serves_the_next_witness:
  "snd (plane_step (fst (run plane_step plane_init
      [Begin 1, Begin 2, OpenTimesOut 1, TaskResumes 1])) (WaiterWakes 2)) = [SendOpen]"
  using free_lock_serves_the_next [of "[Begin 1, Begin 2, OpenTimesOut 1, TaskResumes 1]" 2 "[]"]
  by (simp add: plane_init_def plane_defs waiting_def)

lemma lock_timeout_kills_the_session_in_use_witness:
  "CloseSocket 10 \<in> set (hd (snd (run plane_step held_and_queued
      [LockTimesOut 2, TaskResumes 2, TaskResumes 2, WaiterWakes 3])))"
  using lock_timeout_kills_the_session_in_use [of held_and_queued 1 10 2 3 "[]"]
  by (simp add: held_and_queued_def plane_init_def plane_defs)

end
