(* ===== verification/Strings.thy ===== *)
theory Strings
  imports Prelude "HOL-Library.Sublist"
begin

text \<open>
  Python's operations on text that several components share: containment, words and lines, with what
  splitting does to text that was put together from words or lines, or cut off.
\<close>

section \<open>Containment and words\<close>

text \<open>\<open>needle in text\<close> and \<open>str.split()\<close>.\<close>

fun occurs_in :: "string \<Rightarrow> string \<Rightarrow> bool" where
  "occurs_in p [] \<longleftrightarrow> p = []"
| "occurs_in p (c # cs) \<longleftrightarrow> take (length p) (c # cs) = p \<or> occurs_in p cs"

fun words_from :: "string \<Rightarrow> string \<Rightarrow> string list" where
  "words_from w [] = (if w = [] then [] else [rev w])"
| "words_from w (c # cs) =
     (if is_space c then (if w = [] then words_from [] cs else rev w # words_from [] cs)
      else words_from (c # w) cs)"

definition py_words :: "string \<Rightarrow> string list" where
  "py_words s = words_from [] s"

lemma occurs_in_append: "occurs_in p (s @ p @ t)"
proof (induction s)
  case Nil
  have "take (length p) (p @ t) = p" by simp
  then have "occurs_in p (p @ t)" by (cases "p @ t") simp_all
  then show ?case by simp
next
  case (Cons c s)
  then show ?case by simp
qed

lemma words_from_word:
  "list_all (\<lambda>c. \<not> is_space c) v \<Longrightarrow> is_space c \<Longrightarrow> w @ v \<noteq> [] \<Longrightarrow>
     words_from w (v @ c # r) = (rev w @ v) # words_from [] r"
  by (induction v arbitrary: w) auto

lemma words_from_end:
  "list_all (\<lambda>c. \<not> is_space c) v \<Longrightarrow> w @ v \<noteq> [] \<Longrightarrow> words_from w v = [rev w @ v]"
  by (induction v arbitrary: w) auto

lemma occurs_in_subset: "occurs_in p s \<Longrightarrow> set p \<subseteq> set s"
proof (induction s)
  case (Cons c s)
  then show ?case using set_take_subset [of "length p" "c # s"] by auto
qed simp

section \<open>Lines\<close>

text \<open>\<open>str.splitlines()\<close>.\<close>

definition is_newline :: "char \<Rightarrow> bool" where
  "is_newline c \<longleftrightarrow> (let n = of_char c :: nat in (10 \<le> n \<and> n \<le> 13) \<or> (28 \<le> n \<and> n \<le> 30) \<or> n = 133)"

fun lines_from :: "bool \<Rightarrow> string \<Rightarrow> string \<Rightarrow> string list" where
  "lines_from after_cr w [] = (if w = [] then [] else [rev w])"
| "lines_from after_cr w (c # cs) =
     (if after_cr \<and> c = CHR 0x0A then lines_from False [] cs
      else if is_newline c then rev w # lines_from (c = CHR 0x0D) [] cs
      else lines_from False (c # w) cs)"

definition py_lines :: "string \<Rightarrow> string list" where
  "py_lines s = lines_from False [] s"

definition NL :: string where "NL = [CHR 0x0A]"

text \<open>\<open>'\n'.join\<close>, and lines each followed by a newline.\<close>

fun join_lines :: "string list \<Rightarrow> string" where
  "join_lines [] = []"
| "join_lines [l] = l"
| "join_lines (l # m # ls) = l @ NL @ join_lines (m # ls)"

definition print_lines :: "string list \<Rightarrow> string" where
  "print_lines ls = concat (map (\<lambda>l. l @ NL) ls)"

section \<open>Words and lines put together\<close>

definition plain :: "string \<Rightarrow> bool" where
  "plain s \<longleftrightarrow> list_all (\<lambda>c. \<not> is_space c) s"

definition one_line :: "string \<Rightarrow> bool" where
  "one_line s \<longleftrightarrow> list_all (\<lambda>c. \<not> is_newline c) s"

lemma plain_simps [simp]:
  "plain []" "plain (c # s) \<longleftrightarrow> \<not> is_space c \<and> plain s" "plain (s @ t) \<longleftrightarrow> plain s \<and> plain t"
  by (simp_all add: plain_def)

lemma one_line_simps [simp]:
  "one_line []" "one_line (c # s) \<longleftrightarrow> \<not> is_newline c \<and> one_line s" "one_line (s @ t) \<longleftrightarrow> one_line s \<and> one_line t"
  by (simp_all add: one_line_def)

lemma newline_is_space: "is_newline c \<Longrightarrow> is_space c"
  by (auto simp: is_newline_def is_space_def Let_def)

lemma plain_one_line: "plain s \<Longrightarrow> one_line s"
  by (auto simp: plain_def one_line_def list_all_iff dest: newline_is_space)

lemma plain_prefix: "plain s \<Longrightarrow> prefix p s \<Longrightarrow> plain p"
  by (auto simp: prefix_def)

lemma one_line_prefix: "one_line s \<Longrightarrow> prefix p s \<Longrightarrow> one_line p"
  by (auto simp: prefix_def)

subsection \<open>Lines\<close>

lemma newline_NL [simp]: "is_newline (CHR 0x0A)" "is_space (CHR '' '')" "\<not> is_newline (CHR '' '')"
  by (simp_all add: is_newline_def is_space_def)

lemma lines_from_line: "one_line v \<Longrightarrow> lines_from False w (v @ NL @ r) = (rev w @ v) # lines_from False [] r"
  by (induction v arbitrary: w) (auto simp: NL_def)

lemma lines_from_end: "one_line v \<Longrightarrow> lines_from False w v = (if rev w @ v = [] then [] else [rev w @ v])"
  by (induction v arbitrary: w) auto

lemma py_lines_line: "one_line v \<Longrightarrow> py_lines (v @ NL @ r) = v # py_lines r"
  by (simp add: py_lines_def lines_from_line)

lemma py_lines_end: "one_line v \<Longrightarrow> py_lines v = (if v = [] then [] else [v])"
  by (simp add: py_lines_def lines_from_end)

lemma print_lines_Cons [simp]: "print_lines (l # ls) = l @ NL @ print_lines ls"
  by (simp add: print_lines_def)

lemma print_lines_Nil [simp]: "print_lines [] = []"
  by (simp add: print_lines_def)

lemma lines_of_prefix:
  "list_all one_line (ls @ [tail]) \<Longrightarrow> prefix s (print_lines ls @ tail) \<Longrightarrow> l \<in> set (py_lines s)
   \<Longrightarrow> \<exists>m \<in> set (ls @ [tail]). prefix l m"
proof (induction ls arbitrary: s)
  case Nil
  then have "one_line s" by (auto intro: one_line_prefix)
  with Nil show ?case by (auto simp: py_lines_end split: if_splits)
next
  case (Cons k ls)
  from Cons.prems(2) have "prefix s (k @ NL @ print_lines ls @ tail)" by simp
  then consider "prefix s k" | "s = k" | u where "s = k @ NL @ u" "prefix u (print_lines ls @ tail)"
    unfolding prefix_append by (auto simp: NL_def prefix_Cons)
  then show ?case
  proof cases
    case 3
    then show ?thesis using Cons by (auto simp: py_lines_line)
  qed (use Cons.prems in \<open>auto simp: py_lines_end one_line_prefix split: if_splits\<close>)
qed

lemma lines_of_joined: "list_all one_line ls \<Longrightarrow> set (py_lines (join_lines ls)) \<subseteq> set ls"
proof (induction ls rule: join_lines.induct)
  case 1
  then show ?case by (simp add: py_lines_def)
qed (auto simp: py_lines_end py_lines_line split: if_splits)

lemma strip_prefix: "t = [] \<or> \<not> is_space (hd t) \<Longrightarrow> prefix (py_strip t) t"
proof -
  assume "t = [] \<or> \<not> is_space (hd t)"
  then have "dropWhile is_space t = t" by (cases t) auto
  then have "py_strip t = rev (dropWhile is_space (rev t))" by (simp add: py_strip_def)
  moreover have "t = rev (dropWhile is_space (rev t)) @ rev (takeWhile is_space (rev t))"
    by (metis rev_append rev_rev_ident takeWhile_dropWhile_id)
  ultimately show ?thesis by (metis prefixI)
qed

subsection \<open>Words\<close>

lemma py_words_word: "plain v \<Longrightarrow> v \<noteq> [] \<Longrightarrow> is_space c \<Longrightarrow> py_words (v @ c # r) = v # py_words r"
  by (simp add: py_words_def words_from_word plain_def)

lemma py_words_end: "plain v \<Longrightarrow> py_words v = (if v = [] then [] else [v])"
  using words_from_end [of v "[]"] by (cases "v = []") (simp_all add: py_words_def plain_def)

end
