(* ===== verification/FileTransfer.thy ===== *)
theory FileTransfer
  imports Strings
begin

text \<open>
  Sending a file to a device over its programmatic shell: \<open>_stream_file_to_device\<close> in
  \<open>controller/em_api.py\<close>, with \<open>TransferResult\<close>, and the replies of the device's shell that it and the
  update read.

  What the device and the link do is an argument: whether a shell opens, what the probe prints, what
  the decoding pipeline leaves at the landing file, whether the verifying command runs, and which
  replies arrive. The digest is a function \<open>md5\<close>.
\<close>

section \<open>Probing the device\<close>

text \<open>The chains of \<open>elif\<close> over the probe's output.\<close>

datatype decoder = Busybox | Python3 | Python2

definition decoder_of :: "string \<Rightarrow> decoder option" where
  "decoder_of buf =
     (if occurs_in ''DECODER:busybox'' buf then Some Busybox
      else if occurs_in ''DECODER:python3'' buf then Some Python3
      else if occurs_in ''DECODER:python'' buf then Some Python2
      else None)"

datatype md5_tool = BusyboxMd5 | PlainMd5

definition md5_tool_of :: "string \<Rightarrow> md5_tool option" where
  "md5_tool_of buf =
     (if occurs_in ''MD5:busybox'' buf then Some BusyboxMd5
      else if occurs_in ''MD5:plain'' buf then Some PlainMd5
      else None)"

definition DETECT_MARKER :: string where "DETECT_MARKER = ''__DETECT_DONE__''"

section \<open>The transfer\<close>

datatype transfer_stage = StageShell | StageDecoder | StageMd5Tool | StageSend | StageVerify | StageCorrupt | StageError

datatype transfer_result = Failed transfer_stage | Unverified | Verified

definition transferred_ok :: "transfer_result \<Rightarrow> bool" where
  "transferred_ok r = (case r of Failed _ \<Rightarrow> False | _ \<Rightarrow> True)"

text \<open>How a wait for a reply ends: with it, at the deadline, or with the socket closed.\<close>

datatype wait_end = Heard | Deadline | Broken

record transfer_env =
  te_shell :: bool
  te_probe :: "string option"
  te_landed :: "bytes option"
  te_sending :: wait_end
  te_verify_ran :: bool
  te_verifying :: wait_end

record device_file =
  df_dest :: "bytes option"
  df_part :: "bytes option"

text \<open>The heredoc with \<open>>\<close>: whatever the pipeline produced is at the landing file.\<close>

definition land :: "bool \<Rightarrow> bytes option \<Rightarrow> device_file \<Rightarrow> device_file" where
  "land direct got f =
     (case got of None \<Rightarrow> f
      | Some b \<Rightarrow> if direct then f\<lparr>df_dest := Some b\<rparr> else f\<lparr>df_part := Some b\<rparr>)"

text \<open>The \<open>case\<close> glob \<open>want*\<close> over what the md5 tool prints, \<open><hash>  <path>\<close>, nothing without a file.\<close>

definition got_line :: "(bytes \<Rightarrow> string) \<Rightarrow> string \<Rightarrow> bytes option \<Rightarrow> string" where
  "got_line md5 path part = (case part of None \<Rightarrow> [] | Some b \<Rightarrow> md5 b @ ''  '' @ path)"

definition promote :: "(bytes \<Rightarrow> string) \<Rightarrow> string \<Rightarrow> bytes \<Rightarrow> device_file \<Rightarrow> bool \<times> device_file" where
  "promote md5 path data f =
     (if startswith (got_line md5 path (df_part f)) (md5 data)
      then (True, f\<lparr>df_dest := df_part f, df_part := None\<rparr>)
      else (False, f\<lparr>df_part := None\<rparr>))"

definition verify ::
  "(bytes \<Rightarrow> string) \<Rightarrow> transfer_env \<Rightarrow> string \<Rightarrow> bytes \<Rightarrow> device_file \<Rightarrow> transfer_result \<times> device_file" where
  "verify md5 env path data f =
     (let (good, f') = (if te_verify_ran env then promote md5 path data f else (False, f)) in
      case te_verifying env of
        Broken \<Rightarrow> (Failed StageError, f')
      | Deadline \<Rightarrow> (Failed StageVerify, f')
      | Heard \<Rightarrow>
          (if \<not> te_verify_ran env then Failed StageVerify else if good then Verified else Failed StageCorrupt, f'))"

definition send_data ::
  "(bytes \<Rightarrow> string) \<Rightarrow> transfer_env \<Rightarrow> string \<Rightarrow> bytes \<Rightarrow> md5_tool option \<Rightarrow> device_file
   \<Rightarrow> transfer_result \<times> device_file" where
  "send_data md5 env path data tool f =
     (let f' = land (tool = None) (te_landed env) f in
      case te_sending env of
        Broken \<Rightarrow> (Failed StageError, f')
      | Deadline \<Rightarrow> (Failed StageSend, f')
      | Heard \<Rightarrow>
          if te_landed env = None then (Failed StageSend, f')
          else if tool = None then (Unverified, f')
          else verify md5 env path data f')"

definition stream_file ::
  "(bytes \<Rightarrow> string) \<Rightarrow> bool \<Rightarrow> transfer_env \<Rightarrow> string \<Rightarrow> bytes \<Rightarrow> device_file
   \<Rightarrow> transfer_result \<times> device_file" where
  "stream_file md5 require_verify env path data f =
     (if \<not> te_shell env then (Failed StageShell, f)
      else case te_probe env of
        None \<Rightarrow> (Failed StageError, f)
      | Some buf \<Rightarrow>
          if decoder_of buf = None
          then (Failed (if occurs_in DETECT_MARKER buf then StageDecoder else StageShell), f)
          else if md5_tool_of buf = None \<and> require_verify then (Failed StageMd5Tool, f)
          else send_data md5 env path data (md5_tool_of buf) f)"

section \<open>What the transfer guarantees\<close>

text \<open>What the code relies on of the digest: it has 32 digits, and what landed is what was sent if they agree.\<close>

definition collision_free :: "(bytes \<Rightarrow> string) \<Rightarrow> bytes \<Rightarrow> bytes option \<Rightarrow> bool" where
  "collision_free md5 data got \<longleftrightarrow>
     length (md5 data) = 32 \<and>
     (case got of None \<Rightarrow> True | Some b \<Rightarrow> length (md5 b) = 32 \<and> (md5 b = md5 data \<longrightarrow> b = data))"

lemma promote_cases:
  assumes "collision_free md5 data (df_part f)"
  shows "promote md5 path data f =
    (if df_part f = Some data then (True, \<lparr>df_dest = Some data, df_part = None\<rparr>)
     else (False, f\<lparr>df_part := None\<rparr>))"
proof (cases "df_part f")
  case None
  with assms have "md5 data \<noteq> []" by (auto simp: collision_free_def)
  with None show ?thesis by (simp add: promote_def got_line_def startswith_def)
next
  case (Some b)
  with assms have "length (md5 b) = length (md5 data)" "md5 b = md5 data \<longrightarrow> b = data"
    by (auto simp: collision_free_def)
  then have "startswith (md5 b @ ''  '' @ path) (md5 data) \<longleftrightarrow> b = data"
    by (auto simp: startswith_def)
  with Some show ?thesis by (simp add: promote_def got_line_def)
qed

text \<open>A transfer that must be verified, in all its outcomes.\<close>

definition dest_kept :: "bytes \<Rightarrow> device_file \<Rightarrow> transfer_result \<times> device_file \<Rightarrow> bool" where
  "dest_kept data f out \<longleftrightarrow>
     (df_dest (snd out) = df_dest f \<or> df_dest (snd out) = Some data)
     \<and> (transferred_ok (fst out) \<longrightarrow> fst out = Verified \<and> df_dest (snd out) = Some data)"

lemma verify_kept:
  assumes "collision_free md5 data (df_part f)"
  shows "dest_kept data f (verify md5 env path data f)"
  by (simp add: verify_def promote_cases [OF assms] dest_kept_def transferred_ok_def split: wait_end.split)

lemma dest_kept_failed: "df_dest f' = df_dest f \<Longrightarrow> dest_kept data f (Failed st, f')"
  by (simp add: dest_kept_def transferred_ok_def)

lemma dest_kept_cong: "df_dest g = df_dest f \<Longrightarrow> dest_kept data g out \<Longrightarrow> dest_kept data f out"
  by (simp add: dest_kept_def)

lemma df_dest_land [simp]: "df_dest (land False got f) = df_dest f"
  by (simp add: land_def split: option.split)

lemma send_kept:
  assumes "collision_free md5 data (te_landed env)"
  shows "dest_kept data f (send_data md5 env path data (Some tool) f)"
proof (cases "te_landed env")
  case None
  then show ?thesis by (simp add: send_data_def Let_def dest_kept_failed split: wait_end.split)
next
  case (Some b)
  let ?g = "land False (te_landed env) f"
  have "collision_free md5 data (df_part ?g)" using assms Some by (simp add: land_def)
  then have "dest_kept data f (verify md5 env path data ?g)"
    using dest_kept_cong [of ?g f] verify_kept by simp
  with Some show ?thesis by (simp add: send_data_def Let_def dest_kept_failed split: wait_end.split)
qed

lemma stream_kept:
  assumes "collision_free md5 data (te_landed env)"
  shows "dest_kept data f (stream_file md5 True env path data f)"
  by (auto simp: stream_file_def dest_kept_failed send_kept [OF assms] split: option.split)

text \<open>
  Claim C15: A transfer that must be verified leaves the destination as it was or makes it exactly what was
  sent, whatever the link does and at whatever point it stops; success means the latter.
\<close>
theorem verified_transfer_is_all_or_nothing:
  assumes "collision_free md5 data (te_landed env)"
    and "stream_file md5 True env path data f = (r, f')"
  shows "(df_dest f' = df_dest f \<or> df_dest f' = Some data) \<and>
    (r = Verified \<longrightarrow> df_dest f' = Some data) \<and> r \<noteq> Unverified"
  using stream_kept [OF assms(1), of f path] assms(2)
  by (auto simp: dest_kept_def transferred_ok_def split: transfer_result.splits)

definition good_probe :: string where
  "good_probe = ''DECODER:busybox'' @ [CHR 0x0A] @ ''MD5:busybox'' @ [CHR 0x0A] @ DETECT_MARKER"

lemma good_probe_tools [simp]:
  "decoder_of good_probe = Some Busybox" "md5_tool_of good_probe = Some BusyboxMd5"
  by (simp_all add: good_probe_def decoder_of_def md5_tool_of_def DETECT_MARKER_def)

text \<open>
  A transfer reported as unverified, its destination \<open>left untouched\<close>, may have replaced it: the
  verifying command ran and only its reply was late.
\<close>
theorem verify_timeout_may_have_replaced:
  assumes "te_shell env" "te_probe env = Some buf" "decoder_of buf \<noteq> None" "md5_tool_of buf \<noteq> None"
    and "te_landed env = Some data" "te_sending env = Heard"
    and "te_verify_ran env" "te_verifying env = Deadline"
  shows "fst (stream_file md5 True env path data f) = Failed StageVerify
    \<and> df_dest (snd (stream_file md5 True env path data f)) = Some data"
  using assms
  by (auto simp: stream_file_def send_data_def land_def verify_def promote_def got_line_def startswith_def)

text \<open>A digest for the examples: not MD5, but of the right length and injective on one-byte files.\<close>

definition toy_md5 :: "bytes \<Rightarrow> string" where
  "toy_md5 b = map (\<lambda>i. if i < length b then char_of (unat (b ! i) mod 128) else CHR ''-'') [0..<32]"

definition good_transfer :: "bytes \<Rightarrow> transfer_env" where
  "good_transfer data =
     \<lparr>te_shell = True, te_probe = Some good_probe, te_landed = Some data, te_sending = Heard,
      te_verify_ran = True, te_verifying = Heard\<rparr>"

definition cut_transfer :: transfer_env where
  "cut_transfer = (good_transfer [1])\<lparr>te_verifying := Heard, te_landed := Some [1, 2]\<rparr>"

lemma good_transfer_verifies:
  assumes "length (md5 b) = 32"
  shows "stream_file md5 True (good_transfer b) path b f = (Verified, \<lparr>df_dest = Some b, df_part = None\<rparr>)"
  using promote_cases [of md5 b "land False (Some b) f" path] assms
  by (simp add: stream_file_def send_data_def verify_def good_transfer_def land_def collision_free_def Let_def)

lemma verified_transfer_is_all_or_nothing_witness:
  "stream_file toy_md5 True cut_transfer ''f'' [1, 2, 3] \<lparr>df_dest = Some [9], df_part = None\<rparr>
     = (Failed StageCorrupt, \<lparr>df_dest = Some [9], df_part = None\<rparr>)
   \<and> fst (stream_file toy_md5 True (good_transfer [1, 2, 3]) ''f'' [1, 2, 3] \<lparr>df_dest = Some [9], df_part = None\<rparr>)
     = Verified
   \<and> df_dest (snd (stream_file toy_md5 True (good_transfer [1, 2, 3]) ''f'' [1, 2, 3]
       \<lparr>df_dest = Some [9], df_part = None\<rparr>)) = Some [1, 2, 3]"
proof -
  let ?f = "\<lparr>df_dest = Some [9::byte], df_part = None\<rparr>"
  have bad: "stream_file toy_md5 True cut_transfer ''f'' [1, 2, 3] ?f = (Failed StageCorrupt, ?f)" by code_simp
  have good: "fst (stream_file toy_md5 True (good_transfer [1, 2, 3]) ''f'' [1, 2, 3] ?f) = Verified" by code_simp
  have cf: "collision_free toy_md5 [1, 2, 3] (te_landed (good_transfer [1, 2, 3]))" by code_simp
  from verified_transfer_is_all_or_nothing [OF cf, of "''f''" ?f] good bad show ?thesis
    by (metis prod.collapse)
qed

lemma verify_timeout_may_have_replaced_witness:
  "fst (stream_file toy_md5 True ((good_transfer [1])\<lparr>te_verifying := Deadline\<rparr>) ''f'' [1]
      \<lparr>df_dest = Some [9], df_part = None\<rparr>) = Failed StageVerify"
  using verify_timeout_may_have_replaced [of "(good_transfer [1])\<lparr>te_verifying := Deadline\<rparr>" good_probe "[1]"
      toy_md5 "''f''" "\<lparr>df_dest = Some [9], df_part = None\<rparr>"]
  by (simp add: good_transfer_def)

end
