(* ===== verification/Ota.thy ===== *)
theory Ota
  imports FileTransfer
begin

text \<open>
  Firmware updates over the air: \<open>_run_update\<close>, \<open>_run_rollback\<close> and \<open>_monitor_reconnect\<close> with their
  endpoints in \<open>controller/em_api.py\<close>, \<open>parse_free_mb\<close> in \<open>em_oww_assets.py\<close>, and the device's supervisor
  \<open>device_payloads/start_server.sh\<close>, which decides what runs after the flip.

  A device has two slots and a link to one of them; an old device has a plain file. What the link, the
  shell and the device do is an argument, \<open>update_env\<close>: which commands run, which replies come back, what
  the polls see, and at which point a call raises. A binary is its bytes; whether it stays up is the
  function \<open>works\<close>. The synchronisation of the scripts that rides along is not part of this model.
\<close>

section \<open>The device\<close>

datatype slot = SlotA | SlotB

fun other_slot :: "slot \<Rightarrow> slot" where
  "other_slot SlotA = SlotB"
| "other_slot SlotB = SlotA"

fun slot_name :: "slot \<Rightarrow> string" where
  "slot_name SlotA = ''server_a''"
| "slot_name SlotB = ''server_b''"

datatype server_entry = LinkTo slot | PlainFile bytes

record echo_device =
  entry :: server_entry
  slots :: "slot \<Rightarrow> bytes option"
  parts :: "slot \<Rightarrow> bytes option"
  running :: "bytes option"

definition entry_file :: "echo_device \<Rightarrow> bytes option" where
  "entry_file d = (case entry d of LinkTo s \<Rightarrow> slots d s | PlainFile b \<Rightarrow> Some b)"

text \<open>
  The retry loop of \<open>start_server.sh\<close>, over the seconds each run of the server lasted. With the list used
  up the server is still running.
\<close>

definition MIN_RUNTIME :: nat where "MIN_RUNTIME = 15"
definition MAX_ATTEMPTS :: nat where "MAX_ATTEMPTS = 3"

datatype supervised = Serving nat | FellBack slot | GaveUp

definition fall_back :: "echo_device \<Rightarrow> supervised" where
  "fall_back d =
     (case entry d of
        PlainFile _ \<Rightarrow> GaveUp
      | LinkTo s \<Rightarrow> if slots d (other_slot s) = None then GaveUp else FellBack (other_slot s))"

fun supervise :: "echo_device \<Rightarrow> nat \<Rightarrow> nat list \<Rightarrow> supervised" where
  "supervise d n [] = Serving n"
| "supervise d n (t # ts) =
     (if MIN_RUNTIME \<le> t then supervise d 0 ts
      else if n + 1 < MAX_ATTEMPTS then supervise d (n + 1) ts
      else fall_back d)"

text \<open>
  The service starting: a binary that works stays up, one that does not (or is missing) exits at once
  every time. After a fallback \<open>init\<close> starts the script again.
\<close>

definition lifetimes :: "(bytes \<Rightarrow> bool) \<Rightarrow> echo_device \<Rightarrow> nat list" where
  "lifetimes works d = (if opt_holds works (entry_file d) then [] else replicate MAX_ATTEMPTS 0)"

definition boot :: "(bytes \<Rightarrow> bool) \<Rightarrow> echo_device \<Rightarrow> echo_device" where
  "boot works d =
     (case supervise d 0 (lifetimes works d) of
        Serving _ \<Rightarrow> d\<lparr>running := entry_file d\<rparr>
      | GaveUp \<Rightarrow> d\<lparr>running := None\<rparr>
      | FellBack s \<Rightarrow>
          (let d' = d\<lparr>entry := LinkTo s\<rparr> in
           if supervise d' 0 (lifetimes works d') = Serving 0 then d'\<lparr>running := entry_file d'\<rparr>
           else d'\<lparr>running := None\<rparr>))"

text \<open>\<open>ln -sf SLOT /data/local/bin/server && kill $PPID\<close>.\<close>

definition flip :: "(bytes \<Rightarrow> bool) \<Rightarrow> slot \<Rightarrow> echo_device \<Rightarrow> echo_device" where
  "flip works s d = boot works (d\<lparr>entry := LinkTo s\<rparr>)"

section \<open>Reading the device's replies\<close>

text \<open>\<open>line.split(p)[-1]\<close>, when \<open>p\<close> is in the line.\<close>

fun after_last :: "string \<Rightarrow> string \<Rightarrow> string option" where
  "after_last p [] = None"
| "after_last p (c # cs) =
     (case after_last p cs of
        Some r \<Rightarrow> Some r
      | None \<Rightarrow> if startswith (c # cs) p then Some (drop (length p) (c # cs)) else None)"

datatype ota_error =
    FetchFailed | Offline | MigrationFailed | NoActiveSlot | NoSpace nat nat | TransferFailed transfer_stage
  | AutoRollback "string option" | TimedOut "string option" | NoReconnect | OtaException

text \<open>The loop that finds the active slot; a line that ends after \<open>SLOT:\<close> raises an \<open>IndexError\<close>.\<close>

fun find_slot :: "string list \<Rightarrow> ota_error + slot option" where
  "find_slot [] = Inr None"
| "find_slot (l # ls) =
     (case after_last ''SLOT:'' l of
        None \<Rightarrow> find_slot ls
      | Some r \<Rightarrow>
          (case py_words r of
             [] \<Rightarrow> Inl OtaException
           | w # _ \<Rightarrow>
               if w = slot_name SlotA then Inr (Some SlotA)
               else if w = slot_name SlotB then Inr (Some SlotB)
               else find_slot ls))"

text \<open>\<open>parse_free_mb\<close>: the number before the first percentage.\<close>

fun free_field :: "string list \<Rightarrow> nat option" where
  "free_field (a # b # fs) =
     (if endswith b ''%'' \<and> a \<noteq> [] \<and> list_all is_digit a then Some (nat_of_str a) else free_field (b # fs))"
| "free_field _ = None"

definition parse_free_mb :: "string \<Rightarrow> nat option" where
  "parse_free_mb df_line = free_field (py_words df_line)"

fun free_mb_of :: "string list \<Rightarrow> nat option" where
  "free_mb_of [] = None"
| "free_mb_of (l # ls) = (if startswith l ''FREE'' then parse_free_mb (drop 5 l) else free_mb_of ls)"

definition need_mb :: "bytes \<Rightarrow> nat" where
  "need_mb binary = (length binary * 2) div 1048576 + 8"

definition space_error :: "bytes \<Rightarrow> string \<Rightarrow> ota_error option" where
  "space_error binary df =
     (case free_mb_of (py_lines df) of
        None \<Rightarrow> None
      | Some mb \<Rightarrow> if mb < need_mb binary then Some (NoSpace mb (need_mb binary)) else None)"

section \<open>The environment of an update\<close>

datatype shell_outcome = NotRun | RanUnheard | RanHeard

datatype update_point = AtDetect | AtSpace | AtTransfer | AtFlip | AtMonitor

text \<open>
  A poll sees a version when the device is connected and has a row; \<open>ue_final\<close> is the row read
  after the polls, \<open>None\<close> when it is gone. Within the 90 seconds there are at most 41 polls.
\<close>

record update_env =
  ue_fetched :: "bytes option"
  ue_live :: bool
  ue_detect :: shell_outcome
  ue_copied :: "bytes option"
  ue_copy_ok :: bool
  ue_df :: string
  ue_transfer :: transfer_env
  ue_flip :: bool
  ue_polls :: "string option option list"
  ue_final :: "string option option"
  ue_raises :: "update_point option"

definition slot_line :: "slot \<Rightarrow> string" where
  "slot_line s = ''SLOT:'' @ slot_name s"

definition say :: "update_env \<Rightarrow> string \<Rightarrow> string" where
  "say env out = (if ue_detect env = RanHeard then out else [])"

definition detect :: "update_env \<Rightarrow> echo_device \<Rightarrow> string \<times> echo_device" where
  "detect env d =
     (if ue_detect env = NotRun then ([], d)
      else case entry d of
        LinkTo s \<Rightarrow> (say env (slot_line s), d)
      | PlainFile b \<Rightarrow>
          if ue_copy_ok env
          then (say env ''SLOT:server_a MIGRATED'', d\<lparr>slots := (slots d)(SlotA := Some b), entry := LinkTo SlotA\<rparr>)
          else (say env ''MIGRATE_FAILED'', d\<lparr>slots := (slots d)(SlotA := ue_copied env)\<rparr>))"

definition transfer_slot ::
  "(bytes \<Rightarrow> string) \<Rightarrow> update_env \<Rightarrow> bytes \<Rightarrow> slot \<Rightarrow> echo_device \<Rightarrow> transfer_result \<times> echo_device" where
  "transfer_slot md5 env binary s d =
     (let (r, f) = stream_file md5 True (ue_transfer env) (''/data/local/bin/'' @ slot_name s @ ''.part'') binary
                     \<lparr>df_dest = slots d s, df_part = parts d s\<rparr> in
      (r, d\<lparr>slots := (slots d)(s := df_dest f), parts := (parts d)(s := df_part f)\<rparr>))"

definition deploy_to ::
  "(bytes \<Rightarrow> string) \<Rightarrow> (bytes \<Rightarrow> bool) \<Rightarrow> update_env \<Rightarrow> bytes \<Rightarrow> slot \<Rightarrow> echo_device
   \<Rightarrow> (ota_error + slot) \<times> echo_device" where
  "deploy_to md5 works env binary s d =
     (if ue_raises env = Some AtTransfer then (Inl OtaException, d)
      else let (r, d') = transfer_slot md5 env binary s d in
        case r of
          Failed st \<Rightarrow> (Inl (TransferFailed st), d')
        | _ \<Rightarrow>
            if ue_raises env = Some AtFlip then (Inl OtaException, d')
            else (Inr s, if ue_flip env then flip works s d' else d'))"

definition deploy ::
  "(bytes \<Rightarrow> string) \<Rightarrow> (bytes \<Rightarrow> bool) \<Rightarrow> update_env \<Rightarrow> bytes \<Rightarrow> echo_device
   \<Rightarrow> (ota_error + slot) \<times> echo_device" where
  "deploy md5 works env binary d =
     (if ue_raises env = Some AtDetect then (Inl OtaException, d)
      else let (out, d1) = detect env d in
        if occurs_in ''MIGRATE_FAILED'' out then (Inl MigrationFailed, d1)
        else case find_slot (py_lines out) of
          Inl e \<Rightarrow> (Inl e, d1)
        | Inr None \<Rightarrow> (Inl NoActiveSlot, d1)
        | Inr (Some a) \<Rightarrow>
            if ue_raises env = Some AtSpace then (Inl OtaException, d1)
            else case space_error binary (ue_df env) of
              Some e \<Rightarrow> (Inl e, d1)
            | None \<Rightarrow> deploy_to md5 works env binary (other_slot a) d1)"

section \<open>The update\<close>

record ota =
  dev :: echo_device
  fw_ver :: "string option"
  fw_prev :: "string option"
  upd_error :: "ota_error option"
  upd_running :: bool
  sup_log_wanted :: bool

datatype ota_event =
    DeviceUpdated string
  | DeviceUpdateFailed ota_error
  | DeviceAutoRolledBack "string option"
  | DeviceRolledBack string

text \<open>\<open>_monitor_reconnect\<close>: the first poll with the expected version, or with another than the previous one.\<close>

fun monitor :: "string \<Rightarrow> string option \<Rightarrow> string option option list \<Rightarrow> bool" where
  "monitor expected previous [] \<longleftrightarrow> False"
| "monitor expected previous (None # ps) \<longleftrightarrow> monitor expected previous ps"
| "monitor expected previous (Some v # ps) \<longleftrightarrow>
     v = Some expected \<or> (previous \<noteq> None \<and> v \<noteq> previous) \<or> monitor expected previous ps"

definition update_failed :: "ota_error \<Rightarrow> ota \<Rightarrow> ota \<times> ota_event list" where
  "update_failed e s = (s\<lparr>upd_error := Some e\<rparr>, [DeviceUpdateFailed e])"

definition final_version :: "update_env \<Rightarrow> string option" where
  "final_version env = (case ue_final env of None \<Rightarrow> Some ''unknown'' | Some v \<Rightarrow> v)"

definition report_update :: "update_env \<Rightarrow> string \<Rightarrow> string option \<Rightarrow> ota \<Rightarrow> ota \<times> ota_event list" where
  "report_update env version current s =
     (if monitor version current (ue_polls env)
      then (s\<lparr>upd_error := None\<rparr>, [DeviceUpdated version])
      else let v = final_version env in
        if v = current
        then (s\<lparr>fw_prev := None, upd_error := Some (AutoRollback v), sup_log_wanted := True\<rparr>, [DeviceAutoRolledBack v])
        else (s\<lparr>upd_error := Some (TimedOut v), sup_log_wanted := True\<rparr>, [DeviceUpdateFailed (TimedOut v)]))"

definition start_attempt :: "ota \<Rightarrow> ota" where
  "start_attempt s = s\<lparr>upd_running := True, upd_error := None\<rparr>"

definition finish_attempt :: "ota \<times> ota_event list \<Rightarrow> ota \<times> ota_event list" where
  "finish_attempt r = ((fst r)\<lparr>upd_running := False\<rparr>, snd r)"

definition update_body ::
  "(bytes \<Rightarrow> string) \<Rightarrow> (bytes \<Rightarrow> bool) \<Rightarrow> update_env \<Rightarrow> string \<Rightarrow> ota \<Rightarrow> ota \<times> ota_event list" where
  "update_body md5 works env version s =
     (case ue_fetched env of
        None \<Rightarrow> update_failed FetchFailed s
      | Some binary \<Rightarrow>
          (let s1 = s\<lparr>fw_prev := fw_ver s\<rparr> in
           if \<not> ue_live env then update_failed Offline s1
           else case deploy md5 works env binary (dev s1) of
             (Inl e, d) \<Rightarrow> update_failed e (s1\<lparr>dev := d\<rparr>)
           | (Inr _, d) \<Rightarrow>
               if ue_raises env = Some AtMonitor then update_failed OtaException (s1\<lparr>dev := d\<rparr>)
               else report_update env version (fw_ver s) (s1\<lparr>dev := d\<rparr>)))"

definition run_update ::
  "(bytes \<Rightarrow> string) \<Rightarrow> (bytes \<Rightarrow> bool) \<Rightarrow> update_env \<Rightarrow> string \<Rightarrow> ota \<Rightarrow> ota \<times> ota_event list" where
  "run_update md5 works env version s = finish_attempt (update_body md5 works env version (start_attempt s))"

section \<open>The rollback\<close>

definition look_up_slot :: "update_env \<Rightarrow> echo_device \<Rightarrow> string" where
  "look_up_slot env d =
     (if ue_detect env = NotRun then []
      else say env (case entry d of LinkTo s \<Rightarrow> slot_line s | PlainFile _ \<Rightarrow> ''SLOT_UNKNOWN''))"

definition rollback_body :: "(bytes \<Rightarrow> bool) \<Rightarrow> update_env \<Rightarrow> string \<Rightarrow> ota \<Rightarrow> ota \<times> ota_event list" where
  "rollback_body works env target s =
     (if \<not> ue_live env then update_failed Offline s
      else if ue_raises env = Some AtDetect then update_failed OtaException s
      else case find_slot (py_lines (look_up_slot env (dev s))) of
        Inl e \<Rightarrow> update_failed e s
      | Inr None \<Rightarrow> update_failed NoActiveSlot s
      | Inr (Some a) \<Rightarrow>
          if ue_raises env = Some AtFlip then update_failed OtaException s
          else let s1 = (if ue_flip env then s\<lparr>dev := flip works (other_slot a) (dev s)\<rparr> else s) in
            if ue_raises env = Some AtMonitor then update_failed OtaException s1
            else if monitor target (fw_ver s) (ue_polls env)
            then (s1\<lparr>upd_error := None, fw_prev := None\<rparr>, [DeviceRolledBack target])
            else update_failed NoReconnect s1)"

definition run_rollback :: "(bytes \<Rightarrow> bool) \<Rightarrow> update_env \<Rightarrow> string \<Rightarrow> ota \<Rightarrow> ota \<times> ota_event list" where
  "run_rollback works env target s = finish_attempt (rollback_body works env target (start_attempt s))"

text \<open>The endpoints, for a device that has a row.\<close>

datatype ota_refusal = NoRollbackAvailable | DeviceOffline | UpdateInProgress

definition post_device_update :: "bool \<Rightarrow> ota \<Rightarrow> ota_refusal + unit" where
  "post_device_update live s =
     (if \<not> live then Inl DeviceOffline
      else if upd_running s then Inl UpdateInProgress
      else Inr ())"

definition post_device_rollback :: "bool \<Rightarrow> ota \<Rightarrow> ota_refusal + string" where
  "post_device_rollback live s =
     (case fw_prev s of
        None \<Rightarrow> Inl NoRollbackAvailable
      | Some v \<Rightarrow>
          if v = [] then Inl NoRollbackAvailable
          else if \<not> live then Inl DeviceOffline
          else if upd_running s then Inl UpdateInProgress
          else Inr v)"

section \<open>A device always has a server to run\<close>

lemma other_other [simp]: "other_slot (other_slot s) = s" "other_slot s \<noteq> s" "s \<noteq> other_slot s"
  by (cases s; simp)+

definition serving :: "(bytes \<Rightarrow> bool) \<Rightarrow> bytes \<Rightarrow> echo_device \<Rightarrow> bool" where
  "serving works b d \<longleftrightarrow> entry_file d = Some b \<and> running d = Some b \<and> works b"

lemma boot_works: "entry_file d = Some b \<Longrightarrow> works b \<Longrightarrow> boot works d = d\<lparr>running := Some b\<rparr>"
  by (simp add: boot_def lifetimes_def)

lemma dead_server: "\<not> opt_holds works (entry_file d) \<Longrightarrow> supervise d 0 (lifetimes works d) = fall_back d"
  unfolding lifetimes_def by (auto simp: MAX_ATTEMPTS_def MIN_RUNTIME_def numeral_3_eq_3)

lemma boot_falls_back:
  assumes "entry d = LinkTo s" "\<not> opt_holds works (slots d s)" "slots d (other_slot s) = Some c" "works c"
  shows "boot works d = d\<lparr>entry := LinkTo (other_slot s), running := Some c\<rparr>"
proof -
  have "\<not> opt_holds works (entry_file d)" using assms(1,2) by (simp add: entry_file_def)
  then have "supervise d 0 (lifetimes works d) = FellBack (other_slot s)"
    using assms(1,3) by (simp add: dead_server fall_back_def)
  then show ?thesis using assms(3,4) by (simp add: boot_def Let_def lifetimes_def entry_file_def)
qed

text \<open>Flipping to a slot while the other one holds a binary that works.\<close>

lemma flip_serves:
  assumes "slots d (other_slot s) = Some c" "works c"
  shows "if opt_holds works (slots d s) then \<exists>b. slots d s = Some b \<and> serving works b (flip works s d)
    else serving works c (flip works s d)"
  using assms
  by (auto simp: flip_def boot_works boot_falls_back entry_file_def serving_def)

lemma flipped_slots: "slots (flip works s d) = slots d"
  by (simp add: flip_def boot_def Let_def split: supervised.split)

lemma slot_found [simp]: "find_slot (py_lines (slot_line s)) = Inr (Some s)"
proof (cases s)
  case SlotA
  show ?thesis unfolding SlotA by code_simp
next
  case SlotB
  show ?thesis unfolding SlotB by code_simp
qed

lemma migrated_found [simp]: "find_slot (py_lines ''SLOT:server_a MIGRATED'') = Inr (Some SlotA)"
  by code_simp

lemma nothing_found [simp]: "find_slot (py_lines []) = Inr None"
  by code_simp

definition detect_ok :: "(bytes \<Rightarrow> bool) \<Rightarrow> bytes \<Rightarrow> string \<times> echo_device \<Rightarrow> bool" where
  "detect_ok works cur r \<longleftrightarrow> serving works cur (snd r) \<and>
     (fst r = [] \<or> occurs_in ''MIGRATE_FAILED'' (fst r) \<or>
      (case entry (snd r) of LinkTo a \<Rightarrow> find_slot (py_lines (fst r)) = Inr (Some a) | PlainFile _ \<Rightarrow> False))"

lemma detect_keeps: "serving works cur d \<Longrightarrow> detect_ok works cur (detect env d)"
  by (auto simp: detect_def detect_ok_def serving_def entry_file_def say_def split: server_entry.splits)

lemma transfer_slot_cases:
  assumes "collision_free md5 binary (te_landed (ue_transfer env))"
  shows "case transfer_slot md5 env binary s d of (r, d') \<Rightarrow>
    (entry d' = entry d \<and> running d' = running d \<and> (\<forall>t. t \<noteq> s \<longrightarrow> slots d' t = slots d t)) \<and>
    (slots d' s = slots d s \<or> slots d' s = Some binary) \<and> (transferred_ok r \<longrightarrow> slots d' s = Some binary)"
  using stream_kept [OF assms]
  by (auto simp: transfer_slot_def Let_def dest_kept_def split: prod.split)
    (metis device_file.select_convs(1) prod.sel)+


definition serves_one_of :: "(bytes \<Rightarrow> bool) \<Rightarrow> bytes \<Rightarrow> bytes \<Rightarrow> echo_device \<Rightarrow> bool" where
  "serves_one_of works cur binary d \<longleftrightarrow> serving works cur d \<or> serving works binary d"

lemma deploy_to_serves:
  assumes "collision_free md5 binary (te_landed (ue_transfer env))" and "serving works cur d" "entry d = LinkTo a"
  shows "serves_one_of works cur binary (snd (deploy_to md5 works env binary (other_slot a) d))"
proof -
  obtain r d' where t: "transfer_slot md5 env binary (other_slot a) d = (r, d')" by fastforce
  with transfer_slot_cases [OF assms(1), where s = "other_slot a" and d = d]
  have d': "entry d' = entry d" "running d' = running d" "slots d' a = slots d a"
    and ok: "transferred_ok r \<longrightarrow> slots d' (other_slot a) = Some binary" by auto
  have cur: "slots d a = Some cur" "works cur" using assms(2,3) by (auto simp: serving_def entry_file_def)
  have kept: "serving works cur d'" using d' assms(2,3) by (simp add: serving_def entry_file_def)
  have "transferred_ok r \<longrightarrow> serves_one_of works cur binary (flip works (other_slot a) d')"
    using flip_serves [of d' "other_slot a" cur works] cur d' ok
    by (auto simp: serves_one_of_def split: if_splits)
  with t kept assms(2) show ?thesis
    by (auto simp: deploy_to_def serves_one_of_def transferred_ok_def split: transfer_result.split)
qed

lemma deploy_serves:
  assumes "collision_free md5 binary (te_landed (ue_transfer env))" and "serving works cur d"
  shows "serves_one_of works cur binary (snd (deploy md5 works env binary d))"
proof -
  obtain out d1 where o: "detect env d = (out, d1)" by fastforce
  with detect_keeps [OF assms(2), of env] have d1: "serving works cur d1"
    and out: "out = [] \<or> occurs_in ''MIGRATE_FAILED'' out \<or>
      (\<exists>a. entry d1 = LinkTo a \<and> find_slot (py_lines out) = Inr (Some a))"
    by (auto simp: detect_ok_def split: server_entry.splits)
  have stays: "serves_one_of works cur binary d" "serves_one_of works cur binary d1"
    using assms(2) d1 by (auto simp: serves_one_of_def)
  from out show ?thesis
  proof (elim disjE exE conjE)
    fix a assume "entry d1 = LinkTo a" "find_slot (py_lines out) = Inr (Some a)"
    with deploy_to_serves [OF assms(1) d1] stays o show ?thesis
      by (simp add: deploy_def split: option.split)
  qed (use stays o in \<open>simp_all add: deploy_def\<close>)
qed

lemma report_dev [simp]: "dev (fst (report_update env version current s)) = dev s"
  by (simp add: report_update_def Let_def)

lemma finish_dev [simp]: "dev (fst (finish_attempt r)) = dev (fst r)"
  by (simp add: finish_attempt_def)

lemma failed_dev [simp]: "dev (fst (update_failed e s)) = dev s"
  by (simp add: update_failed_def)

lemma update_dev:
  "dev (fst (run_update md5 works env version s)) =
     (case ue_fetched env of
        None \<Rightarrow> dev s
      | Some binary \<Rightarrow> if ue_live env then snd (deploy md5 works env binary (dev s)) else dev s)"
  by (auto simp: run_update_def update_body_def start_attempt_def Let_def split: option.split prod.split sum.split)

text \<open>
  Claim C9: However an update goes - the shell lost, the transfer cut or corrupt, the flip lost, a binary that
  does not start - the device ends up running a server that works, the one it had or the one sent, and
  its link points to it, so it also survives the next restart.
\<close>
theorem device_keeps_a_working_server:
  assumes "serving works cur (dev s)" "ue_fetched env = Some binary"
    and "collision_free md5 binary (te_landed (ue_transfer env))"
    and "d = dev (fst (run_update md5 works env version s))"
  shows "\<exists>b. (b = cur \<or> b = binary) \<and> works b \<and> running d = Some b \<and> entry_file d = Some b \<and> boot works d = d"
proof -
  have "serves_one_of works cur binary d"
    using deploy_serves [OF assms(3,1)] assms(1,2) by (simp add: assms(4) update_dev) (simp add: serves_one_of_def)
  then show ?thesis by (auto simp: serves_one_of_def serving_def boot_works)
qed

section \<open>How an update ends\<close>

definition told :: "ota_error option \<Rightarrow> ota_event list \<Rightarrow> bool" where
  "told e evs \<longleftrightarrow>
     (case e of
        None \<Rightarrow> (case evs of [DeviceUpdated _] \<Rightarrow> True | [DeviceRolledBack _] \<Rightarrow> True | _ \<Rightarrow> False)
      | Some (AutoRollback v) \<Rightarrow> evs = [DeviceAutoRolledBack v]
      | Some e' \<Rightarrow> evs = [DeviceUpdateFailed e'])"

definition ends_told :: "ota \<times> ota_event list \<Rightarrow> bool" where
  "ends_told r \<longleftrightarrow> told (upd_error (fst r)) (snd r)"

lemma ends_told_finish [simp]: "ends_told (finish_attempt r) = ends_told r"
  by (simp add: ends_told_def finish_attempt_def)

lemma ends_told_failed: "(\<forall>v. e \<noteq> AutoRollback v) \<Longrightarrow> ends_told (update_failed e s)"
  by (cases e) (simp_all add: ends_told_def told_def update_failed_def)

lemma find_slot_error: "find_slot ls = Inl e \<Longrightarrow> e = OtaException"
  by (induction ls) (auto split: option.splits list.splits if_splits)

lemma space_error_kind: "space_error b df = Some e \<Longrightarrow> \<exists>x y. e = NoSpace x y"
  by (auto simp: space_error_def split: option.splits if_splits)

lemma deploy_error:
  "deploy md5 works env binary d = (Inl e, d') \<Longrightarrow> e \<noteq> AutoRollback v"
  by (auto simp: deploy_def deploy_to_def Let_def dest!: find_slot_error space_error_kind
      split: prod.splits sum.splits option.splits if_splits transfer_result.splits)

lemma report_told: "ends_told (report_update env version current s)"
  by (simp add: report_update_def Let_def ends_told_def told_def)



section \<open>Two slots, one of them kept\<close>

lemma transfer_slot_frame:
  assumes "transfer_slot md5 env binary s d = (r, d')"
  shows "entry d' = entry d \<and> running d' = running d \<and> slots d' (other_slot s) = slots d (other_slot s)"
  using assms by (auto simp: transfer_slot_def Let_def split: prod.splits)

lemma deploy_linked:
  assumes "entry d = LinkTo a"
  shows "deploy md5 works env binary d = (Inl e, d')
    \<Longrightarrow> entry d' = LinkTo a \<and> slots d' a = slots d a \<and> running d' = running d"
    and "deploy md5 works env binary d = (Inr t, d')
    \<Longrightarrow> t = other_slot a \<and> (\<exists>r d2. transfer_slot md5 env binary t d = (r, d2) \<and> transferred_ok r \<and>
          d' = (if ue_flip env then flip works t d2 else d2))"
  using assms transfer_slot_frame [where s = "other_slot a" and d = d]
  by (auto simp: deploy_def deploy_to_def detect_def say_def transferred_ok_def
      split: prod.splits option.splits if_splits transfer_result.splits)


text \<open>The device after the update's flip went through.\<close>

lemma deployed:
  assumes "deploy md5 works env binary d = (Inr t, d')" "entry d = LinkTo a" "slots d a = Some cur" "works cur"
    and "collision_free md5 binary (te_landed (ue_transfer env))" "ue_flip env"
  shows "slots d' a = Some cur \<and> slots d' (other_slot a) = Some binary \<and>
    (if works binary then entry d' = LinkTo (other_slot a) \<and> running d' = Some binary
     else entry d' = LinkTo a \<and> running d' = Some cur)"
proof -
  from deploy_linked(2) [OF assms(2,1)] obtain r d2
    where t: "t = other_slot a" "transfer_slot md5 env binary t d = (r, d2)" "transferred_ok r" "d' = flip works t d2"
    using assms(6) by auto
  with transfer_slot_cases [OF assms(5), where s = t and d = d] assms(3)
  have d2: "slots d2 a = Some cur" "slots d2 (other_slot a) = Some binary" by auto
  show ?thesis
  proof (cases "works binary")
    case True
    with d2 have "flip works t d2 = d2\<lparr>entry := LinkTo t, running := Some binary\<rparr>"
      by (simp add: flip_def boot_works entry_file_def t(1))
    with True d2 t show ?thesis by simp
  next
    case False
    with d2 assms(4) have "flip works t d2 = d2\<lparr>entry := LinkTo a, running := Some cur\<rparr>"
      by (simp add: flip_def boot_falls_back [where s = "other_slot a"] t(1))
    with False d2 t show ?thesis by simp
  qed
qed

lemma monitor_confirms: "Some v \<in> set ps \<Longrightarrow> v = Some expected \<or> (previous \<noteq> None \<and> v \<noteq> previous) \<Longrightarrow> monitor expected previous ps"
  by (induction expected previous ps rule: monitor.induct) auto

lemma monitor_gives_up: "list_all (\<lambda>p. p = None \<or> p = Some (Some c)) ps \<Longrightarrow> c \<noteq> expected \<Longrightarrow> \<not> monitor expected (Some c) ps"
  by (induction expected "Some c" ps rule: monitor.induct) auto

text \<open>An update past its deployment.\<close>

lemma update_deployed:
  assumes "ue_fetched env = Some binary" "ue_live env" "deploy md5 works env binary (dev s) = (Inr t, d)"
    and "ue_raises env \<noteq> Some AtMonitor"
  shows "run_update md5 works env version s =
    finish_attempt (report_update env version (fw_ver s)
      ((start_attempt s)\<lparr>fw_prev := fw_ver s, dev := d\<rparr>))"
  using assms by (simp add: run_update_def update_body_def start_attempt_def)

lemma rollback_deployed:
  assumes "ue_live env" "ue_detect env = RanHeard" "ue_flip env" "ue_raises env = None" "entry (dev s) = LinkTo a"
    and "monitor target (fw_ver s) (ue_polls env)"
  shows "snd (run_rollback works env target s) = [DeviceRolledBack target]
    \<and> dev (fst (run_rollback works env target s)) = flip works (other_slot a) (dev s)
    \<and> fw_prev (fst (run_rollback works env target s)) = None
    \<and> upd_error (fst (run_rollback works env target s)) = None"
  using assms
  by (simp add: run_rollback_def rollback_body_def look_up_slot_def say_def start_attempt_def finish_attempt_def)

text \<open>
  A good update: once the flip is through and some poll sees the device on the released version, the
  update is reported, the device runs the binary that was sent, and the version before is on record for
  a rollback.
\<close>
theorem good_update_runs_the_new_server:
  assumes "entry (dev s) = LinkTo a" "slots (dev s) a = Some cur" "works cur" "works binary"
    and "ue_fetched env = Some binary" "ue_live env" "ue_raises env = None" "ue_flip env"
    and "deploy md5 works env binary (dev s) = (Inr t, d)"
    and "collision_free md5 binary (te_landed (ue_transfer env))" "Some (Some version) \<in> set (ue_polls env)"
  defines "r \<equiv> run_update md5 works env version s"
  shows "snd r = [DeviceUpdated version] \<and> running (dev (fst r)) = Some binary
    \<and> fw_prev (fst r) = fw_ver s \<and> upd_error (fst r) = None \<and> slots (dev (fst r)) a = Some cur"
proof -
  have m: "monitor version (fw_ver s) (ue_polls env)" by (rule monitor_confirms [OF assms(11)]) simp
  show ?thesis
    using deployed [OF assms(9,1,2,3,10,8)] assms(4-8) m
    by (simp add: r_def update_deployed [OF assms(5,6,9)] report_update_def finish_attempt_def)
qed

text \<open>
  Claim C19: Updating and rolling back is the identity on what runs: after an update whose flip went through and
  was confirmed, the rollback is offered for the version before, and ends with the device on the server
  it had, its link where it was.
\<close>
theorem rollback_returns_the_previous_server:
  assumes "entry (dev s) = LinkTo a" "slots (dev s) a = Some cur" "works cur" "works binary" "fw_ver s = Some v" "v \<noteq> []"
    and "ue_fetched env = Some binary" "ue_live env" "ue_raises env = None" "ue_flip env"
    and "deploy md5 works env binary (dev s) = (Inr t, d)"
    and "collision_free md5 binary (te_landed (ue_transfer env))" "Some (Some version) \<in> set (ue_polls env)"
    and "ue_live env'" "ue_detect env' = RanHeard" "ue_flip env'" "ue_raises env' = None" "Some (Some v) \<in> set (ue_polls env')"
  defines "s1 \<equiv> (fst (run_update md5 works env version s))\<lparr>fw_ver := Some version\<rparr>"
  shows "post_device_rollback True s1 = Inr v
    \<and> snd (run_rollback works env' v s1) = [DeviceRolledBack v]
    \<and> running (dev (fst (run_rollback works env' v s1))) = Some cur
    \<and> entry (dev (fst (run_rollback works env' v s1))) = LinkTo a"
proof -
  have m: "monitor version (fw_ver s) (ue_polls env)" by (rule monitor_confirms [OF assms(13)]) simp
  have s1: "s1 = s\<lparr>dev := d, fw_ver := Some version, fw_prev := Some v, upd_error := None, upd_running := False\<rparr>"
    using m assms(5,9)
    by (simp add: s1_def update_deployed [OF assms(7,8,11)] report_update_def finish_attempt_def start_attempt_def)
  note d = deployed [OF assms(11,1,2,3,12,10)]
  have e: "entry (dev s1) = LinkTo (other_slot a)" using d assms(4) by (simp add: s1)
  have m': "monitor v (fw_ver s1) (ue_polls env')" by (rule monitor_confirms [OF assms(18)]) simp
  have "flip works (other_slot (other_slot a)) (dev s1) = (dev s1)\<lparr>entry := LinkTo a, running := Some cur\<rparr>"
    using d assms(3) by (simp add: flip_def boot_works entry_file_def s1)
  moreover note rollback_deployed [OF assms(14-17) e m', of works]
  ultimately show ?thesis using assms(6) by (simp add: s1 post_device_rollback_def)
qed


section \<open>What can be reported wrongly\<close>

text \<open>
  A failed update arms a rollback that is wrong: the version before is put on record before anything
  is sent and stays there when the update fails, so a rollback is offered to the very version that is
  running; it flips to the older server in the other slot and is confirmed as the version it left.
\<close>
theorem failed_update_arms_a_wrong_rollback:
  fixes version :: string
  assumes "entry (dev s) = LinkTo a" "slots (dev s) a = Some cur" "works cur" "fw_ver s = Some v" "v \<noteq> []"
    and "ue_fetched env = Some binary" "ue_live env" "deploy md5 works env binary (dev s) = (Inl e, d)"
    and "slots d (other_slot a) = Some old" "works old"
    and "ue_live env'" "ue_detect env' = RanHeard" "ue_flip env'" "ue_raises env' = None"
    and "Some (Some v_old) \<in> set (ue_polls env')" "v_old \<noteq> v"
  defines "s1 \<equiv> fst (run_update md5 works env version s)"
  shows "upd_error s1 = Some e \<and> post_device_rollback True s1 = Inr v
    \<and> snd (run_rollback works env' v s1) = [DeviceRolledBack v]
    \<and> running (dev (fst (run_rollback works env' v s1))) = Some old"
proof -
  have s1: "s1 = s\<lparr>dev := d, fw_prev := Some v, upd_error := Some e, upd_running := False\<rparr>"
    using assms(4,6-8)
    by (simp add: s1_def run_update_def update_body_def update_failed_def finish_attempt_def start_attempt_def)
  have link: "entry (dev s1) = LinkTo a" using deploy_linked(1) [OF assms(1,8)] by (simp add: s1)
  have m: "monitor v (fw_ver s1) (ue_polls env')"
    by (rule monitor_confirms [OF assms(15)]) (simp add: s1 assms(4,16))
  have "running (flip works (other_slot a) (dev s1)) = Some old"
    using assms(9,10) by (simp add: flip_def boot_works entry_file_def s1)
  with rollback_deployed [OF assms(11-14) link m, of works] assms(5) show ?thesis
    by (simp add: s1 post_device_rollback_def)
qed

text \<open>
  A confirmed update may have been rolled back: one poll that sees the device on the released version
  (which it reports anyway when the same version is deployed again), or on any other than the one
  before (a binary that crashes just after connecting), confirms it for good, although the supervisor
  has put the device back on the server it had.
\<close>
theorem confirmed_update_may_have_rolled_back:
  assumes "entry (dev s) = LinkTo a" "slots (dev s) a = Some cur" "works cur" "\<not> works binary"
    and "ue_fetched env = Some binary" "ue_live env" "ue_raises env = None" "ue_flip env"
    and "deploy md5 works env binary (dev s) = (Inr t, d)"
    and "collision_free md5 binary (te_landed (ue_transfer env))"
    and "Some v \<in> set (ue_polls env)" "v = Some version \<or> (fw_ver s \<noteq> None \<and> v \<noteq> fw_ver s)"
  defines "r \<equiv> run_update md5 works env version s"
  shows "snd r = [DeviceUpdated version] \<and> upd_error (fst r) = None \<and> running (dev (fst r)) = Some cur"
proof -
  have m: "monitor version (fw_ver s) (ue_polls env)" by (rule monitor_confirms [OF assms(11,12)])
  show ?thesis
    using deployed [OF assms(9,1,2,3,10,8)] assms(4,7) m
    by (simp add: r_def update_deployed [OF assms(5,6,9)] report_update_def finish_attempt_def)
qed

text \<open>
  A flip that never ran is blamed on the binary: the update is reported as rolled back because the new
  binary failed to start, and the version before is taken off the record, although nothing was started
  and the verified binary sits in the other slot.
\<close>
theorem lost_flip_is_blamed_on_the_binary:
  assumes "entry (dev s) = LinkTo a" "running (dev s) = Some cur" "fw_ver s = Some v" "version \<noteq> v"
    and "ue_fetched env = Some binary" "ue_live env" "ue_raises env = None" "\<not> ue_flip env"
    and "deploy md5 works env binary (dev s) = (Inr t, d)"
    and "collision_free md5 binary (te_landed (ue_transfer env))"
    and "list_all (\<lambda>p. p = None \<or> p = Some (Some v)) (ue_polls env)" "ue_final env = Some (Some v)"
  defines "r \<equiv> run_update md5 works env version s"
  shows "snd r = [DeviceAutoRolledBack (Some v)] \<and> upd_error (fst r) = Some (AutoRollback (Some v))
    \<and> fw_prev (fst r) = None \<and> running (dev (fst r)) = Some cur
    \<and> slots (dev (fst r)) (other_slot a) = Some binary"
proof -
  from deploy_linked(2) [OF assms(1,9)] assms(8) obtain q
    where t: "t = other_slot a" "transfer_slot md5 env binary t (dev s) = (q, d)" "transferred_ok q" by auto
  with transfer_slot_cases [OF assms(10), where s = t and d = "dev s"]
  have d: "running d = Some cur" "slots d (other_slot a) = Some binary" using assms(2) by auto
  have "\<not> monitor version (fw_ver s) (ue_polls env)"
    using monitor_gives_up [OF assms(11)] assms(3,4) by simp
  with d assms(3,7,12) show ?thesis
    by (simp add: r_def update_deployed [OF assms(5,6,9)] report_update_def final_version_def finish_attempt_def Let_def)
qed

section \<open>The supervisor\<close>

text \<open>Three runs in a row shorter than the minimum.\<close>

fun three_fast :: "nat list \<Rightarrow> bool" where
  "three_fast (x # y # z # ts) \<longleftrightarrow> (x < MIN_RUNTIME \<and> y < MIN_RUNTIME \<and> z < MIN_RUNTIME) \<or> three_fast (y # z # ts)"
| "three_fast _ \<longleftrightarrow> False"

lemma three_fast_slow: "MIN_RUNTIME \<le> t \<Longrightarrow> three_fast (t # ts) = three_fast ts"
  by (cases "t # ts" rule: three_fast.cases) auto

lemma three_fast_broken: "MIN_RUNTIME \<le> t \<Longrightarrow> three_fast (x # t # ts) = three_fast ts"
  by (cases ts) (simp_all add: three_fast_slow)

lemma three_fast_broken2: "MIN_RUNTIME \<le> t \<Longrightarrow> three_fast (x # y # t # ts) = three_fast ts"
  by (simp add: three_fast_broken)

lemma three_fast_zero: "t < MIN_RUNTIME \<Longrightarrow> three_fast (t # ts) = three_fast (0 # ts)"
  by (cases "t # ts" rule: three_fast.cases) (auto simp: MIN_RUNTIME_def)

lemma three_fast_zero2: "t < MIN_RUNTIME \<Longrightarrow> three_fast (x # t # ts) = three_fast (x # 0 # ts)"
  using three_fast_zero [of t ts] by (cases ts) (simp_all add: MIN_RUNTIME_def)

lemma supervise_from:
  "n < MAX_ATTEMPTS \<Longrightarrow>
     (if three_fast (replicate n 0 @ ts) then supervise d n ts = fall_back d
      else \<exists>k. supervise d n ts = Serving k \<and> k < MAX_ATTEMPTS)"
proof (induction d n ts rule: supervise.induct)
  case (1 d n)
  then have "n = 0 \<or> n = 1 \<or> n = 2" by (auto simp: MAX_ATTEMPTS_def)
  with 1 show ?case by (auto simp: numeral_2_eq_2)
next
  case (2 d n t ts)
  then have n: "n = 0 \<or> n = 1 \<or> n = 2" by (auto simp: MAX_ATTEMPTS_def)
  show ?case
  proof (cases "MIN_RUNTIME \<le> t")
    case True
    with 2 n show ?thesis
      by (auto simp: three_fast_slow three_fast_broken three_fast_broken2 numeral_2_eq_2 MAX_ATTEMPTS_def
          simp del: three_fast.simps split: if_splits)
  next
    case False
    then have "t < MIN_RUNTIME" by simp
    with 2 n show ?thesis
      by (auto simp: numeral_2_eq_2 MAX_ATTEMPTS_def three_fast_zero [of t] three_fast_zero2 [of t] split: if_splits)
  qed
qed


text \<open>
  The retry loop falls back exactly when three runs in a row were shorter than the minimum, whatever
  came before and after; otherwise the server stays up, with fewer than three failures counted.
\<close>
theorem fallback_after_three_fast_exits:
  "if three_fast ts then supervise d 0 ts = fall_back d
   else case supervise d 0 ts of Serving k \<Rightarrow> k < MAX_ATTEMPTS | _ \<Rightarrow> False"
  using supervise_from [of 0 ts d] by (auto simp: MAX_ATTEMPTS_def)

section \<open>Examples\<close>

text \<open>A device on its first slot with an older server in the second; a binary is its version, and \<open>[0]\<close> does not start.\<close>

definition example_device :: echo_device where
  "example_device =
     \<lparr>entry = LinkTo SlotA, slots = (\<lambda>s. case s of SlotA \<Rightarrow> Some [2] | SlotB \<Rightarrow> Some [1]),
      parts = (\<lambda>_. None), running = Some [2]\<rparr>"

definition example_ota :: ota where
  "example_ota =
     \<lparr>dev = example_device, fw_ver = Some ''v2'', fw_prev = None, upd_error = None, upd_running = False,
      sup_log_wanted = False\<rparr>"

definition boots_up :: "bytes \<Rightarrow> bool" where
  "boots_up b \<longleftrightarrow> b \<noteq> [0]"

definition update_of :: "bytes \<Rightarrow> string \<Rightarrow> update_env" where
  "update_of binary seen =
     \<lparr>ue_fetched = Some binary, ue_live = True, ue_detect = RanHeard, ue_copied = None, ue_copy_ok = True,
      ue_df = ''FREE 1010 648 346 65% /data'', ue_transfer = good_transfer binary, ue_flip = True,
      ue_polls = [None, Some (Some seen)], ue_final = Some (Some seen), ue_raises = None\<rparr>"


lemma deploys: "fst (deploy md5 works env b d) = r \<Longrightarrow> deploy md5 works env b d = (r, snd (deploy md5 works env b d))"
  by (metis prod.collapse)

lemma example_facts [simp]:
  "entry (dev example_ota) = LinkTo SlotA" "slots (dev example_ota) SlotA = Some [2]"
  "slots (dev example_ota) SlotB = Some [1]" "running (dev example_ota) = Some [2]" "fw_ver example_ota = Some ''v2''"
  by (simp_all add: example_ota_def example_device_def)

lemma update_of_facts [simp]:
  "ue_fetched (update_of b v) = Some b" "ue_live (update_of b v)" "ue_raises (update_of b v) = None"
  "ue_flip (update_of b v)" "ue_detect (update_of b v) = RanHeard" "ue_transfer (update_of b v) = good_transfer b"
  "ue_df (update_of b v) = ''FREE 1010 648 346 65% /data''" "ue_polls (update_of b v) = [None, Some (Some v)]" "ue_final (update_of b v) = Some (Some v)"
  by (simp_all add: update_of_def)

lemma toy_collision_free [simp]: "collision_free toy_md5 b (te_landed (good_transfer b))"
  by (simp add: collision_free_def good_transfer_def toy_md5_def)

lemma example_space: "free_mb_of (py_lines ''FREE 1010 648 346 65% /data'') = Some 346"
  "free_mb_of (py_lines ''FREE 1010 1008 2 99% /data'') = Some 2"
  by code_simp+

lemma no_migration [simp]: "\<not> occurs_in ''MIGRATE_FAILED'' (slot_line SlotA)"
  by code_simp

lemma update_of_transfers:
  "ue_transfer env = good_transfer b \<Longrightarrow>
     fst (transfer_slot toy_md5 env b s d) = Verified"
  by (simp add: transfer_slot_def good_transfer_verifies toy_md5_def)

lemma update_of_deploys:
  assumes "ue_transfer env = good_transfer b" "ue_detect env = RanHeard" "ue_raises env = None"
    and "ue_df env = ''FREE 1010 648 346 65% /data''" "length b < 100"
  shows "fst (deploy toy_md5 boots_up env b (dev example_ota)) = Inr SlotB"
proof -
  have "need_mb b = 8" using assms(5) by (simp add: need_mb_def)
  then have "space_error b (ue_df env) = None" by (simp add: space_error_def assms(4) example_space)
  then show ?thesis
    using assms update_of_transfers [of env b SlotB "dev example_ota"]
    by (auto simp: deploy_def deploy_to_def detect_def say_def split: prod.split)
qed

lemma device_keeps_a_working_server_witness:
  "\<exists>b. (b = [2] \<or> b = [0]) \<and> boots_up b \<and> running (dev (fst (run_update toy_md5 boots_up (update_of [0] ''v3'') ''v3'' example_ota))) = Some b"
proof -
  have "serving boots_up [2] (dev example_ota)" by (simp add: serving_def entry_file_def boots_up_def)
  from device_keeps_a_working_server [OF this, of "update_of [0] ''v3''" "[0]" toy_md5
      "dev (fst (run_update toy_md5 boots_up (update_of [0] ''v3'') ''v3'' example_ota))" "''v3''"]
  show ?thesis by auto
qed

lemma good_update_runs_the_new_server_witness:
  "snd (run_update toy_md5 boots_up (update_of [3] ''v3'') ''v3'' example_ota) = [DeviceUpdated ''v3'']
   \<and> running (dev (fst (run_update toy_md5 boots_up (update_of [3] ''v3'') ''v3'' example_ota))) = Some [3]"
  using good_update_runs_the_new_server [of example_ota SlotA "[2]" boots_up "[3]" "update_of [3] ''v3''" toy_md5,
      OF _ _ _ _ _ _ _ _ deploys [OF update_of_deploys], of "''v3''"]
  by (simp add: boots_up_def)

lemma rollback_returns_the_previous_server_witness:
  "running (dev (fst (run_rollback boots_up (update_of [3] ''v2'') ''v2''
     ((fst (run_update toy_md5 boots_up (update_of [3] ''v3'') ''v3'' example_ota))\<lparr>fw_ver := Some ''v3''\<rparr>)))) = Some [2]"
  using rollback_returns_the_previous_server [of example_ota SlotA "[2]" boots_up "[3]" "''v2''" "update_of [3] ''v3''" toy_md5,
      OF _ _ _ _ _ _ _ _ _ _ deploys [OF update_of_deploys], of "''v3''" "update_of [3] ''v2''"]
  by (simp add: boots_up_def)

lemma failed_update_arms_a_wrong_rollback_witness:
  "post_device_rollback True (fst (run_update toy_md5 boots_up ((update_of [3] ''v1'')\<lparr>ue_df := ''FREE 1010 1008 2 99% /data''\<rparr>) ''v3'' example_ota))
     = Inr ''v2''"
proof -
  let ?env = "(update_of [3] ''v1'')\<lparr>ue_df := ''FREE 1010 1008 2 99% /data''\<rparr>"
  let ?d = "snd (deploy toy_md5 boots_up ?env [3] (dev example_ota))"
  have d: "deploy toy_md5 boots_up ?env [3] (dev example_ota) = (Inl (NoSpace 2 8), ?d)"
    by (rule deploys)
      (simp add: deploy_def detect_def say_def space_error_def example_space need_mb_def)
  have old: "slots ?d (other_slot SlotA) = Some [1]"
    by (simp add: deploy_def detect_def say_def space_error_def example_space need_mb_def)
  show ?thesis
    using failed_update_arms_a_wrong_rollback [of example_ota SlotA "[2]" boots_up "''v2''" ?env "[3]" toy_md5,
        OF _ _ _ _ _ _ _ d old, of "update_of [3] ''v1''" "''v1''" "''v3''"]
    by (simp add: boots_up_def)
qed

lemma confirmed_update_may_have_rolled_back_witness:
  "snd (run_update toy_md5 boots_up (update_of [0] ''v2'') ''v2'' example_ota) = [DeviceUpdated ''v2'']
   \<and> running (dev (fst (run_update toy_md5 boots_up (update_of [0] ''v2'') ''v2'' example_ota))) = Some [2]"
proof -
  have d: "deploy toy_md5 boots_up (update_of [0] ''v2'') [0] (dev example_ota)
      = (Inr SlotB, snd (deploy toy_md5 boots_up (update_of [0] ''v2'') [0] (dev example_ota)))"
    by (intro deploys update_of_deploys) simp_all
  show ?thesis
    using confirmed_update_may_have_rolled_back [of example_ota SlotA "[2]" boots_up "[0]" "update_of [0] ''v2''" toy_md5,
        OF _ _ _ _ _ _ _ _ d, of "Some ''v2''" "''v2''"]
    by (simp add: boots_up_def)
qed

lemma lost_flip_is_blamed_on_the_binary_witness:
  "snd (run_update toy_md5 boots_up ((update_of [3] ''v2'')\<lparr>ue_flip := False\<rparr>) ''v3'' example_ota)
     = [DeviceAutoRolledBack (Some ''v2'')]"
proof -
  let ?env = "(update_of [3] ''v2'')\<lparr>ue_flip := False\<rparr>"
  have d: "deploy toy_md5 boots_up ?env [3] (dev example_ota) = (Inr SlotB, snd (deploy toy_md5 boots_up ?env [3] (dev example_ota)))"
    by (intro deploys update_of_deploys) simp_all
  show ?thesis
    using lost_flip_is_blamed_on_the_binary [of example_ota SlotA "[2]" "''v2''" "''v3''" ?env "[3]" toy_md5 boots_up,
        OF _ _ _ _ _ _ _ _ d]
    by simp
qed

end
