(* ===== verification/FirmwareCache.thy ===== *)
theory FirmwareCache
  imports Prelude
begin

text \<open>
  The cache of downloaded firmware: \<open>controller/em_firmware.py\<close>, and \<open>_fetch_binary\<close> of
  \<open>controller/em_api.py\<close> that reads and fills it.

  The directory is a list of files, each with its bytes and modification time. Every way a call of the
  file system fails is an argument, and so is the point at which a write dies with the process. The
  digest \<open>md5\<close> and the decoding of a text file are functions.
\<close>

section \<open>The directory\<close>

type_synonym fw_dir = "(string \<times> (bytes \<times> nat)) list"

definition is_file :: "fw_dir \<Rightarrow> string \<Rightarrow> bool" where
  "is_file d f \<longleftrightarrow> map_of d f \<noteq> None"

definition tag_char :: "char \<Rightarrow> bool" where
  "tag_char c \<longleftrightarrow> is_alnum c \<or> c \<in> set ''_.+-''"

definition safe_version :: "string \<Rightarrow> string option" where
  "safe_version v =
     (case v of
        [] \<Rightarrow> None
      | c # cs \<Rightarrow> if is_alnum c \<and> list_all tag_char cs \<and> length cs \<le> 63 then Some v else None)"

definition server_name :: "string \<Rightarrow> string" where
  "server_name v = ''server-'' @ v"

definition cache_path :: "string \<Rightarrow> string option" where
  "cache_path v = map_option server_name (safe_version v)"

definition sidecar :: "string \<Rightarrow> string \<Rightarrow> string" where
  "sidecar path ext = path @ ext"

definition text_bytes :: "string \<Rightarrow> bytes" where
  "text_bytes = map (\<lambda>c. of_nat (of_char c))"

section \<open>Reading\<close>

datatype read_outcome = Raised | Miss | Hit bytes

record read_env =
  re_readable :: bool
  re_unlinks :: "string \<Rightarrow> bool"
  re_now :: nat

definition unlink_if :: "bool \<Rightarrow> string \<Rightarrow> fw_dir \<Rightarrow> fw_dir" where
  "unlink_if can f d = (if can then pop f d else d)"

definition fw_lookup ::
  "(bytes \<Rightarrow> string) \<Rightarrow> (bytes \<Rightarrow> string option) \<Rightarrow> read_env \<Rightarrow> string \<Rightarrow> bytes \<Rightarrow> bytes \<Rightarrow> fw_dir \<Rightarrow> read_outcome \<times> fw_dir" where
  "fw_lookup md5 decode env path data digest d =
     (case decode digest of
        None \<Rightarrow> (Raised, d)
      | Some t \<Rightarrow>
          (let want = py_strip t in
           if want = [] \<or> md5 data \<noteq> want
           then (Miss, unlink_if (re_unlinks env (sidecar path ''.md5'')) (sidecar path ''.md5'')
                  (unlink_if (re_unlinks env path) path d))
           else (Hit data, put path (data, re_now env) d)))"

definition fw_read ::
  "(bytes \<Rightarrow> string) \<Rightarrow> (bytes \<Rightarrow> string option) \<Rightarrow> read_env \<Rightarrow> string \<Rightarrow> fw_dir \<Rightarrow> read_outcome \<times> fw_dir" where
  "fw_read md5 decode env v d =
     (case cache_path v of
        None \<Rightarrow> (Miss, d)
      | Some path \<Rightarrow>
          (case (map_of d path, map_of d (sidecar path ''.md5'')) of
             (Some (data, _), Some (digest, _)) \<Rightarrow>
               if re_readable env then fw_lookup md5 decode env path data digest d else (Miss, d)
           | _ \<Rightarrow> (Miss, d)))"

section \<open>Pruning\<close>

definition KEEP_RELEASES :: nat where "KEEP_RELEASES = 2"

definition cached_binary :: "string \<Rightarrow> bool" where
  "cached_binary f \<longleftrightarrow> startswith f ''server-'' \<and> \<not> endswith f ''.md5'' \<and> \<not> endswith f ''.part''"

definition cached_entries :: "fw_dir \<Rightarrow> (string \<times> (bytes \<times> nat)) list" where
  "cached_entries d = sort_key (\<lambda>(f, data, mtime). - int mtime) (filter (cached_binary \<circ> fst) d)"

fun drop_entries :: "(string \<Rightarrow> bool) \<Rightarrow> (string \<times> (bytes \<times> nat)) list \<Rightarrow> fw_dir \<Rightarrow> string list \<times> fw_dir" where
  "drop_entries can [] d = ([], d)"
| "drop_entries can ((f, _) # es) d =
     (let d' = (if can f then pop (sidecar f ''.md5'') (pop f d) else d);
          (removed, d'') = drop_entries can es d' in
      (if can f then f # removed else removed, d''))"

definition prune :: "(string \<Rightarrow> bool) \<Rightarrow> nat \<Rightarrow> fw_dir \<Rightarrow> string list \<times> fw_dir" where
  "prune can keep d = drop_entries can (drop keep (cached_entries d)) d"

section \<open>Writing\<close>

text \<open>Where a write stops, and whether by an \<open>OSError\<close>, which is caught, or with the process.\<close>

datatype write_point = AtMkdir | AtPart bytes | AtDigest bytes | AtReplace

datatype write_end = Done | OsError write_point | Dies write_point

record write_env =
  we_end :: write_end
  we_unlinks :: "string \<Rightarrow> bool"
  we_now :: nat

definition write_files ::
  "(bytes \<Rightarrow> string) \<Rightarrow> write_point option \<Rightarrow> nat \<Rightarrow> string \<Rightarrow> bytes \<Rightarrow> fw_dir \<Rightarrow> fw_dir" where
  "write_files md5 stop now path data d =
     (let part = sidecar path ''.part''; digest = sidecar path ''.md5'';
          d1 = put part (data, now) d;
          d2 = put digest (text_bytes (md5 data), now) d1 in
      case stop of
        Some AtMkdir \<Rightarrow> d
      | Some (AtPart b) \<Rightarrow> put part (b, now) d
      | Some (AtDigest b) \<Rightarrow> put digest (b, now) d1
      | Some AtReplace \<Rightarrow> d2
      | None \<Rightarrow> put path (data, now) (pop part d2))"

definition fw_write :: "(bytes \<Rightarrow> string) \<Rightarrow> write_env \<Rightarrow> string \<Rightarrow> bytes \<Rightarrow> fw_dir \<Rightarrow> bool \<times> fw_dir" where
  "fw_write md5 env v data d =
     (case cache_path v of
        None \<Rightarrow> (False, d)
      | Some path \<Rightarrow>
          if data = [] then (False, d)
          else case we_end env of
            Done \<Rightarrow> (True, snd (prune (we_unlinks env) KEEP_RELEASES (write_files md5 None (we_now env) path data d)))
          | OsError p \<Rightarrow>
              (False, unlink_if (we_unlinks env (sidecar path ''.part'')) (sidecar path ''.part'')
                        (write_files md5 (Some p) (we_now env) path data d))
          | Dies p \<Rightarrow> (False, write_files md5 (Some p) (we_now env) path data d))"

section \<open>Fetching\<close>

text \<open>\<open>_fetch_binary\<close>: \<open>None\<close> when the call raises; otherwise what it returns.\<close>

definition fetch_binary ::
  "(bytes \<Rightarrow> string) \<Rightarrow> (bytes \<Rightarrow> string option) \<Rightarrow> read_env \<Rightarrow> write_env \<Rightarrow> bytes option \<Rightarrow> string \<Rightarrow> fw_dir
   \<Rightarrow> bytes option option \<times> fw_dir" where
  "fetch_binary md5 decode renv wenv download v d =
     (let (r, d1) = (if v = [] then (Miss, d) else fw_read md5 decode renv v d) in
      case r of
        Raised \<Rightarrow> (None, d1)
      | Hit data \<Rightarrow> (Some (Some data), d1)
      | Miss \<Rightarrow>
          (case download of
             None \<Rightarrow> (Some None, d1)
           | Some data \<Rightarrow>
               (Some (Some data), if v \<noteq> [] \<and> data \<noteq> [] then snd (fw_write md5 wenv v data d1) else d1)))"


section \<open>Names\<close>

text \<open>Versions whose file is not taken for a companion of another one's.\<close>

definition plain_version :: "string \<Rightarrow> bool" where
  "plain_version v \<longleftrightarrow> cached_binary (server_name v)"

definition digest_of :: "string \<Rightarrow> string" where
  "digest_of v = sidecar (server_name v) ''.md5''"

lemma cache_path_name: "cache_path v = Some path \<Longrightarrow> path = server_name v"
  by (auto simp: cache_path_def safe_version_def split: list.splits if_splits)

lemma sidecar_md5: "sidecar (server_name v) ''.md5'' = digest_of v"
  by (simp add: digest_of_def)

lemma digest_inj [simp]: "digest_of v = digest_of w \<longleftrightarrow> v = w"
  by (simp add: digest_of_def sidecar_def server_name_def)

lemma part_not_digest: "sidecar path ''.part'' \<noteq> digest_of w"
proof
  assume "sidecar path ''.part'' = digest_of w"
  then have "rev (path @ ''.part'') = rev (server_name w @ ''.md5'')" by (simp add: sidecar_def digest_of_def)
  then show False by simp
qed

lemma cached_not_digest: "cached_binary f \<Longrightarrow> f \<noteq> digest_of w"
  by (auto simp: cached_binary_def digest_of_def sidecar_def)

lemma cached_not_sidecar: "cached_binary f \<Longrightarrow> f \<noteq> sidecar g ''.md5''"
  by (auto simp: cached_binary_def sidecar_def)

lemma part_not_cached: "\<not> cached_binary (sidecar g ''.part'')"
  by (simp add: cached_binary_def sidecar_def)

section \<open>What a hit returns\<close>

text \<open>
  \<open>W\<close> is what is ever written, by version. A digest file holds the digest of something written for its
  version, cut short where a write stopped.
\<close>

definition digests_ok :: "(bytes \<Rightarrow> string) \<Rightarrow> (string \<times> bytes) list \<Rightarrow> fw_dir \<Rightarrow> bool" where
  "digests_ok md5 W d \<longleftrightarrow>
     (\<forall>v s m. map_of d (digest_of v) = Some (s, m) \<longrightarrow>
        (\<exists>data n. (v, data) \<in> set W \<and> s = take n (text_bytes (md5 data))))"

lemma digests_ok_le: "digests_ok md5 W d \<Longrightarrow> map_of d' \<subseteq>\<^sub>m map_of d \<Longrightarrow> digests_ok md5 W d'"
  unfolding digests_ok_def map_le_def by (metis domIff option.distinct(1))

lemma digests_ok_pop: "digests_ok md5 W d \<Longrightarrow> digests_ok md5 W (pop f d)"
  by (erule digests_ok_le) (simp add: map_le_def)

lemma digests_ok_unlink: "digests_ok md5 W d \<Longrightarrow> digests_ok md5 W (unlink_if can f d)"
  by (simp add: unlink_if_def digests_ok_pop)

lemma digests_ok_put: "digests_ok md5 W d \<Longrightarrow> \<forall>v. f \<noteq> digest_of v \<Longrightarrow> digests_ok md5 W (put f x d)"
  by (auto simp: digests_ok_def)

lemma digests_ok_digest:
  "digests_ok md5 W d \<Longrightarrow> (v, data) \<in> set W \<Longrightarrow> s = take n (text_bytes (md5 data)) \<Longrightarrow>
     digests_ok md5 W (put (digest_of v) (s, now) d)"
  by (auto simp: digests_ok_def)

lemma digests_ok_drop: "digests_ok md5 W d \<Longrightarrow> digests_ok md5 W (snd (drop_entries can es d))"
  by (induction can es d rule: drop_entries.induct) (auto simp: Let_def digests_ok_pop split: prod.splits)

datatype cache_call = CRead read_env string | CWrite write_env string bytes | CSpoil string bytes nat

definition cache_step ::
  "(bytes \<Rightarrow> string) \<Rightarrow> (bytes \<Rightarrow> string option) \<Rightarrow> fw_dir \<Rightarrow> cache_call \<Rightarrow> fw_dir \<times> read_outcome" where
  "cache_step md5 decode d c =
     (case c of
        CRead env v \<Rightarrow> (snd (fw_read md5 decode env v d), fst (fw_read md5 decode env v d))
      | CWrite env v data \<Rightarrow> (snd (fw_write md5 env v data d), Miss)
      | CSpoil f b m \<Rightarrow> (put f (b, m) d, Miss))"

definition cut_digest :: "(bytes \<Rightarrow> string) \<Rightarrow> bytes \<Rightarrow> write_end \<Rightarrow> bool" where
  "cut_digest md5 data e =
     (case e of
        OsError (AtDigest b) \<Rightarrow> b = take (length b) (text_bytes (md5 data))
      | Dies (AtDigest b) \<Rightarrow> b = take (length b) (text_bytes (md5 data))
      | _ \<Rightarrow> True)"

text \<open>Any call, and any corruption of a cached binary, but not of a digest.\<close>

fun proper :: "(bytes \<Rightarrow> string) \<Rightarrow> (string \<times> bytes) list \<Rightarrow> cache_call \<Rightarrow> bool" where
  "proper md5 W (CRead env v) = plain_version v"
| "proper md5 W (CWrite env v data) \<longleftrightarrow> plain_version v \<and> (v, data) \<in> set W \<and> cut_digest md5 data (we_end env)"
| "proper md5 W (CSpoil f b m) = cached_binary f"

lemma read_digests:
  assumes "digests_ok md5 W d" "plain_version v"
  shows "digests_ok md5 W (snd (fw_read md5 decode env v d))"
proof (cases "cache_path v")
  case None
  with assms show ?thesis by (simp add: fw_read_def)
next
  case (Some path)
  then have "\<forall>w. path \<noteq> digest_of w"
    using cached_not_digest assms(2) cache_path_name by (metis plain_version_def)
  with assms(1) Some show ?thesis
    by (simp add: fw_read_def fw_lookup_def Let_def digests_ok_put digests_ok_unlink split: option.split)
qed

lemma write_files_digests:
  assumes "digests_ok md5 W d" "plain_version v" "(v, data) \<in> set W"
    and "case stop of Some (AtDigest b) \<Rightarrow> b = take (length b) (text_bytes (md5 data)) | _ \<Rightarrow> True"
  shows "digests_ok md5 W (write_files md5 stop now (server_name v) data d)"
proof -
  have path: "\<forall>w. server_name v \<noteq> digest_of w"
    using cached_not_digest assms(2) by (metis plain_version_def)
  have part: "digests_ok md5 W (put (sidecar (server_name v) ''.part'') x d)" for x
    using assms(1) part_not_digest by (simp add: digests_ok_put)
  have digest: "digests_ok md5 W (put (digest_of v) (take n (text_bytes (md5 data)), now) (put (sidecar (server_name v) ''.part'') x d))"
    for n x by (rule digests_ok_digest [OF part assms(3) refl])
  have full: "digests_ok md5 W (put (digest_of v) (text_bytes (md5 data), now) (put (sidecar (server_name v) ''.part'') x d))"
    for x using digest [of "length (text_bytes (md5 data))" x] by simp
  show ?thesis
  proof (cases stop)
    case None
    then show ?thesis using full path
      by (simp add: write_files_def Let_def sidecar_md5 digests_ok_put digests_ok_pop)
  next
    case (Some p)
    show ?thesis
    proof (cases p)
      case (AtDigest b)
      with Some assms(4) have "b = take (length b) (text_bytes (md5 data))" by simp
      then show ?thesis using digest [of "length b"] Some AtDigest by (simp add: write_files_def Let_def sidecar_md5)
    qed (use Some assms(1) part full in \<open>simp_all add: write_files_def Let_def sidecar_md5\<close>)
  qed
qed


lemma write_digests:
  assumes "digests_ok md5 W d" "plain_version v" "(v, data) \<in> set W" "cut_digest md5 data (we_end env)"
  shows "digests_ok md5 W (snd (fw_write md5 env v data d))"
proof -
  have files: "digests_ok md5 W (write_files md5 stop now (server_name v) data d)"
    if "case stop of Some (AtDigest b) \<Rightarrow> b = take (length b) (text_bytes (md5 data)) | _ \<Rightarrow> True" for stop now
    by (rule write_files_digests [OF assms(1-3) that])
  show ?thesis
  proof (cases "cache_path v")
    case None
    with assms(1) show ?thesis by (simp add: fw_write_def)
  next
    case (Some path)
    then have path: "path = server_name v" by (rule cache_path_name)
    have ended: "digests_ok md5 W (write_files md5 (Some p) (we_now env) path data d)"
      if "we_end env = OsError p \<or> we_end env = Dies p" for p
      using files [of "Some p" "we_now env"] that assms(4)
      by (auto simp: path cut_digest_def split: write_point.splits)
    show ?thesis
      using Some assms(1) ended files [of None "we_now env"]
      by (auto simp: fw_write_def path prune_def digests_ok_drop digests_ok_unlink split: write_end.split)
  qed
qed

lemma step_digests: "digests_ok md5 W d \<Longrightarrow> proper md5 W c \<Longrightarrow> digests_ok md5 W (fst (cache_step md5 decode d c))"
proof (cases c)
  case (CSpoil f b m)
  assume "digests_ok md5 W d" "proper md5 W c"
  with CSpoil show ?thesis by (auto simp: cache_step_def intro!: digests_ok_put dest: cached_not_digest)
qed (simp_all add: cache_step_def read_digests write_digests)

interpretation cache: guarded_machine "cache_step md5 decode" "digests_ok md5 W" "proper md5 W"
  for md5 decode W
  by unfold_locales (rule step_digests)

text \<open>
  What the code relies on: a digest is 32 hexadecimal digits, no other bytes have the digest of something
  that is written, and a file of such digits decodes to them.
\<close>

definition HEX :: string where "HEX = ''0123456789abcdef''"

definition digest_laws :: "(bytes \<Rightarrow> string) \<Rightarrow> (bytes \<Rightarrow> string option) \<Rightarrow> (string \<times> bytes) list \<Rightarrow> bool" where
  "digest_laws md5 decode W \<longleftrightarrow>
     (\<forall>b. length (md5 b) = 32 \<and> list_all (\<lambda>c. c \<in> set HEX) (md5 b))
     \<and> (\<forall>(v, data) \<in> set W. \<forall>b. md5 b = md5 data \<longrightarrow> b = data)
     \<and> (\<forall>t. list_all (\<lambda>c. c \<in> set HEX) t \<longrightarrow> decode (text_bytes t) = Some t)"

lemma digest_lawsD:
  assumes "digest_laws md5 decode W"
  shows "length (md5 b) = 32" "list_all (\<lambda>c. c \<in> set HEX) (md5 b)"
    and "list_all (\<lambda>c. c \<in> set HEX) t \<Longrightarrow> decode (text_bytes t) = Some t"
    and "(v, w) \<in> set W \<Longrightarrow> md5 b = md5 w \<Longrightarrow> b = w"
  using assms unfolding digest_laws_def by blast+

lemma hex_not_space: "c \<in> set HEX \<Longrightarrow> \<not> is_space c"
  by (auto simp: HEX_def is_space_def)

lemma strip_hex: "list_all (\<lambda>c. c \<in> set HEX) t \<Longrightarrow> py_strip t = t"
proof -
  have *: "dropWhile is_space u = u" if "list_all (\<lambda>c. c \<in> set HEX) u" for u
    using that by (cases u) (auto dest: hex_not_space)
  assume "list_all (\<lambda>c. c \<in> set HEX) t"
  then show ?thesis using * [of t] * [of "rev t"] by (simp add: py_strip_def)
qed

lemma take_text_bytes: "take n (text_bytes t) = text_bytes (take n t)"
  by (simp add: text_bytes_def take_map)

lemma hit_cases:
  assumes "fst (fw_read md5 decode env v d) = Hit data"
  shows "\<exists>s m t. map_of d (digest_of v) = Some (s, m) \<and> decode s = Some t \<and> md5 data = py_strip t"
proof (cases "cache_path v")
  case None
  with assms show ?thesis by (simp add: fw_read_def)
next
  case (Some path)
  then have digest: "sidecar path ''.md5'' = digest_of v" by (metis cache_path_name sidecar_md5)
  show ?thesis
  proof (cases "map_of d path")
    case None
    with assms Some show ?thesis by (simp add: fw_read_def)
  next
    fix x assume x: "map_of d path = Some x"
    show ?thesis
    proof (cases "map_of d (digest_of v)")
      case None
      with assms Some x digest show ?thesis by (simp add: fw_read_def split: prod.splits)
    next
      fix y assume y: "map_of d (digest_of v) = Some y"
      obtain a m where xa: "x = (a, m)" by fastforce
      obtain s n where ys: "y = (s, n)" by fastforce
      from assms Some x y digest have "fst (fw_lookup md5 decode env path a s d) = Hit data"
        by (simp add: fw_read_def xa ys split: if_splits)
      then obtain t where "decode s = Some t" "md5 data = py_strip t"
        by (auto simp: fw_lookup_def Let_def split: option.splits if_splits)
      with y ys show ?thesis by blast
    qed
  qed
qed

lemma hit_was_written:
  assumes "digests_ok md5 W d" "digest_laws md5 decode W" "fst (fw_read md5 decode env v d) = Hit data"
  shows "(v, data) \<in> set W"
proof -
  from hit_cases [OF assms(3)] obtain s m t
    where s: "map_of d (digest_of v) = Some (s, m)" "decode s = Some t" "md5 data = py_strip t" by blast
  from s(1) assms(1) obtain w n where w: "(v, w) \<in> set W" "s = text_bytes (take n (md5 w))"
    unfolding digests_ok_def take_text_bytes by blast
  have hex: "list_all (\<lambda>c. c \<in> set HEX) (take n (md5 w))"
    using digest_lawsD(2) [OF assms(2), of w] by (metis append_take_drop_id list_all_append)
  with digest_lawsD(3) [OF assms(2)] s(2) w(2) have "t = take n (md5 w)" by simp
  with s(3) hex have cut: "md5 data = take n (md5 w)" by (simp add: strip_hex)
  then have "length (md5 data) = min (length (md5 w)) n" by simp
  then have "length (md5 w) \<le> n" by (simp add: digest_lawsD(1) [OF assms(2)])
  with cut have "md5 data = md5 w" by simp
  with digest_lawsD(4) [OF assms(2) w(1)] w(1) show ?thesis by blast
qed

text \<open>
  A cache hit is firmware that was stored for that very version: after any calls, with writes that fail
  or die at any point, digests half written and cached binaries cut short or corrupted, a read returns
  bytes that a write was given for the version it asks for, or nothing.
\<close>
theorem cache_hit_was_stored_for_the_version:
  assumes "digest_laws md5 decode W" "list_all (proper md5 W) cs"
    and "fst (fw_read md5 decode env v (fst (run (cache_step md5 decode) [] cs))) = Hit data"
  shows "(v, data) \<in> set W"
proof -
  have "digests_ok md5 W []" by (simp add: digests_ok_def)
  then have "digests_ok md5 W (fst (run (cache_step md5 decode) [] cs))"
    by (rule cache.guarded_run [OF _ assms(2)])
  then show ?thesis by (rule hit_was_written [OF _ assms(1,3)])
qed

section \<open>A digest that does not decode\<close>

text \<open>
  A digest file that is not text blocks the release for good: the read raises instead of missing, the
  fetch fails with it although the download would work, and nothing is discarded, so the next fetch
  fails as well.
\<close>
theorem undecodable_digest_blocks_the_update:
  assumes "cache_path v = Some path" "map_of d path = Some (data, m)"
    and "map_of d (sidecar path ''.md5'') = Some (digest, m')" "decode digest = None" "re_readable renv"
  shows "fetch_binary md5 decode renv wenv (Some fresh) v d = (None, d)"
proof -
  have "v \<noteq> []" using assms(1) by (auto simp: cache_path_def safe_version_def)
  with assms show ?thesis by (simp add: fetch_binary_def fw_read_def fw_lookup_def)
qed

text \<open>
  Apart from that a failure of the cache is never a failure of the fetch: it returns the hit, or else
  exactly what the download gave, however the write ends.
\<close>
theorem fetch_survives_the_cache:
  assumes "fst (fw_read md5 decode renv v d) \<noteq> Raised"
  shows "fst (fetch_binary md5 decode renv wenv download v d) =
    Some (case fst (fw_read md5 decode renv v d) of Hit data \<Rightarrow> Some data | _ \<Rightarrow> download)"
  using assms
  by (cases "fw_read md5 decode renv v d")
    (auto simp: fetch_binary_def Let_def fw_read_def cache_path_def safe_version_def
      split: read_outcome.split option.split)


section \<open>Pruning keeps the newest\<close>

lemma drop_entries_map:
  "map_of (snd (drop_entries can es d)) f =
     (if \<exists>g \<in> fst ` set es. can g \<and> (f = g \<or> f = sidecar g ''.md5'') then None else map_of d f)"
proof (induction es arbitrary: d)
  case Nil
  then show ?case by simp
next
  case (Cons e es)
  obtain g x where e: "e = (g, x)" by (rule prod.exhaust)
  have "map_of (snd (drop_entries can (e # es) d)) f
      = map_of (snd (drop_entries can es (if can g then pop (sidecar g ''.md5'') (pop g d) else d))) f"
    by (simp add: e case_prod_beta Let_def)
  then show ?case by (simp only: Cons.IH) (auto simp: e)
qed

lemma entries_set [simp]: "set (cached_entries d) = {e \<in> set d. cached_binary (fst e)}"
  by (simp add: cached_entries_def)

lemma entries_distinct: "distinct (map fst d) \<Longrightarrow> distinct (map fst (cached_entries d))"
  by (simp add: cached_entries_def distinct_map inj_on_def)

lemma distinct_take_drop:
  "distinct (map fst es) \<Longrightarrow> e \<in> set es \<Longrightarrow> fst e \<in> fst ` set (drop n es) \<longleftrightarrow> e \<notin> set (take n es)"
proof -
  assume d: "distinct (map fst es)" and e: "e \<in> set es"
  have "set es = set (take n es) \<union> set (drop n es)" by (metis append_take_drop_id set_append)
  moreover from d have "distinct (map fst (take n es) @ map fst (drop n es))"
    by (metis append_take_drop_id map_append)
  then have "fst ` set (take n es) \<inter> fst ` set (drop n es) = {}" by simp
  ultimately show ?thesis using e by blast
qed

lemma startswith_append: "startswith g p \<Longrightarrow> startswith (g @ x) p"
  unfolding startswith_def by (metis append_take_drop_id append_assoc append_eq_conv_conj)

text \<open>
  Pruning leaves exactly the newest binaries, at most as many as are to be kept, and touches nothing
  that is not named like one of its own files.
\<close>
theorem prune_keeps_the_newest:
  assumes "distinct (map fst d)" "\<And>f. can f"
  shows "{f. cached_binary f \<and> is_file (snd (prune can keep d)) f} = fst ` set (take keep (cached_entries d))
    \<and> card {f. cached_binary f \<and> is_file (snd (prune can keep d)) f} \<le> keep
    \<and> (\<forall>f. \<not> startswith f ''server-'' \<longrightarrow> map_of (snd (prune can keep d)) f = map_of d f)"
proof -
  let ?es = "cached_entries d"
  note split_es = distinct_take_drop [OF entries_distinct [OF assms(1)]]
  have gone: "is_file (snd (prune can keep d)) f \<longleftrightarrow> f \<notin> fst ` set (drop keep ?es) \<and> is_file d f"
    if "cached_binary f" for f
  proof -
    have "\<And>g. f \<noteq> sidecar g ''.md5''" using that cached_not_sidecar by blast
    with assms(2) show ?thesis by (simp add: prune_def is_file_def drop_entries_map)
  qed
  have kept: "f \<in> fst ` set (take keep ?es) \<longleftrightarrow> cached_binary f \<and> is_file (snd (prune can keep d)) f" for f
  proof
    assume "f \<in> fst ` set (take keep ?es)"
    then obtain e where e: "e \<in> set (take keep ?es)" "f = fst e" by blast
    then have es: "e \<in> set ?es" by (meson in_set_takeD)
    from split_es [OF es, of keep] e have "f \<notin> fst ` set (drop keep ?es)" by metis
    moreover have "cached_binary f" "e \<in> set d" using es e(2) by simp_all
    moreover from this have "is_file d f" using e(2) by (simp add: is_file_def map_of_eq_None_iff)
    ultimately show "cached_binary f \<and> is_file (snd (prune can keep d)) f" using gone by simp
  next
    assume f: "cached_binary f \<and> is_file (snd (prune can keep d)) f"
    then have d: "is_file d f" "f \<notin> fst ` set (drop keep ?es)" using gone by blast+
    then obtain x where "map_of d f = Some x" by (auto simp: is_file_def)
    then have "(f, x) \<in> set ?es" using f by (simp add: map_of_SomeD)
    with split_es [of "(f, x)" keep] d(2) have "(f, x) \<in> set (take keep ?es)" by simp
    then show "f \<in> fst ` set (take keep ?es)" by force
  qed
  then have same: "{f. cached_binary f \<and> is_file (snd (prune can keep d)) f} = set (map fst (take keep ?es))"
    by (simp add: set_eq_iff)
  have "card (set (map fst (take keep ?es))) \<le> length (map fst (take keep ?es))" by (rule card_length)
  then have "card (set (map fst (take keep ?es))) \<le> keep" by simp
  moreover have "map_of (snd (prune can keep d)) f = map_of d f" if f: "\<not> startswith f ''server-''" for f
  proof -
    have "f \<noteq> g \<and> f \<noteq> sidecar g ''.md5''" if "g \<in> fst ` set (drop keep ?es)" for g
    proof -
      from that have "cached_binary g" by (auto dest: in_set_dropD)
      then have "startswith g ''server-''" by (simp add: cached_binary_def)
      with f startswith_append [of g "''server-''" "''.md5''"] show ?thesis by (auto simp: sidecar_def)
    qed
    then show ?thesis by (auto simp: prune_def drop_entries_map)
  qed
  ultimately show ?thesis using same by simp
qed


section \<open>Stored, then hit\<close>

lemma minimum_first:
  assumes "sorted (map k es)" "x \<in> set es" "\<And>y. y \<in> set es \<Longrightarrow> y \<noteq> x \<Longrightarrow> (k x :: int) < k y"
  shows "\<exists>es'. es = x # es'"
proof (cases es)
  case Nil
  with assms(2) show ?thesis by simp
next
  case (Cons y es')
  with assms(1,2) have "k y \<le> k x" by auto
  with assms(3) [of y] Cons have "y = x" by force
  with Cons show ?thesis by simp
qed

text \<open>The newest cached binary survives every pruning that keeps one.\<close>

lemma newest_kept:
  assumes "distinct (map fst d)" "cached_binary f" "map_of d f = Some (b, now)"
    and "\<And>g c m. map_of d g = Some (c, m) \<Longrightarrow> g \<noteq> f \<Longrightarrow> cached_binary g \<Longrightarrow> m < now"
  shows "f \<notin> fst ` set (drop (Suc n) (cached_entries d))"
proof -
  let ?k = "\<lambda>(g, c, m). - int m"
  have mem: "(f, b, now) \<in> set (cached_entries d)" using assms(2,3) by (simp add: map_of_SomeD)
  have "\<exists>es'. cached_entries d = (f, b, now) # es'"
  proof (rule minimum_first [where k = ?k, OF _ mem])
    show "sorted (map ?k (cached_entries d))" by (simp add: cached_entries_def)
    fix y assume y: "y \<in> set (cached_entries d)" "y \<noteq> (f, b, now)"
    obtain g c m where g: "y = (g, c, m)" by (rule prod_cases3)
    from y(1) g assms(1) have "map_of d g = Some (c, m)" "cached_binary g" by simp_all
    moreover from this y(2) g assms(3) have "g \<noteq> f" by auto
    ultimately have "m < now" using assms(4) by blast
    then show "?k (f, b, now) < ?k y" by (simp add: g)
  qed
  then obtain es' where es: "cached_entries d = (f, b, now) # es'" by blast
  with entries_distinct [OF assms(1)] have "f \<notin> fst ` set es'" by simp
  then show ?thesis by (auto simp: es dest: in_set_dropD)
qed

text \<open>
  What has just been stored is what the next read returns: after a write that went through, whatever
  was in the directory and whatever the pruning removed, a read of that version is a hit with the same
  bytes.
\<close>
theorem stored_firmware_is_hit:
  assumes "distinct (map fst d)" "cache_path v = Some path" "plain_version v" "data \<noteq> []" "we_end wenv = Done"
    and "\<And>f b m. map_of d f = Some (b, m) \<Longrightarrow> m < we_now wenv"
    and "list_all (\<lambda>c. c \<in> set HEX) (md5 data)" "md5 data \<noteq> []" "decode (text_bytes (md5 data)) = Some (md5 data)"
    and "re_readable renv"
  shows "fst (fw_read md5 decode renv v (snd (fw_write md5 wenv v data d))) = Hit data"
proof -
  define e where "e = write_files md5 None (we_now wenv) path data d"
  have path: "path = server_name v" by (rule cache_path_name [OF assms(2)])
  have cached: "cached_binary path" using assms(3) path by (simp add: plain_version_def)
  then have apart: "path \<noteq> sidecar g ''.md5''" "path \<noteq> sidecar path ''.part''" for g
    using cached_not_sidecar part_not_cached by metis+
  have part: "sidecar path ''.part'' \<noteq> sidecar path ''.md5''" by (simp add: sidecar_def)
  have e_path: "map_of e path = Some (data, we_now wenv)" by (simp add: e_def write_files_def Let_def)
  have e_digest: "map_of e (sidecar path ''.md5'') = Some (text_bytes (md5 data), we_now wenv)"
    using apart(1) [of path] part by (auto simp: e_def write_files_def Let_def)
  have e_other: "map_of e g = map_of d g" if "cached_binary g" "g \<noteq> path" for g
    using that cached_not_sidecar [OF that(1), of path] part_not_cached [of path]
    by (auto simp: e_def write_files_def Let_def)
  have e_distinct: "distinct (map fst e)"
    using assms(1) by (simp add: e_def write_files_def Let_def distinct_put distinct_pop)
  have kept: "path \<notin> fst ` set (drop KEEP_RELEASES (cached_entries e))"
    using newest_kept [OF e_distinct cached e_path, of 1] e_other assms(6)
    by (auto simp: KEEP_RELEASES_def numeral_2_eq_2)
  let ?p = "snd (prune (we_unlinks wenv) KEEP_RELEASES e)"
  have "map_of ?p path = map_of e path"
    using kept apart(1) by (auto simp: prune_def drop_entries_map)
  moreover have "map_of ?p (sidecar path ''.md5'') = map_of e (sidecar path ''.md5'')"
  proof -
    have "sidecar path ''.md5'' \<noteq> g \<and> sidecar path ''.md5'' \<noteq> sidecar g ''.md5''"
      if "g \<in> fst ` set (drop KEEP_RELEASES (cached_entries e))" for g
    proof -
      from that have "cached_binary g" by (auto dest: in_set_dropD)
      moreover from that kept have "g \<noteq> path" by auto
      ultimately show ?thesis using cached_not_sidecar by (metis append_same_eq sidecar_def)
    qed
    then show ?thesis by (auto simp: prune_def drop_entries_map)
  qed
  ultimately have "fst (fw_read md5 decode renv v ?p) = Hit data"
    using assms(2,7-10) e_path e_digest by (simp add: fw_read_def fw_lookup_def strip_hex)
  then show ?thesis using assms(2,4,5) by (simp add: fw_write_def e_def)
qed

section \<open>Examples\<close>

text \<open>A digest of 32 hexadecimal digits that tells the two releases below apart.\<close>

definition toy_digest :: "bytes \<Rightarrow> string" where
  "toy_digest b = (if b = [1] then replicate 32 (CHR ''1'') else if b = [2] then replicate 32 (CHR ''2'')
     else replicate 32 (CHR ''0''))"

definition ascii_text :: "bytes \<Rightarrow> string option" where
  "ascii_text b = (if list_all (\<lambda>x. x < 128) b then Some (map (\<lambda>x. char_of (unat x)) b) else None)"

definition quiet_read :: "read_env" where
  "quiet_read = \<lparr>re_readable = True, re_unlinks = (\<lambda>_. True), re_now = 9\<rparr>"

definition write_at :: "nat \<Rightarrow> write_end \<Rightarrow> write_env" where
  "write_at n e = \<lparr>we_end = e, we_unlinks = (\<lambda>_. True), we_now = n\<rparr>"

lemma ascii_hex: "list_all (\<lambda>c. c \<in> set HEX) t \<Longrightarrow> ascii_text (text_bytes t) = Some t"
proof -
  have one: "(of_nat (of_char c) :: byte) < 128 \<and> char_of (unat (of_nat (of_char c) :: byte)) = c"
    if "c \<in> set HEX" for c using that by (auto simp: HEX_def)
  assume "list_all (\<lambda>c. c \<in> set HEX) t"
  then show ?thesis using one by (induction t) (auto simp: ascii_text_def text_bytes_def split: if_splits)
qed

lemma toy_laws: "digest_laws toy_digest ascii_text [(''v1'', [1]), (''v2'', [2])]"
  by (auto simp: digest_laws_def toy_digest_def ascii_hex HEX_def numeral_eq_Suc split: if_splits)


text \<open>One release stored, the next one cut off before its file is in place.\<close>

definition two_writes :: "cache_call list" where
  "two_writes = [CWrite (write_at 1 Done) ''v1'' [1], CWrite (write_at 2 (Dies AtReplace)) ''v2'' [2]]"

lemma cache_hit_was_stored_for_the_version_witness:
  "fst (fw_read toy_digest ascii_text quiet_read ''v1'' (fst (run (cache_step toy_digest ascii_text) [] two_writes))) = Hit [1]
   \<and> (''v1'', [1]) \<in> set [(''v1'', [1]), (''v2'', [2 :: byte])]"
proof -
  have hit: "fst (fw_read toy_digest ascii_text quiet_read ''v1'' (fst (run (cache_step toy_digest ascii_text) [] two_writes))) = Hit [1]"
    by code_simp
  have ok: "list_all (proper toy_digest [(''v1'', [1]), (''v2'', [2])]) two_writes" by code_simp
  from cache_hit_was_stored_for_the_version [OF toy_laws ok hit] hit show ?thesis by blast
qed

definition bad_digest_dir :: fw_dir where
  "bad_digest_dir = [(''server-v1'', ([1], 3)), (''server-v1.md5'', ([0xFF], 3))]"

lemma undecodable_digest_blocks_the_update_witness:
  "fetch_binary toy_digest ascii_text quiet_read (write_at 5 Done) (Some [1]) ''v1'' bad_digest_dir = (None, bad_digest_dir)"
proof (rule undecodable_digest_blocks_the_update)
  show "cache_path ''v1'' = Some ''server-v1''" by code_simp
  show "map_of bad_digest_dir ''server-v1'' = Some ([1], 3)" by code_simp
  show "map_of bad_digest_dir (sidecar ''server-v1'' ''.md5'') = Some ([0xFF], 3)" by code_simp
qed (code_simp)+

lemma fetch_survives_the_cache_witness:
  "fst (fetch_binary toy_digest ascii_text quiet_read (write_at 5 (OsError AtReplace)) (Some [1]) ''v1'' []) = Some (Some [1])"
  using fetch_survives_the_cache [of toy_digest ascii_text quiet_read "''v1''" "[]" "write_at 5 (OsError AtReplace)" "Some [1]"]
  by (simp add: fw_read_def split: option.split)

definition three_releases :: fw_dir where
  "three_releases = [(''server-v1'', ([1], 3)), (''notes'', ([7], 9)), (''server-v2'', ([2], 8)), (''server-v3'', ([3], 5))]"

lemma prune_keeps_the_newest_witness:
  "map_of (snd (prune (\<lambda>_. True) 2 three_releases)) ''notes'' = Some ([7], 9)
   \<and> {f. cached_binary f \<and> is_file (snd (prune (\<lambda>_. True) 2 three_releases)) f} = {''server-v2'', ''server-v3''}"
proof -
  have d: "distinct (map fst three_releases)" by code_simp
  have kept: "take 2 (cached_entries three_releases) = [(''server-v2'', ([2], 8)), (''server-v3'', ([3], 5))]"
    by code_simp
  have foreign: "map_of three_releases ''notes'' = Some ([7], 9)" "\<not> startswith ''notes'' ''server-''" by code_simp+
  from prune_keeps_the_newest [OF d, of "\<lambda>_. True" 2] foreign show ?thesis by (simp add: kept)
qed

lemma stored_firmware_is_hit_witness:
  "fst (fw_read toy_digest ascii_text quiet_read ''v1'' (snd (fw_write toy_digest (write_at 10 Done) ''v1'' [1] three_releases)))
     = Hit [1]"
proof (rule stored_firmware_is_hit)
  show "distinct (map fst three_releases)" by code_simp
  show "cache_path ''v1'' = Some ''server-v1''" by code_simp
  show "plain_version ''v1''" by code_simp
  show "ascii_text (text_bytes (toy_digest [1])) = Some (toy_digest [1])" by code_simp
  show "m < we_now (write_at 10 Done)" if "map_of three_releases f = Some (b, m)" for f b m
    using that by (simp add: three_releases_def write_at_def split: if_splits)
qed (code_simp | simp add: write_at_def quiet_read_def)+

end
