(* ===== verification/Recordings.thy ===== *)
theory Recordings
  imports Captures "HOL-Library.Product_Lexorder" "HOL-Library.List_Lexorder" "HOL-Library.Char_ord"
begin

text \<open>
  Saved utterances: \<open>controller/em_recordings.py\<close>, the audio columns of the turns table and their upkeep
  in \<open>em_db.py\<close> (\<open>set_turn_audio\<close>, \<open>set_turn_tts_audio\<close>, \<open>reconcile_device_audio\<close>, \<open>prune_audio\<close>),
  \<open>_persist_audio\<close> of \<open>em_turn_engine.py\<close> and the download \<open>_get_turn_audio\<close> of \<open>em_api.py\<close>.

  The directory is a list of files; which of them can be unlinked, and how a write ends, are arguments.
  A row of the turns table is its id, its device and its two audio columns.
\<close>

section \<open>Names\<close>

definition KEEP_PER_DEVICE :: nat where "KEEP_PER_DEVICE = 10"
definition SAMPLE_RATE :: nat where "SAMPLE_RATE = 16000"
definition SAMPLE_WIDTH :: nat where "SAMPLE_WIDTH = 2"
definition CHANNELS :: nat where "CHANNELS = 1"

datatype rec_kind = Stt | Tts

text \<open>The order of the names, \<open>stt\<close> before \<open>tts\<close>, by which \<open>list_all\<close> sorts within a turn.\<close>

fun kind_le :: "rec_kind \<Rightarrow> rec_kind \<Rightarrow> bool" where
  "kind_le Stt _ \<longleftrightarrow> True"
| "kind_le Tts k \<longleftrightarrow> k = Tts"

lemma kind_le_iff: "kind_le a b \<longleftrightarrow> a = Stt \<or> b = Tts"
  by (cases a) (simp_all)

instantiation rec_kind :: linorder
begin

definition less_eq_rec_kind :: "rec_kind \<Rightarrow> rec_kind \<Rightarrow> bool" where
  "less_eq_rec_kind a b \<longleftrightarrow> kind_le a b"

definition less_rec_kind :: "rec_kind \<Rightarrow> rec_kind \<Rightarrow> bool" where
  "less_rec_kind a b \<longleftrightarrow> kind_le a b \<and> a \<noteq> b"

instance
  by standard (auto simp: less_eq_rec_kind_def less_rec_kind_def kind_le_iff intro: rec_kind.exhaust)

end

definition rec_filename :: "string \<Rightarrow> int \<Rightarrow> rec_kind \<Rightarrow> string option" where
  "rec_filename dev turn kind =
     (case safe_device_id dev of
        None \<Rightarrow> None
      | Some safe \<Rightarrow>
          if turn < 0 then None
          else Some (safe @ ''_'' @ str_of_nat (nat turn) @ (if kind = Tts then ''_tts'' else []) @ ''.wav''))"

text \<open>\<open>_NAME_RE\<close>: the device is all before the last underscore that digits follow.\<close>

definition device_and_turn :: "string \<Rightarrow> (string \<times> nat) option" where
  "device_and_turn s =
     Option.bind (rsplit (CHR ''_'') s) (\<lambda>(dev, turn).
       if digits 1 19 turn \<and> matches id_char 1 64 dev then Some (dev, nat_of_str turn) else None)"

definition parse_rec :: "string \<Rightarrow> (string \<times> nat \<times> rec_kind) option" where
  "parse_rec name =
     (let s = (if endswith name [char_of (10::nat)] then butlast name else name) in
      Option.bind (strip_suffix ''.wav'' s) (\<lambda>p.
        case strip_suffix ''_tts'' p of
          Some q \<Rightarrow> map_option (\<lambda>(dev, turn). (dev, turn, Tts)) (device_and_turn q)
        | None \<Rightarrow> map_option (\<lambda>(dev, turn). (dev, turn, Stt)) (device_and_turn p)))"

section \<open>WAV files\<close>

definition le_encode :: "nat \<Rightarrow> nat \<Rightarrow> bytes" where
  "le_encode n v = rev (be_encode n v)"

definition ascii_bytes :: "string \<Rightarrow> bytes" where
  "ascii_bytes = map (\<lambda>c. of_nat (of_char c))"

text \<open>What \<open>wave\<close> writes: one \<open>fmt\<close> and one \<open>data\<close> chunk.\<close>

definition encode_wav :: "nat \<Rightarrow> bytes \<Rightarrow> bytes" where
  "encode_wav rate pcm =
     ascii_bytes ''RIFF'' @ le_encode 4 (36 + length pcm) @ ascii_bytes ''WAVEfmt '' @ le_encode 4 16 @ le_encode 2 1
     @ le_encode 2 CHANNELS @ le_encode 4 rate @ le_encode 4 (CHANNELS * rate * SAMPLE_WIDTH)
     @ le_encode 2 (CHANNELS * SAMPLE_WIDTH) @ le_encode 2 (8 * SAMPLE_WIDTH) @ ascii_bytes ''data''
     @ le_encode 4 (length pcm) @ pcm"

definition wav_pcm :: "bytes \<Rightarrow> bytes" where
  "wav_pcm = drop 44"

section \<open>The directory\<close>

type_synonym rec_dir = "(string \<times> bytes) list"

definition names_of :: "rec_dir \<Rightarrow> string list" where
  "names_of d = map fst d"

definition turn_in :: "string \<Rightarrow> nat" where
  "turn_in name = (case parse_rec name of Some (dev, turn, kind) \<Rightarrow> turn | None \<Rightarrow> 0)"

definition recording_of :: "string \<Rightarrow> string \<Rightarrow> bool" where
  "recording_of dev name = opt_holds (\<lambda>(d, turn, kind). d = dev) (parse_rec name)"

definition list_for :: "string \<Rightarrow> rec_dir \<Rightarrow> string list" where
  "list_for dev d =
     (case safe_device_id dev of
        None \<Rightarrow> []
      | Some safe \<Rightarrow> map snd (rev (sort (map (\<lambda>n. (turn_in n, n)) (filter (recording_of safe) (names_of d))))))"

definition list_all_recs :: "rec_dir \<Rightarrow> string list" where
  "list_all_recs d =
     map snd (rev (sort_key fst (map (\<lambda>n. (case parse_rec n of Some (dev, turn, kind) \<Rightarrow> (turn, kind) | None \<Rightarrow> (0, Stt), n))
       (filter (\<lambda>n. parse_rec n \<noteq> None) (rev (names_of d))))))"

definition unlink_all :: "(string \<Rightarrow> bool) \<Rightarrow> string list \<Rightarrow> rec_dir \<Rightarrow> string list \<times> rec_dir" where
  "unlink_all can names d = (filter can names, filter (\<lambda>(n, b). \<not> (n \<in> set names \<and> can n)) d)"

definition keep_turns :: "nat \<Rightarrow> string list \<Rightarrow> nat list" where
  "keep_turns keep names = take keep (rev (sort (remdups (map turn_in names))))"

definition prune_device :: "(string \<Rightarrow> bool) \<Rightarrow> nat \<Rightarrow> string \<Rightarrow> rec_dir \<Rightarrow> string list \<times> rec_dir" where
  "prune_device can keep dev d =
     (let names = list_for dev d in
      unlink_all can (filter (\<lambda>n. turn_in n \<notin> set (keep_turns keep names)) names) d)"

definition prune_all :: "(string \<Rightarrow> bool) \<Rightarrow> nat \<Rightarrow> rec_dir \<Rightarrow> string list \<times> rec_dir" where
  "prune_all can keep d = unlink_all can (drop keep (list_all_recs d)) d"

text \<open>\<open>save\<close>; \<open>None\<close> of the outer option when it raises, with what the write left behind.\<close>

datatype save_end = Saved | PartRaises bytes | ReplaceRaises

definition save_rec ::
  "(string \<Rightarrow> bool) \<Rightarrow> save_end \<Rightarrow> nat \<Rightarrow> string \<Rightarrow> int \<Rightarrow> rec_kind \<Rightarrow> bytes \<Rightarrow> rec_dir
   \<Rightarrow> string option option \<times> rec_dir" where
  "save_rec can how rate dev turn kind pcm d =
     (case rec_filename dev turn kind of
        None \<Rightarrow> (Some None, d)
      | Some name \<Rightarrow>
          if pcm = [] then (Some None, d)
          else (let part = name @ ''.part'' in
            case how of
              PartRaises b \<Rightarrow> (None, put part b d)
            | ReplaceRaises \<Rightarrow> (None, put part (encode_wav rate pcm) d)
            | Saved \<Rightarrow>
                (Some (Some name),
                 snd (prune_device can KEEP_PER_DEVICE dev (put name (encode_wav rate pcm) (pop part d))))))"

definition resolve_rec :: "string \<Rightarrow> string \<Rightarrow> rec_dir \<Rightarrow> bytes option" where
  "resolve_rec dev name d =
     (case (parse_rec name, safe_device_id dev) of
        (Some (pd, turn, kind), Some safe) \<Rightarrow> if pd = safe then map_of d name else None
      | _ \<Rightarrow> None)"

definition delete_recordings :: "(string \<Rightarrow> bool) \<Rightarrow> string \<Rightarrow> rec_dir \<Rightarrow> nat \<times> rec_dir" where
  "delete_recordings can dev d = (let (removed, d') = prune_device can 0 dev d in (length removed, d'))"

section \<open>The turns table\<close>

record audio_row =
  tr_id :: int
  tr_device :: string
  tr_stt :: "string option"
  tr_tts :: "string option"

record rec_store =
  rs_files :: rec_dir
  rs_rows :: "audio_row list"

fun set_audio :: "rec_kind \<Rightarrow> string option \<Rightarrow> audio_row \<Rightarrow> audio_row" where
  "set_audio Stt f r = r\<lparr>tr_stt := f\<rparr>"
| "set_audio Tts f r = r\<lparr>tr_tts := f\<rparr>"

definition set_turn_audio :: "rec_kind \<Rightarrow> int \<Rightarrow> string option \<Rightarrow> rec_store \<Rightarrow> rec_store" where
  "set_turn_audio kind turn f s =
     s\<lparr>rs_rows := map (\<lambda>r. if tr_id r = turn then set_audio kind f r else r) (rs_rows s)\<rparr>"

text \<open>A column that names a file that does not resolve is cleared; an empty name is falsy and stays.\<close>

definition keep_ref :: "string \<Rightarrow> rec_dir \<Rightarrow> string option \<Rightarrow> string option" where
  "keep_ref dev d f =
     (case f of
        None \<Rightarrow> None
      | Some n \<Rightarrow> if n \<noteq> [] \<and> resolve_rec dev n d = None then None else Some n)"

definition reconcile_device_audio :: "string \<Rightarrow> rec_store \<Rightarrow> rec_store" where
  "reconcile_device_audio dev s =
     s\<lparr>rs_rows := map (\<lambda>r.
         if tr_device r = dev
         then r\<lparr>tr_stt := keep_ref dev (rs_files s) (tr_stt r), tr_tts := keep_ref dev (rs_files s) (tr_tts r)\<rparr>
         else r) (rs_rows s)\<rparr>"

definition drop_ref :: "string list \<Rightarrow> string option \<Rightarrow> string option" where
  "drop_ref gone f = (case f of None \<Rightarrow> None | Some n \<Rightarrow> if n \<in> set gone then None else Some n)"

definition prune_audio :: "(string \<Rightarrow> bool) \<Rightarrow> nat \<Rightarrow> rec_store \<Rightarrow> nat \<times> rec_store" where
  "prune_audio can keep s =
     (let (removed, d) = prune_all can keep (rs_files s) in
      (length removed,
       \<lparr>rs_files = d,
        rs_rows = map (\<lambda>r. r\<lparr>tr_stt := drop_ref removed (tr_stt r), tr_tts := drop_ref removed (tr_tts r)\<rparr>) (rs_rows s)\<rparr>))"

section \<open>What the turn engine and the dashboard do\<close>

record turn_sound =
  ts_device :: string
  ts_turn :: int
  ts_capture :: bool
  ts_mic :: bytes
  ts_tts :: bytes

definition save_and_set ::
  "(string \<Rightarrow> bool) \<Rightarrow> save_end \<Rightarrow> nat \<Rightarrow> rec_kind \<Rightarrow> bytes \<Rightarrow> turn_sound \<Rightarrow> rec_store \<Rightarrow> bool \<times> rec_store" where
  "save_and_set can how rate kind pcm t s =
     (if pcm = [] then (True, s)
      else let (r, d) = save_rec can how rate (ts_device t) (ts_turn t) kind pcm (rs_files s);
               s' = s\<lparr>rs_files := d\<rparr> in
        case r of
          None \<Rightarrow> (False, s')
        | Some name \<Rightarrow> (True, set_turn_audio kind (ts_turn t) name s'))"

text \<open>\<open>_persist_audio\<close>, without another call in between; an exception ends it.\<close>

definition store_turn_audio ::
  "(string \<Rightarrow> bool) \<Rightarrow> save_end \<Rightarrow> save_end \<Rightarrow> turn_sound \<Rightarrow> rec_store \<Rightarrow> rec_store" where
  "store_turn_audio can how1 how2 t s =
     (if \<not> ts_capture t then s
      else let (ok, s1) = save_and_set can how1 SAMPLE_RATE Stt (ts_mic t) t s in
        if ok then snd (save_and_set can how2 24000 Tts (ts_tts t) t s1) else s1)"

definition get_turn_audio :: "(string \<Rightarrow> bool) \<Rightarrow> string \<Rightarrow> int \<Rightarrow> rec_kind \<Rightarrow> rec_dir \<Rightarrow> bytes option" where
  "get_turn_audio known dev turn kind d =
     (if \<not> known dev then None
      else case rec_filename dev turn kind of None \<Rightarrow> None | Some name \<Rightarrow> resolve_rec dev name d)"


section \<open>Names read back\<close>

lemma rec_filename_parts:
  "rec_filename dev turn kind = Some n \<longleftrightarrow>
     matches id_char 1 64 dev \<and> 0 \<le> turn \<and>
     n = dev @ CHR ''_'' # str_of_nat (nat turn) @ (if kind = Tts then ''_tts'' else []) @ ''.wav''"
  by (auto simp: rec_filename_def safe_device_id_def)

lemma turn_digits: "t < 10 ^ 19 \<Longrightarrow> digits 1 19 (str_of_nat t)"
  using length_str_of_nat [of t 18] str_of_nat_digits [of t] by (auto simp: digits_def matches_def Suc_le_eq)

lemma device_and_turn_back:
  assumes "matches id_char 1 64 dev" "t < 10 ^ 19"
  shows "device_and_turn (dev @ CHR ''_'' # str_of_nat t) = Some (dev, t)"
  using assms turn_digits [OF assms(2)] rsplit_append [OF no_underscore, of "str_of_nat t" dev] str_of_nat_digits [of t]
  by (simp add: device_and_turn_def nat_of_str_of_nat)

lemma last_turn: "last (dev @ CHR ''_'' # str_of_nat t) \<noteq> CHR ''s''"
proof -
  have "is_digit (last (str_of_nat t))" "str_of_nat t \<noteq> []"
    using str_of_nat_digits [of t] by (auto simp: list_all_iff)
  then show ?thesis by (auto simp: is_digit_def in_range_def)
qed

lemma endswith_last: "endswith s [c] \<Longrightarrow> last s = c"
  unfolding endswith_def by (metis append_take_drop_id last_snoc)

lemma wav_not_newline: "\<not> endswith (p @ ''.wav'') [char_of (10::nat)]"
proof
  assume "endswith (p @ ''.wav'') [char_of (10::nat)]"
  then have "last (p @ ''.wav'') = char_of (10::nat)" by (rule endswith_last)
  then have "CHR ''v'' = (char_of (10::nat) :: char)" by simp
  then show False by (simp add: char_of_def)
qed

lemma parse_rec_wav:
  "parse_rec (q @ ''.wav'') =
     (case strip_suffix ''_tts'' q of
        Some r \<Rightarrow> map_option (\<lambda>(dev, turn). (dev, turn, Tts)) (device_and_turn r)
      | None \<Rightarrow> map_option (\<lambda>(dev, turn). (dev, turn, Stt)) (device_and_turn q))"
proof -
  have "(if endswith (q @ ''.wav'') [char_of (10::nat)] then butlast (q @ ''.wav'') else q @ ''.wav'') = q @ ''.wav''"
    using wav_not_newline [of q] by (simp del: append.simps)
  moreover have "strip_suffix ''.wav'' (q @ ''.wav'') = Some q" by (rule strip_suffix_append)
  ultimately show ?thesis unfolding parse_rec_def Let_def by simp
qed

lemma parse_rec_filename:
  assumes "rec_filename dev turn kind = Some n" "nat turn < 10 ^ 19"
  shows "parse_rec n = Some (dev, nat turn, kind)"
proof -
  let ?p = "dev @ CHR ''_'' # str_of_nat (nat turn)"
  from assms(1) have n: "n = (?p @ (if kind = Tts then ''_tts'' else [])) @ ''.wav''" and dev: "matches id_char 1 64 dev"
    by (simp_all add: rec_filename_parts)
  note reads = device_and_turn_back [OF dev assms(2)]
  show ?thesis
  proof (cases kind)
    case Tts
    then have "n = (?p @ ''_tts'') @ ''.wav''" using n by simp
    then show ?thesis
      using parse_rec_wav [of "?p @ ''_tts''"] strip_suffix_append [of "''_tts''" ?p] reads Tts by simp
  next
    case Stt
    have "strip_suffix ''_tts'' ?p = None" using last_turn [of dev "nat turn"] by (intro strip_suffix_last) auto
    moreover have "n = ?p @ ''.wav''" using n Stt by simp
    ultimately show ?thesis using parse_rec_wav [of ?p] reads Stt by simp
  qed
qed

lemma part_not_parsed: "parse_rec (n @ ''.part'') = None"
proof -
  have last: "last (n @ ''.part'') = CHR ''t''" by simp
  have "\<not> endswith (n @ ''.part'') [char_of (10::nat)]"
  proof
    assume "endswith (n @ ''.part'') [char_of (10::nat)]"
    then have "last (n @ ''.part'') = char_of (10::nat)" by (rule endswith_last)
    with last have "CHR ''t'' = (char_of (10::nat) :: char)" by simp
    then show False by (simp add: char_of_def)
  qed
  moreover have "strip_suffix ''.wav'' (n @ ''.part'') = None" by (intro strip_suffix_last) (use last in auto)
  ultimately show ?thesis by (simp add: parse_rec_def Let_def del: append.simps)
qed


section \<open>What a download returns\<close>

lemma map_of_unlinked:
  "map_of (snd (unlink_all can names d)) n = (if n \<in> set names \<and> can n then None else map_of d n)"
  unfolding unlink_all_def snd_conv by (induction d) auto

lemma unlinked_le: "map_of (snd (unlink_all can names d)) \<subseteq>\<^sub>m map_of d"
  by (auto simp: map_le_def map_of_unlinked split: if_splits)

lemma pruned_le:
  "map_of (snd (prune_device can keep dev d)) \<subseteq>\<^sub>m map_of d" "map_of (snd (prune_all can keep d)) \<subseteq>\<^sub>m map_of d"
  by (simp_all add: prune_device_def prune_all_def Let_def unlinked_le)

fun wav_rate :: "rec_kind \<Rightarrow> nat" where
  "wav_rate Stt = SAMPLE_RATE"
| "wav_rate Tts = 24000"

fun sound_of :: "rec_kind \<Rightarrow> turn_sound \<Rightarrow> bytes" where
  "sound_of Stt t = ts_mic t"
| "sound_of Tts t = ts_tts t"

text \<open>Every file that is named like a recording holds the audio of that turn of \<open>W\<close>, which captured it.\<close>

definition all_recorded :: "turn_sound list \<Rightarrow> rec_dir \<Rightarrow> bool" where
  "all_recorded W d \<longleftrightarrow>
     (\<forall>n b dev turn kind. map_of d n = Some b \<longrightarrow> parse_rec n = Some (dev, turn, kind) \<longrightarrow>
        (\<exists>t \<in> set W. ts_capture t \<and> ts_device t = dev \<and> ts_turn t = int turn \<and>
           b = encode_wav (wav_rate kind) (sound_of kind t)))"

lemma recorded_le: "all_recorded W d \<Longrightarrow> map_of d' \<subseteq>\<^sub>m map_of d \<Longrightarrow> all_recorded W d'"
  unfolding all_recorded_def map_le_def by (metis domI)

lemma recorded_part: "all_recorded W d \<Longrightarrow> all_recorded W (put (n @ ''.part'') b d)"
  by (auto simp: all_recorded_def part_not_parsed)

lemma recorded_new:
  assumes "all_recorded W d" "t \<in> set W" "ts_capture t" "rec_filename (ts_device t) (ts_turn t) kind = Some n" "ts_turn t < 10 ^ 19"
  shows "all_recorded W (put n (encode_wav (wav_rate kind) (sound_of kind t)) d)"
proof -
  have "0 \<le> ts_turn t" using assms(4) by (simp add: rec_filename_parts)
  moreover have "parse_rec n = Some (ts_device t, nat (ts_turn t), kind)"
    by (rule parse_rec_filename [OF assms(4)]) (use assms(5) in simp)
  ultimately show ?thesis using assms(1-3) by (auto simp: all_recorded_def)
qed

lemma recorded_save:
  assumes "all_recorded W d" "t \<in> set W" "ts_capture t" "ts_turn t < 10 ^ 19"
  shows "all_recorded W (snd (save_rec can how (wav_rate kind) (ts_device t) (ts_turn t) kind (sound_of kind t) d))"
proof (cases "rec_filename (ts_device t) (ts_turn t) kind")
  case None
  with assms(1) show ?thesis by (simp add: save_rec_def)
next
  case (Some n)
  have "all_recorded W (pop (n @ ''.part'') d)" by (rule recorded_le [OF assms(1)]) (simp add: map_le_def)
  then have "all_recorded W (put n (encode_wav (wav_rate kind) (sound_of kind t)) (pop (n @ ''.part'') d))"
    by (rule recorded_new [OF _ assms(2,3) Some assms(4)])
  then show ?thesis
    using Some assms(1) recorded_part recorded_le [OF _ pruned_le(1)]
    by (simp add: save_rec_def Let_def split: save_end.split)
qed

datatype rec_call =
    Persist "string \<Rightarrow> bool" save_end save_end turn_sound
  | Reconcile string
  | PruneAudio "string \<Rightarrow> bool" nat
  | DeleteDevice "string \<Rightarrow> bool" string

definition rec_step :: "rec_store \<Rightarrow> rec_call \<Rightarrow> rec_store \<times> unit" where
  "rec_step s c =
     (case c of
        Persist can how1 how2 t \<Rightarrow> store_turn_audio can how1 how2 t s
      | Reconcile dev \<Rightarrow> reconcile_device_audio dev s
      | PruneAudio can keep \<Rightarrow> snd (prune_audio can keep s)
      | DeleteDevice can dev \<Rightarrow> s\<lparr>rs_files := snd (delete_recordings can dev (rs_files s))\<rparr>, ())"

fun in_log :: "turn_sound list \<Rightarrow> rec_call \<Rightarrow> bool" where
  "in_log W (Persist can how1 how2 t) \<longleftrightarrow> t \<in> set W \<and> ts_turn t < 10 ^ 19"
| "in_log W _ \<longleftrightarrow> True"

lemma recorded_save_and_set:
  assumes "all_recorded W (rs_files s)" "t \<in> set W" "ts_capture t" "ts_turn t < 10 ^ 19"
  shows "all_recorded W (rs_files (snd (save_and_set can how (wav_rate kind) kind (sound_of kind t) t s)))"
  using recorded_save [OF assms, of can how kind] assms(1)
  by (auto simp: save_and_set_def Let_def set_turn_audio_def split: prod.splits option.splits)

lemma recorded_persist:
  assumes "all_recorded W (rs_files s)" "t \<in> set W" "ts_turn t < 10 ^ 19"
  shows "all_recorded W (rs_files (store_turn_audio can how1 how2 t s))"
proof (cases "ts_capture t")
  case True
  note stt = recorded_save_and_set [where kind = Stt, OF _ assms(2) True assms(3)]
  note tts = recorded_save_and_set [where kind = Tts, OF _ assms(2) True assms(3)]
  from stt [OF assms(1)] tts [OF stt [OF assms(1)]] show ?thesis
    by (simp add: store_turn_audio_def case_prod_beta Let_def assms(1))
qed (simp add: store_turn_audio_def assms(1))

lemma recorded_step: "all_recorded W (rs_files s) \<Longrightarrow> in_log W c \<Longrightarrow> all_recorded W (rs_files (fst (rec_step s c)))"
  by (cases c)
    (auto simp: rec_step_def recorded_persist reconcile_device_audio_def prune_audio_def delete_recordings_def
      case_prod_beta Let_def intro: recorded_le [OF _ pruned_le(1)] recorded_le [OF _ pruned_le(2)])

interpretation recordings: guarded_machine rec_step "\<lambda>s. all_recorded W (rs_files s)" "in_log W" for W
  by unfold_locales (rule recorded_step)

lemma length_le_encode [simp]: "length (le_encode n v) = n"
  by (simp add: le_encode_def)

lemma wav_pcm_encode [simp]: "wav_pcm (encode_wav rate pcm) = pcm"
  by (simp add: wav_pcm_def encode_wav_def ascii_bytes_def)

text \<open>
  Claim C28: A download gives the recording of the very turn, device and direction it names: after any
  recordings (with writes that fail), clean-ups and deletions, what is served is the WAV of the audio of
  that turn, which was to be captured.
\<close>
theorem audio_served_was_recorded_in_that_turn:
  assumes "list_all (in_log W) cs" "turn < 10 ^ 19"
    and "get_turn_audio known dev turn kind (rs_files (fst (run rec_step \<lparr>rs_files = [], rs_rows = rows\<rparr> cs))) = Some b"
  shows "\<exists>t \<in> set W. ts_capture t \<and> ts_device t = dev \<and> ts_turn t = turn \<and> wav_pcm b = sound_of kind t"
proof -
  let ?d = "rs_files (fst (run rec_step \<lparr>rs_files = [], rs_rows = rows\<rparr> cs))"
  have "all_recorded W (rs_files \<lparr>rs_files = [], rs_rows = rows\<rparr>)" by (simp add: all_recorded_def)
  then have rec: "all_recorded W ?d" by (rule recordings.guarded_run [OF _ assms(1)])
  from assms(3) obtain n where n: "rec_filename dev turn kind = Some n" "resolve_rec dev n ?d = Some b"
    by (auto simp: get_turn_audio_def split: if_splits option.splits)
  have p: "parse_rec n = Some (dev, nat turn, kind)"
    by (rule parse_rec_filename [OF n(1)]) (use assms(2) in simp)
  with n(2) have "map_of ?d n = Some b" by (auto simp: resolve_rec_def split: option.splits if_splits)
  with rec p obtain t where "t \<in> set W" "ts_capture t" "ts_device t = dev" "ts_turn t = int (nat turn)"
    "b = encode_wav (wav_rate kind) (sound_of kind t)" unfolding all_recorded_def by blast
  moreover have "0 \<le> turn" using n(1) by (simp add: rec_filename_parts)
  ultimately show ?thesis by auto
qed


section \<open>Retention\<close>

lemma top_sorted:
  assumes "sorted xs" "distinct xs" "x \<in> set (take k (rev xs))" "y \<in> set xs" "y \<notin> set (take k (rev xs))"
  shows "(y :: nat) < x"
proof -
  define lo where "lo = take (length xs - k) xs"
  define hi where "hi = drop (length xs - k) xs"
  have xs: "xs = lo @ hi" by (simp add: lo_def hi_def)
  have top: "set (take k (rev xs)) = set hi" by (simp add: take_rev hi_def)
  have "y \<noteq> x" using assms(3,5) by auto
  moreover have "y \<in> set (lo @ hi)" "y \<notin> set hi" using assms(4,5) unfolding top by (simp_all add: xs [symmetric])
  then have "y \<in> set lo" by simp
  moreover have "x \<in> set hi" using assms(3) unfolding top .
  moreover have "\<forall>a \<in> set lo. \<forall>b \<in> set hi. a \<le> b" using assms(1) unfolding xs by (simp add: sorted_append)
  ultimately show ?thesis by (simp add: le_neq_implies_less)
qed

lemma set_list_for:
  "safe_device_id dev = Some dev \<Longrightarrow> set (list_for dev d) = {n \<in> set (names_of d). recording_of dev n}"
  by (force simp: list_for_def image_image)

lemma names_unlinked: "set (names_of (snd (unlink_all can names d))) = {n \<in> set (names_of d). \<not> (n \<in> set names \<and> can n)}"
  by (auto simp: unlink_all_def names_of_def)

text \<open>
  Saving keeps the newest turns of the device: when everything can be unlinked, what is left are
  the recordings of at most ten turns, all newer than any turn that was dropped, and the files of other
  devices are as they were.
\<close>
theorem save_keeps_the_newest_turns:
  fixes d :: rec_dir and rate :: nat
  assumes "safe_device_id dev = Some dev" "rec_filename dev turn kind = Some name" "pcm \<noteq> []" "\<And>n. can n"
    and "recording_of dev name"
  defines "d' \<equiv> snd (save_rec can Saved rate dev turn kind pcm d)"
  shows "card (turn_in ` {n \<in> set (names_of d'). recording_of dev n}) \<le> KEEP_PER_DEVICE
    \<and> (n \<in> set (names_of d') \<and> recording_of dev n \<and> m \<in> set (names_of d) \<and> recording_of dev m \<and> m \<notin> set (names_of d')
       \<longrightarrow> turn_in m < turn_in n)
    \<and> (\<not> recording_of dev m \<and> m \<noteq> name @ ''.part'' \<longrightarrow> map_of d' m = map_of d m)"
proof -
  define e where "e = put name (encode_wav rate pcm) (pop (name @ ''.part'') d)"
  define ts where "ts = sort (remdups (map turn_in (list_for dev e)))"
  define old where "old = filter (\<lambda>n. turn_in n \<notin> set (take KEEP_PER_DEVICE (rev ts))) (list_for dev e)"
  have d': "d' = snd (unlink_all can old e)"
    using assms(2,3) by (simp add: d'_def save_rec_def prune_device_def keep_turns_def e_def old_def ts_def Let_def)
  have own: "set (list_for dev e) = {n \<in> set (names_of e). recording_of dev n}" by (rule set_list_for [OF assms(1)])
  have left: "n \<in> set (names_of d') \<and> recording_of dev n \<longleftrightarrow>
      n \<in> set (names_of e) \<and> recording_of dev n \<and> turn_in n \<in> set (take KEEP_PER_DEVICE (rev ts))" for n
    using own assms(4) by (auto simp: d' names_unlinked old_def)
  have ts: "sorted ts" "distinct ts" "set ts = turn_in ` {n \<in> set (names_of e). recording_of dev n}"
    by (simp_all add: ts_def own)
  have "turn_in ` {n \<in> set (names_of d'). recording_of dev n} \<subseteq> set (take KEEP_PER_DEVICE (rev ts))"
    using left by auto
  then have "card (turn_in ` {n \<in> set (names_of d'). recording_of dev n}) \<le> card (set (take KEEP_PER_DEVICE (rev ts)))"
    by (intro card_mono) auto
  also have "\<dots> \<le> KEEP_PER_DEVICE" using card_length [of "take KEEP_PER_DEVICE (rev ts)"] by simp
  finally have few: "card (turn_in ` {n \<in> set (names_of d'). recording_of dev n}) \<le> KEEP_PER_DEVICE" .
  have newer: "turn_in m < turn_in n"
    if "n \<in> set (names_of d')" "recording_of dev n" "m \<in> set (names_of d)" "recording_of dev m" "m \<notin> set (names_of d')" for n m
  proof -
    have "m \<noteq> name @ ''.part''" using that(4) by (auto simp: recording_of_def part_not_parsed)
    then have "m \<in> set (names_of e)" using that(3) by (auto simp: e_def names_of_def image_iff)
    then have "turn_in m \<in> set ts" "turn_in m \<notin> set (take KEEP_PER_DEVICE (rev ts))"
      using left [of m] that(4,5) ts(3) by auto
    moreover have "turn_in n \<in> set (take KEEP_PER_DEVICE (rev ts))" using left [of n] that(1,2) by blast
    ultimately show ?thesis using top_sorted [OF ts(1,2)] by blast
  qed
  have others: "map_of d' m = map_of d m" if "\<not> recording_of dev m" "m \<noteq> name @ ''.part''" for m
  proof -
    have "m \<notin> set old" using that(1) own by (auto simp: old_def)
    moreover have "m \<noteq> name" using that(1) assms(5) by auto
    ultimately show ?thesis using that(2) by (simp add: d' map_of_unlinked e_def)
  qed
  from few newer others show ?thesis by blast
qed

text \<open>
  After a reconciliation every recording that a turn of the device refers to is there, and
  nothing else has changed.
\<close>
theorem reconciled_references_resolve:
  assumes "r \<in> set (rs_rows (reconcile_device_audio dev s))" "tr_device r = dev"
    and "tr_stt r = Some f \<or> tr_tts r = Some f" "f \<noteq> []"
  shows "resolve_rec dev f (rs_files s) \<noteq> None"
  using assms
  by (auto simp: reconcile_device_audio_def keep_ref_def split: option.splits if_splits)

text \<open>
  The speech of a write that was cut off outlives every clean-up: the file it was being written
  to is not named like a recording, so neither pruning, nor the deletion of the device, nor the dashboard's
  clean-up removes it.
\<close>
theorem cut_recording_outlives_the_device:
  fixes d :: rec_dir and rate :: nat and can :: "string \<Rightarrow> bool"
  assumes "rec_filename dev turn kind = Some name" "pcm \<noteq> []"
  defines "d1 \<equiv> snd (save_rec can ReplaceRaises rate dev turn kind pcm d)"
  defines "d2 \<equiv> snd (prune_all can 0 (snd (delete_recordings can dev d1)))"
  shows "map_of d2 (name @ ''.part'') = Some (encode_wav rate pcm)"
proof -
  let ?part = "name @ ''.part''"
  have d1: "map_of d1 ?part = Some (encode_wav rate pcm)" using assms(1,2) by (simp add: d1_def save_rec_def)
  have "?part \<notin> set (list_for dev e)" for e
    by (auto simp: list_for_def recording_of_def part_not_parsed split: option.splits)
  moreover have "?part \<notin> set (list_all_recs e)" for e
    by (auto simp: list_all_recs_def part_not_parsed)
  ultimately show ?thesis
    using d1 by (simp add: d2_def delete_recordings_def prune_device_def prune_all_def case_prod_beta Let_def map_of_unlinked)
qed


section \<open>Examples\<close>

definition example_turn :: turn_sound where
  "example_turn = \<lparr>ts_device = ''dot'', ts_turn = 7, ts_capture = True, ts_mic = [1, 2], ts_tts = []\<rparr>"

lemma example_names:
  "safe_device_id ''dot'' = Some ''dot''" "rec_filename ''dot'' 7 Stt = Some ''dot_7.wav''"
  "parse_rec ''dot_7.wav'' = Some (''dot'', 7, Stt)"
  by code_simp+

lemma example_saved:
  "save_rec (\<lambda>_. True) Saved rate ''dot'' 7 Stt [1, 2] [] = (Some (Some ''dot_7.wav''), [(''dot_7.wav'', encode_wav rate [1, 2])])"
  by (simp add: save_rec_def example_names prune_device_def list_for_def names_of_def recording_of_def keep_turns_def
      turn_in_def unlink_all_def KEEP_PER_DEVICE_def pop_def)

lemma example_persisted:
  "fst (run rec_step \<lparr>rs_files = [], rs_rows = []\<rparr> [Persist (\<lambda>_. True) Saved Saved example_turn])
     = \<lparr>rs_files = [(''dot_7.wav'', encode_wav SAMPLE_RATE [1, 2])], rs_rows = []\<rparr>"
  by (simp add: rec_step_def store_turn_audio_def save_and_set_def example_turn_def example_saved set_turn_audio_def)

lemma audio_served_was_recorded_in_that_turn_witness:
  "get_turn_audio (\<lambda>_. True) ''dot'' 7 Stt (rs_files (fst (run rec_step \<lparr>rs_files = [], rs_rows = []\<rparr>
       [Persist (\<lambda>_. True) Saved Saved example_turn]))) = Some (encode_wav SAMPLE_RATE [1, 2])
   \<and> ts_device example_turn = ''dot'' \<and> ts_turn example_turn = 7
   \<and> wav_pcm (encode_wav SAMPLE_RATE [1, 2]) = sound_of Stt example_turn"
proof -
  have log: "list_all (in_log [example_turn]) [Persist (\<lambda>_. True) Saved Saved example_turn]"
    by (simp add: example_turn_def)
  have served: "get_turn_audio (\<lambda>_. True) ''dot'' 7 Stt (rs_files (fst (run rec_step \<lparr>rs_files = [], rs_rows = []\<rparr>
       [Persist (\<lambda>_. True) Saved Saved example_turn]))) = Some (encode_wav SAMPLE_RATE [1, 2])"
    unfolding example_persisted by (simp add: get_turn_audio_def resolve_rec_def example_names)
  from audio_served_was_recorded_in_that_turn [OF log _ served] served show ?thesis by simp
qed

lemma save_keeps_the_newest_turns_witness:
  "card (turn_in ` {n \<in> set (names_of (snd (save_rec (\<lambda>_. True) Saved 16000 ''dot'' 7 Stt [1, 2] []))). recording_of ''dot'' n}) \<le> KEEP_PER_DEVICE
   \<and> map_of (snd (save_rec (\<lambda>_. True) Saved 16000 ''dot'' 7 Stt [1, 2] [])) ''dot_7.wav'' = Some (encode_wav 16000 [1, 2])"
proof -
  have own: "recording_of ''dot'' ''dot_7.wav''" by (simp add: recording_of_def example_names)
  have "card (turn_in ` {n \<in> set (names_of (snd (save_rec (\<lambda>_. True) Saved 16000 ''dot'' 7 Stt [1, 2] []))). recording_of ''dot'' n}) \<le> KEEP_PER_DEVICE"
    using save_keeps_the_newest_turns [OF example_names(1,2) _ _ own, of "[1, 2]" "\<lambda>_. True" 16000 "[]"] by blast
  then show ?thesis by (simp add: example_saved)
qed

lemma reconciled_references_resolve_witness:
  "resolve_rec ''dot'' ''dot_7.wav'' [(''dot_7.wav'', [1])] \<noteq> None"
proof -
  have "resolve_rec ''dot'' ''dot_7.wav'' [(''dot_7.wav'', [1])] = Some [1]"
    "resolve_rec ''dot'' ''dot_7_tts.wav'' [(''dot_7.wav'', [1])] = None" by code_simp+
  then show ?thesis
    using reconciled_references_resolve [of "\<lparr>tr_id = 7, tr_device = ''dot'', tr_stt = Some ''dot_7.wav'', tr_tts = None\<rparr>" "''dot''"
      "\<lparr>rs_files = [(''dot_7.wav'', [1])], rs_rows =
        [\<lparr>tr_id = 7, tr_device = ''dot'', tr_stt = Some ''dot_7.wav'', tr_tts = Some ''dot_7_tts.wav''\<rparr>]\<rparr>" "''dot_7.wav''"]
    by (simp add: reconcile_device_audio_def keep_ref_def)
qed

lemma cut_recording_outlives_the_device_witness:
  "map_of (snd (prune_all (\<lambda>_. True) 0 (snd (delete_recordings (\<lambda>_. True) ''dot''
      (snd (save_rec (\<lambda>_. True) ReplaceRaises 16000 ''dot'' 7 Stt [5] [])))))) ''dot_7.wav.part'' = Some (encode_wav 16000 [5])"
  using cut_recording_outlives_the_device [OF example_names(2), of "[5]" "\<lambda>_. True" 16000 "[]"] by simp

end
