(* ===== verification/WakeAssets.thy ===== *)
theory WakeAssets
  imports ModelNames Ota "HOL-Library.List_Lexorder" "HOL-Library.Char_ord"
begin

text \<open>
  The files of the on-device wake word: \<open>controller/em_oww_assets.py\<close> (which files a device needs, what
  to send and what to delete, and reading the inventory a device prints).

  The controller's disk is a function from paths to contents, the digest of a file the function
  \<open>md5\<close>, and the inventory of a device a list of names with digest and time.
\<close>

section \<open>What a device needs\<close>

definition DEVICE_DIR :: string where "DEVICE_DIR = ''/data/local/share/echomuse/oww''"
definition RUNTIME_NAME :: string where "RUNTIME_NAME = ''libonnxruntime.so''"
definition SHARED_NAMES :: "string list" where "SHARED_NAMES = [''melspectrogram.onnx'', ''embedding_model.onnx'']"
definition RUNTIME_DIR :: string where "RUNTIME_DIR = ''/app/models/oww_runtime''"
definition RESOURCES :: string where "RESOURCES = ''/app/models/oww_assets''"
definition STOCK_MODELS :: "string list" where
  "STOCK_MODELS = [''hey_jarvis_v0.1'', ''alexa_v0.1'', ''hey_mycroft_v0.1'', ''hey_rhasspy_v0.1'']"
definition CLASSIFIER_SLOTS :: nat where "CLASSIFIER_SLOTS = 4"
definition FREE_FLOOR_MB :: rat where "FREE_FLOOR_MB = 50"
definition BUILTIN_STOP_MODEL :: string where "BUILTIN_STOP_MODEL = ''stop''"
definition BUILTIN_STOP_PATH :: string where "BUILTIN_STOP_PATH = ''/app/models/stopword/stop.onnx''"

definition path_join :: "string \<Rightarrow> string \<Rightarrow> string" where
  "path_join a b = (if startswith b ''/'' then b else a @ ''/'' @ b)"

definition device_path :: "string \<Rightarrow> string" where
  "device_path n = DEVICE_DIR @ ''/'' @ n"

record site =
  files :: "string \<Rightarrow> bytes option"
  has_resources :: bool
  models_at :: "string option"

definition is_a_file :: "site \<Rightarrow> string \<Rightarrow> bool" where
  "is_a_file st p \<longleftrightarrow> files st p \<noteq> None"

definition if_file :: "site \<Rightarrow> string \<Rightarrow> string option" where
  "if_file st p = (if is_a_file st p then Some p else None)"

definition openwakeword_resources :: "site \<Rightarrow> string option" where
  "openwakeword_resources st = (if has_resources st then Some RESOURCES else None)"

definition runtime_source :: "site \<Rightarrow> string option" where
  "runtime_source st = if_file st (path_join RUNTIME_DIR RUNTIME_NAME)"

definition stop_source :: "site \<Rightarrow> string option" where
  "stop_source st =
     (if is_a_file st BUILTIN_STOP_PATH then Some BUILTIN_STOP_PATH
      else case models_at st of None \<Rightarrow> None | Some d \<Rightarrow> if_file st (path_join d ''stop.onnx''))"

definition custom_source :: "site \<Rightarrow> string \<Rightarrow> string option" where
  "custom_source st name =
     if_file st
       (case models_at st of
          Some d \<Rightarrow> if startswith name ''/'' then name else path_join d (base_name name)
        | None \<Rightarrow> name)"

definition classifier_source :: "site \<Rightarrow> string \<Rightarrow> string option" where
  "classifier_source st oww_model =
     (let name = py_strip oww_model in
      if name = [] then None
      else if name = BUILTIN_STOP_MODEL then stop_source st
      else if endswith name ONNX then custom_source st name
      else case openwakeword_resources st of
        None \<Rightarrow> None
      | Some r \<Rightarrow> if_file st (path_join r (name @ ONNX)))"

definition effective_stop_model :: "site \<Rightarrow> string option \<Rightarrow> string" where
  "effective_stop_model st configured =
     (let name = py_strip (case configured of None \<Rightarrow> [] | Some s \<Rightarrow> s) in
      if name = BUILTIN_STOP_MODEL \<and> classifier_source st name = None then [] else name)"

datatype asset_kind = RuntimeFile | SharedModel | Classifier

record asset =
  a_name :: string
  a_source :: string
  a_md5 :: string
  a_size :: nat
  a_kind :: asset_kind
  a_selected :: bool

datatype asset_problem = NoRuntime | NoSharedModel string | NoClassifier string

definition file_asset ::
  "(bytes \<Rightarrow> string) \<Rightarrow> site \<Rightarrow> string \<Rightarrow> string option \<Rightarrow> asset_kind \<Rightarrow> bool \<Rightarrow> asset option" where
  "file_asset md5 st name src kind sel =
     (case src of None \<Rightarrow> None
      | Some p \<Rightarrow>
          (case files st p of None \<Rightarrow> None
           | Some b \<Rightarrow> Some \<lparr>a_name = name, a_source = p, a_md5 = md5 b, a_size = length b, a_kind = kind,
                            a_selected = sel\<rparr>))"

definition runtime_assets :: "(bytes \<Rightarrow> string) \<Rightarrow> site \<Rightarrow> asset list \<times> asset_problem list" where
  "runtime_assets md5 st =
     (case file_asset md5 st RUNTIME_NAME (runtime_source st) RuntimeFile False of
        None \<Rightarrow> ([], [NoRuntime]) | Some a \<Rightarrow> ([a], []))"

fun shared_assets :: "(bytes \<Rightarrow> string) \<Rightarrow> site \<Rightarrow> string list \<Rightarrow> asset list \<times> asset_problem list" where
  "shared_assets md5 st [] = ([], [])"
| "shared_assets md5 st (n # ns) =
     (let (as, ps) = shared_assets md5 st ns in
      case file_asset md5 st n (map_option (\<lambda>r. path_join r n) (openwakeword_resources st)) SharedModel False of
        None \<Rightarrow> (as, NoSharedModel n # ps) | Some a \<Rightarrow> (a # as, ps))"

fun classifier_assets ::
  "(bytes \<Rightarrow> string) \<Rightarrow> site \<Rightarrow> string list \<Rightarrow> string list \<Rightarrow> string list \<Rightarrow> asset list \<times> asset_problem list" where
  "classifier_assets md5 st sels seen [] = ([], [])"
| "classifier_assets md5 st sels seen (m # ms) =
     (let stem = prediction_key m in
      if stem = [] \<or> stem \<in> set seen then classifier_assets md5 st sels seen ms
      else let (as, ps) = classifier_assets md5 st sels (stem # seen) ms in
        case file_asset md5 st (stem @ ONNX) (classifier_source st m) Classifier (stem \<in> set sels) of
          None \<Rightarrow> (as, NoClassifier m # ps) | Some a \<Rightarrow> (a # as, ps))"

definition desired_assets ::
  "(bytes \<Rightarrow> string) \<Rightarrow> site \<Rightarrow> string list \<Rightarrow> asset list \<times> asset_problem list" where
  "desired_assets md5 st models =
     (let (rt, p1) = runtime_assets md5 st;
          (sh, p2) = shared_assets md5 st SHARED_NAMES;
          wanted = models @ filter (\<lambda>m. m \<notin> set models) STOCK_MODELS;
          (cl, p3) = classifier_assets md5 st (map prediction_key (filter (\<lambda>m. m \<noteq> []) models)) [] wanted in
      (rt @ sh @ cl, p1 @ p2 @ p3))"

section \<open>The plan\<close>

text \<open>The inventory as the dictionary it is, in the order of the listing: digest and time by name.\<close>

type_synonym inventory = "(string \<times> (string \<times> nat)) list"

record sync_plan =
  p_push :: "asset list"
  p_prune :: "string list"
  p_keep :: "string list"
  p_blocked :: "(nat \<times> nat) option"

definition is_noop :: "sync_plan \<Rightarrow> bool" where
  "is_noop p \<longleftrightarrow> p_push p = [] \<and> p_prune p = [] \<and> p_blocked p = None"

definition push_bytes :: "asset list \<Rightarrow> nat" where
  "push_bytes as = sum_list (map a_size as)"

definition is_current :: "inventory \<Rightarrow> asset \<Rightarrow> bool" where
  "is_current actual a = (case map_of actual (a_name a) of None \<Rightarrow> False | Some (h, _) \<Rightarrow> h = a_md5 a)"

definition too_full :: "nat option \<Rightarrow> asset list \<Rightarrow> bool" where
  "too_full free push =
     (case free of None \<Rightarrow> False
      | Some mb \<Rightarrow> push \<noteq> [] \<and> of_nat mb - of_nat (push_bytes push) / (1024 * 1024) < FREE_FLOOR_MB)"

definition required_names :: "asset list \<Rightarrow> string list" where
  "required_names desired = map a_name desired @ SHARED_NAMES @ [RUNTIME_NAME]"

definition newest_first :: "inventory \<Rightarrow> inventory" where
  "newest_first = sort_key (\<lambda>e. - int (snd (snd e)))"

definition extras :: "asset list \<Rightarrow> inventory \<Rightarrow> string list" where
  "extras desired actual =
     map fst (newest_first (filter (\<lambda>(n, _). endswith n ONNX \<and> n \<notin> set (required_names desired)) actual))"

definition leftover_slots :: "nat \<Rightarrow> asset list \<Rightarrow> nat" where
  "leftover_slots room desired =
     room - length (filter (\<lambda>a. a_kind a = Classifier \<and> a_selected a) desired)"

definition plan_sync :: "nat \<Rightarrow> nat option \<Rightarrow> asset list \<Rightarrow> inventory \<Rightarrow> sync_plan" where
  "plan_sync room free desired actual =
     (let push = filter (\<lambda>a. \<not> is_current actual a) desired;
          k = leftover_slots room desired in
      if too_full free push
      then \<lparr>p_push = [], p_prune = [], p_keep = [],
            p_blocked = Some (case free of None \<Rightarrow> 0 | Some mb \<Rightarrow> mb, push_bytes push)\<rparr>
      else \<lparr>p_push = push, p_prune = drop k (extras desired actual),
            p_keep = map a_name (filter (is_current actual) desired) @ take k (extras desired actual),
            p_blocked = None\<rparr>)"

definition selected_classifier :: "asset list \<Rightarrow> asset option" where
  "selected_classifier desired = List.find (\<lambda>a. a_kind a = Classifier) desired"

definition missing_selected_classifier :: "asset list \<Rightarrow> inventory \<Rightarrow> string option" where
  "missing_selected_classifier desired actual =
     (case selected_classifier desired of None \<Rightarrow> None
      | Some a \<Rightarrow> if is_current actual a then None else Some (a_name a))"

definition missing_required_classifiers :: "asset list \<Rightarrow> inventory \<Rightarrow> string list" where
  "missing_required_classifiers desired actual =
     map a_name (filter (\<lambda>a. a_kind a = Classifier \<and> a_selected a \<and> \<not> is_current actual a) desired)"

section \<open>The inventory\<close>

text \<open>\<open>str.lower()\<close>, on ASCII letters.\<close>

definition ascii_lower :: "char \<Rightarrow> char" where
  "ascii_lower c = (if in_range (CHR ''A'') (CHR ''Z'') c then char_of (of_char c + 32 :: nat) else c)"

definition hex_digit :: "char \<Rightarrow> bool" where
  "hex_digit c \<longleftrightarrow> is_digit c \<or> in_range (CHR ''a'') (CHR ''f'') c"

definition parse_entry :: "string \<Rightarrow> (string \<times> (string \<times> nat)) option" where
  "parse_entry line =
     (case py_words line of
        [digest, mtime, name] \<Rightarrow>
          (let low = map ascii_lower digest in
           if length digest = 32 \<and> list_all hex_digit low \<and> mtime \<noteq> [] \<and> list_all is_digit mtime
           then Some (base_name name, (low, nat_of_str mtime)) else None)
      | _ \<Rightarrow> None)"

fun read_entries :: "inventory \<Rightarrow> string list \<Rightarrow> inventory" where
  "read_entries out [] = out"
| "read_entries out (l # ls) =
     read_entries (case parse_entry l of None \<Rightarrow> out | Some (n, e) \<Rightarrow> put n e out) ls"

definition parse_device_listing :: "string \<Rightarrow> inventory" where
  "parse_device_listing text = read_entries [] (py_lines text)"

definition FREE_TAG :: string where "FREE_TAG = ''FREE ''"
definition INVENTORY_OK :: string where "INVENTORY_OK = ''INVENTORY_OK''"
definition CMD_DONE :: string where "CMD_DONE = ''__CMD_DONE_9f3a__''"

text \<open>
  What \<open>_shell_run\<close> returns of a command's output: all of it or a beginning of it, with what has come
  of the sentinel when that was split over two messages.
\<close>

definition heard :: "nat \<Rightarrow> string \<Rightarrow> string" where
  "heard n out = py_strip (take n (out @ CMD_DONE))"

record device_state =
  ds_installed :: inventory
  ds_free :: "nat option"
  ds_ok :: bool

definition read_device_state :: "string \<Rightarrow> device_state" where
  "read_device_state out =
     (let ls = py_lines out in
      \<lparr>ds_installed = parse_device_listing
         (join_lines (filter (\<lambda>l. \<not> startswith l FREE_TAG \<and> l \<noteq> INVENTORY_OK) ls)),
       ds_free = (case rev (filter (\<lambda>l. startswith l FREE_TAG) ls) of
                    [] \<Rightarrow> None | l # _ \<Rightarrow> parse_free_mb (drop 5 l)),
       ds_ok = (INVENTORY_OK \<in> set ls)\<rparr>)"

section \<open>The files a device needs\<close>

lemma file_asset_SomeD:
  assumes "file_asset md5 st n src k s = Some a"
  shows "a_name a = n" "a_kind a = k" "a_selected a = s"
    "\<exists>b. src = Some (a_source a) \<and> files st (a_source a) = Some b \<and> a_md5 a = md5 b \<and> a_size a = length b"
  using assms by (auto simp: file_asset_def split: option.splits)

lemma runtime_asset_name: "a \<in> set (fst (runtime_assets md5 st)) \<Longrightarrow> a_name a = RUNTIME_NAME"
  by (auto simp: runtime_assets_def dest: file_asset_SomeD split: option.splits)

lemma distinct_runtime_names: "distinct (map a_name (fst (runtime_assets md5 st)))"
  by (simp add: runtime_assets_def split: option.split)

lemma shared_assets_Cons:
  "fst (shared_assets md5 st (n # ns)) =
     (case file_asset md5 st n (map_option (\<lambda>r. path_join r n) (openwakeword_resources st)) SharedModel False of
        None \<Rightarrow> [] | Some a \<Rightarrow> [a]) @ fst (shared_assets md5 st ns)"
  by (simp add: Let_def split: prod.split option.split)

lemma shared_asset_name: "a \<in> set (fst (shared_assets md5 st ns)) \<Longrightarrow> a_name a \<in> set ns"
  by (induction ns) (auto simp: shared_assets_Cons simp del: shared_assets.simps(2) split: option.splits dest: file_asset_SomeD(1) [OF sym])

lemma distinct_shared_names: "distinct ns \<Longrightarrow> distinct (map a_name (fst (shared_assets md5 st ns)))"
proof (induction ns)
  case (Cons n ns)
  then have "n \<notin> a_name ` set (fst (shared_assets md5 st ns))" by (auto dest: shared_asset_name)
  with Cons show ?case
    by (auto simp del: shared_assets.simps(2) simp: shared_assets_Cons file_asset_SomeD(1) split: option.split)
qed simp

lemma classifier_assets_Cons:
  "fst (classifier_assets md5 st sels seen (m # ms)) =
     (if prediction_key m = [] \<or> prediction_key m \<in> set seen then fst (classifier_assets md5 st sels seen ms)
      else (case file_asset md5 st (prediction_key m @ ONNX) (classifier_source st m) Classifier
              (prediction_key m \<in> set sels) of None \<Rightarrow> [] | Some a \<Rightarrow> [a])
        @ fst (classifier_assets md5 st sels (prediction_key m # seen) ms))"
  by (simp add: Let_def split: prod.split option.split)

lemma classifier_asset_name:
  "a \<in> set (fst (classifier_assets md5 st sels seen ms)) \<Longrightarrow>
   \<exists>m \<in> set ms. a_name a = prediction_key m @ ONNX \<and> prediction_key m \<notin> set seen"
proof (induction ms arbitrary: seen)
  case (Cons m ms)
  show ?case
  proof (cases "prediction_key m = [] \<or> prediction_key m \<in> set seen")
    case True
    with Cons.IH [of seen] Cons.prems show ?thesis by auto
  next
    case False
    then consider "file_asset md5 st (prediction_key m @ ONNX) (classifier_source st m) Classifier
        (prediction_key m \<in> set sels) = Some a"
      | "a \<in> set (fst (classifier_assets md5 st sels (prediction_key m # seen) ms))"
      using Cons.prems unfolding classifier_assets_Cons by (auto split: option.splits)
    then show ?thesis
      using False Cons.IH [of "prediction_key m # seen"] by cases (auto dest: file_asset_SomeD(1))
  qed
qed simp

lemma distinct_classifier_names: "distinct (map a_name (fst (classifier_assets md5 st sels seen ms)))"
proof (induction ms arbitrary: seen)
  case (Cons m ms)
  have "prediction_key m @ ONNX \<notin> a_name ` set (fst (classifier_assets md5 st sels (prediction_key m # seen) ms))"
    by (auto dest: classifier_asset_name)
  with Cons show ?case
    by (auto simp: classifier_assets_Cons file_asset_SomeD(1) simp del: classifier_assets.simps(2) split: option.split)
qed simp

definition names_apart :: "string list \<Rightarrow> bool" where
  "names_apart models \<longleftrightarrow> list_all (\<lambda>m. prediction_key m @ ONNX \<notin> set SHARED_NAMES) models"

lemma stock_names_apart: "names_apart STOCK_MODELS"
  by code_simp

lemma onnx_not_runtime: "s @ ONNX \<noteq> RUNTIME_NAME"
proof
  assume "s @ ONNX = RUNTIME_NAME"
  then have "last (s @ ONNX) = last RUNTIME_NAME" by simp
  then show False by (simp add: ONNX_def RUNTIME_NAME_def)
qed

lemma desired_assets_parts:
  "fst (desired_assets md5 st models) =
     fst (runtime_assets md5 st) @ fst (shared_assets md5 st SHARED_NAMES)
     @ fst (classifier_assets md5 st (map prediction_key (filter (\<lambda>m. m \<noteq> []) models)) []
         (models @ filter (\<lambda>m. m \<notin> set models) STOCK_MODELS))"
  by (simp add: desired_assets_def Let_def split: prod.split)

lemma three_apart:
  "A \<subseteq> {r} \<Longrightarrow> B \<subseteq> S \<Longrightarrow> C \<inter> insert r S = {} \<Longrightarrow> r \<notin> S \<Longrightarrow> A \<inter> (B \<union> C) = {} \<and> B \<inter> C = {}"
  by blast

lemma desired_assets_distinct:
  assumes "names_apart models"
  shows "distinct (map a_name (fst (desired_assets md5 st models)))"
proof -
  have w: "prediction_key m @ ONNX \<notin> set SHARED_NAMES" if "m \<in> set models \<union> set STOCK_MODELS" for m
    using that assms stock_names_apart by (auto simp: names_apart_def list_all_iff)
  have sh: "distinct SHARED_NAMES" "RUNTIME_NAME \<notin> set SHARED_NAMES"
    by (simp_all add: SHARED_NAMES_def RUNTIME_NAME_def)
  have names: "a_name ` set (fst (runtime_assets md5 st)) \<subseteq> {RUNTIME_NAME}"
    "a_name ` set (fst (shared_assets md5 st SHARED_NAMES)) \<subseteq> set SHARED_NAMES"
    by (auto dest: runtime_asset_name shared_asset_name)
  have cl: "a_name ` set (fst (classifier_assets md5 st sels [] (models @ filter (\<lambda>m. m \<notin> set models) STOCK_MODELS)))
      \<inter> insert RUNTIME_NAME (set SHARED_NAMES) = {}" (is "?C sels \<inter> _ = _") for sels
    using w onnx_not_runtime onnx_not_runtime [symmetric] by (auto dest!: classifier_asset_name)
  show ?thesis
    using three_apart [OF names cl sh(2)]
    by (simp add: desired_assets_parts distinct_runtime_names distinct_shared_names [OF sh(1)] distinct_classifier_names)
qed

text \<open>Every asset of the list is a file of the controller.\<close>

definition from_file :: "(bytes \<Rightarrow> string) \<Rightarrow> site \<Rightarrow> asset \<Rightarrow> bool" where
  "from_file md5 st a =
     (case files st (a_source a) of None \<Rightarrow> False | Some b \<Rightarrow> a_md5 a = md5 b \<and> a_size a = length b)"

lemma file_asset_from_file: "file_asset md5 st n src k s = Some a \<Longrightarrow> from_file md5 st a"
  by (auto simp: from_file_def dest!: file_asset_SomeD(4))

lemma runtime_from_file: "list_all (from_file md5 st) (fst (runtime_assets md5 st))"
  by (auto simp: runtime_assets_def file_asset_from_file split: option.split)

lemma shared_from_file: "list_all (from_file md5 st) (fst (shared_assets md5 st ns))"
  by (induction ns) (auto simp: shared_assets_Cons file_asset_from_file simp del: shared_assets.simps(2) split: option.split)

lemma classifiers_from_file: "list_all (from_file md5 st) (fst (classifier_assets md5 st sels seen ms))"
  by (induction ms arbitrary: seen)
    (auto simp: classifier_assets_Cons file_asset_from_file simp del: classifier_assets.simps(2) split: option.split)

lemma desired_from_file: "a \<in> set (fst (desired_assets md5 st models)) \<Longrightarrow> from_file md5 st a"
  using runtime_from_file shared_from_file classifiers_from_file
  unfolding desired_assets_parts by (auto simp: list_all_iff)

lemma desired_asset_name:
  assumes "a \<in> set (fst (desired_assets md5 st models))"
  shows "a_name a \<in> insert RUNTIME_NAME (set SHARED_NAMES) \<or> (\<exists>s. a_name a = s @ ONNX)"
  using assms unfolding desired_assets_parts
  by (auto dest: runtime_asset_name shared_asset_name classifier_asset_name)

section \<open>The plan settles\<close>

lemma set_newest_first [simp]: "set (newest_first xs) = set xs"
  by (simp add: newest_first_def)

lemma length_newest_first [simp]: "length (newest_first xs) = length xs"
  by (simp add: newest_first_def)

lemma distinct_map_newest_first [simp]: "distinct (map f (newest_first xs)) \<longleftrightarrow> distinct (map f xs)"
  unfolding newest_first_def by (metis distinct_map distinct_sort set_sort)

lemma set_extras:
  "n \<in> set (extras desired actual) \<longleftrightarrow>
     n \<in> fst ` set actual \<and> endswith n ONNX \<and> n \<notin> set (required_names desired)"
  by (force simp: extras_def)

lemma distinct_map_fst_filter: "distinct (map fst xs) \<Longrightarrow> distinct (map fst (filter P xs))"
  by (induction xs) auto

lemma distinct_extras: "distinct (map fst actual) \<Longrightarrow> distinct (extras desired actual)"
  by (simp add: extras_def distinct_map_fst_filter)

lemma prune_spares:
  "n \<in> set (p_prune (plan_sync room free desired actual)) \<Longrightarrow>
     endswith n ONNX \<and> n \<notin> set (required_names desired) \<and> n \<in> fst ` set actual"
  by (auto simp: plan_sync_def Let_def set_extras split: if_splits dest: in_set_dropD)

text \<open>The inventory after a plan was carried out.\<close>

definition apply_plan :: "nat \<Rightarrow> sync_plan \<Rightarrow> inventory \<Rightarrow> inventory" where
  "apply_plan now p actual =
     fold (\<lambda>a. put (a_name a) (a_md5 a, now)) (p_push p) (filter (\<lambda>e. fst e \<notin> set (p_prune p)) actual)"

lemma map_of_fold_put:
  "distinct (map a_name as) \<Longrightarrow>
   map_of (fold (\<lambda>a. put (a_name a) (a_md5 a, now)) as inv0) n
     = (case List.find (\<lambda>a. a_name a = n) as of None \<Rightarrow> map_of inv0 n | Some a \<Rightarrow> Some (a_md5 a, now))"
proof (induction as arbitrary: inv0)
  case (Cons a as)
  then have "List.find (\<lambda>b. a_name b = a_name a) as = None"
    by (auto simp: find_None_iff) (metis imageI)
  with Cons show ?case by (auto split: option.split)
qed simp

lemma distinct_fold_put:
  "distinct (map fst inv0) \<Longrightarrow> distinct (map fst (fold (\<lambda>a. put (a_name a) (a_md5 a, now)) as inv0))"
  by (induction as arbitrary: inv0) (auto simp: distinct_put)

lemma keys_fold_put:
  "fst ` set (fold (\<lambda>a. put (a_name a) (a_md5 a, now)) as inv0) = a_name ` set as \<union> fst ` set inv0"
  by (induction as arbitrary: inv0) auto

lemma map_of_unpruned: "map_of (filter (\<lambda>e. fst e \<notin> S) xs) n = (if n \<in> S then None else map_of xs n)"
  by (induction xs) auto

lemma plan_current:
  assumes "distinct (map a_name desired)" "p_blocked (plan_sync room free desired actual) = None" "a \<in> set desired"
  shows "is_current (apply_plan now (plan_sync room free desired actual) actual) a"
proof -
  let ?p = "plan_sync room free desired actual"
  have p: "p_push ?p = filter (\<lambda>a. \<not> is_current actual a) desired"
    "set (p_prune ?p) \<subseteq> set (extras desired actual)"
    using assms(2) by (auto simp: plan_sync_def Let_def split: if_splits dest: in_set_dropD)
  have nr: "a_name a \<notin> set (p_prune ?p)"
    using p(2) assms(3) by (auto simp: set_extras required_names_def)
  have d: "distinct (map a_name (p_push ?p))" using assms(1) by (simp add: p(1) distinct_map_filter)
  have inj: "\<And>b. b \<in> set desired \<Longrightarrow> a_name b = a_name a \<Longrightarrow> b = a"
    using assms(1,3) by (meson distinct_map inj_onD)
  show ?thesis
  proof (cases "is_current actual a")
    case True
    then have "List.find (\<lambda>b. a_name b = a_name a) (p_push ?p) = None"
      using inj by (auto simp: find_None_iff p(1))
    with True nr show ?thesis
      by (simp add: is_current_def apply_plan_def map_of_fold_put [OF d] map_of_unpruned)
  next
    case False
    then have "a \<in> set (p_push ?p)" using assms(3) by (simp add: p(1))
    then obtain b where b: "List.find (\<lambda>b. a_name b = a_name a) (p_push ?p) = Some b"
      by (cases "List.find (\<lambda>b. a_name b = a_name a) (p_push ?p)") (auto simp: find_None_iff)
    then have "b \<in> set desired" "a_name b = a_name a"
      by (auto simp: find_Some_iff p(1) dest!: nth_mem)
    then have "b = a" by (rule inj)
    with b show ?thesis
      by (simp add: is_current_def apply_plan_def map_of_fold_put [OF d])
  qed
qed

lemma plan_extras_fit:
  assumes "distinct (map fst actual)" "p_blocked (plan_sync room free desired actual) = None"
  shows "length (extras desired (apply_plan now (plan_sync room free desired actual) actual)) \<le> leftover_slots room desired"
proof -
  let ?p = "plan_sync room free desired actual" and ?k = "leftover_slots room desired"
  let ?e = "extras desired actual" and ?e' = "extras desired (apply_plan now (plan_sync room free desired actual) actual)"
  have p: "p_prune ?p = drop ?k ?e" "a_name ` set (p_push ?p) \<subseteq> set (required_names desired)"
    using assms(2) by (auto simp: plan_sync_def Let_def required_names_def split: if_splits)
  have "set ?e' \<subseteq> set ?e - set (drop ?k ?e)"
  proof
    fix n assume n: "n \<in> set ?e'"
    then have "n \<notin> a_name ` set (p_push ?p)" using p(2) by (auto simp: set_extras)
    with n show "n \<in> set ?e - set (drop ?k ?e)" by (auto simp: set_extras apply_plan_def keys_fold_put p(1))
  qed
  also have "set ?e - set (drop ?k ?e) \<subseteq> set (take ?k ?e)"
    by (metis Diff_subset_conv Un_commute append_take_drop_id order_refl set_append)
  finally have sub: "set ?e' \<subseteq> set (take ?k ?e)" .
  have "distinct ?e'"
    by (rule distinct_extras) (simp add: apply_plan_def distinct_fold_put distinct_map_fst_filter assms(1))
  then have "length ?e' = card (set ?e')" by (simp add: distinct_card)
  also have "\<dots> \<le> card (set (take ?k ?e))" by (rule card_mono [OF _ sub]) simp
  also have "\<dots> \<le> length (take ?k ?e)" by (rule card_length)
  finally show ?thesis by simp
qed


text \<open>
  A model named like a shared file never lets the plan settle: the two want different contents under one name.
\<close>
theorem colliding_model_never_settles:
  assumes "a \<in> set desired" "b \<in> set desired" "a_name a = a_name b" "a_md5 a \<noteq> a_md5 b"
  shows "\<not> is_noop (plan_sync room free desired actual)"
proof -
  have "\<not> is_current actual a \<or> \<not> is_current actual b"
    using assms(3,4) by (auto simp: is_current_def split: option.splits)
  with assms(1,2) have "filter (\<lambda>a. \<not> is_current actual a) desired \<noteq> []" by (auto simp: filter_empty_conv)
  then show ?thesis by (simp add: plan_sync_def is_noop_def Let_def)
qed

definition small_site :: site where
  "small_site =
     \<lparr>files = map_of [(''/app/models/oww_assets/melspectrogram.onnx'', [1]), (''/data/oww_models/melspectrogram.onnx'', [2, 3]),
                     (''/data/oww_models/bob.onnx'', [2])],
      has_resources = True, models_at = Some ''/data/oww_models''\<rparr>"

text \<open>A digest for the examples.\<close>

definition length_digest :: "bytes \<Rightarrow> string" where
  "length_digest b = replicate (length b) CHR ''1''"

definition old_inventory :: inventory where
  "old_inventory = [(''older.onnx'', (''2'', 4)), (''old.onnx'', (''3'', 9)), (''bob.onnx'', (''4'', 1))]"


definition clash_assets :: "asset list" where
  "clash_assets = fst (desired_assets length_digest small_site [''melspectrogram.onnx''])"

lemma colliding_model_never_settles_witness:
  "\<not> is_noop (plan_sync 4 None clash_assets old_inventory)"
proof -
  have "clash_assets ! 0 \<in> set clash_assets" "clash_assets ! 1 \<in> set clash_assets"
    "a_name (clash_assets ! 0) = a_name (clash_assets ! 1)" "a_md5 (clash_assets ! 0) \<noteq> a_md5 (clash_assets ! 1)"
    by code_simp+
  then show ?thesis by (rule colliding_model_never_settles)
qed

end
