(* ===== verification/WakeSync.thy ===== *)
theory WakeSync
  imports WakeAssets
begin

text \<open>
  Carrying a plan out on a device and moving it to a new wake word: \<open>_oww_device_state\<close>,
  \<open>_sync_oww_assets\<close>, \<open>_hold_back_oww_model\<close>, \<open>_apply_live_config\<close> (its wake and stop keys),
  \<open>_install_then_switch\<close>, \<open>reconcile_oww_assets\<close> and the endpoints around them in
  \<open>controller/em_api.py\<close>.

  The device's asset directory is a list of files with their modification times. What the link and the
  device do is an argument: how much of each reply is heard, which commands run, how each transfer goes.
\<close>

section \<open>Synchronising a device\<close>

type_synonym device_dir = "(string \<times> (bytes \<times> nat)) list"

definition part_name :: "string \<Rightarrow> string" where "part_name n = n @ ''.part''"

definition content_of :: "device_dir \<Rightarrow> string \<Rightarrow> bytes option" where
  "content_of d n = map_option fst (map_of d n)"

definition set_content :: "string \<Rightarrow> bytes option \<Rightarrow> nat \<Rightarrow> device_dir \<Rightarrow> device_dir" where
  "set_content n c now d = (case c of None \<Rightarrow> pop n d | Some b \<Rightarrow> put n (b, now) d)"

text \<open>The listing: the globs \<open>*.so\<close> and \<open>*.onnx\<close>, which pass over hidden files, in their order.\<close>

definition listed :: "string \<Rightarrow> device_dir \<Rightarrow> device_dir" where
  "listed ending d = sort_key fst (filter (\<lambda>(n, _). endswith n ending \<and> \<not> startswith n ''.'') d)"

definition listing_line :: "(bytes \<Rightarrow> string) \<Rightarrow> string \<times> (bytes \<times> nat) \<Rightarrow> string" where
  "listing_line md5 e =
     (case e of (n, (b, t)) \<Rightarrow> md5 b @ '' '' @ str_of_nat t @ '' '' @ device_path n)"

definition inventory_lines :: "(bytes \<Rightarrow> string) \<Rightarrow> string \<Rightarrow> device_dir \<Rightarrow> string list" where
  "inventory_lines md5 df d =
     map (listing_line md5) (listed ''.so'' d @ listed ONNX d) @ [FREE_TAG @ df, INVENTORY_OK]"

text \<open>Sending one asset. The times of \<open>.part\<close> files are read by nothing.\<close>

record send_env =
  sn_read :: "bytes option"
  sn_transfer :: transfer_env
  sn_now :: nat
  sn_ran :: bool
  sn_md5sum :: bool
  sn_chmod :: bool
  sn_heard :: nat

datatype sync_error =
    NothingToInstall "asset_problem list"
  | DeviceFull nat nat
  | Unreadable string
  | SendFailed string transfer_result
  | Md5Mismatch string
  | SyncRaised

definition install_part ::
  "(bytes \<Rightarrow> string) \<Rightarrow> bool \<Rightarrow> bool \<Rightarrow> asset \<Rightarrow> device_dir \<Rightarrow> string \<times> device_dir" where
  "install_part md5 md5sum chmod a d =
     (let part = part_name (a_name a);
          got = (case content_of d part of None \<Rightarrow> [] | Some b \<Rightarrow> if md5sum then md5 b else []) in
      if got = a_md5 a
      then (case map_of d part of
              None \<Rightarrow> ([], d)
            | Some e \<Rightarrow> (if chmod then ''OK'' @ NL else [], put (a_name a) e (pop part d)))
      else (''BAD:'' @ got @ NL, pop part d))"

definition transfer_part ::
  "(bytes \<Rightarrow> string) \<Rightarrow> send_env \<Rightarrow> asset \<Rightarrow> bytes \<Rightarrow> device_dir \<Rightarrow> transfer_result \<times> device_dir" where
  "transfer_part md5 env a data d =
     (let part = part_name (a_name a); pp = part_name part;
          (r, f) = stream_file md5 False (sn_transfer env) (device_path pp) data
                     \<lparr>df_dest = content_of d part, df_part = content_of d pp\<rparr> in
      (r, set_content pp (df_part f) (sn_now env) (set_content part (df_dest f) (sn_now env) d)))"

definition send_asset ::
  "(bytes \<Rightarrow> string) \<Rightarrow> send_env \<Rightarrow> asset \<Rightarrow> device_dir \<Rightarrow> sync_error option \<times> device_dir" where
  "send_asset md5 env a d =
     (case sn_read env of
        None \<Rightarrow> (Some (Unreadable (a_name a)), d)
      | Some data \<Rightarrow>
          (let (r, d1) = transfer_part md5 env a data d in
           if \<not> transferred_ok r then (Some (SendFailed (a_name a) r), d1)
           else if \<not> sn_ran env then (Some (Md5Mismatch (a_name a)), d1)
           else let (out, d2) = install_part md5 (sn_md5sum env) (sn_chmod env) a d1 in
             if occurs_in ''OK'' (heard (sn_heard env) out) then (None, d2)
             else (Some (Md5Mismatch (a_name a)), d2)))"

fun send_assets ::
  "(bytes \<Rightarrow> string) \<Rightarrow> (string \<Rightarrow> send_env) \<Rightarrow> asset list \<Rightarrow> device_dir \<Rightarrow> sync_error option \<times> device_dir" where
  "send_assets md5 env [] d = (None, d)"
| "send_assets md5 env (a # as) d =
     (case send_asset md5 (env (a_name a)) a d of
        (Some e, d') \<Rightarrow> (Some e, d')
      | (None, d') \<Rightarrow> send_assets md5 env as d')"

text \<open>
  The rest of a synchronisation: how much of the inventory is heard, which \<open>rm\<close> and whether the
  \<open>touch\<close> run (it creates a missing file), and whether some call raises before the plan is carried out.
\<close>

record sync_env =
  sy_df :: string
  sy_heard :: nat
  sy_raises :: bool
  sy_send :: "string \<Rightarrow> send_env"
  sy_rm :: "string \<Rightarrow> bool"
  sy_touch :: bool
  sy_now :: nat

definition oww_device_state :: "(bytes \<Rightarrow> string) \<Rightarrow> sync_env \<Rightarrow> device_dir \<Rightarrow> device_state" where
  "oww_device_state md5 env d =
     read_device_state (heard (sy_heard env) (print_lines (inventory_lines md5 (sy_df env) d)))"

definition prune_files :: "(string \<Rightarrow> bool) \<Rightarrow> string list \<Rightarrow> device_dir \<Rightarrow> device_dir" where
  "prune_files rm_ran names d = filter (\<lambda>e. \<not> (fst e \<in> set names \<and> rm_ran (fst e))) d"

definition touch_file :: "nat \<Rightarrow> string \<Rightarrow> device_dir \<Rightarrow> device_dir" where
  "touch_file now n d = put n (case content_of d n of None \<Rightarrow> [] | Some b \<Rightarrow> b, now) d"

datatype sync_result = Synced "string list" "string list" "asset_problem list" | NotSynced sync_error

fun synced_ok :: "sync_result \<Rightarrow> bool" where
  "synced_ok (Synced _ _ _) \<longleftrightarrow> True"
| "synced_ok (NotSynced _) \<longleftrightarrow> False"

definition finish_sync :: "sync_env \<Rightarrow> asset list \<Rightarrow> sync_plan \<Rightarrow> device_dir \<Rightarrow> device_dir" where
  "finish_sync env desired p d =
     (let d1 = prune_files (sy_rm env) (p_prune p) d in
      case selected_classifier desired of
        None \<Rightarrow> d1
      | Some a \<Rightarrow> if sy_touch env then touch_file (sy_now env) (a_name a) d1 else d1)"

definition carry_out ::
  "(bytes \<Rightarrow> string) \<Rightarrow> sync_env \<Rightarrow> asset list \<Rightarrow> asset_problem list \<Rightarrow> sync_plan \<Rightarrow> device_dir
   \<Rightarrow> sync_result \<times> device_dir" where
  "carry_out md5 env desired problems p d =
     (case p_blocked p of
        Some (mb, need) \<Rightarrow> (NotSynced (DeviceFull mb need), d)
      | None \<Rightarrow>
          if is_noop p then (Synced [] [] problems, d)
          else case send_assets md5 (sy_send env) (p_push p) d of
            (Some e, d1) \<Rightarrow> (NotSynced e, d1)
          | (None, d1) \<Rightarrow> (Synced (map a_name (p_push p)) (p_prune p) problems, finish_sync env desired p d1))"

definition sync_oww_assets ::
  "(bytes \<Rightarrow> string) \<Rightarrow> site \<Rightarrow> sync_env \<Rightarrow> string list \<Rightarrow> device_dir \<Rightarrow> sync_result \<times> device_dir" where
  "sync_oww_assets md5 st env models d =
     (let (desired, problems) = desired_assets md5 st models in
      if sy_raises env then (NotSynced SyncRaised, d)
      else if desired = [] then (NotSynced (NothingToInstall problems), d)
      else let s = oww_device_state md5 env d in
        carry_out md5 env desired problems
          (plan_sync CLASSIFIER_SLOTS (ds_free s) desired (ds_installed s)) d)"

section \<open>Changing the wake word\<close>

text \<open>The two keys of the effective configuration, and the controller's side of a connected device.\<close>

record wake_config =
  cfg_oww :: "string option"
  cfg_stop :: "string option"

record wake_link =
  wl_model :: string
  wl_stop :: string
  wl_stop_ready :: bool
  wl_requests :: bool
  wl_ready :: bool
  wl_sent :: "wake_config list"

definition opt_string :: "string option \<Rightarrow> string" where
  "opt_string x = (case x of None \<Rightarrow> [] | Some s \<Rightarrow> s)"

definition wake_and_stop :: "site \<Rightarrow> wake_config \<Rightarrow> string list" where
  "wake_and_stop st cfg =
     filter (\<lambda>m. m \<noteq> []) [py_strip (opt_string (cfg_oww cfg)), effective_stop_model st (cfg_stop cfg)]"

definition oww_wanted_models :: "site \<Rightarrow> wake_config \<Rightarrow> string list" where
  "oww_wanted_models st cfg = (case wake_and_stop st cfg of [a, b] \<Rightarrow> if a = b then [a] else [a, b] | ms \<Rightarrow> ms)"

definition fleet_wanted_models :: "site \<Rightarrow> wake_config \<Rightarrow> string list" where
  "fleet_wanted_models st cfg = wake_and_stop st cfg"

definition hold_back_oww_model :: "wake_link \<Rightarrow> wake_config \<Rightarrow> wake_config \<times> string option" where
  "hold_back_oww_model l cfg =
     (let new = py_strip (opt_string (cfg_oww cfg)) in
      if new = [] \<or> new = wl_model l then (cfg, None)
      else if \<not> wl_requests l then (cfg, None)
      else (cfg\<lparr>cfg_oww := Some (wl_model l)\<rparr>, Some new))"

definition send_config :: "wake_config \<Rightarrow> wake_link \<Rightarrow> wake_link" where
  "send_config cfg l = l\<lparr>wl_sent := wl_sent l @ [cfg]\<rparr>"

definition apply_wake_config :: "site \<Rightarrow> wake_config \<Rightarrow> wake_link \<Rightarrow> wake_link \<times> string option" where
  "apply_wake_config st cfg l =
     (let (held, pending) = hold_back_oww_model l cfg;
          sent = held\<lparr>cfg_stop := map_option (\<lambda>s. effective_stop_model st (Some s)) (cfg_stop held)\<rparr>;
          l1 = send_config sent l;
          l2 = (case cfg_oww sent of None \<Rightarrow> l1 | Some m \<Rightarrow> l1\<lparr>wl_model := m\<rparr>);
          l3 = (case cfg_stop sent of None \<Rightarrow> l2
                | Some m \<Rightarrow> l2\<lparr>wl_stop_ready := wl_stop_ready l2 \<and> m = wl_stop l2, wl_stop := m\<rparr>) in
      (l3, pending))"

text \<open>
  The background tasks. \<open>cfg\<close> is the configuration the synchronisation reads, \<open>later\<close> the one read
  after it; \<open>stays\<close> says whether the device is connected at the end.
\<close>

definition install_then_switch ::
  "(bytes \<Rightarrow> string) \<Rightarrow> site \<Rightarrow> sync_env \<Rightarrow> wake_config \<Rightarrow> wake_config \<Rightarrow> bool \<Rightarrow> string
   \<Rightarrow> wake_link \<times> device_dir \<Rightarrow> wake_link \<times> device_dir" where
  "install_then_switch md5 st env cfg later stays model s =
     (let (l, d) = s; (r, d') = sync_oww_assets md5 st env (oww_wanted_models st cfg) d in
      if \<not> stays \<or> \<not> synced_ok r \<or> py_strip (opt_string (cfg_oww later)) \<noteq> model then (l, d')
      else ((send_config later l)\<lparr>wl_model := model\<rparr>, d'))"

definition reconcile_oww_assets ::
  "(bytes \<Rightarrow> string) \<Rightarrow> site \<Rightarrow> sync_env \<Rightarrow> sync_env \<Rightarrow> wake_config \<Rightarrow> bool
   \<Rightarrow> wake_link \<times> device_dir \<Rightarrow> wake_link \<times> device_dir" where
  "reconcile_oww_assets md5 st look env cfg stays s =
     (let (l, d) = s;
          desired = fst (desired_assets md5 st (oww_wanted_models st cfg));
          state = oww_device_state md5 look d in
      if \<not> wl_requests l \<or> sy_raises look \<or> \<not> ds_ok state
        \<or> missing_selected_classifier desired (ds_installed state) = None then (l, d)
      else
        (let l1 = l\<lparr>wl_ready := False\<rparr>; (r, d') = sync_oww_assets md5 st env (oww_wanted_models st cfg) d in
         if \<not> stays \<or> \<not> synced_ok r then (l1, d') else (send_config cfg l1, d')))"

section \<open>The endpoints\<close>

datatype asset_status = StUnknown | StBlocked | StInstalled | StOutdated | StAbsent

definition oww_assets_status :: "(bytes \<Rightarrow> string) \<Rightarrow> site \<Rightarrow> sync_env \<Rightarrow> wake_config \<Rightarrow> device_dir option \<Rightarrow> asset_status" where
  "oww_assets_status md5 st env cfg live =
     (case live of
        None \<Rightarrow> StUnknown
      | Some d \<Rightarrow>
          (let s = oww_device_state md5 env d;
               p = plan_sync CLASSIFIER_SLOTS (ds_free s) (fst (desired_assets md5 st (oww_wanted_models st cfg)))
                     (ds_installed s) in
           if p_blocked p \<noteq> None then StBlocked
           else if is_noop p then StInstalled
           else if p_keep p \<noteq> [] then StOutdated
           else StAbsent))"

datatype asset_refusal = AssetNotFound | AssetUnreadable

definition provision_oww_asset ::
  "(bytes \<Rightarrow> string) \<Rightarrow> site \<Rightarrow> (string \<Rightarrow> bytes option) \<Rightarrow> wake_config \<Rightarrow> string \<Rightarrow> asset_refusal + bytes \<times> string" where
  "provision_oww_asset md5 st now fleet name =
     (case List.find (\<lambda>a. a_name a = name) (fst (desired_assets md5 st (fleet_wanted_models st fleet))) of
        None \<Rightarrow> Inl AssetNotFound
      | Some a \<Rightarrow> (case now (a_source a) of None \<Rightarrow> Inl AssetUnreadable | Some b \<Rightarrow> Inr (b, a_md5 a)))"

datatype model_refusal = BadModelName | NoSuchModel | ModelInUse "string list"

definition delete_oww_model ::
  "(string \<Rightarrow> string) \<Rightarrow> (string \<times> string list) list \<Rightarrow> string \<Rightarrow> string \<Rightarrow> site \<Rightarrow> model_refusal + site" where
  "delete_oww_model resolve configs dir file st =
     (case safe_model_filename file of
        None \<Rightarrow> Inl BadModelName
      | Some f \<Rightarrow>
          (let path = path_join dir f; users = in_use_by resolve path configs in
           if \<not> is_a_file st path then Inl NoSuchModel
           else if users \<noteq> [] then Inl (ModelInUse users)
           else Inr (st\<lparr>files := (files st)(path := None)\<rparr>)))"

text \<open>Uploading a model; the file replaces the one before it in one step.\<close>

definition MAX_MODEL_BYTES :: nat where "MAX_MODEL_BYTES = 20 * 1024 * 1024"

datatype upload_error = BadUploadName | EmptyModel | ModelTooLarge

definition upload_data :: "bytes \<Rightarrow> upload_error + unit" where
  "upload_data data =
     (if data = [] then Inl EmptyModel
      else if MAX_MODEL_BYTES < length data then Inl ModelTooLarge
      else Inr ())"

definition store_model :: "string \<Rightarrow> string \<Rightarrow> bytes \<Rightarrow> site \<Rightarrow> site" where
  "store_model dir f data st = st\<lparr>files := (files st)(path_join dir f \<mapsto> data)\<rparr>"

definition post_oww_model_upload :: "string \<Rightarrow> string \<Rightarrow> bytes \<Rightarrow> site \<Rightarrow> upload_error + string \<times> site" where
  "post_oww_model_upload dir filename data st =
     (case safe_model_filename filename of
        None \<Rightarrow> Inl BadUploadName
      | Some f \<Rightarrow> bind_res (upload_data data) (\<lambda>_. Inr (path_join dir f, store_model dir f data st)))"

text \<open>A stop model goes to its one place and is selected for the fleet, whose devices are told at once.\<close>

definition post_stop_model_upload ::
  "string \<Rightarrow> string \<Rightarrow> bytes \<Rightarrow> site \<Rightarrow> wake_config \<Rightarrow> (wake_link \<times> (wake_config \<Rightarrow> wake_config)) list
   \<Rightarrow> upload_error + site \<times> wake_config \<times> (wake_link \<times> string option) list" where
  "post_stop_model_upload dir filename data st fleet devices =
     (if \<not> endswith (map ascii_lower filename) ONNX then Inl BadUploadName
      else bind_res (upload_data data) (\<lambda>_.
        let st' = store_model dir ''stop.onnx'' data st;
            fleet' = fleet\<lparr>cfg_stop := Some (path_join dir ''stop.onnx'')\<rparr> in
        Inr (st', fleet', map (\<lambda>(l, effective). apply_wake_config st' (effective fleet') l) devices)))"

text \<open>Readiness of the detector, as the device reports it.\<close>

definition wake_status_ready ::
  "(bytes \<Rightarrow> string) \<Rightarrow> site \<Rightarrow> wake_link \<Rightarrow> bool \<Rightarrow> string option \<Rightarrow> string option \<Rightarrow> bool" where
  "wake_status_ready md5 st l ready model checksum =
     (if \<not> ready \<or> model \<noteq> Some (wl_model l) then False
      else case checksum of None \<Rightarrow> False
      | Some h \<Rightarrow>
          (case classifier_source st (wl_model l) of None \<Rightarrow> False
           | Some p \<Rightarrow> (case files st p of None \<Rightarrow> False | Some b \<Rightarrow> h = md5 b)))"

section \<open>Reading the inventory back\<close>

lemma three_words_of_prefix:
  assumes "plain h" "h \<noteq> []" "plain m" "m \<noteq> []" "plain p" "prefix l (h @ '' '' @ m @ '' '' @ p)"
    and "py_words l = [x, y, z]"
  shows "x = h \<and> y = m \<and> prefix z p"
proof -
  consider "prefix l h" | "l = h @ '' ''" | u where "l = h @ '' '' @ u" "prefix u m"
    | u where "l = h @ '' '' @ m @ '' '' @ u" "prefix u p"
    using assms(6) unfolding prefix_append by (auto simp: prefix_Cons)
  then show ?thesis
  proof cases
    case 1
    with assms show ?thesis by (auto simp: py_words_end plain_prefix split: if_splits)
  next
    case 2
    with assms show ?thesis by (simp add: py_words_word) (simp add: py_words_def)
  next
    case 3
    with assms show ?thesis by (auto simp: py_words_word py_words_end plain_prefix split: if_splits)
  next
    case 4
    with assms show ?thesis by (auto simp: py_words_word py_words_end plain_prefix split: if_splits)
  qed
qed

subsection \<open>Entries\<close>

definition md5_like :: "(bytes \<Rightarrow> string) \<Rightarrow> bool" where
  "md5_like md5 \<longleftrightarrow> (\<forall>b. length (md5 b) = 32 \<and> list_all hex_digit (md5 b))"

lemma hex_digit_plain: "hex_digit c \<Longrightarrow> \<not> is_space c \<and> ascii_lower c = c"
  by (auto simp: hex_digit_def is_digit_def in_range_def is_space_def ascii_lower_def Let_def)

lemma md5_like_facts:
  assumes "md5_like md5"
  shows "plain (md5 b)" "md5 b \<noteq> []" "map ascii_lower (md5 b) = md5 b" "CHR ''K'' \<notin> set (md5 b)"
proof -
  have h: "length (md5 b) = 32" "list_all hex_digit (md5 b)" using assms by (auto simp: md5_like_def)
  then show "plain (md5 b)" "map ascii_lower (md5 b) = md5 b"
    by (auto simp: plain_def list_all_iff hex_digit_plain map_idI)
  have "\<not> hex_digit (CHR ''K'')" by (simp add: hex_digit_def is_digit_def in_range_def)
  with h show "CHR ''K'' \<notin> set (md5 b)" by (auto simp: list_all_iff)
  show "md5 b \<noteq> []" using h(1) by auto
qed

lemma digits_plain: "plain (str_of_nat n)"
proof -
  have "\<not> is_space c" if "is_digit c" for c using that hex_digit_plain by (auto simp: hex_digit_def)
  then show ?thesis using str_of_nat_digits [of n] by (auto simp: plain_def list_all_iff)
qed

definition flat_name :: "string \<Rightarrow> bool" where
  "flat_name n \<longleftrightarrow> plain n \<and> CHR ''/'' \<notin> set n"

lemma base_name_flat: "CHR ''/'' \<notin> set n \<Longrightarrow> base_name (p @ CHR ''/'' # n) = n"
proof -
  assume "CHR ''/'' \<notin> set n"
  then have "takeWhile (\<lambda>c. c \<noteq> CHR ''/'') (rev n @ CHR ''/'' # rev p) = rev n"
    by (subst takeWhile_append2) auto
  then show ?thesis by (simp add: base_name_def)
qed

lemma set_base_name: "set (base_name p) \<subseteq> set p"
  unfolding base_name_def by (metis set_rev set_takeWhileD subsetI)

lemma base_name_of_prefix:
  assumes "flat_name n" "prefix p (device_path n)"
  shows "CHR ''.'' \<notin> set (base_name p) \<or> prefix (base_name p) n"
proof -
  have dir: "CHR ''.'' \<notin> set DEVICE_DIR" by (simp add: DEVICE_DIR_def)
  from assms(2) consider "prefix p DEVICE_DIR" | u where "p = DEVICE_DIR @ CHR ''/'' # u" "prefix u n"
    unfolding device_path_def prefix_append by (auto simp: prefix_Cons)
  then show ?thesis
  proof cases
    case 1
    then have "set (base_name p) \<subseteq> set DEVICE_DIR" using set_base_name set_mono_prefix by blast
    with dir show ?thesis by blast
  next
    case 2
    then have "CHR ''/'' \<notin> set u" using assms(1) set_mono_prefix by (fastforce simp: flat_name_def)
    with 2 show ?thesis by (simp add: base_name_flat)
  qed
qed

lemma entry_of_listing_line:
  assumes "md5_like md5" "flat_name nm" "prefix l (listing_line md5 (nm, (b, t)))" "parse_entry l = Some (n, (h, k))"
  shows "h = md5 b \<and> (CHR ''.'' \<notin> set n \<or> prefix n nm)"
proof -
  from assms(4) obtain x y z where w: "py_words l = [x, y, z]" "n = base_name z" "h = map ascii_lower x"
    by (auto simp: parse_entry_def Let_def split: list.splits if_splits)
  have path: "plain (device_path nm)"
    using assms(2) by (simp add: device_path_def DEVICE_DIR_def flat_name_def is_space_def)
  have "x = md5 b \<and> y = str_of_nat t \<and> prefix z (device_path nm)"
    by (rule three_words_of_prefix [OF md5_like_facts(1,2) [OF assms(1)] digits_plain _ path _ w(1)])
      (use assms(3) str_of_nat_digits in \<open>auto simp: listing_line_def\<close>)
  with w base_name_of_prefix [OF assms(2)] md5_like_facts(3) [OF assms(1)] show ?thesis by simp
qed

lemma no_entry_of_word: "plain l \<Longrightarrow> parse_entry l = None"
  by (simp add: parse_entry_def py_words_end)

lemma no_entry_of_free_line:
  assumes "prefix l (FREE_TAG @ df)" "\<not> startswith l FREE_TAG"
  shows "parse_entry l = None"
proof -
  have tag: "FREE_TAG = ''FREE'' @ '' ''" by (simp add: FREE_TAG_def)
  have "prefix l FREE_TAG" using assms by (auto simp: prefix_append startswith_def)
  then have "prefix l ''FREE'' \<or> l = FREE_TAG" unfolding tag prefix_append by (auto simp: prefix_Cons)
  with assms(2) have "prefix l ''FREE''" by (auto simp: startswith_def)
  then have "plain l" by (rule plain_prefix [rotated]) (simp add: is_space_def)
  then show ?thesis by (rule no_entry_of_word)
qed

lemma read_entries_from:
  "map_of (read_entries out ls) n = Some e \<Longrightarrow> map_of out n = Some e \<or> (\<exists>l \<in> set ls. parse_entry l = Some (n, e))"
proof (induction ls arbitrary: out)
  case (Cons l ls)
  show ?case
  proof (cases "parse_entry l")
    case None
    with Cons.prems Cons.IH [of out] show ?thesis by auto
  next
    case (Some x)
    then obtain k v where x: "parse_entry l = Some (k, v)" by (cases x) simp
    with Cons.prems Cons.IH [of "put k v out"] show ?thesis by (cases "n = k") auto
  qed
qed simp

subsection \<open>The inventory tells the truth\<close>

definition plain_dir :: "device_dir \<Rightarrow> bool" where
  "plain_dir d \<longleftrightarrow> distinct (map fst d) \<and> list_all (\<lambda>(n, _). flat_name n) d"

text \<open>A name no other file's name extends, so that a cut line cannot stand for it.\<close>

definition unambiguous :: "device_dir \<Rightarrow> string \<Rightarrow> bool" where
  "unambiguous d n \<longleftrightarrow> CHR ''.'' \<in> set n \<and> list_all (\<lambda>(m, _). prefix n m \<longrightarrow> m = n) d"

definition told_truth :: "(bytes \<Rightarrow> string) \<Rightarrow> device_dir \<Rightarrow> inventory \<Rightarrow> string \<Rightarrow> bool" where
  "told_truth md5 d inv0 n =
     (case map_of inv0 n of None \<Rightarrow> True
      | Some (h, _) \<Rightarrow> (case content_of d n of None \<Rightarrow> False | Some b \<Rightarrow> md5 b = h))"

lemma set_listed: "set (listed ending d) \<subseteq> set d"
  by (auto simp: listed_def)

lemma inventory_line_cases:
  assumes "m \<in> set (inventory_lines md5 df d @ [CMD_DONE])"
  obtains nm b t where "(nm, (b, t)) \<in> set d" "m = listing_line md5 (nm, (b, t))"
    | "m = FREE_TAG @ df" | "plain m"
  using assms set_listed [of _ d]
  by (fastforce simp: inventory_lines_def INVENTORY_OK_def CMD_DONE_def is_space_def)

lemma listing_line_one_line: "md5_like md5 \<Longrightarrow> flat_name nm \<Longrightarrow> one_line (listing_line md5 (nm, (b, t)))"
  using md5_like_facts(1) [THEN plain_one_line] digits_plain [THEN plain_one_line]
  by (auto simp: listing_line_def device_path_def DEVICE_DIR_def flat_name_def is_newline_def plain_one_line)

lemma inventory_one_line:
  assumes "md5_like md5" "plain_dir d" "one_line df"
  shows "list_all one_line (inventory_lines md5 df d @ [CMD_DONE])"
proof -
  have "one_line m" if "m \<in> set (inventory_lines md5 df d @ [CMD_DONE])" for m
    using that
  proof (cases rule: inventory_line_cases)
    case (1 nm b t)
    with assms show ?thesis by (auto simp: plain_dir_def list_all_iff listing_line_one_line)
  next
    case 2
    with assms show ?thesis by (simp add: FREE_TAG_def is_newline_def)
  qed (rule plain_one_line)
  then show ?thesis by (simp add: list_all_iff)
qed

lemma heard_prefix:
  assumes "md5_like md5"
  shows "prefix (heard n (print_lines (inventory_lines md5 df d))) (print_lines (inventory_lines md5 df d) @ CMD_DONE)"
proof -
  let ?t = "print_lines (inventory_lines md5 df d) @ CMD_DONE"
  obtain c u where c: "?t = c # u" "\<not> is_space c"
  proof (cases "listed ''.so'' d @ listed ONNX d")
    case Nil
    with that show ?thesis by (simp add: inventory_lines_def FREE_TAG_def is_space_def)
  next
    case (Cons e es)
    obtain nm b k where "e = (nm, (b, k))" by (cases e) auto
    moreover obtain x y where "md5 b = x # y" "\<not> is_space x"
      using md5_like_facts(1,2) [OF assms, of b] by (cases "md5 b") auto
    ultimately show ?thesis using that Cons by (simp add: inventory_lines_def listing_line_def)
  qed
  then have "prefix (py_strip (take n ?t)) (take n ?t)"
    by (intro strip_prefix) (cases n; simp)
  then show ?thesis unfolding heard_def using take_is_prefix prefix_order.trans by blast
qed

lemma installed_line:
  assumes "map_of (ds_installed (read_device_state out)) n = Some e" "list_all one_line (py_lines out)"
  obtains l where "l \<in> set (py_lines out)" "\<not> startswith l FREE_TAG" "parse_entry l = Some (n, e)"
proof -
  let ?rest = "filter (\<lambda>l. \<not> startswith l FREE_TAG \<and> l \<noteq> INVENTORY_OK) (py_lines out)"
  from assms(1) obtain l where l: "l \<in> set (py_lines (join_lines ?rest))" "parse_entry l = Some (n, e)"
    by (auto simp: read_device_state_def Let_def parse_device_listing_def dest: read_entries_from)
  have "list_all one_line ?rest" using assms(2) by (auto simp: list_all_iff)
  with l(1) lines_of_joined [of ?rest] have "l \<in> set ?rest" by blast
  with l(2) show ?thesis by (intro that [of l]) auto
qed

lemma inventory_truthful:
  assumes "md5_like md5" "plain_dir d" "one_line (sy_df env)" "unambiguous d n"
  shows "told_truth md5 d (ds_installed (oww_device_state md5 env d)) n"
proof (cases "map_of (ds_installed (oww_device_state md5 env d)) n")
  case None
  then show ?thesis by (simp add: told_truth_def)
next
  case (Some e)
  obtain h k where e: "e = (h, k)" by (cases e)
  let ?ls = "inventory_lines md5 (sy_df env) d"
  let ?out = "heard (sy_heard env) (print_lines ?ls)"
  note ol = inventory_one_line [OF assms(1-3)]
  note from_line = lines_of_prefix [OF ol heard_prefix [OF assms(1)]]
  have "list_all one_line (py_lines ?out)"
    unfolding list_all_iff using from_line ol by (metis list_all_iff one_line_prefix)
  with Some obtain l where l: "l \<in> set (py_lines ?out)" "\<not> startswith l FREE_TAG" "parse_entry l = Some (n, e)"
    unfolding oww_device_state_def by (rule installed_line)
  from from_line [OF l(1)] obtain m where m: "m \<in> set (?ls @ [CMD_DONE])" "prefix l m" by blast
  from m(1) show ?thesis
  proof (cases rule: inventory_line_cases)
    case (1 nm b t)
    have "flat_name nm" using 1(1) assms(2) by (auto simp: plain_dir_def list_all_iff)
    with entry_of_listing_line [OF assms(1) _ m(2) [unfolded 1(2)] l(3) [unfolded e]]
    have h: "h = md5 b" "CHR ''.'' \<notin> set n \<or> prefix n nm" by auto
    then have "nm = n" using assms(4) 1(1) by (auto simp: unambiguous_def list_all_iff)
    then have "content_of d n = Some b"
      using 1(1) assms(2) by (simp add: content_of_def plain_dir_def map_of_is_SomeI)
    with Some e h(1) show ?thesis by (simp add: told_truth_def)
  next
    case 2
    with m(2) have "parse_entry l = None" by (intro no_entry_of_free_line [OF _ l(2)]) simp
    with l(3) show ?thesis by simp
  next
    case 3
    with no_entry_of_word [OF plain_prefix [OF 3 m(2)]] l(3) show ?thesis by simp
  qed
qed

section \<open>What a synchronisation does to the files\<close>

lemma content_of_put [simp]: "content_of (put n (b, t) d) m = (if m = n then Some b else content_of d m)"
  by (simp add: content_of_def)

lemma content_of_pop [simp]: "content_of (pop n d) m = (if m = n then None else content_of d m)"
  by (simp add: content_of_def)

lemma content_of_set [simp]: "content_of (set_content n c t d) m = (if m = n then c else content_of d m)"
  by (simp add: set_content_def split: option.split)

lemma content_of_prune: "content_of (prune_files rm_ran names d) m = (if m \<in> set names \<and> rm_ran m then None else content_of d m)"
  by (induction d) (auto simp: prune_files_def content_of_def)

lemma content_of_touch: "content_of d n \<noteq> None \<Longrightarrow> content_of (touch_file t n d) m = content_of d m"
  by (auto simp: touch_file_def)

definition is_part :: "string \<Rightarrow> bool" where "is_part n \<longleftrightarrow> endswith n ''.part''"

lemma is_part_part_name [simp]: "is_part (part_name n)"
  by (simp add: is_part_def part_name_def)

definition has_file :: "(bytes \<Rightarrow> string) \<Rightarrow> device_dir \<Rightarrow> asset \<Rightarrow> bool" where
  "has_file md5 d a = (case content_of d (a_name a) of None \<Rightarrow> False | Some b \<Rightarrow> md5 b = a_md5 a)"

text \<open>A name after a step: as before, or the file that was wanted there.\<close>

definition kept_or_wanted :: "(bytes \<Rightarrow> string) \<Rightarrow> asset list \<Rightarrow> device_dir \<Rightarrow> device_dir \<Rightarrow> string \<Rightarrow> bool" where
  "kept_or_wanted md5 as d d' m \<longleftrightarrow>
     content_of d' m = content_of d m \<or> list_ex (\<lambda>a. a_name a = m \<and> has_file md5 d' a) as"

lemma kept_or_wanted_refl [simp]: "kept_or_wanted md5 as d d m"
  by (simp add: kept_or_wanted_def)

lemma kept_or_wanted_trans:
  "kept_or_wanted md5 [a] d d1 m \<Longrightarrow> kept_or_wanted md5 as d1 d' m \<Longrightarrow> kept_or_wanted md5 (a # as) d d' m"
  by (auto simp: kept_or_wanted_def has_file_def list_ex_iff)

lemma transfer_part_frame:
  "transfer_part md5 env a data d = (r, d') \<Longrightarrow> \<not> is_part m \<Longrightarrow> content_of d' m = content_of d m"
  by (auto simp: transfer_part_def Let_def split: prod.splits)

lemma content_of_Some: "content_of d n = Some b \<longleftrightarrow> (\<exists>t. map_of d n = Some (b, t))"
  by (auto simp: content_of_def)

lemma content_of_None: "content_of d n = None \<longleftrightarrow> map_of d n = None"
  by (simp add: content_of_def)

lemma install_part_frame:
  assumes "install_part md5 md5sum chmod a d = (out, d')" "a_md5 a \<noteq> []" "\<not> is_part m"
  shows "kept_or_wanted md5 [a] d d' m"
proof -
  have ne: "m \<noteq> part_name (a_name a)" using assms(3) by auto
  show ?thesis
  proof (cases "map_of d (part_name (a_name a))")
    case None
    then show ?thesis using assms ne by (auto simp: install_part_def content_of_None [symmetric] kept_or_wanted_def split: if_splits)
  next
    case (Some e)
    obtain b t where e: "e = (b, t)" by (cases e)
    then have "content_of d (part_name (a_name a)) = Some b" using Some by (simp add: content_of_def)
    then show ?thesis using assms ne Some e
      by (auto simp: install_part_def Let_def kept_or_wanted_def has_file_def split: if_splits)
  qed
qed

lemma install_part_done:
  assumes "install_part md5 md5sum chmod a d = (out, d')" "a_md5 a \<noteq> []" "md5_like md5" "CHR ''K'' \<in> set out"
  shows "has_file md5 d' a"
proof (cases "map_of d (part_name (a_name a))")
  case None
  then show ?thesis using assms by (auto simp: install_part_def content_of_def NL_def split: if_splits)
next
  case (Some e)
  obtain b t where e: "e = (b, t)" by (cases e)
  then have "content_of d (part_name (a_name a)) = Some b" using Some by (simp add: content_of_def)
  then show ?thesis using assms Some e md5_like_facts(4) [OF assms(3), of b]
    by (auto simp: install_part_def Let_def has_file_def NL_def split: if_splits)
qed

lemma set_py_strip: "set (py_strip t) \<subseteq> set t"
  unfolding py_strip_def by (metis set_rev set_dropWhileD subsetI)

lemma heard_ok: "occurs_in ''OK'' (heard n out) \<Longrightarrow> CHR ''K'' \<in> set out"
proof -
  assume "occurs_in ''OK'' (heard n out)"
  then have "CHR ''K'' \<in> set (heard n out)" by (auto dest: occurs_in_subset)
  moreover have "set (heard n out) \<subseteq> set (out @ CMD_DONE)"
    unfolding heard_def using set_py_strip set_take_subset by (metis subset_trans)
  ultimately show ?thesis by (auto simp: CMD_DONE_def)
qed

lemma send_asset_frame:
  assumes "send_asset md5 env a d = (e, d')" "a_md5 a \<noteq> []" "\<not> is_part m"
  shows "kept_or_wanted md5 [a] d d' m"
proof (cases "sn_read env")
  case (Some data)
  obtain r d1 where t: "transfer_part md5 env a data d = (r, d1)" by (cases "transfer_part md5 env a data d")
  obtain out d2 where i: "install_part md5 (sn_md5sum env) (sn_chmod env) a d1 = (out, d2)"
    by (cases "install_part md5 (sn_md5sum env) (sn_chmod env) a d1")
  have "d' = d1 \<or> d' = d2" using assms(1) Some t i by (auto simp: send_asset_def split: if_splits)
  with transfer_part_frame [OF t assms(3)] install_part_frame [OF i assms(2,3)] show ?thesis
    by (auto simp: kept_or_wanted_def)
qed (use assms in \<open>simp add: send_asset_def\<close>)

lemma send_asset_done:
  assumes "send_asset md5 env a d = (None, d')" "a_md5 a \<noteq> []" "md5_like md5"
  shows "has_file md5 d' a"
  using assms install_part_done [OF _ assms(2,3)]
  by (auto simp: send_asset_def split: option.splits prod.splits if_splits dest!: heard_ok)

lemma send_assets_frame:
  "send_assets md5 env as d = (e, d') \<Longrightarrow> list_all (\<lambda>a. a_md5 a \<noteq> []) as \<Longrightarrow> \<not> is_part m
   \<Longrightarrow> kept_or_wanted md5 as d d' m"
proof (induction as arbitrary: d)
  case (Cons a as)
  obtain r d1 where s: "send_asset md5 (env (a_name a)) a d = (r, d1)" by (cases "send_asset md5 (env (a_name a)) a d")
  have one: "kept_or_wanted md5 [a] d d1 m" using send_asset_frame [OF s] Cons.prems by simp
  show ?case
  proof (cases r)
    case None
    with Cons s have "kept_or_wanted md5 as d1 d' m" by auto
    with one show ?thesis by (rule kept_or_wanted_trans)
  next
    case (Some x)
    with Cons.prems s one show ?thesis by (auto simp: kept_or_wanted_def)
  qed
qed simp

lemma send_assets_done:
  "send_assets md5 env as d = (None, d') \<Longrightarrow> list_all (\<lambda>a. a_md5 a \<noteq> [] \<and> \<not> is_part (a_name a)) as \<Longrightarrow>
   distinct (map a_name as) \<Longrightarrow> md5_like md5 \<Longrightarrow> list_all (has_file md5 d') as"
proof (induction as arbitrary: d)
  case (Cons a as)
  obtain d1 where s: "send_asset md5 (env (a_name a)) a d = (None, d1)" "send_assets md5 env as d1 = (None, d')"
    using Cons.prems(1) by (auto split: prod.splits option.splits)
  have "kept_or_wanted md5 as d1 d' (a_name a)"
    by (rule send_assets_frame [OF s(2)]) (use Cons.prems in \<open>auto simp: list_all_iff\<close>)
  moreover have "a_name a \<notin> a_name ` set as" using Cons.prems(3) by simp
  ultimately have "content_of d' (a_name a) = content_of d1 (a_name a)"
    by (auto simp: kept_or_wanted_def list_ex_iff) (metis imageI)
  with send_asset_done [OF s(1)] Cons s(2) show ?case by (simp add: has_file_def)
qed simp

lemma onnx_not_part: "\<not> is_part (s @ ONNX)"
  by (simp add: is_part_def endswith_def ONNX_def)

lemma desired_not_part:
  assumes "a \<in> set (fst (desired_assets md5 st models))"
  shows "\<not> is_part (a_name a)"
  using desired_asset_name [OF assms] onnx_not_part
  by (auto simp: is_part_def RUNTIME_NAME_def SHARED_NAMES_def endswith_def)

lemma desired_digest:
  "md5_like md5 \<Longrightarrow> a \<in> set (fst (desired_assets md5 st models)) \<Longrightarrow> a_md5 a \<noteq> []"
  using desired_from_file [of a md5 st models] md5_like_facts(2) by (auto simp: from_file_def split: option.splits)

text \<open>How a synchronisation ends: before anything was sent, in the middle, or at its end.\<close>

lemma sync_cases:
  assumes "sync_oww_assets md5 st env models d = (r, d')"
  obtains (refused) e where "r = NotSynced e" "d' = d"
    | (failed) e and p :: sync_plan where "r = NotSynced e" "p_push p \<noteq> [] \<longrightarrow> set (p_push p) \<subseteq> set (fst (desired_assets md5 st models))"
        "send_assets md5 (sy_send env) (p_push p) d = (Some e, d')"
    | (finished) p :: sync_plan and d1 where "synced_ok r" "p_blocked p = None"
        "p = plan_sync CLASSIFIER_SLOTS (ds_free (oww_device_state md5 env d)) (fst (desired_assets md5 st models))
               (ds_installed (oww_device_state md5 env d))"
        "send_assets md5 (sy_send env) (p_push p) d = (None, d1)"
        "d' = (if is_noop p then d1 else finish_sync env (fst (desired_assets md5 st models)) p d1)"
proof -
  let ?p = "plan_sync CLASSIFIER_SLOTS (ds_free (oww_device_state md5 env d)) (fst (desired_assets md5 st models))
               (ds_installed (oww_device_state md5 env d))"
  let ?D = "fst (desired_assets md5 st models)"
  have d': "(r, d') = (if sy_raises env then (NotSynced SyncRaised, d)
      else if ?D = [] then (NotSynced (NothingToInstall (snd (desired_assets md5 st models))), d)
      else carry_out md5 env ?D (snd (desired_assets md5 st models)) ?p d)"
    unfolding assms [symmetric] by (simp only: sync_oww_assets_def Let_def case_prod_beta)
  have push: "p_blocked ?p = None \<longrightarrow> set (p_push ?p) \<subseteq> set ?D"
    by (simp add: plan_sync_def Let_def)
  consider "(\<exists>e. r = NotSynced e) \<and> d' = d"
    | "(r, d') = carry_out md5 env ?D (snd (desired_assets md5 st models)) ?p d" "p_blocked ?p = None"
    using d' by (auto simp: carry_out_def split: if_splits option.splits)
  then show ?thesis
  proof cases
    case 1
    with refused show ?thesis by blast
  next
    case 2
    note go = 2
    obtain e d1 where s: "send_assets md5 (sy_send env) (p_push ?p) d = (e, d1)"
      by (cases "send_assets md5 (sy_send env) (p_push ?p) d")
    consider "is_noop ?p" | x where "\<not> is_noop ?p" "e = Some x" | "\<not> is_noop ?p" "e = None" by (cases e) auto
    then show ?thesis
    proof cases
      case 1
      then have "p_push ?p = []" by (simp add: is_noop_def)
      then show ?thesis using 1 go by (intro finished [of ?p d]) (simp_all add: carry_out_def)
    next
      case (2 x)
      with go s push show ?thesis by (intro failed [of x ?p]) (simp_all add: carry_out_def)
    next
      case 3
      with go s show ?thesis by (intro finished [of ?p d1]) (simp_all add: carry_out_def)
    qed
  qed
qed


lemma finished_sync_has_files:
  assumes "md5_like md5" "distinct (map a_name desired)" "list_all (\<lambda>a. a_md5 a \<noteq> [] \<and> \<not> is_part (a_name a)) desired"
    and "p_blocked p = None" "p = plan_sync room free desired actual"
    and "list_all (\<lambda>a. told_truth md5 d actual (a_name a)) desired"
    and "send_assets md5 envs (p_push p) d = (None, d1)" "a \<in> set desired"
  shows "has_file md5 d1 a \<and> a_name a \<notin> set (p_prune p)"
proof
  have push: "p_push p = filter (\<lambda>a. \<not> is_current actual a) desired"
    using assms(4,5) by (auto simp: plan_sync_def Let_def split: if_splits)
  show "a_name a \<notin> set (p_prune p)"
    using assms(5,8) prune_spares by (fastforce simp: required_names_def)
  show "has_file md5 d1 a"
  proof (cases "is_current actual a")
    case False
    have "list_all (has_file md5 d1) (p_push p)"
      by (rule send_assets_done [OF assms(7) _ _ assms(1)])
        (use assms(2,3) push in \<open>auto simp: list_all_iff distinct_map_filter\<close>)
    with False assms(8) push show ?thesis by (auto simp: list_all_iff)
  next
    case True
    have "list_all (\<lambda>a. a_md5 a \<noteq> []) (p_push p)" "\<not> is_part (a_name a)"
      using assms(3,8) push by (auto simp: list_all_iff)
    from send_assets_frame [OF assms(7) this]
    have "kept_or_wanted md5 (p_push p) d d1 (a_name a)" .
    moreover have "a_name b \<noteq> a_name a" if "b \<in> set (p_push p)" for b
    proof
      assume "a_name b = a_name a"
      with that assms(2,8) push have "b = a" by (auto dest: distinct_map [THEN iffD1] inj_onD)
      with that True push show False by simp
    qed
    ultimately have "content_of d1 (a_name a) = content_of d (a_name a)"
      by (auto simp: kept_or_wanted_def list_ex_iff)
    moreover have "told_truth md5 d actual (a_name a)" using assms(6,8) by (simp add: list_all_iff)
    ultimately show ?thesis
      using True by (auto simp: told_truth_def has_file_def is_current_def split: option.splits)
  qed
qed

lemma finish_keeps:
  assumes "\<And>a. a \<in> set desired \<Longrightarrow> has_file md5 d1 a \<and> a_name a \<notin> set (p_prune p)" "a \<in> set desired"
  shows "has_file md5 (finish_sync env desired p d1) a"
proof -
  let ?d = "prune_files (sy_rm env) (p_prune p) d1"
  have pr: "content_of ?d (a_name b) = content_of d1 (a_name b)" if "b \<in> set desired" for b
    using assms(1) [OF that] by (simp add: content_of_prune)
  show ?thesis
  proof (cases "selected_classifier desired")
    case None
    with pr assms show ?thesis by (simp add: finish_sync_def has_file_def)
  next
    case (Some b)
    then have b: "b \<in> set desired" by (auto simp: selected_classifier_def find_Some_iff)
    then have "content_of ?d (a_name b) \<noteq> None"
      using pr [OF b] assms(1) [OF b] by (auto simp: has_file_def split: option.splits)
    with Some pr [OF assms(2)] assms(1) [OF assms(2)] show ?thesis
      by (simp add: finish_sync_def Let_def has_file_def content_of_touch)
  qed
qed

lemma synced_device_files:
  assumes "md5_like md5" "plain_dir d" "one_line (sy_df env)" "names_apart models"
    and "desired = fst (desired_assets md5 st models)" "list_all (\<lambda>a. unambiguous d (a_name a)) desired"
    and "sync_oww_assets md5 st env models d = (r, d')" "synced_ok r"
  shows "list_all (has_file md5 d') desired"
proof -
  have ok: "list_all (\<lambda>a. a_md5 a \<noteq> [] \<and> \<not> is_part (a_name a)) desired"
    using desired_digest [OF assms(1)] desired_not_part by (auto simp: list_all_iff assms(5))
  have truth: "list_all (\<lambda>a. told_truth md5 d (ds_installed (oww_device_state md5 env d)) (a_name a)) desired"
    using assms(6) inventory_truthful [OF assms(1-3)] by (auto simp: list_all_iff)
  note fin = finished_sync_has_files [OF assms(1) desired_assets_distinct [OF assms(4), of md5 st, folded assms(5)] ok
      _ _ truth]
  from assms(7) show ?thesis
  proof (cases rule: sync_cases)
    case (finished p d1)
    have each: "\<And>a. a \<in> set desired \<Longrightarrow> has_file md5 d1 a \<and> a_name a \<notin> set (p_prune p)"
      using fin [OF finished(2) _ finished(4)] finished(3) assms(5) by blast
    with finish_keeps [of desired md5 d1 p] show ?thesis
      using finished(5) assms(5) by (auto simp: list_all_iff)
  qed (use assms(8) in auto)
qed


section \<open>Moving to a new wake word\<close>

text \<open>A switch, taken apart.\<close>

lemma install_then_switch_cases:
  assumes "install_then_switch md5 st env cfg later stays model (l, d) = (l', d')"
    and "sync_oww_assets md5 st env (oww_wanted_models st cfg) d = (r, d1)"
  shows "d' = d1 \<and>
    l' = (if stays \<and> synced_ok r \<and> py_strip (opt_string (cfg_oww later)) = model
          then (send_config later l)\<lparr>wl_model := model\<rparr> else l)"
  using assms by (auto simp: install_then_switch_def split: if_splits)

text \<open>
  A device that takes requests is told of a new wake word only after its files were installed: the
  configuration change itself goes out with the wake word the device has, and whenever the background
  task has moved it to the new one, every file that could be supplied is on the device, the new
  model's among them when it could be.
\<close>
theorem switched_only_with_the_files:
  assumes "md5_like md5" "plain_dir d" "one_line (sy_df env)"
    and "names_apart (oww_wanted_models st cfg)" "desired = fst (desired_assets md5 st (oww_wanted_models st cfg))"
    and "list_all (\<lambda>a. unambiguous d (a_name a)) desired"
    and "apply_wake_config st cfg l = (l1, pending)"
    and "install_then_switch md5 st env cfg later stays model (l1, d) = (l2, d')"
  shows "(pending \<noteq> None \<longrightarrow> wl_model l1 = wl_model l \<and> cfg_oww (last (wl_sent l1)) = Some (wl_model l))
    \<and> (wl_sent l2 \<noteq> wl_sent l1 \<longrightarrow> list_all (has_file md5 d') desired)"
proof -
  obtain r d1 where s: "sync_oww_assets md5 st env (oww_wanted_models st cfg) d = (r, d1)"
    by (cases "sync_oww_assets md5 st env (oww_wanted_models st cfg) d")
  have "pending \<noteq> None \<Longrightarrow> wl_model l1 = wl_model l \<and> cfg_oww (last (wl_sent l1)) = Some (wl_model l)"
    using assms(7) by (auto simp: apply_wake_config_def hold_back_oww_model_def send_config_def Let_def
        split: if_splits option.splits)
  moreover have "synced_ok r" "d' = d1" if "wl_sent l2 \<noteq> wl_sent l1"
    using install_then_switch_cases [OF assms(8) s] that by (auto split: if_splits)
  moreover have "list_all (has_file md5 d1) desired" if "synced_ok r"
    using that s by (rule_tac synced_device_files [OF assms(1-6)])
  ultimately show ?thesis by blast
qed

section \<open>Repairing a device\<close>

lemma print_lines_append [simp]: "print_lines (xs @ ys) = print_lines xs @ print_lines ys"
  by (simp add: print_lines_def)

text \<open>A last line that was heard means that every line before it was.\<close>

lemma complete_lines:
  "list_all one_line ls \<Longrightarrow> list_all (\<lambda>k. \<not> prefix x k) ls \<Longrightarrow> prefix s (print_lines ls @ t) \<Longrightarrow> x \<in> set (py_lines s)
   \<Longrightarrow> set ls \<subseteq> set (py_lines s)"
proof (induction ls arbitrary: s)
  case (Cons k ls)
  from Cons.prems(3) have "prefix s (k @ NL @ print_lines ls @ t)" by simp
  then consider "prefix s k" | u where "s = k @ NL @ u" "prefix u (print_lines ls @ t)"
    unfolding prefix_append by (auto simp: NL_def prefix_Cons)
  then show ?case
  proof cases
    case 1
    with Cons.prems(1) have "one_line s" by (auto intro: one_line_prefix)
    with Cons.prems(2,4) 1 show ?thesis by (auto simp: py_lines_end split: if_splits)
  next
    case 2
    with Cons.prems have "x \<noteq> k" "one_line k" by auto
    with 2 Cons.prems(4) have "x \<in> set (py_lines u)" by (simp add: py_lines_line)
    with 2 Cons \<open>one_line k\<close> show ?thesis by (auto simp: py_lines_line)
  qed
qed simp

lemma joined_keeps_line: "list_all one_line ls \<Longrightarrow> l \<in> set ls \<Longrightarrow> l \<noteq> [] \<Longrightarrow> l \<in> set (py_lines (join_lines ls))"
  by (induction ls rule: join_lines.induct) (auto simp: py_lines_end py_lines_line)

lemma read_entries_mentions:
  "map_of out n \<noteq> None \<or> (\<exists>l \<in> set ls. \<exists>e. parse_entry l = Some (n, e)) \<Longrightarrow> map_of (read_entries out ls) n \<noteq> None"
proof (induction ls arbitrary: out)
  case (Cons l ls)
  show ?case
  proof (cases "parse_entry l")
    case None
    with Cons.prems Cons.IH [of out] show ?thesis by auto
  next
    case (Some x)
    then obtain k v where x: "parse_entry l = Some (k, v)" by (cases x) simp
    with Cons.prems Cons.IH [of "put k v out"] show ?thesis by (cases "n = k") auto
  qed
qed simp

lemma parse_listing_line:
  assumes "md5_like md5" "flat_name n"
  shows "\<exists>e. parse_entry (listing_line md5 (n, (b, t))) = Some (n, e)"
proof -
  have path: "plain (device_path n)" "device_path n \<noteq> []"
    using assms(2) by (auto simp: device_path_def DEVICE_DIR_def flat_name_def is_space_def)
  have md: "length (md5 b) = 32" "list_all hex_digit (md5 b)" using assms(1) by (auto simp: md5_like_def)
  have "py_words (listing_line md5 (n, (b, t))) = [md5 b, str_of_nat t, device_path n]"
    using md5_like_facts(1,2) [OF assms(1)] digits_plain [of t] str_of_nat_digits [of t] path
    by (simp add: listing_line_def py_words_word py_words_end)
  moreover have "base_name (device_path n) = n"
    using assms(2) base_name_flat [of n DEVICE_DIR] by (simp add: device_path_def flat_name_def)
  ultimately show ?thesis
    using md md5_like_facts(3) [OF assms(1)] str_of_nat_digits [of t] by (simp add: parse_entry_def)
qed

lemma listing_line_start:
  assumes "md5_like md5"
  shows "\<exists>c u. listing_line md5 (n, (b, t)) = c # u \<and> c \<noteq> CHR ''I'' \<and> c \<noteq> CHR ''F''"
proof -
  obtain c u where "md5 b = c # u" "hex_digit c"
    using assms by (cases "md5 b") (auto simp: md5_like_def dest: spec [where x = b])
  moreover have "\<not> hex_digit (CHR ''I'')" "\<not> hex_digit (CHR ''F'')" by code_simp+
  ultimately show ?thesis by (auto simp: listing_line_def)
qed

lemma listed_file_is_told:
  assumes "md5_like md5" "plain_dir d" "one_line (sy_df env)" "unambiguous d n" "content_of d n = Some b"
    and "endswith n ONNX" "\<not> startswith n ''.''" "ds_ok (oww_device_state md5 env d)"
  shows "\<exists>k. map_of (ds_installed (oww_device_state md5 env d)) n = Some (md5 b, k)"
proof -
  let ?body = "map (listing_line md5) (listed ''.so'' d @ listed ONNX d) @ [FREE_TAG @ sy_df env]"
  let ?out = "heard (sy_heard env) (print_lines (inventory_lines md5 (sy_df env) d))"
  obtain t where t: "map_of d n = Some (b, t)" using assms(5) by (auto simp: content_of_Some)
  let ?l = "listing_line md5 (n, (b, t))"
  have ol: "list_all one_line (inventory_lines md5 (sy_df env) d @ [CMD_DONE])" by (rule inventory_one_line [OF assms(1-3)])
  then have ob: "list_all one_line ?body" by (simp add: inventory_lines_def)
  have "\<not> prefix INVENTORY_OK m" if "m \<in> set ?body" for m
  proof -
    from that obtain c u where "m = c # u" "c \<noteq> CHR ''I''"
      using listing_line_start [OF assms(1)] by (fastforce simp: FREE_TAG_def)
    then show ?thesis by (simp add: INVENTORY_OK_def)
  qed
  then have np: "list_all (\<lambda>k. \<not> prefix INVENTORY_OK k) ?body" unfolding list_all_iff by blast
  have pre: "prefix ?out (print_lines ?body @ INVENTORY_OK @ NL @ CMD_DONE)"
    using heard_prefix [OF assms(1), of "sy_heard env" "sy_df env" d] by (simp add: inventory_lines_def)
  have "INVENTORY_OK \<in> set (py_lines ?out)"
    using assms(8) by (simp add: oww_device_state_def read_device_state_def Let_def)
  from complete_lines [OF ob np pre this] have body: "set ?body \<subseteq> set (py_lines ?out)" .
  have "(n, (b, t)) \<in> set (listed ONNX d)"
    using t assms(6,7) by (auto simp: listed_def dest: map_of_SomeD)
  then have "?l \<in> set ?body" by auto
  with body have l: "?l \<in> set (py_lines ?out)" by blast
  let ?rest = "filter (\<lambda>l. \<not> startswith l FREE_TAG \<and> l \<noteq> INVENTORY_OK) (py_lines ?out)"
  have "?l \<in> set ?rest" "?l \<noteq> []"
    using l listing_line_start [OF assms(1), of n b t] by (auto simp: startswith_def FREE_TAG_def INVENTORY_OK_def)
  moreover have "list_all one_line ?rest"
    unfolding list_all_iff using lines_of_prefix [OF ol heard_prefix [OF assms(1)]] ol
    by (metis filter_is_subset list_all_iff one_line_prefix subsetD)
  ultimately have "?l \<in> set (py_lines (join_lines ?rest))" by (intro joined_keeps_line)
  moreover have "flat_name n" using map_of_SomeD [OF t] assms(2) by (auto simp: plain_dir_def list_all_iff)
  ultimately have "map_of (read_entries [] (py_lines (join_lines ?rest))) n \<noteq> None"
    using parse_listing_line [OF assms(1)] by (intro read_entries_mentions) blast
  then have "map_of (ds_installed (oww_device_state md5 env d)) n \<noteq> None"
    by (simp add: oww_device_state_def read_device_state_def Let_def parse_device_listing_def)
  with inventory_truthful [of md5 d env n] assms(1-5) show ?thesis by (auto simp: told_truth_def)
qed


section \<open>An uploaded model reaches the devices\<close>

lemma if_fileI: "files st p = Some b \<Longrightarrow> if_file st p = Some p"
  by (simp add: if_file_def is_a_file_def)

lemma custom_classifier_source:
  assumes "files st p = Some b" "startswith p ''/''" "endswith p ONNX" "py_strip p = p"
  shows "classifier_source st p = Some p"
proof -
  have "p \<noteq> []" "p \<noteq> BUILTIN_STOP_MODEL" using assms(2) by (auto simp: startswith_def BUILTIN_STOP_MODEL_def)
  then show ?thesis
    using assms if_fileI [OF assms(1)]
    by (simp add: classifier_source_def custom_source_def split: option.split)
qed

lemma selected_classifier_supplied:
  assumes "classifier_source st m = Some p" "files st p = Some b" "prediction_key m \<noteq> []" "m \<noteq> []"
  shows "\<lparr>a_name = prediction_key m @ ONNX, a_source = p, a_md5 = md5 b, a_size = length b, a_kind = Classifier,
           a_selected = True\<rparr> \<in> set (fst (desired_assets md5 st (m # ms)))"
  using assms by (simp add: desired_assets_parts classifier_assets_Cons file_asset_def del: classifier_assets.simps(2))

lemma endswith_trans: "endswith s p \<Longrightarrow> endswith (t @ s) p"
proof -
  assume "endswith s p"
  then have "s = take (length s - length p) s @ p" by (metis append_take_drop_id endswith_def)
  then show ?thesis by (metis append_assoc endswith_append)
qed

text \<open>
  Uploading a wake model, selecting the path that is returned and planning a device gives it the
  uploaded bytes: the model is among the files the device needs, with the digest and size of what was
  uploaded, and protected.
\<close>
theorem uploaded_model_is_supplied:
  assumes "post_oww_model_upload dir filename data st = Inr (p, st')"
    and "startswith p ''/''" "py_strip p = p" "prediction_key p \<noteq> []"
  shows "data \<noteq> [] \<and> length data \<le> MAX_MODEL_BYTES \<and>
    \<lparr>a_name = prediction_key p @ ONNX, a_source = p, a_md5 = md5 data, a_size = length data, a_kind = Classifier,
      a_selected = True\<rparr> \<in> set (fst (desired_assets md5 st' (p # ms)))"
proof -
  from assms(1) obtain f where f: "safe_model_filename filename = Some f" "upload_data data = Inr ()"
      "p = path_join dir f" "st' = store_model dir f data st"
    by (auto simp: post_oww_model_upload_def split: option.splits)
  have "endswith f ONNX" using f(1) by (auto simp: safe_model_filename_def Let_def split: if_splits)
  then have e: "endswith p ONNX" using endswith_trans [of f ONNX "dir @ ''/''"] by (simp add: f(3) path_join_def)
  have b: "files st' p = Some data" by (simp add: f(3,4) store_model_def)
  have "p \<noteq> []" using assms(2) by (auto simp: startswith_def)
  from selected_classifier_supplied [OF custom_classifier_source [OF b assms(2) e assms(3)] b assms(4) this]
  show ?thesis using f(2) by (auto simp: upload_data_def split: if_splits)
qed

section \<open>Where a switch goes wrong\<close>

lemma absent_stays_absent:
  assumes "md5_like md5" "sync_oww_assets md5 st env models d = (r, d')" "content_of d m = None" "\<not> is_part m"
    and "m \<notin> a_name ` set (fst (desired_assets md5 st models))"
  shows "content_of d' m = None"
proof -
  let ?D = "fst (desired_assets md5 st models)"
  have sent: "content_of d1 m = None"
    if "send_assets md5 (sy_send env) as d = (e, d1)" "as \<noteq> [] \<longrightarrow> set as \<subseteq> set ?D" for as e d1
  proof (cases "as = []")
    case True
    with that(1) assms(3) show ?thesis by simp
  next
    case False
    with that(2) have sub: "set as \<subseteq> set ?D" by simp
    then have "list_all (\<lambda>a. a_md5 a \<noteq> []) as" using desired_digest [OF assms(1)] by (auto simp: list_all_iff)
    from send_assets_frame [OF that(1) this assms(4)] sub assms(3,5) show ?thesis
      by (auto simp: kept_or_wanted_def list_ex_iff)
  qed
  from assms(2) show ?thesis
  proof (cases rule: sync_cases)
    case refused
    with assms(3) show ?thesis by simp
  next
    case (failed e p)
    with sent show ?thesis by blast
  next
    case (finished p d1)
    have "set (p_push p) \<subseteq> set ?D" using finished(2,3) by (auto simp: plan_sync_def Let_def split: if_splits)
    with sent [OF finished(4)] have d1: "content_of d1 m = None" by simp
    have "a_name a \<noteq> m" if "selected_classifier ?D = Some a" for a
      using that assms(5) by (auto simp: selected_classifier_def find_Some_iff)
    with d1 finished(5) show ?thesis
      by (auto simp: finish_sync_def Let_def content_of_prune touch_file_def split: option.splits)
  qed
qed


text \<open>
  A switch turns a stop word back on that is off: the change of the configuration tells the device
  that its stop word is off, the switch that follows sends the configured name, unresolved, while the
  controller goes on believing it is off.
\<close>
theorem switch_sends_the_raw_stop_word:
  assumes "cfg_stop cfg = Some raw" "effective_stop_model st (Some raw) = []"
    and "apply_wake_config st cfg l = (l1, Some model)"
    and "synced_ok (fst (sync_oww_assets md5 st env (oww_wanted_models st cfg) d))"
    and "install_then_switch md5 st env cfg cfg True model (l1, d) = (l2, d')"
  shows "cfg_stop (last (wl_sent l1)) = Some [] \<and> wl_stop l1 = []
    \<and> cfg_stop (last (wl_sent l2)) = Some raw \<and> wl_stop l2 = []"
proof -
  obtain r d1 where s: "sync_oww_assets md5 st env (oww_wanted_models st cfg) d = (r, d1)"
    by (cases "sync_oww_assets md5 st env (oww_wanted_models st cfg) d")
  have "model = py_strip (opt_string (cfg_oww cfg))" and l1: "cfg_stop (last (wl_sent l1)) = Some []" "wl_stop l1 = []"
    using assms(1-3) by (auto simp: apply_wake_config_def hold_back_oww_model_def send_config_def Let_def
        split: if_splits option.splits)
  then show ?thesis
    using install_then_switch_cases [OF assms(5) s] assms(1,4) s by (simp add: send_config_def)
qed

text \<open>
  Deleting the uploaded stop classifier is not refused while the built-in name that resolves to it is
  selected: the file goes, and the stop word of every device that uses it is off.
\<close>
theorem stop_classifier_deleted_in_use:
  assumes "\<not> is_a_file st BUILTIN_STOP_PATH" "models_at st = Some dir" "is_a_file st (path_join dir ''stop.onnx'')"
    and "list_all (\<lambda>(_, refs). list_all (\<lambda>r. \<not> endswith r ONNX) refs) configs"
    and "delete_oww_model resolve configs dir ''stop.onnx'' st = r"
  shows "effective_stop_model st (Some BUILTIN_STOP_MODEL) = BUILTIN_STOP_MODEL
    \<and> (\<exists>st'. r = Inr st' \<and> effective_stop_model st' (Some BUILTIN_STOP_MODEL) = [])"
proof -
  have name: "safe_model_filename ''stop.onnx'' = Some ''stop.onnx''" by code_simp
  have stop: "py_strip BUILTIN_STOP_MODEL = BUILTIN_STOP_MODEL" "BUILTIN_STOP_MODEL \<noteq> []"
    by code_simp+
  have "in_use_by resolve (path_join dir ''stop.onnx'') configs = []"
    using assms(4) by (auto simp: in_use_by_def filter_empty_conv list_all_iff list_ex_iff)
  then have "r = Inr (st\<lparr>files := (files st)(path_join dir ''stop.onnx'' := None)\<rparr>)"
    using assms(3,5) name by (simp add: delete_oww_model_def)
  moreover have "classifier_source st BUILTIN_STOP_MODEL = Some (path_join dir ''stop.onnx'')"
    using assms(1-3) stop by (simp add: classifier_source_def stop_source_def if_file_def)
  moreover have "classifier_source (st\<lparr>files := (files st)(path_join dir ''stop.onnx'' := None)\<rparr>) BUILTIN_STOP_MODEL = None"
    using assms(1,2) stop by (simp add: classifier_source_def stop_source_def if_file_def is_a_file_def)
  ultimately show ?thesis using stop by (simp add: effective_stop_model_def)
qed

section \<open>Examples\<close>

text \<open>A digest for the examples, of the form the code relies on.\<close>

definition toy_hexdigest :: "bytes \<Rightarrow> string" where
  "toy_hexdigest b = map (\<lambda>i. if i < length b then ''0123456789abcdef'' ! (unat (b ! i) mod 16) else CHR ''0'') [0..<32]"

lemma toy_hexdigest_like: "md5_like toy_hexdigest"
proof -
  have "list_all hex_digit (map (\<lambda>k. ''0123456789abcdef'' ! k) [0..<16])" by code_simp
  then have "hex_digit (''0123456789abcdef'' ! (n mod 16))" for n by (simp add: list_all_iff)
  moreover have "hex_digit (CHR ''0'')" by code_simp
  ultimately show ?thesis by (auto simp: md5_like_def toy_hexdigest_def list_all_iff)
qed

definition example_site :: site where
  "example_site =
     \<lparr>files = map_of [(''/app/models/oww_runtime/libonnxruntime.so'', [7]), (''/data/oww_models/bob.onnx'', [7])],
      has_resources = False, models_at = Some ''/data/oww_models''\<rparr>"

definition good_send :: send_env where
  "good_send = \<lparr>sn_read = Some [7], sn_transfer = good_transfer [7], sn_now = 5, sn_ran = True, sn_md5sum = True,
     sn_chmod = True, sn_heard = 9\<rparr>"

definition good_sync :: sync_env where
  "good_sync = \<lparr>sy_df = ''1010 648 346 65% /data'', sy_heard = 30, sy_raises = False, sy_send = (\<lambda>_. good_send),
     sy_rm = (\<lambda>_. True), sy_touch = True, sy_now = 6\<rparr>"

definition cut_sync :: sync_env where
  "cut_sync = good_sync\<lparr>sy_send := (\<lambda>n. if n = RUNTIME_NAME then good_send
     else good_send\<lparr>sn_transfer := cut_transfer\<lparr>te_landed := Some [3]\<rparr>\<rparr>)\<rparr>"

definition example_dir :: device_dir where
  "example_dir = [(''bob.onnx'', ([3], 1)), (''old.onnx'', ([4], 2))]"

definition bob :: wake_config where
  "bob = \<lparr>cfg_oww = Some ''bob.onnx'', cfg_stop = Some ''stop''\<rparr>"

definition example_link :: wake_link where
  "example_link = \<lparr>wl_model = ''alexa_v0.1'', wl_stop = [], wl_stop_ready = False, wl_requests = True, wl_ready = True, wl_sent = []\<rparr>"


lemma synced_example:
  "sync_oww_assets toy_hexdigest example_site good_sync [''bob.onnx''] example_dir =
     (Synced [''libonnxruntime.so'', ''bob.onnx''] []
        (map NoSharedModel SHARED_NAMES @ map NoClassifier STOCK_MODELS),
      [(''bob.onnx'', ([7], 6)), (''old.onnx'', ([4], 2)), (''libonnxruntime.so'', ([7], 5))])"
  by code_simp

lemma cut_example:
  "sync_oww_assets toy_hexdigest example_site cut_sync [''bob.onnx''] example_dir =
     (NotSynced (SendFailed ''bob.onnx'' (Failed StageCorrupt)),
      [(''bob.onnx'', ([3], 1)), (''old.onnx'', ([4], 2)), (''libonnxruntime.so'', ([7], 5))])"
  by code_simp

definition eve :: wake_config where
  "eve = \<lparr>cfg_oww = Some ''eve.onnx'', cfg_stop = Some ''stop''\<rparr>"

lemma missing_example:
  "sync_oww_assets toy_hexdigest example_site good_sync [''eve.onnx''] [] =
     (Synced [''libonnxruntime.so''] []
        (map NoSharedModel SHARED_NAMES @ map NoClassifier (''eve.onnx'' # STOCK_MODELS)),
      [(''libonnxruntime.so'', ([7], 5))])"
  by code_simp



definition bob_told :: wake_config where
  "bob_told = \<lparr>cfg_oww = Some ''alexa_v0.1'', cfg_stop = Some []\<rparr>"

lemma wanted_examples:
  "oww_wanted_models example_site bob = [''bob.onnx'']" "oww_wanted_models example_site eve = [''eve.onnx'']"
  "apply_wake_config example_site bob example_link = (example_link\<lparr>wl_sent := [bob_told]\<rparr>, Some ''bob.onnx'')"
  by code_simp+

lemma example_switch:
  "install_then_switch toy_hexdigest example_site good_sync bob bob True ''bob.onnx'' (example_link\<lparr>wl_sent := [bob_told]\<rparr>, example_dir)
     = (example_link\<lparr>wl_sent := [bob_told, bob], wl_model := ''bob.onnx''\<rparr>,
        [(''bob.onnx'', ([7], 6)), (''old.onnx'', ([4], 2)), (''libonnxruntime.so'', ([7], 5))])"
proof -
  have "py_strip (opt_string (cfg_oww bob)) = ''bob.onnx''" by code_simp
  then show ?thesis
    by (simp add: install_then_switch_def wanted_examples synced_example send_config_def)
qed

lemma switched_only_with_the_files_witness:
  "list_all (has_file toy_hexdigest [(''bob.onnx'', ([7], 6)), (''old.onnx'', ([4], 2)), (''libonnxruntime.so'', ([7], 5))])
     (fst (desired_assets toy_hexdigest example_site (oww_wanted_models example_site bob)))"
proof -
  have "plain_dir example_dir" "one_line (sy_df good_sync)" "names_apart (oww_wanted_models example_site bob)"
    "list_all (\<lambda>a. unambiguous example_dir (a_name a))
       (fst (desired_assets toy_hexdigest example_site (oww_wanted_models example_site bob)))"
    unfolding wanted_examples by code_simp+
  from switched_only_with_the_files [OF toy_hexdigest_like this(1-3) refl this(4) wanted_examples(3) example_switch]
  show ?thesis by simp
qed


lemma switch_sends_the_raw_stop_word_witness:
  "cfg_stop (last [bob_told]) = Some [] \<and> cfg_stop (last [bob_told, bob]) = Some ''stop''"
proof -
  have "cfg_stop bob = Some ''stop''" "effective_stop_model example_site (Some ''stop'') = []" by code_simp+
  from switch_sends_the_raw_stop_word [OF this wanted_examples(3) _ example_switch]
  show ?thesis by (simp add: wanted_examples(1) synced_example)
qed

definition stop_site :: site where
  "stop_site = \<lparr>files = [''/data/oww_models/stop.onnx'' \<mapsto> [8]], has_resources = False, models_at = Some ''/data/oww_models''\<rparr>"

lemma stop_classifier_deleted_in_use_witness:
  "effective_stop_model stop_site (Some BUILTIN_STOP_MODEL) = BUILTIN_STOP_MODEL
   \<and> (\<exists>st'. delete_oww_model id [(''global'', [''alexa_v0.1'', ''stop''])] ''/data/oww_models'' ''stop.onnx'' stop_site = Inr st'
        \<and> effective_stop_model st' (Some BUILTIN_STOP_MODEL) = [])"
proof -
  have "\<not> is_a_file stop_site BUILTIN_STOP_PATH" "models_at stop_site = Some ''/data/oww_models''"
    "is_a_file stop_site (path_join ''/data/oww_models'' ''stop.onnx'')"
    "list_all (\<lambda>(_, refs). list_all (\<lambda>r. \<not> endswith r ONNX) refs) [(''global'', [''alexa_v0.1'', ''stop''])]"
    by code_simp+
  from stop_classifier_deleted_in_use [OF this refl] show ?thesis .
qed




lemma uploaded_model_is_supplied_witness:
  "\<lparr>a_name = ''ann.onnx'', a_source = ''/data/oww_models/ann.onnx'', a_md5 = toy_hexdigest [4, 2], a_size = 2,
      a_kind = Classifier, a_selected = True\<rparr>
    \<in> set (fst (desired_assets toy_hexdigest (store_model ''/data/oww_models'' ''ann.onnx'' [4, 2] example_site)
        [''/data/oww_models/ann.onnx'']))"
proof -
  have name: "safe_model_filename ''ann.onnx'' = Some ''ann.onnx''" by code_simp
  have up: "post_oww_model_upload ''/data/oww_models'' ''ann.onnx'' [4, 2] example_site =
      Inr (''/data/oww_models/ann.onnx'', store_model ''/data/oww_models'' ''ann.onnx'' [4, 2] example_site)"
    by (simp add: post_oww_model_upload_def name upload_data_def MAX_MODEL_BYTES_def path_join_def startswith_def)
  have "startswith ''/data/oww_models/ann.onnx'' ''/''" "py_strip ''/data/oww_models/ann.onnx'' = ''/data/oww_models/ann.onnx''"
    "prediction_key ''/data/oww_models/ann.onnx'' \<noteq> []" by code_simp+
  moreover have "prediction_key ''/data/oww_models/ann.onnx'' @ ONNX = ''ann.onnx''" by code_simp
  ultimately show ?thesis using uploaded_model_is_supplied [OF up, of toy_hexdigest "[]"] by (simp add: numeral_2_eq_2)
qed

end
