(* ===== verification/Support.thy ===== *)
theory Support
  imports Strings
begin

text \<open>
  The support bundle and the provisioning diagnostics of \<open>controller/em_support.py\<close>: what of the logs, the
  tables and a device's answers is published, as an allowlist of columns and a chain of substitutions.

  A regular expression is a function from the character before a position and the text after it to the
  length of its match; all of them match deterministically. Characters are Latin-1, and \<open>is_word\<close> is
  Python's \<open>\w\<close> on them. A row is its columns in order. The constant entries of the two documents
  (\<open>format\<close>, \<open>redaction\<close>, \<open>kind\<close>) and the time stamp of the diagnostics are left out.
\<close>

section \<open>Regular expressions\<close>

type_synonym pattern = "char option \<Rightarrow> string \<Rightarrow> nat option"

text \<open>\<open>re.sub\<close> with a replacement computed from the match; no pattern matches the empty string.\<close>

function sub_all :: "pattern \<Rightarrow> (string \<Rightarrow> string) \<Rightarrow> char option \<Rightarrow> string \<Rightarrow> string" where
  "sub_all m r p [] = []"
| "sub_all m r p (c # cs) =
     (case m p (c # cs) of
        None \<Rightarrow> c # sub_all m r (Some c) cs
      | Some n \<Rightarrow>
          (let hit = take (Suc (n - 1)) (c # cs) in
           r hit @ sub_all m r (Some (last hit)) (drop (n - 1) cs)))"
  by pat_completeness auto
termination by (relation "measure (\<lambda>(m, r, p, s). length s)") auto

definition is_word :: "char \<Rightarrow> bool" where
  "is_word c \<longleftrightarrow> is_alnum c
     \<or> (let n = of_char c :: nat in n \<in> {95, 170, 178, 179, 181, 185, 186, 188, 189, 190}
          \<or> (192 \<le> n \<and> n \<noteq> 215 \<and> n \<noteq> 247))"

definition word_at :: "char option \<Rightarrow> bool" where
  "word_at p = (case p of None \<Rightarrow> False | Some c \<Rightarrow> is_word c)"

definition word_next :: "string \<Rightarrow> bool" where
  "word_next s = (case s of [] \<Rightarrow> False | c # _ \<Rightarrow> is_word c)"

definition boundary :: "char option \<Rightarrow> string \<Rightarrow> bool" where
  "boundary p s \<longleftrightarrow> word_at p \<noteq> word_next s"

text \<open>\<open>_QUOTED\<close>: a quotation mark, anything but it and a newline, and the same mark.\<close>

definition span_len :: "(char \<Rightarrow> bool) \<Rightarrow> string \<Rightarrow> nat" where
  "span_len P s = length (takeWhile P s)"

definition quoted_pat :: pattern where
  "quoted_pat p s =
     (case s of [] \<Rightarrow> None
      | q # cs \<Rightarrow>
          if q = CHR 0x27 \<or> q = CHR 0x22
          then (let n = span_len (\<lambda>c. c \<noteq> q \<and> c \<noteq> CHR 0x0A) cs in
                if n < length cs \<and> cs ! n = q then Some (n + 2) else None)
          else None)"

definition url_pat :: pattern where
  "url_pat p s =
     (let after = (if startswith s ''http://'' then Some (7 :: nat) else if startswith s ''https://'' then Some 8 else None) in
      case after of None \<Rightarrow> None
      | Some k \<Rightarrow>
          (let n = span_len (\<lambda>c. \<not> is_space c \<and> c \<noteq> CHR 0x27 \<and> c \<noteq> CHR 0x22) (drop k s) in
           if n = 0 then None else Some (k + n)))"

text \<open>\<open>_IPV4\<close>: a run of digits can only be taken whole, before a dot as before a word boundary.\<close>

definition digit_run :: "string \<Rightarrow> nat option" where
  "digit_run s = (let n = span_len is_digit s in if 1 \<le> n \<and> n \<le> 3 then Some n else None)"

fun dotted :: "nat \<Rightarrow> string \<Rightarrow> nat option" where
  "dotted 0 s = (case digit_run s of None \<Rightarrow> None | Some n \<Rightarrow> if word_next (drop n s) then None else Some n)"
| "dotted (Suc k) s =
     (case digit_run s of None \<Rightarrow> None
      | Some n \<Rightarrow>
          (case drop n s of [] \<Rightarrow> None
           | d # r \<Rightarrow> if d = CHR ''.'' then map_option (\<lambda>i. n + 1 + i) (dotted k r) else None))"

definition ipv4_pat :: pattern where
  "ipv4_pat p s = (if boundary p s then dotted 3 s else None)"

definition hex_char :: "char \<Rightarrow> bool" where
  "hex_char c \<longleftrightarrow> is_digit c \<or> in_range (CHR ''a'') (CHR ''f'') c \<or> in_range (CHR ''A'') (CHR ''F'') c"

fun hex_pairs :: "nat \<Rightarrow> string \<Rightarrow> nat option" where
  "hex_pairs 0 (a # b # r) = (if hex_char a \<and> hex_char b \<and> \<not> word_next r then Some 2 else None)"
| "hex_pairs (Suc k) (a # b # c # r) =
     (if hex_char a \<and> hex_char b \<and> c = CHR '':'' then map_option (\<lambda>i. 3 + i) (hex_pairs k r) else None)"
| "hex_pairs _ _ = None"

definition mac_pat :: pattern where
  "mac_pat p s = (if boundary p s then hex_pairs 5 s else None)"

section \<open>Log lines\<close>

definition lower_char :: "char \<Rightarrow> char" where
  "lower_char c =
     (let n = of_char c :: nat in
      if (65 \<le> n \<and> n \<le> 90) \<or> (192 \<le> n \<and> n \<le> 222 \<and> n \<noteq> 215) then char_of (n + 32) else c)"

definition py_lower :: "string \<Rightarrow> string" where "py_lower = map lower_char"

text \<open>\<open>_account_pattern\<close>: the names, longest first, and their roles.\<close>

definition role_ok :: "string \<Rightarrow> bool" where
  "role_ok r \<longleftrightarrow> 1 \<le> length r \<and> length r \<le> 16
     \<and> list_all (\<lambda>c. in_range (CHR ''a'') (CHR ''z'') c \<or> c = CHR ''_'') r"

definition published_role :: "string option \<Rightarrow> string" where
  "published_role role =
     (let r = py_lower (py_strip (case role of None \<Rightarrow> ''user'' | Some s \<Rightarrow> if s = [] then ''user'' else s)) in
      if role_ok r then r else ''user'')"

type_synonym account_table = "(string \<times> string option) list"

definition account_names :: "account_table \<Rightarrow> string list" where
  "account_names accounts = sort_key (\<lambda>n. - int (length n)) (filter (\<lambda>n. 2 \<le> length n) (map fst accounts))"

definition account_roles :: "account_table \<Rightarrow> (string \<times> string) list" where
  "account_roles accounts =
     fold (\<lambda>n. put (py_lower n) (published_role (case map_of accounts n of None \<Rightarrow> None | Some r \<Rightarrow> r)))
       (account_names accounts) []"

fun first_name :: "string list \<Rightarrow> string \<Rightarrow> nat option" where
  "first_name [] s = None"
| "first_name (n # ns) s =
     (if length n \<le> length s \<and> py_lower (take (length n) s) = py_lower n
        \<and> boundary (Some (last (take (length n) s))) (drop (length n) s)
      then Some (length n) else first_name ns s)"

definition account_pat :: "account_table \<Rightarrow> pattern" where
  "account_pat accounts p s = (if boundary p s then first_name (account_names accounts) s else None)"

definition account_role :: "account_table \<Rightarrow> string \<Rightarrow> string" where
  "account_role accounts hit =
     ''<'' @ (case map_of (account_roles accounts) (py_lower hit) of None \<Rightarrow> ''user'' | Some r \<Rightarrow> r) @ ''>''"

definition LOG_DROP :: "string list" where
  "LOG_DROP = [''STT result'', ''text='', ''Utterance saved'', ''stt_text'', ''STT transcript'']"

definition mask_quotes :: "string \<Rightarrow> string" where "mask_quotes = sub_all quoted_pat (\<lambda>_. ''<redacted>'') None"
definition mask_urls :: "string \<Rightarrow> string" where "mask_urls = sub_all url_pat (\<lambda>_. ''<url>'') None"
definition mask_ips :: "string \<Rightarrow> string" where "mask_ips = sub_all ipv4_pat (\<lambda>_. ''<ip>'') None"
definition mask_macs :: "string \<Rightarrow> string" where "mask_macs = sub_all mac_pat (\<lambda>_. ''<mac>'') None"

definition mask_accounts :: "account_table \<Rightarrow> string \<Rightarrow> string" where
  "mask_accounts accounts s =
     (if account_names accounts = [] then s
      else sub_all (account_pat accounts) (account_role accounts) None s)"

definition sanitise_log :: "account_table \<Rightarrow> string list \<Rightarrow> string list" where
  "sanitise_log accounts lines =
     map (mask_accounts accounts \<circ> mask_macs \<circ> mask_ips \<circ> mask_urls \<circ> mask_quotes)
       (filter (\<lambda>line. \<not> list_ex (\<lambda>m. occurs_in m line) LOG_DROP) lines)"

definition is_noise :: "string \<Rightarrow> bool" where "is_noise line \<longleftrightarrow> occurs_in ''[mem]'' line"

fun thin_from :: "nat \<Rightarrow> nat \<Rightarrow> ('a \<Rightarrow> string) \<Rightarrow> 'a list \<Rightarrow> 'a list" where
  "thin_from seen keep key [] = []"
| "thin_from seen keep key (x # xs) =
     (if is_noise (key x)
      then (if keep < Suc seen then thin_from (Suc seen) keep key xs else x # thin_from (Suc seen) keep key xs)
      else x # thin_from seen keep key xs)"

definition thin_noise :: "nat \<Rightarrow> ('a \<Rightarrow> string) \<Rightarrow> 'a list \<Rightarrow> 'a list" where
  "thin_noise keep key items = thin_from 0 keep key items"

text \<open>\<open>LogRing\<close>: a record is its logger's name and its text, \<open>None\<close> when formatting raises.\<close>

definition ring_emit :: "nat \<Rightarrow> string \<times> string option \<Rightarrow> string list \<Rightarrow> string list" where
  "ring_emit capacity rec lines =
     (case rec of (name, text) \<Rightarrow>
        if startswith name ''aiohttp.access'' then lines
        else case text of None \<Rightarrow> lines
        | Some l \<Rightarrow> drop (length lines + 1 - capacity) (lines @ [l]))"

section \<open>The controller's processor time\<close>

definition INTERVAL_S :: seconds where "INTERVAL_S = 30"
definition WINDOWS :: "(seconds \<times> string) list" where
  "WINDOWS = [(60, ''cpu_pct_1m''), (300, ''cpu_pct_5m''), (3600, ''cpu_pct_1h'')]"

fun drop_old :: "seconds \<Rightarrow> (seconds \<times> seconds) list \<Rightarrow> (seconds \<times> seconds) list" where
  "drop_old horizon (a # b # c # xs) = (if fst a < horizon then drop_old horizon (b # c # xs) else a # b # c # xs)"
| "drop_old horizon xs = xs"

definition cpu_add :: "seconds \<Rightarrow> seconds \<Rightarrow> (seconds \<times> seconds) list \<Rightarrow> (seconds \<times> seconds) list" where
  "cpu_add t cpu h = drop_old (t - fst (last WINDOWS) - INTERVAL_S) (h @ [(t, cpu)])"

definition round1 :: "rat \<Rightarrow> rat" where "round1 x = of_int (py_round (x * 10)) / 10"

definition cpu_window :: "seconds \<Rightarrow> seconds \<Rightarrow> (seconds \<times> seconds) list \<Rightarrow> seconds \<Rightarrow> rat option" where
  "cpu_window t cpu h width =
     (case List.find (\<lambda>e. t - width \<le> fst e) h of
        None \<Rightarrow> None
      | Some e \<Rightarrow> if t - fst e < width / 2 then None else Some (round1 (100 * (cpu - snd e) / (t - fst e))))"

definition cpu_windows :: "seconds \<Rightarrow> seconds \<Rightarrow> (seconds \<times> seconds) list \<Rightarrow> (string \<times> rat) list" where
  "cpu_windows t cpu h =
     concat (map (\<lambda>(width, key). case cpu_window t cpu h width of None \<Rightarrow> [] | Some v \<Rightarrow> [(key, v)]) WINDOWS)"

section \<open>The bundle\<close>

type_synonym row = "(string \<times> json) list"

definition DEVICE_FIELDS :: "string list" where
  "DEVICE_FIELDS =
     [''device_id'', ''approved'', ''firmware_ver'', ''firmware_previous'', ''first_seen'', ''last_seen'',
      ''config_sections'', ''use_global_config'', ''esphome_port'', ''ble_proxy_port'', ''ble_proxy_enabled'']"

definition CONFIG_DENY :: "string list" where
  "CONFIG_DENY = [''psk'', ''password'', ''token'', ''secret'', ''key'']"

definition TURN_FIELDS :: "string list" where
  "TURN_FIELDS =
     [''id'', ''device_id'', ''ts'', ''trigger_type'', ''wake_model'', ''wake_score'', ''wake_threshold'', ''dev_shadow'',
      ''dev_wake_score'', ''dev_threshold'', ''noise_floor'', ''outcome'', ''total_ms'', ''vad_end_ms'', ''stt_ms'',
      ''tts_url_ms'', ''tts_fetch_ms'', ''playback_ms'', ''send_ms'', ''delivery_ms'', ''eq_ms'', ''underruns'',
      ''min_depth'', ''prime_wait_ms'', ''recv_span_ms'', ''max_gap_ms'', ''bytes_recv'']"

definition METRIC_FIELDS :: "string list" where
  "METRIC_FIELDS =
     [''device_id'', ''hour_ts'', ''samples'', ''cpu_avg'', ''cpu_max'', ''mem_used_avg'', ''mem_total_mb'',
      ''storage_used_mb'', ''storage_total_mb'', ''rssi_avg'', ''rssi_min'', ''link_speed_last'', ''link_speed_min'',
      ''wifi_freq_last'', ''tx_bytes'', ''rx_bytes'', ''rtt_avg_ms'', ''rtt_samples'', ''rtt_min_ms'', ''rtt_max_ms'',
      ''rtt_excursions'', ''rtt_excursions_idle'', ''rtt_samples_idle'', ''cpu_temp_avg'', ''cpu_temp_max'',
      ''max_temp_max'', ''cores_online_last'', ''cores_online_min'', ''cores_total'', ''thermal_limit_min'']"

definition CONTROLLER_STAT_FIELDS :: "string list" where
  "CONTROLLER_STAT_FIELDS =
     [''uptime_s'', ''cpu_pct_1m'', ''cpu_pct_5m'', ''cpu_pct_1h'', ''cpu_pct_life'', ''rss_mb'', ''mem_total_mb'',
      ''mem_available_mb'', ''mem_limit_mb'', ''load_1'', ''load_5'', ''load_15'', ''cpu_count'', ''data_used_mb'',
      ''data_free_mb'', ''db_mb'', ''recordings_mb'', ''loop_lag_peak_ms'', ''python'', ''platform'', ''container'']"

definition STATS_FIELDS :: "string list" where
  "STATS_FIELDS =
     [''cpuPct'', ''memUsedMb'', ''memTotalMb'', ''storageUsedMb'', ''storageTotalMb'', ''wifiRssi'', ''linkSpeedMbps'',
      ''wifiFreqMhz'', ''txBytes'', ''rxBytes'', ''cpuTempC'', ''maxTempC'', ''coresOnline'', ''coresTotal'',
      ''thermalCoreLimit'', ''ambientLux'', ''owwShadow'']"

definition COUNTER_FIELDS :: "string list" where
  "COUNTER_FIELDS =
     [''device_id'', ''hour_ts'', ''near_misses'', ''near_miss_max'', ''underruns'', ''dev_frames'', ''dev_drops'',
      ''dev_crossings'', ''dev_max_score'', ''dev_max_infer_ms'', ''dev_max_gap_ms'']"

text \<open>\<open>_pick\<close>, also for the comprehensions over a dictionary.\<close>

definition pick :: "string list \<Rightarrow> row \<Rightarrow> row" where
  "pick fields row =
     concat (map (\<lambda>f. case map_of row f of None \<Rightarrow> [] | Some v \<Rightarrow> [(f, v)]) fields)"

definition redact_stats :: "json \<Rightarrow> row option" where
  "redact_stats stats = (case stats of JObj kvs \<Rightarrow> Some (pick STATS_FIELDS kvs) | _ \<Rightarrow> None)"

definition credential_key :: "string \<Rightarrow> bool" where
  "credential_key k \<longleftrightarrow> list_ex (\<lambda>bad. occurs_in bad (py_lower k)) CONFIG_DENY"

definition redact_config :: "row \<Rightarrow> row" where
  "redact_config config = map (\<lambda>(k, v). (k, if credential_key k then JStr ''<redacted>'' else v)) config"

record bundle_input =
  bi_version :: string
  bi_devices :: "row list"
  bi_fleet :: row
  bi_schema :: nat
  bi_turns :: "row list"
  bi_metrics :: "row list"
  bi_counters :: "row list"
  bi_configs :: "(json \<times> row) list"
  bi_live :: "(json \<times> row) list"
  bi_controller_log :: "string list"
  bi_device_log :: "string list"
  bi_accounts :: account_table
  bi_stats :: row

record device_entry =
  de_columns :: row
  de_name :: string
  de_config :: row
  de_live :: row

record support_bundle =
  bu_generated :: int
  bu_version :: string
  bu_schema :: nat
  bu_stats :: row
  bu_fleet :: row
  bu_devices :: "device_entry list"
  bu_turns :: "row list"
  bu_metrics :: "row list"
  bu_counters :: "row list"
  bu_controller_log :: "string list"
  bu_device_log :: "string list"

definition lookup_row :: "(json \<times> row) list \<Rightarrow> json option \<Rightarrow> row" where
  "lookup_row table did =
     (case did of None \<Rightarrow> [] | Some d \<Rightarrow> (case map_of table d of None \<Rightarrow> [] | Some r \<Rightarrow> r))"

definition device_entry_of :: "bundle_input \<Rightarrow> nat \<times> row \<Rightarrow> device_entry" where
  "device_entry_of b nd =
     (let (n, d) = nd; cols = pick DEVICE_FIELDS d; did = map_of cols ''device_id'' in
      \<lparr>de_columns = cols, de_name = ''device-'' @ str_of_nat n, de_config = redact_config (lookup_row (bi_configs b) did),
       de_live = lookup_row (bi_live b) did\<rparr>)"

definition build_bundle :: "int \<Rightarrow> bundle_input \<Rightarrow> support_bundle" where
  "build_bundle now b =
     \<lparr>bu_generated = now, bu_version = bi_version b, bu_schema = bi_schema b,
      bu_stats = pick CONTROLLER_STAT_FIELDS (bi_stats b), bu_fleet = redact_config (bi_fleet b),
      bu_devices = map (device_entry_of b) (zip [1..<Suc (length (bi_devices b))] (bi_devices b)),
      bu_turns = map (pick TURN_FIELDS) (bi_turns b), bu_metrics = map (pick METRIC_FIELDS) (bi_metrics b),
      bu_counters = map (pick COUNTER_FIELDS) (bi_counters b),
      bu_controller_log = sanitise_log (bi_accounts b) (bi_controller_log b),
      bu_device_log = sanitise_log (bi_accounts b) (bi_device_log b)\<rparr>"

section \<open>Provisioning diagnostics\<close>

definition PROVISION_PROPS :: "string list" where
  "PROVISION_PROPS =
     [''ro.product.model'', ''ro.product.name'', ''ro.product.device'', ''ro.build.version.name'',
      ''ro.build.version.incremental'', ''ro.build.version.release'', ''ro.build.version.sdk'', ''ro.build.fingerprint'',
      ''ro.serialno'', ''ro.boot.slot_suffix'', ''sys.boot_completed'', ''persist.sys.usb.config'',
      ''persist.wifi.migrate.complete'']"

definition WPA_STATUS_KEYS :: "string list" where
  "WPA_STATUS_KEYS =
     [''wpa_state'', ''freq'', ''key_mgmt'', ''pairwise_cipher'', ''group_cipher'', ''mode'', ''suppPortStatus'']"

definition PROVISION_PROBES :: "string list" where
  "PROVISION_PROBES =
     [''props'', ''root'', ''selinux'', ''pm_ready'', ''storage'', ''wpa_status'', ''wpa_scan'', ''wpa_caps'', ''services'',
      ''processes'', ''packages'', ''data_property'', ''boot_target'']"

definition py_rstrip :: "string \<Rightarrow> string" where "py_rstrip s = rev (dropWhile is_space (rev s))"

definition scrub_line :: "string \<Rightarrow> string" where
  "scrub_line = mask_macs \<circ> mask_ips \<circ> mask_urls \<circ> mask_quotes"

definition scrub :: "string \<Rightarrow> string list" where
  "scrub text = map py_rstrip (filter (\<lambda>line. py_strip line \<noteq> []) (map scrub_line (py_lines text)))"

text \<open>\<open>^\[([^\]]+)\]:\s*\[(.*)\]$\<close> on a line without line ends.\<close>

definition prop_line :: "string \<Rightarrow> (string \<times> string) option" where
  "prop_line line =
     (case line of [] \<Rightarrow> None
      | c # cs \<Rightarrow>
          (let name = takeWhile (\<lambda>c. c \<noteq> CHR '']'') cs; r = drop (length name) cs in
           if c = CHR ''['' \<and> name \<noteq> [] \<and> startswith r '']:''
           then (case dropWhile is_space (drop 2 r) of [] \<Rightarrow> None
                 | d # v \<Rightarrow> if d = CHR ''['' \<and> v \<noteq> [] \<and> last v = CHR '']'' then Some (name, butlast v) else None)
           else None))"

fun collect :: "(string \<Rightarrow> (string \<times> string) option) \<Rightarrow> string list \<Rightarrow> (string \<times> string) list \<Rightarrow> string list \<Rightarrow> (string \<times> string) list" where
  "collect parse allowed out [] = out"
| "collect parse allowed out (l # ls) =
     (case parse l of
        None \<Rightarrow> collect parse allowed out ls
      | Some (k, v) \<Rightarrow> collect parse allowed (if k \<in> set allowed then put k v out else out) ls)"

definition probe_props :: "string \<Rightarrow> (string \<times> string) list" where
  "probe_props text = collect (\<lambda>l. prop_line (py_strip l)) PROVISION_PROPS [] (py_lines text)"

text \<open>\<open>str.partition('=')\<close>.\<close>

definition partition_eq :: "string \<Rightarrow> string \<times> string" where
  "partition_eq s = (let k = takeWhile (\<lambda>c. c \<noteq> CHR ''='') s in (k, drop (Suc (length k)) s))"

definition probe_wpa_status :: "string \<Rightarrow> (string \<times> string) list" where
  "probe_wpa_status text = collect (\<lambda>l. Some (partition_eq (py_strip l))) WPA_STATUS_KEYS [] (py_lines text)"

text \<open>\<open>str.split(TAB)\<close>.\<close>

fun split_tab :: "string \<Rightarrow> string \<Rightarrow> string list" where
  "split_tab w [] = [rev w]"
| "split_tab w (c # cs) = (if c = CHR 0x09 then rev w # split_tab [] cs else split_tab (c # w) cs)"

record scan_row =
  sr_network :: string
  sr_freq :: string
  sr_signal :: string
  sr_flags :: string
  sr_selected :: bool

definition mac_fullmatch :: "string \<Rightarrow> bool" where
  "mac_fullmatch s \<longleftrightarrow> mac_pat None s = Some (length s)"

text \<open>One line of the scan: what is published of it, and its network's name.\<close>

definition scan_fields :: "string \<Rightarrow> ((string \<times> string \<times> string) \<times> string) option" where
  "scan_fields line =
     (let parts = split_tab [] line in
      if length parts < 4 \<or> startswith (py_lower (py_strip (parts ! 0))) ''bssid'' then None
      else if \<not> mac_fullmatch (py_strip (parts ! 0)) then None
      else Some ((py_strip (parts ! 1), py_strip (parts ! 2), py_strip (parts ! 3)),
                 if 4 < length parts then py_strip (parts ! 4) else []))"

fun scan_rows :: "string option \<Rightarrow> nat \<Rightarrow> string list \<Rightarrow> scan_row list" where
  "scan_rows sel n [] = []"
| "scan_rows sel n (l # ls) =
     (case scan_fields l of
        None \<Rightarrow> scan_rows sel n ls
      | Some ((freq, signal, flags), ssid) \<Rightarrow>
          \<lparr>sr_network = ''network-'' @ str_of_nat (Suc n), sr_freq = freq, sr_signal = signal, sr_flags = flags,
           sr_selected = (case sel of None \<Rightarrow> False | Some s \<Rightarrow> s \<noteq> [] \<and> ssid = s)\<rparr> # scan_rows sel (Suc n) ls)"

definition probe_wpa_scan :: "string \<Rightarrow> string option \<Rightarrow> scan_row list" where
  "probe_wpa_scan text selected = scan_rows selected 0 (py_lines text)"

definition is_letter :: "char \<Rightarrow> bool" where
  "is_letter c \<longleftrightarrow> in_range (CHR ''a'') (CHR ''z'') c \<or> in_range (CHR ''A'') (CHR ''Z'') c"

definition svc_line :: "string \<Rightarrow> bool" where
  "svc_line line =
     (let key = ''[init.svc.'';
          name = takeWhile (\<lambda>c. is_letter c \<or> is_digit c \<or> c \<in> {CHR ''_'', CHR ''.'', CHR ''-''}) (drop (length key) line);
          r = drop (length key + length name) line;
          v = dropWhile is_space (drop 2 r);
          state = takeWhile is_letter (drop 1 v) in
      py_lower (take (length key) line) = key \<and> name \<noteq> [] \<and> startswith r '']:'' \<and> startswith v ''['' \<and> state \<noteq> []
        \<and> drop (1 + length state) v = '']'')"

definition probe_services :: "string \<Rightarrow> string list" where
  "probe_services text = filter svc_line (map py_strip (py_lines text))"

datatype probe_value = Props "(string \<times> string) list" | Scan "scan_row list" | Lines "string list"

definition probe_value_of :: "string option \<Rightarrow> string \<Rightarrow> string \<Rightarrow> probe_value" where
  "probe_value_of selected name text =
     (if name = ''props'' then Props (probe_props text)
      else if name = ''wpa_status'' then Props (probe_wpa_status text)
      else if name = ''wpa_scan'' then Scan (probe_wpa_scan text selected)
      else if name = ''services'' then Lines (probe_services text)
      else Lines (scrub text))"

record diagnostics =
  dg_version :: string
  dg_step :: string
  dg_error :: "string list"
  dg_probes :: "(string \<times> probe_value) list"
  dg_missing :: "string list"
  dg_transcript :: "string list option"

fun join_space :: "string list \<Rightarrow> string" where
  "join_space [] = []"
| "join_space [l] = l"
| "join_space (l # m # ls) = l @ '' '' @ join_space (m # ls)"

definition build_provision_diagnostics ::
  "string \<Rightarrow> string \<Rightarrow> json \<Rightarrow> string list \<Rightarrow> string option \<Rightarrow> string \<Rightarrow> diagnostics" where
  "build_provision_diagnostics step error probes transcript selected_ssid version =
     (let raw = (case probes of JObj kvs \<Rightarrow> kvs | _ \<Rightarrow> []);
          found = concat (map (\<lambda>n. case map_of raw n of
                     Some (JStr text) \<Rightarrow> [(n, probe_value_of selected_ssid n text)] | _ \<Rightarrow> []) PROVISION_PROBES);
          s = join_space (scrub step) in
      \<lparr>dg_version = version, dg_step = (if s = [] then ''unknown'' else s), dg_error = scrub error, dg_probes = found,
       dg_missing = filter (\<lambda>n. n \<notin> fst ` set found) PROVISION_PROBES,
       dg_transcript = (if transcript = [] then None else Some (concat (map scrub transcript)))\<rparr>)"

section \<open>What no published line contains\<close>

text \<open>A pattern matches somewhere; it matches at a position that a substitution leaves alone.\<close>

fun hits :: "pattern \<Rightarrow> char option \<Rightarrow> string \<Rightarrow> bool" where
  "hits t p [] \<longleftrightarrow> False"
| "hits t p (c # cs) \<longleftrightarrow> t p (c # cs) \<noteq> None \<or> hits t (Some c) cs"

function kept_hits :: "pattern \<Rightarrow> pattern \<Rightarrow> char option \<Rightarrow> string \<Rightarrow> bool" where
  "kept_hits t m p [] \<longleftrightarrow> False"
| "kept_hits t m p (c # cs) \<longleftrightarrow>
     (case m p (c # cs) of
        None \<Rightarrow> t p (c # cs) \<noteq> None \<or> kept_hits t m (Some c) cs
      | Some n \<Rightarrow> kept_hits t m (Some (last (take (Suc (n - 1)) (c # cs)))) (drop (n - 1) cs))"
  by pat_completeness auto
termination by (relation "measure (\<lambda>(t, m, p, s). length s)") auto

lemma kept_hits_self: "\<not> kept_hits t t p s"
proof (induction s arbitrary: p rule: length_induct)
  case (1 s)
  show ?case
  proof (cases s)
    case (Cons c cs)
    show ?thesis
    proof (cases "t p (c # cs)")
      case (Some n)
      then have "kept_hits t t p s = kept_hits t t (Some (last (take (Suc (n - 1)) (c # cs)))) (drop (n - 1) cs)"
        unfolding Cons kept_hits.simps by simp
      then show ?thesis using 1 Cons by simp
    qed (use 1 Cons in simp)
  qed simp
qed

lemma hits_drop: "hits t (Some (last (take (Suc n) (c # cs)))) (drop n cs) \<Longrightarrow> hits t (Some c) cs"
proof (induction n arbitrary: c cs)
  case (Suc n)
  show ?case
  proof (cases cs)
    case (Cons d ds)
    have "hits t (Some d) ds" by (rule Suc.IH) (use Suc.prems Cons in simp)
    then show ?thesis by (simp add: Cons)
  qed (use Suc.prems in simp)
qed simp

lemma kept_hits_hits: "kept_hits t m p s \<Longrightarrow> hits t p s"
proof (induction t m p s rule: kept_hits.induct)
  case (2 t m p c cs)
  show ?case
  proof (cases "m p (c # cs)")
    case None
    with 2 show ?thesis by auto
  next
    case (Some n)
    with 2 have "hits t (Some (last (take (Suc (n - 1)) (c # cs)))) (drop (n - 1) cs)" by simp
    then have "hits t (Some c) cs" by (rule hits_drop)
    then show ?thesis by simp
  qed
qed simp

text \<open>
  A token is a pattern between word boundaries whose text has word characters at both ends and no angle
  bracket, and that depends only on that text. Masking replaces one by a word in angle brackets.
\<close>

locale token =
  fixes t :: pattern and core :: "string \<Rightarrow> nat option"
  assumes t_core: "t p s = (if boundary p s then core s else None)"
    and core_bounds: "core s = Some n \<Longrightarrow> 0 < n \<and> n \<le> length s \<and> word_next s \<and> is_word (s ! (n - 1)) \<and> \<not> word_next (drop n s)"
    and core_plain: "core s = Some n \<Longrightarrow> CHR ''<'' \<notin> set (take n s) \<and> CHR ''>'' \<notin> set (take n s)"
    and core_stable: "core s = Some n \<Longrightarrow> \<not> word_next r \<Longrightarrow> core (take n s @ r) = Some n"
begin

definition masked_by :: "pattern \<Rightarrow> (string \<Rightarrow> string) \<Rightarrow> bool" where
  "masked_by m r \<longleftrightarrow>
     (\<forall>p s n. m p s = Some n \<longrightarrow>
        0 < n \<and> n \<le> length s \<and> boundary p s \<and> boundary (Some (last (take n s))) (drop n s))
     \<and> (\<forall>x. \<exists>w. r x = ''<'' @ w @ ''>'' \<and> list_all is_word w \<and> core w = None)"

lemma masked_byI:
  "(\<And>p s n. m p s = Some n \<Longrightarrow> 0 < n \<and> n \<le> length s \<and> boundary p s \<and> boundary (Some (last (take n s))) (drop n s)) \<Longrightarrow>
   (\<And>x. \<exists>w. r x = ''<'' @ w @ ''>'' \<and> list_all is_word w \<and> core w = None) \<Longrightarrow> masked_by m r"
  unfolding masked_by_def by blast

lemma self_bounds:
  assumes "t p s = Some n"
  shows "0 < n \<and> n \<le> length s \<and> boundary p s \<and> boundary (Some (last (take n s))) (drop n s)"
proof -
  have c: "core s = Some n" "boundary p s" using assms by (auto simp: t_core split: if_splits)
  note b = core_bounds [OF c(1)]
  then have "take n s \<noteq> []" by auto
  then have "last (take n s) = s ! (n - 1)" using b by (simp add: last_conv_nth min_absorb2)
  with b c(2) show ?thesis by (simp add: boundary_def word_at_def)
qed

lemma not_at_nonword: "\<not> is_word c \<Longrightarrow> t p (c # s) = None"
  using core_bounds [of "c # s"] by (cases "core (c # s)") (auto simp: t_core word_next_def)

lemma no_hit_in_word: "list_all is_word w \<Longrightarrow> word_at p \<Longrightarrow> hits t p (w @ CHR ''>'' # s) \<Longrightarrow> hits t (Some (CHR ''>'')) s"
proof (induction w arbitrary: p)
  case Nil
  have "\<not> is_word (CHR ''>'')" by code_simp
  then show ?case using Nil not_at_nonword by auto
next
  case (Cons c w)
  then have "t p (c # w @ CHR ''>'' # s) = None" by (simp add: t_core boundary_def word_next_def)
  with Cons.prems Cons.IH [of "Some c"] show ?case by (simp add: word_at_def)
qed

lemma core_ends_word:
  assumes "list_all is_word w" "core (w @ CHR ''>'' # s) = Some n"
  shows "core w = Some n"
proof -
  have "n \<le> length w"
  proof (rule ccontr)
    assume "\<not> n \<le> length w"
    then have "CHR ''>'' \<in> set (take n (w @ CHR ''>'' # s))" by (simp add: take_Cons' not_le)
    with core_plain [OF assms(2)] show False by simp
  qed
  moreover have "\<not> n < length w"
  proof
    assume n: "n < length w"
    then have "word_next (drop n (w @ CHR ''>'' # s))"
      using assms(1) by (simp add: word_next_def Cons_nth_drop_Suc [symmetric] list_all_length)
    with core_bounds [OF assms(2)] show False by simp
  qed
  ultimately have "n = length w" by simp
  with core_stable [OF assms(2), of "[]"] show ?thesis by (simp add: word_next_def)
qed

lemma no_hit_in_mask:
  assumes "list_all is_word w" "core w = None" "hits t p (''<'' @ w @ ''>'' @ s)"
  shows "hits t (Some (CHR ''>'')) s"
proof -
  have nw: "\<not> is_word (CHR ''<'')" "\<not> is_word (CHR ''>'')" by code_simp+
  have "hits t (Some (CHR ''<'')) (w @ CHR ''>'' # s)" using assms(3) not_at_nonword [OF nw(1)] by auto
  then show ?thesis
  proof (cases w)
    case Nil
    with \<open>hits t (Some (CHR ''<'')) (w @ CHR ''>'' # s)\<close> not_at_nonword [OF nw(2)] show ?thesis by auto
  next
    case (Cons c v)
    have "t (Some (CHR ''<'')) (w @ CHR ''>'' # s) = None"
      using core_ends_word [OF assms(1)] assms(2) by (auto simp: t_core split: option.splits intro: ccontr)
    with Cons \<open>hits t (Some (CHR ''<'')) (w @ CHR ''>'' # s)\<close> have "hits t (Some c) (v @ CHR ''>'' # s)" by auto
    then show ?thesis using assms(1) Cons no_hit_in_word [of v "Some c"] by (simp add: word_at_def)
  qed
qed

text \<open>As far as a result has no opening bracket, it is the text itself.\<close>

lemma sub_prefix:
  assumes "masked_by m r" "n \<le> length (sub_all m r p s)" "CHR ''<'' \<notin> set (take n (sub_all m r p s))"
  shows "take n (sub_all m r p s) = take n s
    \<and> drop n (sub_all m r p s) = sub_all m r (if n = 0 then p else Some (s ! (n - 1))) (drop n s) \<and> n \<le> length s"
  using assms(2,3)
proof (induction n arbitrary: p s)
  case (Suc n)
  then obtain c cs where s: "s = c # cs" by (cases s) auto
  have "m p s = None"
  proof (rule ccontr)
    assume "m p s \<noteq> None"
    then obtain k where "m p s = Some k" by auto
    moreover obtain w where "r (take (Suc (k - 1)) s) = ''<'' @ w @ ''>''" using assms(1) unfolding masked_by_def by blast
    ultimately show False using Suc.prems(2) s by (simp add: Let_def)
  qed
  then have sub: "sub_all m r p s = c # sub_all m r (Some c) cs" using s by simp
  with Suc.prems Suc.IH [of "Some c" cs] s show ?case by (cases n) auto
qed simp

lemma sub_keeps_hits:
  "masked_by m r \<Longrightarrow> hits t p' (sub_all m r p s) \<Longrightarrow> word_at p' = word_at p \<or> \<not> word_next s \<Longrightarrow> kept_hits t m p s"
proof (induction m r p s arbitrary: p' rule: sub_all.induct)
  case (2 m r p c cs)
  note mb = 2(3)
  show ?case
  proof (cases "m p (c # cs)")
    case (Some k)
    let ?hit = "take (Suc (k - 1)) (c # cs)"
    obtain w where w: "r ?hit = ''<'' @ w @ ''>''" "list_all is_word w" "core w = None"
      using mb unfolding masked_by_def by blast
    have k: "0 < k" "boundary (Some (last (take k (c # cs)))) (drop k (c # cs))"
      using mb Some unfolding masked_by_def by blast+
    then have hit: "?hit = take k (c # cs)" "drop (k - 1) cs = drop k (c # cs)" by (cases k; simp)+
    have "hits t (Some (CHR ''>'')) (sub_all m r (Some (last ?hit)) (drop (k - 1) cs))"
      by (rule no_hit_in_mask [OF w(2,3)]) (use 2(4) Some w(1) in \<open>simp add: Let_def\<close>)
    moreover have "word_at (Some (CHR ''>'')) = word_at (Some (last ?hit)) \<or> \<not> word_next (drop (k - 1) cs)"
    proof -
      have "\<not> word_at (Some (CHR ''>''))" by code_simp
      then show ?thesis using k(2) hit by (auto simp: boundary_def)
    qed
    ultimately have "kept_hits t m (Some (last ?hit)) (drop (k - 1) cs)" using 2(2) [OF Some refl mb] by blast
    then show ?thesis using Some by simp
  next
    case None
    then have out: "sub_all m r p (c # cs) = c # sub_all m r (Some c) cs" by simp
    show ?thesis
    proof (cases "t p' (sub_all m r p (c # cs))")
      case None
      then have "hits t (Some c) (sub_all m r (Some c) cs)" using 2(4) out by simp
      then have "kept_hits t m (Some c) cs" using 2(1) [OF \<open>m p (c # cs) = None\<close> mb] by blast
      then show ?thesis using \<open>m p (c # cs) = None\<close> by simp
    next
      case (Some n)
      let ?s = "c # cs" and ?o = "sub_all m r p (c # cs)"
      have b: "boundary p' ?o" "core ?o = Some n" using Some by (auto simp: t_core split: if_splits)
      note cb = core_bounds [OF b(2)]
      have pre: "take n ?o = take n ?s" "drop n ?o = sub_all m r (Some (?s ! (n - 1))) (drop n ?s)" "n \<le> length ?s"
        using sub_prefix [OF mb, of n p ?s] cb core_plain [OF b(2)] by auto
      have last_word: "is_word (?s ! (n - 1))"
      proof -
        have "?o ! (n - 1) = take n ?o ! (n - 1)" "?s ! (n - 1) = take n ?s ! (n - 1)" using cb by simp_all
        with pre(1) cb show ?thesis by simp
      qed
      have "\<not> word_next (drop n ?s)"
      proof (cases "drop n ?s")
        case (Cons d ds)
        show ?thesis
        proof (cases "m (Some (?s ! (n - 1))) (d # ds)")
          case None
          then have "hd (drop n ?o) = d" "drop n ?o \<noteq> []" using pre(2) Cons by auto
          with cb Cons show ?thesis by (cases "drop n ?o") (auto simp: word_next_def)
        next
          case (Some k)
          then have "boundary (Some (?s ! (n - 1))) (d # ds)" using mb unfolding masked_by_def by blast
          with last_word Cons show ?thesis by (simp add: boundary_def word_at_def)
        qed
      qed (simp add: word_next_def)
      then have "core (take n ?o @ drop n ?s) = Some n" by (rule core_stable [OF b(2)])
      then have "core ?s = Some n" by (simp only: pre(1) append_take_drop_id)
      moreover have "word_next ?o = word_next ?s" by (simp only: out word_next_def list.case)
      then have "word_next ?s" using cb by blast
      then have "word_at p' = word_at p" using 2(5) by blast
      then have "boundary p ?s" using b(1) \<open>word_next ?o = word_next ?s\<close> by (simp only: boundary_def not_False_eq_True)
      ultimately have "t p ?s \<noteq> None" by (simp add: t_core)
      then show ?thesis using \<open>m p (c # cs) = None\<close> by simp
    qed
  qed
qed simp

lemma masking_keeps_out: "masked_by m r \<Longrightarrow> \<not> hits t None s \<Longrightarrow> \<not> hits t None (sub_all m r None s)"
  using sub_keeps_hits [of m r None None s] kept_hits_hits by blast

lemma masking_removes: "masked_by t r \<Longrightarrow> \<not> hits t None (sub_all t r None s)"
  using sub_keeps_hits [of t r None None s] kept_hits_self by blast

end

subsection \<open>Addresses and account names are tokens\<close>

lemma is_digit_word: "is_digit c \<Longrightarrow> is_word c"
  by (simp add: is_word_def is_alnum_def)

lemma hex_char_word: "hex_char c \<Longrightarrow> is_word c"
  by (auto simp: hex_char_def is_word_def is_alnum_def in_range_def is_digit_def)

lemma brackets:
  "\<not> is_word (CHR ''<'')" "\<not> is_word (CHR ''>'')" "\<not> is_digit (CHR ''<'')" "\<not> is_digit (CHR ''>'')"
  "\<not> hex_char (CHR ''<'')" "\<not> hex_char (CHR ''>'')"
  by code_simp+

lemma digit_run_Some:
  assumes "digit_run s = Some n"
  shows "0 < n" "n \<le> length s" "list_all is_digit (take n s)" "drop n s = [] \<or> \<not> is_digit (hd (drop n s))"
    "r = [] \<or> \<not> is_digit (hd r) \<Longrightarrow> digit_run (take n s @ r) = Some n"
proof -
  let ?d = "takeWhile is_digit s"
  have n: "n = length ?d" "1 \<le> n" "n \<le> 3"
    using assms by (auto simp: digit_run_def span_len_def Let_def split: if_splits)
  have tk: "take n s = ?d" "drop n s = dropWhile is_digit s"
    by (simp_all add: n(1) takeWhile_eq_take [symmetric] dropWhile_eq_drop [symmetric])
  show "0 < n" using n(2) by linarith
  show "n \<le> length s" by (simp add: n(1) length_takeWhile_le)
  show "list_all is_digit (take n s)" by (auto simp: tk(1) list_all_iff dest: set_takeWhileD)
  show "drop n s = [] \<or> \<not> is_digit (hd (drop n s))" unfolding tk(2) by (metis hd_dropWhile)
  assume r: "r = [] \<or> \<not> is_digit (hd r)"
  have "takeWhile is_digit (?d @ r) = ?d"
    using r by (cases r) (auto simp: takeWhile_append dest: set_takeWhileD)
  then show "digit_run (take n s @ r) = Some n" unfolding tk(1) digit_run_def span_len_def Let_def using n by simp
qed

lemma digits_end:
  assumes "list_all is_digit w" "w \<noteq> []"
  shows "word_next (w @ s)" "is_word (last w)" "CHR ''<'' \<notin> set w \<and> CHR ''>'' \<notin> set w"
proof -
  have d: "is_digit c" if "c \<in> set w" for c using that assms(1) by (simp add: list_all_iff)
  show "word_next (w @ s)" using assms by (cases w) (simp_all add: word_next_def is_digit_word)
  show "is_word (last w)" using d [of "last w"] assms(2) by (simp add: is_digit_word)
  show "CHR ''<'' \<notin> set w \<and> CHR ''>'' \<notin> set w" using d brackets(3,4) by blast
qed

lemma not_word_not_digit: "\<not> word_next r \<Longrightarrow> r = [] \<or> \<not> is_digit (hd r)"
  by (cases r) (auto simp: word_next_def dest: is_digit_word)

lemma dotted_facts:
  "dotted k s = Some n \<Longrightarrow>
     0 < n \<and> n \<le> length s \<and> word_next s \<and> is_word (s ! (n - 1)) \<and> \<not> word_next (drop n s)
     \<and> CHR ''<'' \<notin> set (take n s) \<and> CHR ''>'' \<notin> set (take n s)
     \<and> (\<forall>r. \<not> word_next r \<longrightarrow> dotted k (take n s @ r) = Some n)"
proof (induction k s arbitrary: n rule: dotted.induct)
  case (1 s)
  then obtain i where i: "digit_run s = Some i" "\<not> word_next (drop i s)" "n = i"
    by (auto split: option.splits if_splits)
  note d = digit_run_Some [OF i(1)]
  have w: "take i s \<noteq> []" using d(1,2) by auto
  have "s ! (i - 1) = last (take i s)" using d(1,2) w by (simp add: last_conv_nth min_def)
  moreover have "word_next s" using digits_end(1) [OF d(3) w, of "drop i s"] by simp
  moreover have "digit_run (take i s @ r) = Some i" if "\<not> word_next r" for r
    by (rule d(5) [OF not_word_not_digit [OF that]])
  ultimately show ?case using d(1,2) i digits_end [OF d(3) w] by simp
next
  case (2 k s)
  then obtain i r j where i: "digit_run s = Some i" "drop i s = CHR ''.'' # r" "dotted k r = Some j" "n = i + 1 + j"
    by (auto split: option.splits list.splits if_splits)
  note d = digit_run_Some [OF i(1)] and h = 2(1) [OF i(1,2) refl i(3)]
  have s: "s = take i s @ CHR ''.'' # r" using i(2) by (metis append_take_drop_id)
  have li: "length (take i s) = i" using d(2) by simp
  have w: "take i s \<noteq> []" using d(1,2) by auto
  have dot: "\<not> is_digit (CHR ''.'')" by code_simp
  have t: "take n s = take i s @ CHR ''.'' # take j r" by (subst s, simp add: i(4) li d(2) min_absorb2)
  have dr: "drop n s = drop j r" by (subst s, simp add: i(4) li d(2) min_absorb2)
  have nth: "s ! (n - 1) = r ! (j - 1)" using h by (subst s, simp add: i(4) nth_append li d(2) min_absorb2)
  have len: "n \<le> length s" using h by (subst s, simp add: i(4) li d(2) min_absorb2)
  have "dotted (Suc k) (take n s @ u) = Some n" if "\<not> word_next u" for u
  proof -
    have "digit_run (take i s @ CHR ''.'' # take j r @ u) = Some i" by (rule d(5)) (simp add: dot)
    moreover have "dotted k (take j r @ u) = Some j" using h that by blast
    moreover have "drop i (take i s @ CHR ''.'' # take j r @ u) = CHR ''.'' # take j r @ u" using li by simp
    ultimately have "dotted (Suc k) (take i s @ CHR ''.'' # take j r @ u) = Some n" by (simp add: i(4) d(2) min_absorb2)
    then show ?thesis by (simp add: t)
  qed
  moreover have "word_next s" using digits_end(1) [OF d(3) w, of "CHR ''.'' # r"] s by simp
  moreover have "0 < n" by (simp add: i(4))
  moreover have "is_word (s ! (n - 1))" "\<not> word_next (drop n s)" unfolding nth dr using h by blast+
  moreover have "CHR ''<'' \<notin> set (take n s) \<and> CHR ''>'' \<notin> set (take n s)"
    unfolding t using h digits_end(3) [OF d(3) w] by auto
  ultimately show ?case using len by blast
qed

lemma hex_pairs_facts:
  "hex_pairs k s = Some n \<Longrightarrow>
     0 < n \<and> n \<le> length s \<and> word_next s \<and> is_word (s ! (n - 1)) \<and> \<not> word_next (drop n s)
     \<and> CHR ''<'' \<notin> set (take n s) \<and> CHR ''>'' \<notin> set (take n s)
     \<and> (\<forall>r. \<not> word_next r \<longrightarrow> hex_pairs k (take n s @ r) = Some n)"
proof (induction k s arbitrary: n rule: hex_pairs.induct)
  case (1 a b r)
  then show ?case using brackets(5,6) by (auto simp: word_next_def hex_char_word split: if_splits)
next
  case (2 k a b c r)
  then obtain j where j: "hex_pairs k r = Some j" "n = 3 + j" "hex_char a" "hex_char b" "c = CHR '':''"
    by (auto split: if_splits)
  with 2(1) [of j] have h: "0 < j" "j \<le> length r" "is_word (r ! (j - 1))" "\<not> word_next (drop j r)"
    "CHR ''<'' \<notin> set (take j r)" "CHR ''>'' \<notin> set (take j r)"
    "\<And>u. \<not> word_next u \<Longrightarrow> hex_pairs k (take j r @ u) = Some j" by auto
  then show ?case using j(2-5) brackets(5,6)
    by (cases j) (auto simp: word_next_def hex_char_word numeral_3_eq_3)
qed simp_all

interpretation ip: token ipv4_pat "dotted 3"
  by unfold_locales (use dotted_facts [of 3] in \<open>auto simp: ipv4_pat_def\<close>)

interpretation mac: token mac_pat "hex_pairs 5"
  by unfold_locales (use hex_pairs_facts [of 5] in \<open>auto simp: mac_pat_def\<close>)

definition word_accounts :: "account_table \<Rightarrow> bool" where
  "word_accounts accounts \<longleftrightarrow> list_all (\<lambda>(n, _). list_all is_word n) accounts"

lemma lower_char_word: "is_word (lower_char c) \<longleftrightarrow> is_word c"
proof -
  have c: "(of_char c :: nat) < 256" by simp
  define n where "n = (of_char c :: nat)"
  have up: "of_char (lower_char c) = (if (65 \<le> n \<and> n \<le> 90) \<or> (192 \<le> n \<and> n \<le> 222 \<and> n \<noteq> 215) then n + 32 else n)"
    using c by (simp add: lower_char_def Let_def n_def)
  show ?thesis
    unfolding is_word_def is_alnum_def is_digit_def in_range_def Let_def up n_def [symmetric]
    by simp
qed

lemma py_lower_words: "py_lower a = py_lower b \<Longrightarrow> list_all is_word a \<longleftrightarrow> list_all is_word b"
  by (metis (mono_tags, lifting) list.pred_map list.pred_cong comp_def lower_char_word py_lower_def)

lemma account_names_set: "n \<in> set (account_names accounts) \<longleftrightarrow> n \<in> fst ` set accounts \<and> 2 \<le> length n"
  by (auto simp: account_names_def)

text \<open>Whether one name matches.\<close>

definition name_hit :: "string \<Rightarrow> string \<Rightarrow> bool" where
  "name_hit n s \<longleftrightarrow> length n \<le> length s \<and> py_lower (take (length n) s) = py_lower n
     \<and> boundary (Some (last (take (length n) s))) (drop (length n) s)"

lemma first_name_find: "first_name ns s = map_option length (List.find (\<lambda>n. name_hit n s) ns)"
  by (induction ns) (auto simp: name_hit_def)

lemma name_hit_bounds:
  assumes "name_hit n s" "0 < length n" "list_all is_word n"
  shows "list_all is_word (take (length n) s)" "word_next s" "is_word (s ! (length n - 1))" "\<not> word_next (drop (length n) s)"
proof -
  let ?t = "take (length n) s"
  have "py_lower ?t = py_lower n" using assms(1) by (simp only: name_hit_def)
  from py_lower_words [OF this] assms(3) show w: "list_all is_word ?t" by blast
  have l: "length ?t = length n" using assms(1) by (simp add: name_hit_def)
  then have ne: "?t \<noteq> []" using assms(2) by auto
  then obtain c u where "?t = c # u" by (cases ?t) auto
  moreover from this have "is_word c" using w by simp
  ultimately show "word_next s" by (cases s) (auto simp: word_next_def take_Cons' split: if_splits)
  have "?t ! (length n - 1) = s ! (length n - 1)" using assms(2) by simp
  moreover have "?t ! (length n - 1) \<in> set ?t" using l assms(2) by (intro nth_mem) simp
  then have "is_word (?t ! (length n - 1))" using w by (simp only: list_all_iff)
  ultimately show "is_word (s ! (length n - 1))" by metis
  have "is_word (last ?t)" using w ne by (simp add: list_all_iff)
  then show "\<not> word_next (drop (length n) s)" using assms(1) by (simp add: name_hit_def boundary_def word_at_def)
qed

lemma name_hit_stable:
  assumes "list_all is_word (take k s)" "k \<le> length s" "\<not> word_next (drop k s)" "\<not> word_next r"
    and "0 < length n" "list_all is_word n"
  shows "name_hit n (take k s @ r) = name_hit n s"
proof -
  have k: "length (take k s) = k" using assms(2) by simp
  have lim: "length n \<le> k" if hit: "name_hit n (take k s @ u)" and u: "\<not> word_next u" for u
  proof (rule ccontr)
    assume "\<not> length n \<le> k"
    then obtain i where i: "length n = k + Suc i" by (metis less_iff_Suc_add not_le add_Suc_right)
    have "length n \<le> k + length u" using hit k by (simp add: name_hit_def)
    then obtain d ds where "u = d # ds" using i by (cases u) auto
    then have "d \<in> set (take (length n) (take k s @ u))" using i k by simp
    with name_hit_bounds(1) [OF hit assms(5,6)] have "is_word d" by (simp add: list_all_iff)
    with u \<open>u = d # ds\<close> show False by (simp add: word_next_def)
  qed
  have same: "name_hit n (take k s @ u) = name_hit n (take k s @ v)"
    if "length n \<le> k" "\<not> word_next u" "\<not> word_next v" for u v
  proof -
    have "word_next (drop (length n) (take k s) @ u) = word_next (drop (length n) (take k s) @ v)"
      using that by (cases "drop (length n) (take k s)") (auto simp: word_next_def)
    then show ?thesis using that(1) assms(2) by (simp add: name_hit_def boundary_def)
  qed
  have s: "name_hit n s = name_hit n (take k s @ drop k s)" by simp
  show ?thesis
  proof (cases "length n \<le> k")
    case True
    show ?thesis unfolding s by (rule same [OF True assms(4,3)])
  next
    case False
    with lim [OF _ assms(4)] lim [OF _ assms(3)] s show ?thesis by blast
  qed
qed

lemma word_accounts_name:
  "word_accounts accounts \<Longrightarrow> n \<in> set (account_names accounts) \<Longrightarrow> list_all is_word n \<and> 0 < length n"
  by (auto simp: word_accounts_def account_names_set list_all_iff)

lemma first_name_Some:
  assumes "first_name (account_names accounts) s = Some k"
  obtains n where "n \<in> set (account_names accounts)" "name_hit n s" "k = length n"
  using assms that by (auto simp: first_name_find find_Some_iff dest: nth_mem)

lemma first_name_stable:
  assumes "word_accounts accounts" "first_name (account_names accounts) s = Some k" "\<not> word_next r"
  shows "first_name (account_names accounts) (take k s @ r) = Some k"
proof -
  obtain n where n: "n \<in> set (account_names accounts)" "name_hit n s" "k = length n"
    using assms(2) by (rule first_name_Some)
  have w: "0 < length n" "list_all is_word n" using word_accounts_name [OF assms(1) n(1)] by auto
  have "name_hit m (take k s @ r) = name_hit m s" if "m \<in> set (account_names accounts)" for m
    using name_hit_stable [of k s r m] name_hit_bounds [OF n(2) w] n(2,3) assms(3) word_accounts_name [OF assms(1) that]
    by (simp add: name_hit_def)
  then have "List.find (\<lambda>m. name_hit m (take k s @ r)) (account_names accounts)
      = List.find (\<lambda>m. name_hit m s) (account_names accounts)" by (intro find_cong) simp_all
  with assms(2) show ?thesis by (simp add: first_name_find)
qed

lemma account_token:
  assumes "word_accounts accounts"
  shows "token (account_pat accounts) (first_name (account_names accounts))"
proof
  show "account_pat accounts p s = (if boundary p s then first_name (account_names accounts) s else None)" for p s
    by (simp add: account_pat_def)
  fix s k assume k: "first_name (account_names accounts) s = Some k"
  then obtain n where n: "n \<in> set (account_names accounts)" "name_hit n s" "k = length n" by (rule first_name_Some)
  have w: "0 < length n" "list_all is_word n" using word_accounts_name [OF assms n(1)] by auto
  note b = name_hit_bounds [OF n(2) w]
  show "0 < k \<and> k \<le> length s \<and> word_next s \<and> is_word (s ! (k - 1)) \<and> \<not> word_next (drop k s)"
    using b w n by (simp add: name_hit_def)
  show "CHR ''<'' \<notin> set (take k s) \<and> CHR ''>'' \<notin> set (take k s)"
    using b(1) brackets(1,2) by (auto simp: n(3) list_all_iff)
  show "first_name (account_names accounts) (take k s @ r) = Some k" if "\<not> word_next r" for r
    by (rule first_name_stable [OF assms k that])
qed

subsection \<open>The masks\<close>

text \<open>What a mask of accounts replaces; it needs no assumption on the names.\<close>

lemma account_pat_bounds:
  assumes "account_pat accounts p s = Some k"
  shows "0 < k \<and> k \<le> length s \<and> boundary p s \<and> boundary (Some (last (take k s))) (drop k s)"
proof -
  have k: "first_name (account_names accounts) s = Some k" "boundary p s"
    using assms by (auto simp: account_pat_def split: if_splits)
  from k(1) obtain n where "n \<in> set (account_names accounts)" "name_hit n s" "k = length n" by (rule first_name_Some)
  with k(2) show ?thesis by (auto simp: name_hit_def account_names_set)
qed

lemma put_values:
  "\<forall>k v. map_of m k = Some v \<longrightarrow> P v \<Longrightarrow> \<forall>n. P (f n) \<Longrightarrow> map_of (fold (\<lambda>n. put (g n) (f n)) ns m) k = Some v \<Longrightarrow> P v"
proof (induction ns arbitrary: m)
  case (Cons n ns)
  have "\<forall>k v. map_of (put (g n) (f n) m) k = Some v \<longrightarrow> P v" using Cons.prems(1,2) by simp
  then show ?case using Cons.IH [of "put (g n) (f n) m"] Cons.prems(2,3) by simp
qed simp

definition role_word :: "string \<Rightarrow> bool" where
  "role_word w \<longleftrightarrow> w \<noteq> [] \<and> list_all (\<lambda>c. in_range (CHR ''a'') (CHR ''z'') c \<or> c = CHR ''_'') w"

lemma published_role_word: "role_word (published_role role)"
proof -
  have "role_word ''user''" by code_simp
  moreover have "role_word r" if "role_ok r" for r using that by (auto simp: role_ok_def role_word_def)
  ultimately show ?thesis by (simp add: published_role_def Let_def)
qed

lemma account_role_word: "\<exists>w. account_role accounts x = ''<'' @ w @ ''>'' \<and> role_word w"
proof (cases "map_of (account_roles accounts) (py_lower x)")
  case None
  have "role_word ''user''" by code_simp
  with None show ?thesis by (auto simp: account_role_def)
next
  case (Some w)
  then have "role_word w"
    unfolding account_roles_def
    by (rule put_values [where P = role_word, rotated 2]) (simp_all add: published_role_word)
  with Some show ?thesis by (auto simp: account_role_def)
qed

lemma role_char_word: "in_range (CHR ''a'') (CHR ''z'') c \<or> c = CHR ''_'' \<Longrightarrow> is_word c \<and> \<not> is_digit c \<and> c \<noteq> CHR '':''"
  by (auto simp: is_word_def is_alnum_def is_digit_def in_range_def)

lemma hex_pairs_colon: "hex_pairs (Suc k) w \<noteq> None \<Longrightarrow> CHR '':'' \<in> set w"
  by (cases "(Suc k, w)" rule: hex_pairs.cases) (auto split: if_splits)

lemma role_word_tokens:
  assumes "role_word w"
  shows "list_all is_word w" "dotted 3 w = None" "hex_pairs 5 w = None"
proof -
  have c: "is_word c \<and> \<not> is_digit c \<and> c \<noteq> CHR '':''" if "c \<in> set w" for c
    using assms that by (intro role_char_word) (auto simp: role_word_def list_all_iff)
  then show "list_all is_word w" by (simp add: list_all_iff)
  have "digit_run w = None" using c by (cases w) (auto simp: digit_run_def span_len_def)
  then show "dotted 3 w = None" by (simp add: numeral_3_eq_3)
  show "hex_pairs 5 w = None"
    using hex_pairs_colon [of 4 w] c by (cases "hex_pairs 5 w") auto
qed

lemma plain_masks:
  "dotted 3 ''mac'' = None" "dotted 3 ''ip'' = None" "hex_pairs 5 ''mac'' = None"
  "list_all is_word ''mac''" "list_all is_word ''ip''"
  by code_simp+

lemma ip_masked: "ip.masked_by ipv4_pat (\<lambda>_. ''<ip>'')"
  using plain_masks by (intro ip.masked_byI ip.self_bounds exI [of _ "''ip''"]) auto

lemma mac_masked: "ip.masked_by mac_pat (\<lambda>_. ''<mac>'')" "mac.masked_by mac_pat (\<lambda>_. ''<mac>'')"
  using plain_masks by (auto intro!: ip.masked_byI mac.masked_byI mac.self_bounds exI [of _ "''mac''"])

lemma account_role_mask:
  "\<exists>w. account_role accounts x = ''<'' @ w @ ''>'' \<and> list_all is_word w \<and> dotted 3 w = None \<and> hex_pairs 5 w = None"
  using account_role_word [of accounts x] role_word_tokens by blast

lemma account_masked:
  "ip.masked_by (account_pat accounts) (account_role accounts)"
  "mac.masked_by (account_pat accounts) (account_role accounts)"
  by (rule ip.masked_byI mac.masked_byI; use account_pat_bounds account_role_mask in blast)+


definition roles_apart :: "account_table \<Rightarrow> bool" where
  "roles_apart accounts \<longleftrightarrow>
     list_all (\<lambda>(n, _). py_lower n \<noteq> ''user'' \<and> list_all (\<lambda>(_, role). py_lower n \<noteq> published_role role) accounts) accounts"

lemma published_role_None: "published_role None = ''user''"
  by code_simp

lemma account_role_cases:
  "\<exists>w. account_role accounts x = ''<'' @ w @ ''>'' \<and> (w = ''user'' \<or> (\<exists>n role. (n, role) \<in> set accounts \<and> w = published_role role))"
proof (cases "map_of (account_roles accounts) (py_lower x)")
  case None
  then show ?thesis by (auto simp: account_role_def)
next
  case (Some w)
  let ?f = "\<lambda>n. published_role (case map_of accounts n of None \<Rightarrow> None | Some r \<Rightarrow> r)"
  have "\<forall>n. ?f n = ''user'' \<or> (\<exists>n' role. (n', role) \<in> set accounts \<and> ?f n = published_role role)"
    by (auto simp: published_role_None split: option.split dest: map_of_SomeD)
  then have "w = ''user'' \<or> (\<exists>n role. (n, role) \<in> set accounts \<and> w = published_role role)"
    using Some unfolding account_roles_def
    by (intro put_values [where m = "[]" and f = ?f and g = py_lower
        and P = "\<lambda>w. w = ''user'' \<or> (\<exists>n role. (n, role) \<in> set accounts \<and> w = published_role role)"]) auto
  with Some show ?thesis by (auto simp: account_role_def)
qed

lemma lower_role: "role_word w \<Longrightarrow> py_lower w = w"
proof -
  have "lower_char c = c" if "in_range (CHR ''a'') (CHR ''z'') c \<or> c = CHR ''_''" for c
    using that by (auto simp: in_range_def lower_char_def Let_def)
  then show "role_word w \<Longrightarrow> py_lower w = w" by (auto simp: role_word_def py_lower_def list_all_iff intro!: map_idI)
qed

lemma role_is_no_name:
  assumes "word_accounts accounts" "roles_apart accounts" "role_word w"
    and "w = ''user'' \<or> (\<exists>n role. (n, role) \<in> set accounts \<and> w = published_role role)"
  shows "first_name (account_names accounts) w = None"
proof (rule ccontr)
  assume "first_name (account_names accounts) w \<noteq> None"
  then obtain k where "first_name (account_names accounts) w = Some k" by auto
  then obtain n where n: "n \<in> set (account_names accounts)" "name_hit n w" by (rule first_name_Some)
  have wn: "0 < length n" "list_all is_word n" using word_accounts_name [OF assms(1) n(1)] by auto
  have all: "list_all is_word w" by (rule role_word_tokens(1) [OF assms(3)])
  have "drop (length n) w = []"
  proof (rule ccontr)
    assume "drop (length n) w \<noteq> []"
    then obtain c u where c: "drop (length n) w = c # u" by (cases "drop (length n) w") auto
    then have "c \<in> set w" by (metis in_set_dropD list.set_intros(1))
    then have "is_word c" using all by (simp add: list_all_iff)
    with name_hit_bounds(4) [OF n(2) wn] c show False by (simp add: word_next_def)
  qed
  then have "take (length n) w = w" by (metis append_Nil2 append_take_drop_id)
  then have "py_lower n = w" using n(2) lower_role [OF assms(3)] by (simp add: name_hit_def)
  moreover have "n \<in> fst ` set accounts" using n(1) by (simp add: account_names_set)
  moreover have "py_lower n' \<noteq> ''user'' \<and> py_lower n' \<noteq> published_role role"
    if "(n', r) \<in> set accounts" "(m, role) \<in> set accounts" for n' r m role
    using assms(2) that unfolding roles_apart_def list_all_iff by fast
  ultimately show False using assms(4) by (metis imageE prod.collapse)
qed


section \<open>Quotation marks\<close>

lemma no_quote_no_match: "list_all (\<lambda>c. c \<noteq> CHR 0x27 \<and> c \<noteq> CHR 0x22) a \<Longrightarrow>
    \<exists>p'. sub_all quoted_pat r p (a @ s) = a @ sub_all quoted_pat r p' s"
  by (induction a arbitrary: p) (auto simp: quoted_pat_def)

lemma quoted_match:
  assumes "list_all (\<lambda>c. c \<noteq> q \<and> c \<noteq> CHR 0x0A) b" "q = CHR 0x27 \<or> q = CHR 0x22"
  shows "quoted_pat p (q # b @ q # s) = Some (length b + 2)"
proof -
  have "takeWhile (\<lambda>c. c \<noteq> q \<and> c \<noteq> CHR 0x0A) (b @ q # s) = b"
    using assms(1) by (subst takeWhile_append2) (auto simp: list_all_iff)
  with assms(2) show ?thesis by (simp add: quoted_pat_def span_len_def Let_def)
qed

text \<open>
  An apostrophe uncovers what is quoted after it: the substitution pairs it with the opening quotation
  mark, so the text that was quoted is published as it is.
\<close>
theorem apostrophe_uncovers_the_quotation:
  assumes "list_all (\<lambda>c. c \<noteq> CHR 0x27 \<and> c \<noteq> CHR 0x22) before" "list_all (\<lambda>c. c \<noteq> CHR 0x27 \<and> c \<noteq> CHR 0x0A) between"
    and "list_all (\<lambda>c. c \<noteq> CHR 0x27 \<and> c \<noteq> CHR 0x22) speech"
  shows "mask_quotes (before @ [CHR 0x27] @ between @ [CHR 0x27] @ speech @ [CHR 0x27])
    = before @ ''<redacted>'' @ speech @ [CHR 0x27]"
proof -
  let ?r = "\<lambda>_ :: string. ''<redacted>''"
  let ?rest = "speech @ [CHR 0x27]"
  obtain p' where p': "mask_quotes (before @ [CHR 0x27] @ between @ [CHR 0x27] @ ?rest)
      = before @ sub_all quoted_pat ?r p' (CHR 0x27 # between @ CHR 0x27 # ?rest)"
    using no_quote_no_match [OF assms(1), of ?r None "CHR 0x27 # between @ CHR 0x27 # ?rest"]
    by (auto simp: mask_quotes_def)
  have m: "quoted_pat p' (CHR 0x27 # between @ CHR 0x27 # ?rest) = Some (length between + 2)"
    by (rule quoted_match [OF assms(2)]) simp
  have "\<exists>q. sub_all quoted_pat ?r p' (CHR 0x27 # between @ CHR 0x27 # ?rest) = ''<redacted>'' @ sub_all quoted_pat ?r q ?rest"
    by (subst sub_all.simps(2), subst m) (auto simp: Let_def)
  then obtain q where q: "sub_all quoted_pat ?r p' (CHR 0x27 # between @ CHR 0x27 # ?rest) = ''<redacted>'' @ sub_all quoted_pat ?r q ?rest" ..
  obtain q' where "sub_all quoted_pat ?r q ?rest = speech @ sub_all quoted_pat ?r q' [CHR 0x27]"
    using no_quote_no_match [OF assms(3)] by blast
  moreover have "sub_all quoted_pat ?r q' [CHR 0x27] = [CHR 0x27]" by (simp add: quoted_pat_def span_len_def)
  ultimately show ?thesis using p' q by simp
qed

section \<open>Columns\<close>

definition same_on :: "string list \<Rightarrow> row \<Rightarrow> row \<Rightarrow> bool" where
  "same_on cols r r' \<longleftrightarrow> list_all (\<lambda>f. map_of r f = map_of r' f) cols"

text \<open>Configurations that differ at most in what credential-shaped keys hold.\<close>

definition same_config :: "row \<Rightarrow> row \<Rightarrow> bool" where
  "same_config c c' \<longleftrightarrow> list_all2 (\<lambda>(k, v) (k', v'). k = k' \<and> (credential_key k \<or> v = v')) c c'"

lemma pick_same: "same_on cols r r' \<Longrightarrow> pick cols r = pick cols r'"
  unfolding pick_def same_on_def by (induction cols) simp_all

lemma map_pick_same: "list_all2 (same_on cols) rs rs' \<Longrightarrow> map (pick cols) rs = map (pick cols) rs'"
  by (induction rule: list_all2_induct) (simp_all add: pick_same)

lemma redact_same: "same_config c c' \<Longrightarrow> redact_config c = redact_config c'"
  unfolding same_config_def redact_config_def by (induction rule: list_all2_induct) auto

lemma redact_table_same:
  "list_all2 (\<lambda>(d, c) (d', c'). d = d' \<and> same_config c c') cs cs' \<Longrightarrow>
   map_option redact_config (map_of cs d) = map_option redact_config (map_of cs' d)"
  by (induction rule: list_all2_induct) (auto simp: redact_same)

lemma redact_lookup:
  "redact_config (lookup_row cs did) =
     (case did of None \<Rightarrow> redact_config []
      | Some d \<Rightarrow> (case map_option redact_config (map_of cs d) of None \<Rightarrow> redact_config [] | Some r \<Rightarrow> r))"
  by (simp add: lookup_row_def split: option.split)

lemma redact_lookup_same:
  "list_all2 (\<lambda>(d, c) (d', c'). d = d' \<and> same_config c c') cs cs' \<Longrightarrow>
   redact_config (lookup_row cs did) = redact_config (lookup_row cs' did)"
  by (cases did) (simp_all only: redact_lookup redact_table_same option.case)

lemma device_entries_same:
  assumes "list_all2 (same_on DEVICE_FIELDS) ds ds'"
    and "\<And>did. redact_config (lookup_row (bi_configs b) did) = redact_config (lookup_row (bi_configs b') did)" "bi_live b = bi_live b'"
  shows "map (device_entry_of b) (zip ns ds) = map (device_entry_of b') (zip ns ds')"
  using assms(1)
proof (induction ds ds' arbitrary: ns rule: list_all2_induct)
  case (Cons d ds d' ds')
  then show ?case using assms(2,3) by (cases ns) (simp_all add: device_entry_of_def Let_def pick_same)
qed simp

text \<open>
  Claim C37: The bundle is a function of the listed columns, the live state and the log lines: whatever the other
  columns of any row hold - labels, transcripts, network names - and whatever a configuration holds under a key that
  looks like a credential, the bundle is the same.
\<close>
theorem bundle_shows_only_listed_columns:
  assumes "list_all2 (same_on DEVICE_FIELDS) (bi_devices b) ds" "list_all2 (same_on TURN_FIELDS) (bi_turns b) ts"
    and "list_all2 (same_on METRIC_FIELDS) (bi_metrics b) ms" "list_all2 (same_on COUNTER_FIELDS) (bi_counters b) cs"
    and "same_on CONTROLLER_STAT_FIELDS (bi_stats b) st" "same_config (bi_fleet b) fl"
    and "list_all2 (\<lambda>(d, c) (d', c'). d = d' \<and> same_config c c') (bi_configs b) cfs"
  shows "build_bundle now b = build_bundle now (b\<lparr>bi_devices := ds, bi_turns := ts, bi_metrics := ms, bi_counters := cs,
      bi_stats := st, bi_fleet := fl, bi_configs := cfs\<rparr>)
    \<and> ''label'' \<notin> set DEVICE_FIELDS \<and> ''stt_text'' \<notin> set TURN_FIELDS \<and> ''wifi_bssid_last'' \<notin> set METRIC_FIELDS"
proof
  let ?b = "b\<lparr>bi_devices := ds, bi_turns := ts, bi_metrics := ms, bi_counters := cs, bi_stats := st, bi_fleet := fl, bi_configs := cfs\<rparr>"
  have "map (device_entry_of b) (zip [1..<Suc (length (bi_devices b))] (bi_devices b))
      = map (device_entry_of ?b) (zip [1..<Suc (length ds)] ds)"
    unfolding list_all2_lengthD [OF assms(1)]
    by (rule device_entries_same [OF assms(1)]) (simp_all add: redact_lookup_same [OF assms(7)])
  then show "build_bundle now b = build_bundle now ?b"
    by (simp add: build_bundle_def map_pick_same [OF assms(2)] map_pick_same [OF assms(3)] map_pick_same [OF assms(4)]
        pick_same [OF assms(5)] redact_same [OF assms(6)])
  show "''label'' \<notin> set DEVICE_FIELDS \<and> ''stt_text'' \<notin> set TURN_FIELDS \<and> ''wifi_bssid_last'' \<notin> set METRIC_FIELDS"
    by code_simp
qed

section \<open>Noise, and the processor's windows\<close>

lemma thin_from_noise:
  "filter (is_noise \<circ> key) (thin_from seen keep key xs) = take (keep - seen) (filter (is_noise \<circ> key) xs)"
proof (induction xs arbitrary: seen)
  case (Cons x xs)
  show ?case
  proof (cases "keep < Suc seen")
    case True
    with Cons show ?thesis by simp
  next
    case False
    then have "keep - seen = Suc (keep - Suc seen)" by simp
    with False Cons show ?thesis by simp
  qed
qed simp

lemma thin_from_rest: "filter (Not \<circ> is_noise \<circ> key) (thin_from seen keep key xs) = filter (Not \<circ> is_noise \<circ> key) xs"
  by (induction xs arbitrary: seen) auto

lemma thin_from_order: "subseq (thin_from seen keep key xs) xs"
  by (induction xs arbitrary: seen) auto

text \<open>
  Thinning the noise keeps every line that is none, the first \<open>keep\<close> that are, and the order.
\<close>
theorem noise_is_thinned:
  "filter (Not \<circ> is_noise \<circ> key) (thin_noise keep key xs) = filter (Not \<circ> is_noise \<circ> key) xs
   \<and> filter (is_noise \<circ> key) (thin_noise keep key xs) = take keep (filter (is_noise \<circ> key) xs)
   \<and> subseq (thin_noise keep key xs) xs"
  using thin_from_noise [of key 0 keep xs] thin_from_rest [of key 0 keep xs] thin_from_order [of 0 keep key xs]
  by (simp add: thin_noise_def)

text \<open>
  A window that is reported is an average over at least half of it and at most all of it, up to now.
\<close>
theorem cpu_windows_are_honest:
  assumes "(key, v) \<in> set (cpu_windows t cpu h)"
  shows "\<exists>width ts c. (width, key) \<in> set WINDOWS \<and> (ts, c) \<in> set h \<and> width / 2 \<le> t - ts \<and> t - ts \<le> width
    \<and> v = round1 (100 * (cpu - c) / (t - ts))"
proof -
  from assms obtain width where w: "(width, key) \<in> set WINDOWS" "cpu_window t cpu h width = Some v"
    by (auto simp: cpu_windows_def split: option.splits)
  from w(2) obtain e where e: "List.find (\<lambda>e. t - width \<le> fst e) h = Some e" "\<not> t - fst e < width / 2"
      "v = round1 (100 * (cpu - snd e) / (t - fst e))"
    by (auto simp: cpu_window_def split: option.splits if_splits)
  then have "e \<in> set h" "t - width \<le> fst e" by (auto simp: find_Some_iff)
  then have "(fst e, snd e) \<in> set h" "width / 2 \<le> t - fst e" "t - fst e \<le> width" using e(2) by auto
  with w(1) e(3) show ?thesis by blast
qed

section \<open>Provisioning\<close>

definition hide_selection :: "scan_row \<Rightarrow> scan_row" where
  "hide_selection r = r\<lparr>sr_selected := False\<rparr>"

lemma scan_rows_same:
  "map (map_option fst \<circ> scan_fields) ls = map (map_option fst \<circ> scan_fields) ls' \<Longrightarrow>
   map hide_selection (scan_rows sel n ls) = map hide_selection (scan_rows sel' n ls')"
proof (induction ls arbitrary: ls' n)
  case (Cons l ls)
  then obtain l' us where ls': "ls' = l' # us" by (cases ls') auto
  with Cons.prems Cons.IH [of us] show ?case
    by (cases "scan_fields l"; cases "scan_fields l'") (auto simp: hide_selection_def split: prod.splits)
qed simp

text \<open>
  The scan that is published does not depend on the names and addresses of the networks: two scans whose
  lines agree in frequency, signal and flags are published alike, up to the mark on the one selected.
\<close>
theorem scan_hides_the_networks:
  assumes "map (map_option fst \<circ> scan_fields) (py_lines text) = map (map_option fst \<circ> scan_fields) (py_lines text')"
  shows "map hide_selection (probe_wpa_scan text sel) = map hide_selection (probe_wpa_scan text' sel')"
  unfolding probe_wpa_scan_def by (rule scan_rows_same [OF assms])

definition NAME_PROP :: string where "NAME_PROP = ''ro.product.name''"

lemma name_prop_line: "prop_line (''['' @ NAME_PROP @ '']: ['' @ v @ '']'') = Some (NAME_PROP, v)"
proof -
  have "takeWhile (\<lambda>c. c \<noteq> CHR '']'') (NAME_PROP @ '']: ['' @ v @ '']'') = NAME_PROP"
    by (subst takeWhile_append2) (auto simp: NAME_PROP_def)
  then show ?thesis
    by (simp add: prop_line_def Let_def startswith_def is_space_def) (simp add: NAME_PROP_def)
qed

lemma strip_bracketed: "py_strip (CHR ''['' # s @ '']'') = CHR ''['' # s @ '']''"
  by (simp add: py_strip_def is_space_def)

text \<open>
  What is read out of a probe is not scrubbed: a property is published with its value as the device
  printed it, whatever is in it.
\<close>
theorem parsed_probes_are_not_scrubbed:
  assumes "one_line v"
  shows "dg_probes (build_provision_diagnostics step error
      (JObj [(''props'', JStr (''['' @ NAME_PROP @ '']: ['' @ v @ '']''))]) transcript ssid version)
    = [(''props'', Props [(NAME_PROP, v)])]"
proof -
  let ?l = "''['' @ NAME_PROP @ '']: ['' @ v @ '']''"
  have "py_lines ?l = [?l]"
    using assms by (subst py_lines_end) (simp_all add: NAME_PROP_def is_newline_def)
  moreover have "py_strip ?l = ?l" using strip_bracketed [of "NAME_PROP @ '']: ['' @ v"] by simp
  moreover have "NAME_PROP \<in> set PROVISION_PROPS" by code_simp
  ultimately have "probe_props ?l = [(NAME_PROP, v)]" using name_prop_line by (simp add: probe_props_def)
  moreover have "(case map_of [(''props'', JStr ?l)] n of Some (JStr text) \<Rightarrow> [(n, probe_value_of ssid n text)] | _ \<Rightarrow> [])
      = (if n = ''props'' then [(n, probe_value_of ssid n ?l)] else [])" for n by simp
  ultimately show ?thesis
    by (simp add: build_provision_diagnostics_def Let_def PROVISION_PROBES_def probe_value_of_def)
qed

section \<open>Examples\<close>


definition two_accounts :: account_table where
  "two_accounts = [(''wil'', Some ''admin''), (''wilbowes'', None)]"


lemma apostrophe_uncovers_the_quotation_witness:
  "mask_quotes (''can'' @ [CHR 0x27] @ ''t play '' @ [CHR 0x27] @ ''call mom'' @ [CHR 0x27])
     = ''can<redacted>call mom'' @ [CHR 0x27]
   \<and> sanitise_log [] [''can'' @ [CHR 0x27] @ ''t play '' @ [CHR 0x27] @ ''call mom'' @ [CHR 0x27]]
     = [''can<redacted>call mom'' @ [CHR 0x27]]"
proof
  show "mask_quotes (''can'' @ [CHR 0x27] @ ''t play '' @ [CHR 0x27] @ ''call mom'' @ [CHR 0x27])
     = ''can<redacted>call mom'' @ [CHR 0x27]"
    using apostrophe_uncovers_the_quotation [of "''can''" "''t play ''" "''call mom''"] by simp
  show "sanitise_log [] [''can'' @ [CHR 0x27] @ ''t play '' @ [CHR 0x27] @ ''call mom'' @ [CHR 0x27]]
     = [''can<redacted>call mom'' @ [CHR 0x27]]" by code_simp
qed

definition one_turn :: bundle_input where
  "one_turn =
     \<lparr>bi_version = ''1'', bi_devices = [[(''device_id'', JStr ''d''), (''label'', JStr ''Bedroom - Sam'')]],
      bi_fleet = [(''wifiPsk'', JStr ''s3cret'')], bi_schema = 29,
      bi_turns = [[(''id'', JInt 1), (''stt_text'', JStr ''call mom'')]], bi_metrics = [], bi_counters = [],
      bi_configs = [], bi_live = [], bi_controller_log = [], bi_device_log = [], bi_accounts = [], bi_stats = []\<rparr>"

lemma bundle_shows_only_listed_columns_witness:
  "build_bundle 0 one_turn
     = build_bundle 0 (one_turn\<lparr>bi_devices := [[(''device_id'', JStr ''d'')]], bi_turns := [[(''id'', JInt 1)]],
         bi_metrics := [], bi_counters := [], bi_stats := [(''hostname'', JStr ''h'')], bi_fleet := [(''wifiPsk'', JNull)],
         bi_configs := []\<rparr>)"
proof -
  have "list_all2 (same_on DEVICE_FIELDS) (bi_devices one_turn) [[(''device_id'', JStr ''d'')]]"
    "list_all2 (same_on TURN_FIELDS) (bi_turns one_turn) [[(''id'', JInt 1)]]"
    "same_on CONTROLLER_STAT_FIELDS (bi_stats one_turn) [(''hostname'', JStr ''h'')]"
    "same_config (bi_fleet one_turn) [(''wifiPsk'', JNull)]"
    by code_simp+
  moreover have "list_all2 (same_on METRIC_FIELDS) (bi_metrics one_turn) []"
    "list_all2 (same_on COUNTER_FIELDS) (bi_counters one_turn) []"
    "list_all2 (\<lambda>(d, c) (d', c'). d = d' \<and> same_config c c') (bi_configs one_turn) []"
    by (simp_all add: one_turn_def)
  ultimately show ?thesis using bundle_shows_only_listed_columns by blast
qed

definition scan_line :: "string \<Rightarrow> string \<Rightarrow> string" where
  "scan_line mac ssid = mac @ [CHR 0x09] @ ''2412'' @ [CHR 0x09] @ ''-50'' @ [CHR 0x09] @ ''[SAE-CCMP]'' @ [CHR 0x09] @ ssid"

lemma scan_hides_the_networks_witness:
  "map hide_selection (probe_wpa_scan (scan_line ''aa:bb:cc:dd:ee:00'' ''Sams home'') (Some ''Sams home''))
     = map hide_selection (probe_wpa_scan (scan_line ''11:22:33:44:55:66'' ''x'') None)
   \<and> map sr_selected (probe_wpa_scan (scan_line ''aa:bb:cc:dd:ee:00'' ''Sams home'') (Some ''Sams home'')) = [True]"
proof
  have "map (map_option fst \<circ> scan_fields) (py_lines (scan_line ''aa:bb:cc:dd:ee:00'' ''Sams home''))
      = map (map_option fst \<circ> scan_fields) (py_lines (scan_line ''11:22:33:44:55:66'' ''x''))" by code_simp
  then show "map hide_selection (probe_wpa_scan (scan_line ''aa:bb:cc:dd:ee:00'' ''Sams home'') (Some ''Sams home''))
     = map hide_selection (probe_wpa_scan (scan_line ''11:22:33:44:55:66'' ''x'') None)" by (rule scan_hides_the_networks)
  show "map sr_selected (probe_wpa_scan (scan_line ''aa:bb:cc:dd:ee:00'' ''Sams home'') (Some ''Sams home'')) = [True]"
    by code_simp
qed

lemma parsed_probes_are_not_scrubbed_witness:
  "dg_probes (build_provision_diagnostics ''wifi'' [] (JObj [(''props'', JStr (''['' @ NAME_PROP @ '']: ['' @ ''10.0.0.7'' @ '']''))]) [] None ''1'')
     = [(''props'', Props [(NAME_PROP, ''10.0.0.7'')])]
   \<and> scrub ''10.0.0.7'' = [''<ip>'']"
proof
  have "one_line ''10.0.0.7''" by code_simp
  then show "dg_probes (build_provision_diagnostics ''wifi'' [] (JObj [(''props'', JStr (''['' @ NAME_PROP @ '']: ['' @ ''10.0.0.7'' @ '']''))]) [] None ''1'')
     = [(''props'', Props [(NAME_PROP, ''10.0.0.7'')])]" by (rule parsed_probes_are_not_scrubbed)
  show "scrub ''10.0.0.7'' = [''<ip>'']" by code_simp
qed

lemma cpu_windows_are_honest_witness:
  "\<exists>width ts c. (width, ''cpu_pct_1m'') \<in> set WINDOWS \<and> (ts, c) \<in> set [(0, 1), (20, 2)] \<and> width / 2 \<le> 50 - ts \<and> 50 - ts \<le> width
    \<and> 12 = round1 (100 * (7 - c) / (50 - ts))"
proof -
  have "(''cpu_pct_1m'', 12) \<in> set (cpu_windows 50 7 [(0, 1), (20, 2)])"
    by (simp add: cpu_windows_def cpu_window_def WINDOWS_def round1_def py_round_def)
  then show ?thesis by (rule cpu_windows_are_honest)
qed

end
